(* ===== verification/Prelude.thy ===== *)
theory Prelude
  imports Main "HOL-Library.Char_ord" "HOL-Library.List_Lexorder"
    "HOL-Library.Product_Lexorder" "HOL-Library.Option_ord" "HOL-Library.Sublist"
begin

section \<open>Python values used by every component\<close>

text \<open>
  What the components share: Python strings (a list of code points below 256,
  Isabelle's \<open>char\<close>), \<open>min\<close> with a key (the first smallest element),
  \<open>max\<close>/\<open>min\<close> with \<open>default=0\<close>, counters (a missing key counts 0), and results
  of code that may raise (\<open>Inl\<close> the exception, \<open>Inr\<close> the value).
  Tuples and strings compare lexicographically as in Python, through the library's
  \<open>Product_Lexorder\<close> and \<open>List_Lexorder\<close>; \<open>sort_key\<close> is a stable sort, as
  \<open>sorted(key=...)\<close> is. Timestamps are microseconds since the epoch, in UTC.
\<close>

named_theorems result_simps \<open>equations of the result monad\<close>
named_theorems counter_simps \<open>lookups in updated counters\<close>

type_synonym time = int

subsection \<open>Results\<close>

definition bind_res :: "'e + 'a \<Rightarrow> ('a \<Rightarrow> 'e + 'b) \<Rightarrow> 'e + 'b" where
  "bind_res r f = (case r of Inl e \<Rightarrow> Inl e | Inr x \<Rightarrow> f x)"

lemma bind_res_simps [simp, result_simps]:
  "bind_res (Inl e) f = Inl e"
  "bind_res (Inr x) f = f x"
  by (simp_all add: bind_res_def)

lemma bind_res_Inr: "bind_res r f = Inr y \<longleftrightarrow> (\<exists>x. r = Inr x \<and> f x = Inr y)"
  by (cases r) auto

lemma bind_res_Inl: "bind_res r f = Inl e \<longleftrightarrow> r = Inl e \<or> (\<exists>x. r = Inr x \<and> f x = Inl e)"
  by (cases r) auto

fun map_res :: "('a \<Rightarrow> 'e + 'b) \<Rightarrow> 'a list \<Rightarrow> 'e + 'b list" where
  "map_res f [] = Inr []"
| "map_res f (x # xs) = bind_res (f x) (\<lambda>y. bind_res (map_res f xs) (\<lambda>ys. Inr (y # ys)))"

lemma map_res_Inr_iff:
  "map_res f xs = Inr ys \<longleftrightarrow> list_all2 (\<lambda>x y. f x = Inr y) xs ys"
  by (induction xs arbitrary: ys) (auto simp: bind_res_Inr list_all2_Cons1)

lemma map_res_set:
  "map_res f xs = Inr ys \<Longrightarrow> y \<in> set ys \<Longrightarrow> \<exists>x \<in> set xs. f x = Inr y"
  by (induction xs arbitrary: ys) (auto simp: bind_res_Inr)

text \<open>A check that raises: the guard of the code, and the exception it raises.\<close>

definition ensure :: "bool \<Rightarrow> 'e \<Rightarrow> 'e + unit" where
  "ensure b e = (if b then Inr () else Inl e)"

lemma ensure_simps [simp]: "ensure b e = Inr u \<longleftrightarrow> b" "ensure b e = Inl e' \<longleftrightarrow> \<not> b \<and> e' = e"
  by (auto simp: ensure_def)

lemma bind_ensure [simp]:
  "bind_res (ensure b e) f = (if b then f () else Inl e)"
  by (simp add: ensure_def)

subsection \<open>Minimum with a key, extrema with a default\<close>

fun min_from :: "('a \<Rightarrow> 'k::linorder) \<Rightarrow> 'a \<Rightarrow> 'a list \<Rightarrow> 'a" where
  "min_from f b [] = b"
| "min_from f b (y # ys) = min_from f (if f y < f b then y else b) ys"

definition min_by :: "('a \<Rightarrow> 'k::linorder) \<Rightarrow> 'a list \<Rightarrow> 'a option" where
  "min_by f xs = (case xs of [] \<Rightarrow> None | x # r \<Rightarrow> Some (min_from f x r))"

lemma min_from_mem: "min_from f b ys \<in> insert b (set ys)"
proof (induction ys arbitrary: b)
  case (Cons y ys)
  from Cons.IH [of "if f y < f b then y else b"] show ?case
    by (auto split: if_splits)
qed simp

lemma min_from_le: "x \<in> insert b (set ys) \<Longrightarrow> f (min_from f b ys) \<le> f x"
proof (induction ys arbitrary: b x)
  case (Cons y ys)
  let ?b = "if f y < f b then y else b"
  have "f (min_from f ?b ys) \<le> f ?b" by (rule Cons.IH) simp
  moreover have "f ?b \<le> f b" "f ?b \<le> f y" by auto
  moreover have "x \<in> set ys \<Longrightarrow> f (min_from f ?b ys) \<le> f x" by (rule Cons.IH) simp
  ultimately show ?case using Cons.prems by (fastforce simp del: min_from.simps(1))
qed simp

lemma min_by_mem: "min_by f xs = Some m \<Longrightarrow> m \<in> set xs"
  by (cases xs) (use min_from_mem in \<open>fastforce simp: min_by_def\<close>)+

lemma min_by_le: "min_by f xs = Some m \<Longrightarrow> x \<in> set xs \<Longrightarrow> f m \<le> f x"
  by (cases xs) (auto simp: min_by_def intro!: min_from_le)

lemma min_by_None [simp]: "min_by f xs = None \<longleftrightarrow> xs = []"
  by (cases xs) (auto simp: min_by_def)

lemma min_by_Some: "xs \<noteq> [] \<Longrightarrow> \<exists>m. min_by f xs = Some m"
  using min_by_None by blast

definition max0 :: "int list \<Rightarrow> int" where
  "max0 xs = (case xs of [] \<Rightarrow> 0 | x # r \<Rightarrow> fold max r x)"

definition min0 :: "int list \<Rightarrow> int" where
  "min0 xs = (case xs of [] \<Rightarrow> 0 | x # r \<Rightarrow> fold min r x)"

subsection \<open>Counters\<close>

definition counted :: "('k \<rightharpoonup> int) \<Rightarrow> 'k \<Rightarrow> int" where
  "counted m k = (case m k of None \<Rightarrow> 0 | Some v \<Rightarrow> v)"

definition counter_add :: "'k \<Rightarrow> int \<Rightarrow> ('k \<rightharpoonup> int) \<Rightarrow> ('k \<rightharpoonup> int)" where
  "counter_add k n m = m(k \<mapsto> counted m k + n)"

lemma counted_empty [simp, counter_simps]: "counted Map.empty k = 0"
  by (simp add: counted_def)

lemma counted_add [simp, counter_simps]:
  "counted (counter_add k n m) k' = counted m k' + (if k' = k then n else 0)"
  by (simp add: counted_def counter_add_def)

lemma dom_counter_add [simp, counter_simps]: "dom (counter_add k n m) = insert k (dom m)"
  by (auto simp: counter_add_def)

text \<open>Adding one per element of a list counts the elements.\<close>

lemma counted_fold_add:
  "counted (fold (\<lambda>x. counter_add (key x) 1) xs m) k
   = counted m k + int (length (filter (\<lambda>x. key x = k) xs))"
  by (induction xs arbitrary: m) auto

lemma dom_fold_add: "dom (fold (\<lambda>x. counter_add (key x) n) xs m) = dom m \<union> key ` set xs"
  by (induction xs arbitrary: m) auto

subsection \<open>Splitting strings\<close>

text \<open>\<open>text.split(sep)\<close> for a separator of one character.\<close>

fun split_char :: "char \<Rightarrow> string \<Rightarrow> string list" where
  "split_char c [] = [[]]"
| "split_char c (x # xs) =
     (if x = c then [] # split_char c xs
      else (case split_char c xs of [] \<Rightarrow> [[x]] | p # ps \<Rightarrow> (x # p) # ps))"

lemma split_char_piece [simp]: "c \<notin> set p \<Longrightarrow> split_char c (p @ c # xs) = p # split_char c xs"
  by (induction p) auto

lemma split_char_last [simp]: "c \<notin> set p \<Longrightarrow> split_char c p = [p]"
  by (induction p) auto

lemma split_char_free: "p \<in> set (split_char c xs) \<Longrightarrow> c \<notin> set p"
  by (induction xs arbitrary: p) (auto split: if_splits list.splits)

text \<open>Components joined by slashes; splitting takes them apart again.\<close>

fun join_slash :: "string list \<Rightarrow> string" where
  "join_slash [] = []"
| "join_slash [p] = p"
| "join_slash (p # ps) = p @ CHR ''/'' # join_slash ps"

lemma join_slash_append: "a \<noteq> [] \<Longrightarrow> b \<noteq> [] \<Longrightarrow> join_slash (a @ b) = join_slash a @ CHR ''/'' # join_slash b"
  by (induction a rule: join_slash.induct) (cases b; simp)+

lemma split_char_nonempty [simp]: "split_char c xs \<noteq> []"
  by (induction xs) (auto split: list.splits)

lemma join_split [simp]: "join_slash (split_char (CHR ''/'') s) = s"
proof (induction s)
  case (Cons x s)
  then show ?case by (cases "split_char (CHR ''/'') s" rule: join_slash.cases) (auto split: list.splits)
qed simp

lemma split_char_append: "split_char c (x @ c # y) = split_char c x @ split_char c y"
  by (induction x) (auto split: list.splits)

text \<open>A component is the whole text, or stands at its beginning, its end or between slashes.\<close>

lemma component_iff:
  assumes "CHR ''/'' \<notin> set d"
  shows "d \<in> set (split_char (CHR ''/'') s) \<longleftrightarrow> s = d \<or> prefix (d @ ''/'') s \<or> sublist (''/'' @ d @ ''/'') s \<or> suffix (''/'' @ d) s"
proof
  assume "d \<in> set (split_char (CHR ''/'') s)"
  then obtain a b where ab: "split_char (CHR ''/'') s = a @ d # b" by (meson split_list)
  have s: "s = join_slash (a @ [d] @ b)" using join_split [of s] ab by simp
  show "s = d \<or> prefix (d @ ''/'') s \<or> sublist (''/'' @ d @ ''/'') s \<or> suffix (''/'' @ d) s"
  proof (cases "a = []")
    case True
    show ?thesis
    proof (cases "b = []")
      case False
      then have "s = (d @ ''/'') @ join_slash b" using s True join_slash_append [of "[d]" b] by simp
      then show ?thesis by (auto simp: prefix_def)
    qed (use s True in simp)
  next
    case False
    show ?thesis
    proof (cases "b = []")
      case True
      then have "s = join_slash a @ ''/'' @ d" using s False join_slash_append [of a "[d]"] by simp
      then show ?thesis by (auto simp: suffix_def)
    next
      case False': False
      then have "s = join_slash a @ (''/'' @ d @ ''/'') @ join_slash b"
        using s False join_slash_append [of a "[d] @ b"] join_slash_append [of "[d]" b] by simp
      then show ?thesis unfolding sublist_def by blast
    qed
  qed
next
  assume "s = d \<or> prefix (d @ ''/'') s \<or> sublist (''/'' @ d @ ''/'') s \<or> suffix (''/'' @ d) s"
  then consider "s = d" | y where "s = d @ CHR ''/'' # y" | x y where "s = x @ CHR ''/'' # d @ CHR ''/'' # y" | x where "s = x @ CHR ''/'' # d"
    by (auto simp: prefix_def suffix_def sublist_def)
  then show "d \<in> set (split_char (CHR ''/'') s)"
    by cases (simp_all add: split_char_append assms)
qed

subsection \<open>Sublist counting lemmas\<close>

lemma length_filter_partition:
  "length (filter P xs) + length (filter (\<lambda>x. \<not> P x) xs) = length xs"
  by (induction xs) auto

lemma filter_neq_length_less: "x \<in> set xs \<Longrightarrow> length (filter (\<lambda>y. y \<noteq> x) xs) < length xs"
  by (induction xs) (auto simp: less_Suc_eq_le)

lemma distinct_all_equal: "distinct xs \<Longrightarrow> (\<And>x y. x \<in> set xs \<Longrightarrow> y \<in> set xs \<Longrightarrow> x = y) \<Longrightarrow> length xs \<le> 1"
proof -
  assume d: "distinct xs" and e: "\<And>x y. x \<in> set xs \<Longrightarrow> y \<in> set xs \<Longrightarrow> x = y"
  then have "card (set xs) \<le> 1" by (simp add: card_le_Suc0_iff_eq)
  then show ?thesis using d by (simp add: distinct_card)
qed

end
