(* ===== verification/Glob.thy ===== *)
theory Glob
  imports Prelude
begin

section \<open>Shell patterns: \<open>fnmatch.fnmatchcase\<close>\<close>

text \<open>
  The planners rank paths by shell patterns through Python's \<open>fnmatchcase\<close>. The pattern is
  read into tokens (star, any character, literal, character class) and matched against the
  whole name. A bracket that is never closed is a literal, a leading \<open>!\<close> negates a class,
  a leading \<open>]\<close> belongs to it, and a descending range matches nothing.
\<close>

datatype glob_tok = GStar | GAny | GLit char | GSet bool "(char \<times> char) list"

fun class_items :: "string \<Rightarrow> (char \<times> char) list" where
  "class_items (c # d # e # r) =
     (if d = CHR ''-'' then (c, e) # class_items r else (c, c) # class_items (d # e # r))"
| "class_items (c # r) = (c, c) # class_items r"
| "class_items [] = []"

definition split_class :: "string \<Rightarrow> (bool \<times> string \<times> string) option" where
  "split_class r =
     (let (neg, r1) = (case r of [] \<Rightarrow> (False, r)
                       | c # t \<Rightarrow> if c = CHR ''!'' then (True, t) else (False, r));
          (lead, r2) = (case r1 of [] \<Rightarrow> ([], r1)
                        | c # t \<Rightarrow> if c = CHR '']'' then ([c], t) else ([], r1));
          rest = dropWhile (\<lambda>c. c \<noteq> CHR '']'') r2
      in case rest of [] \<Rightarrow> None
         | _ # rest' \<Rightarrow> Some (neg, lead @ takeWhile (\<lambda>c. c \<noteq> CHR '']'') r2, rest'))"

lemma split_class_shorter: "split_class r = Some (n, b, t) \<Longrightarrow> length t < length r"
proof -
  assume a: "split_class r = Some (n, b, t)"
  have d: "length t < length xs" if "dropWhile P xs = c # t" for P c and xs :: string
    using that by (metis length_dropWhile_le length_Cons Suc_le_eq)
  from a obtain r2 c where "dropWhile (\<lambda>c. c \<noteq> CHR '']'') r2 = c # t" "length r2 \<le> length r"
    by (fastforce simp: split_class_def Let_def split: list.splits if_splits prod.splits)
  with d show ?thesis by fastforce
qed

function glob_parse :: "string \<Rightarrow> glob_tok list" where
  "glob_parse [] = []"
| "glob_parse (c # r) =
     (if c = CHR ''*'' then GStar # glob_parse r
      else if c = CHR ''?'' then GAny # glob_parse r
      else if c = CHR ''['' then
        (case split_class r of None \<Rightarrow> GLit c # glob_parse r
         | Some (n, b, t) \<Rightarrow> GSet n (class_items b) # glob_parse t)
      else GLit c # glob_parse r)"
  by pat_completeness auto
termination
  by (relation "measure length") (auto dest: split_class_shorter)

fun glob_match :: "glob_tok list \<Rightarrow> string \<Rightarrow> bool" where
  "glob_match [] s = (s = [])"
| "glob_match (GStar # g) s =
     (glob_match g s \<or> (case s of [] \<Rightarrow> False | _ # t \<Rightarrow> glob_match (GStar # g) t))"
| "glob_match (GAny # g) s = (case s of [] \<Rightarrow> False | _ # t \<Rightarrow> glob_match g t)"
| "glob_match (GLit c # g) s = (case s of [] \<Rightarrow> False | d # t \<Rightarrow> d = c \<and> glob_match g t)"
| "glob_match (GSet n is # g) s =
     (case s of [] \<Rightarrow> False
      | d # t \<Rightarrow> (n \<noteq> list_ex (\<lambda>(a, b). a \<le> d \<and> d \<le> b) is) \<and> glob_match g t)"

definition fnmatchcase :: "string \<Rightarrow> string \<Rightarrow> bool" where
  "fnmatchcase name pat = glob_match (glob_parse pat) name"

lemma glob_star_suffix: "glob_match (GStar # g) s \<longleftrightarrow> (\<exists>a b. s = a @ b \<and> glob_match g b)"
proof (induction s)
  case Nil
  then show ?case by simp
next
  case (Cons c s)
  have "glob_match (GStar # g) (c # s) \<longleftrightarrow> glob_match g (c # s) \<or> glob_match (GStar # g) s"
    by simp
  also have "\<dots> \<longleftrightarrow> (\<exists>a b. c # s = a @ b \<and> glob_match g b)"
    unfolding Cons.IH by (metis append_Cons append_Nil list.inject neq_Nil_conv)
  finally show ?case .
qed

end
