(* ===== verification/PlanEngine.thy ===== *)
theory PlanEngine
  imports Glob
begin

section \<open>The duplicate planner\<close>

text \<open>
  Models app/planning/policies.py (ranking of the members of a duplicate group) and
  app/planning/engine.py (\<open>generate_plan\<close>: one file of each group is kept, the others are
  planned for deletion, and a directory whose files are protected never loses its last one).
  The loop over the groups threads its four accumulators through \<open>plan_state\<close>.
\<close>

subsection \<open>Candidates, groups and the plan\<close>

record candidate_file =
  cf_path :: string
  cf_root_id :: int
  cf_top_level_dir :: string
  cf_size :: int
  cf_mtime_ns :: int
  cf_device :: int
  cf_inode :: int
  cf_relative_path :: string

record candidate_group =
  cg_content_hash :: string
  cg_file_size :: int
  cg_files :: "candidate_file list"

record planned_item =
  pi_content_hash :: string
  pi_file_size :: int
  pi_keep :: candidate_file
  pi_delete :: candidate_file

record plan_state =
  ps_items :: "planned_item list"
  ps_delete_counts :: "int \<rightharpoonup> int"
  ps_scheduled :: "string \<rightharpoonup> int"
  ps_skipped :: "string list"

record plan_result =
  pr_items :: "planned_item list"
  pr_delete_counts :: "int \<rightharpoonup> int"
  pr_skipped :: "string list"

record plan_options =
  po_policy :: string
  po_root_order :: "int list"
  po_directory_file_counts :: "(string \<rightharpoonup> int) option"
  po_protect_last_file :: bool
  po_path_patterns :: "string list option"
  po_relative_patterns :: "string list option"

datatype plan_error = UnsupportedPolicy string

subsection \<open>Ranking (policies.py)\<close>

fun index_of :: "'a \<Rightarrow> 'a list \<Rightarrow> nat option" where
  "index_of x [] = None"
| "index_of x (y # ys) = (if y = x then Some 0 else map_option Suc (index_of x ys))"

definition root_rank :: "int \<Rightarrow> int list \<Rightarrow> int" where
  "root_rank rid order =
     (case index_of rid order of Some i \<Rightarrow> int i | None \<Rightarrow> int (length order) + rid)"

fun first_match :: "string \<Rightarrow> string list \<Rightarrow> nat option" where
  "first_match v [] = None"
| "first_match v (p # ps) = (if fnmatchcase v p then Some 0 else map_option Suc (first_match v ps))"

definition pattern_rank :: "string \<Rightarrow> string list option \<Rightarrow> int" where
  "pattern_rank v pats =
     (case pats of None \<Rightarrow> 10 ^ 9
      | Some ps \<Rightarrow> if ps = [] then 10 ^ 9
          else (case first_match v ps of Some i \<Rightarrow> int i | None \<Rightarrow> int (length ps) + 10 ^ 6))"

text \<open>
  The key tuples of one policy have the same shape, so a tuple of integers followed by the
  path is a list of integers paired with the path, compared lexicographically.
\<close>

definition preference_key :: "plan_options \<Rightarrow> candidate_file \<Rightarrow> plan_error + int list \<times> string" where
  "preference_key po c =
     (let path_key = cf_path c; rank = root_rank (cf_root_id c) (po_root_order po);
          policy = po_policy po
      in if policy = ''keep-first-root'' then Inr ([rank], path_key)
         else if policy = ''keep-newest'' then Inr ([- cf_mtime_ns c, rank], path_key)
         else if policy = ''keep-oldest'' then Inr ([cf_mtime_ns c, rank], path_key)
         else if policy = ''path-priority'' then
           Inr ([pattern_rank path_key (po_path_patterns po), rank], path_key)
         else if policy = ''relative-path-preference'' then
           (let rel = (if cf_relative_path c = [] then path_key else cf_relative_path c)
            in Inr ([pattern_rank rel (po_relative_patterns po), rank], path_key))
         else Inl (UnsupportedPolicy policy))"

fun dedup :: "'a list \<Rightarrow> 'a list \<Rightarrow> 'a list" where
  "dedup seen [] = []"
| "dedup seen (x # xs) = (if x \<in> set seen then dedup seen xs else x # dedup (x # seen) xs)"

definition balanced_score ::
  "candidate_file \<Rightarrow> candidate_file list \<Rightarrow> (int \<rightharpoonup> int) \<Rightarrow> int list \<Rightarrow> int list \<times> string" where
  "balanced_score c members delete_counts root_order =
     (let projected = fold (\<lambda>m. counter_add (cf_root_id m) 1)
                        (filter (\<lambda>m. m \<noteq> c) members) delete_counts;
          roots = dedup [] (root_order @ map cf_root_id members);
          vals = map (counted projected) roots;
          spread = max0 vals - min0 vals;
          squared = sum_list (map (\<lambda>v. v * v) vals)
      in ([spread, squared, root_rank (cf_root_id c) root_order], cf_path c))"

subsection \<open>The plan (engine.py)\<close>

definition deletes_are_safe ::
  "candidate_file list \<Rightarrow> (string \<rightharpoonup> int) option \<Rightarrow> (string \<rightharpoonup> int) \<Rightarrow> bool \<Rightarrow> bool" where
  "deletes_are_safe deletes dir_counts scheduled protect =
     (case dir_counts of
        None \<Rightarrow> True
      | Some counts \<Rightarrow>
          if \<not> protect then True
          else (let proposed = fold (\<lambda>d. counter_add (cf_top_level_dir d) 1) deletes Map.empty
                in list_all (\<lambda>dir. case counts dir of
                                None \<Rightarrow> True
                              | Some current \<Rightarrow>
                                  \<not> (current - counted scheduled dir - counted proposed dir < 1))
                     (dedup [] (map cf_top_level_dir deletes))))"

definition supported_policies :: "string list" where
  "supported_policies = [''keep-first-root'', ''keep-newest'', ''keep-oldest'',
     ''balanced-roots'', ''path-priority'', ''relative-path-preference'']"

definition select_keep ::
  "plan_options \<Rightarrow> plan_state \<Rightarrow> candidate_file list \<Rightarrow> candidate_file list \<Rightarrow> candidate_file option" where
  "select_keep po s members valid =
     (if po_policy po = ''balanced-roots''
      then min_by (\<lambda>c. balanced_score c members (ps_delete_counts s) (po_root_order po)) valid
      else min_by (\<lambda>c. projr (preference_key po c)) valid)"

definition add_item :: "candidate_group \<Rightarrow> candidate_file \<Rightarrow> candidate_file \<Rightarrow> plan_state \<Rightarrow> plan_state" where
  "add_item g keep d s =
     (if d = keep then s
      else s\<lparr>ps_items := ps_items s @ [\<lparr>pi_content_hash = cg_content_hash g,
                pi_file_size = cg_file_size g, pi_keep = keep, pi_delete = d\<rparr>],
             ps_delete_counts := counter_add (cf_root_id d) 1 (ps_delete_counts s),
             ps_scheduled := counter_add (cf_top_level_dir d) 1 (ps_scheduled s)\<rparr>)"

definition valid_keeps :: "plan_options \<Rightarrow> plan_state \<Rightarrow> candidate_file list \<Rightarrow> candidate_file list" where
  "valid_keeps po s members =
     filter (\<lambda>c. deletes_are_safe (filter (\<lambda>m. m \<noteq> c) members)
                   (po_directory_file_counts po) (ps_scheduled s) (po_protect_last_file po)) members"

definition skip_group :: "candidate_group \<Rightarrow> plan_state \<Rightarrow> plan_state" where
  "skip_group g s = s\<lparr>ps_skipped := ps_skipped s @ [cg_content_hash g]\<rparr>"

definition plan_group :: "plan_options \<Rightarrow> candidate_group \<Rightarrow> plan_state \<Rightarrow> plan_state" where
  "plan_group po g s =
     (let members = sort_key cf_path (cg_files g)
      in if length members < 2 then skip_group g s
         else (case select_keep po s members (valid_keeps po s members) of
                 None \<Rightarrow> skip_group g s
               | Some keep \<Rightarrow> fold (add_item g keep) members s))"

definition plan_start :: plan_state where
  "plan_start = \<lparr>ps_items = [], ps_delete_counts = Map.empty, ps_scheduled = Map.empty, ps_skipped = []\<rparr>"

definition generate_plan :: "plan_options \<Rightarrow> candidate_group list \<Rightarrow> plan_error + plan_result" where
  "generate_plan po groups =
     (if po_policy po \<notin> set supported_policies then Inl (UnsupportedPolicy (po_policy po))
      else let s = fold (plan_group po)
                     (sort_key (\<lambda>g. (cg_content_hash g, cg_file_size g)) groups) plan_start
           in Inr \<lparr>pr_items = ps_items s, pr_delete_counts = ps_delete_counts s, pr_skipped = ps_skipped s\<rparr>)"


subsection \<open>What one group contributes\<close>

definition group_item :: "candidate_group \<Rightarrow> candidate_file \<Rightarrow> candidate_file \<Rightarrow> planned_item" where
  "group_item g keep d = \<lparr>pi_content_hash = cg_content_hash g, pi_file_size = cg_file_size g,
                          pi_keep = keep, pi_delete = d\<rparr>"

lemma group_item_simps [simp]:
  "pi_keep (group_item g k d) = k" "pi_delete (group_item g k d) = d"
  "pi_content_hash (group_item g k d) = cg_content_hash g"
  by (simp_all add: group_item_def)

lemma fold_add_item:
  "ps_items (fold (add_item g keep) ms s)
     = ps_items s @ map (group_item g keep) (filter (\<lambda>d. d \<noteq> keep) ms)"
  "ps_skipped (fold (add_item g keep) ms s) = ps_skipped s"
  "counted (ps_delete_counts (fold (add_item g keep) ms s)) r
     = counted (ps_delete_counts s) r
       + int (length (filter (\<lambda>d. cf_root_id d = r) (filter (\<lambda>d. d \<noteq> keep) ms)))"
  "counted (ps_scheduled (fold (add_item g keep) ms s)) dir
     = counted (ps_scheduled s) dir
       + int (length (filter (\<lambda>d. cf_top_level_dir d = dir) (filter (\<lambda>d. d \<noteq> keep) ms)))"
  by (induction ms arbitrary: s) (auto simp: add_item_def group_item_def)

lemma select_keep_mem: "select_keep po s members valid = Some k \<Longrightarrow> k \<in> set valid"
  by (auto simp: select_keep_def dest: min_by_mem split: if_splits)

lemma set_dedup: "set (dedup seen xs) = set xs - set seen"
  by (induction seen xs rule: dedup.induct) auto

lemma deletes_are_safe_iff:
  "deletes_are_safe ds dc sch protect \<longleftrightarrow>
     (\<forall>counts. dc = Some counts \<longrightarrow> protect \<longrightarrow>
        (\<forall>dir current. dir \<in> cf_top_level_dir ` set ds \<longrightarrow> counts dir = Some current \<longrightarrow>
           1 \<le> current - counted sch dir
               - int (length (filter (\<lambda>d. cf_top_level_dir d = dir) ds))))"
  by (auto simp: deletes_are_safe_def counted_fold_add list_all_iff set_dedup not_less Let_def
      split: option.splits)

text \<open>
  A group is skipped, or one of its files \<open>keep\<close> is kept, all the others are planned for
  deletion, and these deletions were found safe in the state before the group.
\<close>

inductive contribution :: "plan_options \<Rightarrow> plan_state \<Rightarrow> candidate_group \<Rightarrow> planned_item list \<Rightarrow> plan_state \<Rightarrow> bool"
  for po s g where
  skipped: "contribution po s g [] (skip_group g s)"
| reduced: "\<lbrakk> keep \<in> set (cg_files g); 2 \<le> length (cg_files g);
     ms = sort_key cf_path (cg_files g); select_keep po s ms (valid_keeps po s ms) = Some keep;
     deletes_are_safe (filter (\<lambda>m. m \<noteq> keep) ms) (po_directory_file_counts po)
       (ps_scheduled s) (po_protect_last_file po) \<rbrakk>
   \<Longrightarrow> contribution po s g (map (group_item g keep) (filter (\<lambda>d. d \<noteq> keep) ms))
         (fold (add_item g keep) ms s)"

lemma plan_group_contribution: "\<exists>c. contribution po s g c (plan_group po g s)"
proof -
  let ?ms = "sort_key cf_path (cg_files g)"
  show ?thesis
  proof (cases "length ?ms < 2 \<or> select_keep po s ?ms (valid_keeps po s ?ms) = None")
    case True
    then have "plan_group po g s = skip_group g s"
      by (auto simp: plan_group_def Let_def)
    then show ?thesis using contribution.skipped [of po s g] by auto
  next
    case False
    then obtain keep where k: "select_keep po s ?ms (valid_keeps po s ?ms) = Some keep"
      and l: "2 \<le> length (cg_files g)" by auto
    from k have v: "keep \<in> set (valid_keeps po s ?ms)" by (rule select_keep_mem)
    then have "plan_group po g s = fold (add_item g keep) ?ms s"
      using k l by (simp add: plan_group_def)
    moreover have "contribution po s g (map (group_item g keep) (filter (\<lambda>d. d \<noteq> keep) ?ms))
        (fold (add_item g keep) ?ms s)"
      using v k l by (intro contribution.reduced) (auto simp: valid_keeps_def)
    ultimately show ?thesis by metis
  qed
qed

lemma contribution_items:
  "contribution po s g c s' \<Longrightarrow> ps_items s' = ps_items s @ c"
  by (cases rule: contribution.cases) (auto simp: skip_group_def fold_add_item)

lemma contribution_counts:
  assumes "contribution po s g c s'"
  shows "counted (ps_delete_counts s') r
           = counted (ps_delete_counts s) r + int (length (filter (\<lambda>i. cf_root_id (pi_delete i) = r) c))"
    and "counted (ps_scheduled s') dir
           = counted (ps_scheduled s) dir + int (length (filter (\<lambda>i. cf_top_level_dir (pi_delete i) = dir) c))"
  using assms by (cases rule: contribution.cases, auto simp: skip_group_def fold_add_item filter_map o_def)+

subsection \<open>The loop over the groups\<close>

text \<open>An invariant of the accumulators that every contribution keeps holds at the end.\<close>

lemma fold_plan_invariant:
  assumes "I s" and step: "\<And>s g c s'. I s \<Longrightarrow> contribution po s g c s' \<Longrightarrow> I s'"
  shows "I (fold (plan_group po) gs s)"
  using assms(1)
proof (induction gs arbitrary: s)
  case (Cons g gs)
  obtain c where "contribution po s g c (plan_group po g s)"
    using plan_group_contribution by blast
  with Cons show ?case by (auto intro: step)
qed simp

definition accounted :: "plan_state \<Rightarrow> bool" where
  "accounted s \<longleftrightarrow>
     (\<forall>r. counted (ps_delete_counts s) r
          = int (length (filter (\<lambda>i. cf_root_id (pi_delete i) = r) (ps_items s)))) \<and>
     (\<forall>d. counted (ps_scheduled s) d
          = int (length (filter (\<lambda>i. cf_top_level_dir (pi_delete i) = d) (ps_items s))))"

lemma accounted_step: "accounted s \<Longrightarrow> contribution po s g c s' \<Longrightarrow> accounted s'"
  by (simp add: accounted_def contribution_counts contribution_items)

definition last_file_kept :: "plan_options \<Rightarrow> plan_state \<Rightarrow> bool" where
  "last_file_kept po s \<longleftrightarrow>
     (\<forall>counts dir n. po_protect_last_file po \<longrightarrow> po_directory_file_counts po = Some counts \<longrightarrow>
        counts dir = Some n \<longrightarrow> counted (ps_scheduled s) dir = 0 \<or> counted (ps_scheduled s) dir < n)"

lemma last_file_kept_step:
  assumes "last_file_kept po s" and c: "contribution po s g c s'"
  shows "last_file_kept po s'"
  unfolding last_file_kept_def
proof (intro allI impI)
  fix counts dir n
  assume p: "po_protect_last_file po" "po_directory_file_counts po = Some counts" "counts dir = Some n"
  with assms(1) have old: "counted (ps_scheduled s) dir = 0 \<or> counted (ps_scheduled s) dir < n"
    by (auto simp: last_file_kept_def)
  from c show "counted (ps_scheduled s') dir = 0 \<or> counted (ps_scheduled s') dir < n"
  proof (cases rule: contribution.cases)
    case skipped
    with old show ?thesis by (simp add: skip_group_def)
  next
    case (reduced keep ms)
    let ?ds = "filter (\<lambda>m. m \<noteq> keep) ms"
    show ?thesis
    proof (cases "dir \<in> cf_top_level_dir ` set ?ds")
      case True
      with reduced p have "1 \<le> n - counted (ps_scheduled s) dir
          - int (length (filter (\<lambda>d. cf_top_level_dir d = dir) ?ds))"
        by (auto simp: deletes_are_safe_iff)
      with reduced show ?thesis by (simp add: fold_add_item)
    next
      case False
      then have "filter (\<lambda>d. cf_top_level_dir d = dir) ?ds = []"
        by (auto simp: filter_empty_conv)
      with old reduced show ?thesis by (simp only: fold_add_item) simp
    qed
  qed
qed

lemma plan_accounted: "accounted (fold (plan_group po) gs plan_start)"
proof (rule fold_plan_invariant [where I = accounted])
  show "accounted plan_start" by (simp add: accounted_def plan_start_def)
qed (rule accounted_step)

lemma plan_last_file_kept: "last_file_kept po (fold (plan_group po) gs plan_start)"
proof (rule fold_plan_invariant [where I = "last_file_kept po"])
  show "last_file_kept po plan_start" by (simp add: last_file_kept_def plan_start_def)
qed (rule last_file_kept_step)

text \<open>The items are the groups' contributions, in the order of the groups.\<close>

definition group_outcome :: "string list \<Rightarrow> candidate_group \<Rightarrow> planned_item list \<Rightarrow> bool" where
  "group_outcome skipped g c \<longleftrightarrow>
     (c = [] \<and> cg_content_hash g \<in> set skipped) \<or>
     (\<exists>keep \<in> set (cg_files g).
        c = map (group_item g keep) (filter (\<lambda>d. d \<noteq> keep) (sort_key cf_path (cg_files g))))"

lemma contribution_outcome:
  "contribution po s g c s' \<Longrightarrow> set (ps_skipped s') \<subseteq> set sk \<Longrightarrow> group_outcome sk g c"
  by (cases rule: contribution.cases) (auto simp: group_outcome_def skip_group_def)

lemma skipped_mono: "set (ps_skipped t) \<subseteq> set (ps_skipped (fold (plan_group po) gs t))"
  by (rule fold_plan_invariant [where I = "\<lambda>u. set (ps_skipped t) \<subseteq> set (ps_skipped u)"])
     (auto elim!: contribution.cases simp: skip_group_def fold_add_item)

lemma fold_plan_outcomes:
  "\<exists>cs. ps_items (fold (plan_group po) gs s) = ps_items s @ concat cs \<and>
        list_all2 (group_outcome (ps_skipped (fold (plan_group po) gs s))) gs cs"
proof (induction gs arbitrary: s)
  case (Cons g gs)
  let ?s' = "plan_group po g s"
  obtain c where c: "contribution po s g c ?s'" using plan_group_contribution by blast
  obtain cs where cs: "ps_items (fold (plan_group po) gs ?s') = ps_items ?s' @ concat cs"
    "list_all2 (group_outcome (ps_skipped (fold (plan_group po) gs ?s'))) gs cs"
    using Cons.IH by blast
  have "group_outcome (ps_skipped (fold (plan_group po) gs ?s')) g c"
    using c skipped_mono by (rule contribution_outcome)
  with c cs show ?case by (intro exI [of _ "c # cs"]) (simp add: contribution_items)
qed simp

lemma outcome_deleted: "group_outcome sk g c \<Longrightarrow> pi_delete ` set c \<subseteq> set (cg_files g)"
  by (auto simp: group_outcome_def)

lemma outcome_reduces:
  "group_outcome sk g c \<Longrightarrow>
     (cg_content_hash g \<in> set sk \<and> pi_delete ` set c = {}) \<or>
     (\<exists>keep \<in> set (cg_files g). pi_delete ` set c = set (cg_files g) - {keep})"
  by (auto simp: group_outcome_def image_image set_diff_eq)

text \<open>Groups with pairwise disjoint files: the files of one group are decided by that group.\<close>

definition disjoint_groups :: "candidate_group list \<Rightarrow> bool" where
  "disjoint_groups gs \<longleftrightarrow> distinct gs \<and>
     (\<forall>g \<in> set gs. \<forall>h \<in> set gs. g \<noteq> h \<longrightarrow> set (cg_files g) \<inter> set (cg_files h) = {})"

lemma disjoint_groups_sort [simp]: "disjoint_groups (sort_key f gs) = disjoint_groups gs"
  by (simp add: disjoint_groups_def)

lemma group_decides_its_files:
  assumes "disjoint_groups gs" "list_all2 (group_outcome sk) gs cs" "g \<in> set gs"
  obtains c where "group_outcome sk g c"
    "pi_delete ` set (concat cs) \<inter> set (cg_files g) = pi_delete ` set c"
proof -
  from assms(2,3) obtain i where i: "i < length gs" "gs ! i = g" "group_outcome sk g (cs ! i)"
    by (auto simp: in_set_conv_nth list_all2_conv_all_nth)
  have len: "length cs = length gs" using assms(2) by (simp add: list_all2_lengthD)
  have "pi_delete d \<in> pi_delete ` set (cs ! i)"
    if d: "d \<in> set (concat cs)" and f: "pi_delete d \<in> set (cg_files g)" for d
  proof -
    from d obtain c' where "c' \<in> set cs" "d \<in> set c'" by auto
    then obtain j where j: "j < length gs" "d \<in> set (cs ! j)"
      using len by (metis in_set_conv_nth)
    then have "group_outcome sk (gs ! j) (cs ! j)"
      using assms(2) by (simp add: list_all2_conv_all_nth)
    then have "pi_delete d \<in> set (cg_files (gs ! j))" using j(2) outcome_deleted by blast
    with f i(2) have "set (cg_files (gs ! j)) \<inter> set (cg_files (gs ! i)) \<noteq> {}" by auto
    with assms(1) j(1) i(1) have "gs ! j = gs ! i"
      unfolding disjoint_groups_def by (metis nth_mem)
    then have "j = i" using assms(1) j(1) i(1) by (simp add: disjoint_groups_def nth_eq_iff_index_eq)
    with j(2) show ?thesis by simp
  qed
  moreover have "set (cs ! i) \<subseteq> set (concat cs)"
    using i(1) len by (metis concat_eq_Nil_conv nth_mem set_concat UN_upper)
  ultimately have "pi_delete ` set (concat cs) \<inter> set (cg_files g) = pi_delete ` set (cs ! i)"
    using outcome_deleted [OF i(3)] by auto
  with i(3) show ?thesis by (rule that)
qed

lemma generate_plan_cases:
  assumes "generate_plan po groups = Inr r"
  obtains s where "s = fold (plan_group po) (sort_key (\<lambda>g. (cg_content_hash g, cg_file_size g)) groups) plan_start"
    "pr_items r = ps_items s" "pr_delete_counts r = ps_delete_counts s" "pr_skipped r = ps_skipped s"
    "po_policy po \<in> set supported_policies"
  using assms by (auto simp: generate_plan_def Let_def split: if_splits)

definition planned_deletes :: "plan_result \<Rightarrow> candidate_file set" where
  "planned_deletes r = pi_delete ` set (pr_items r)"


subsection \<open>Ranking of the kept file\<close>

definition unprotected :: "plan_options \<Rightarrow> bool" where
  "unprotected po \<longleftrightarrow> \<not> po_protect_last_file po \<or> po_directory_file_counts po = None"

lemma valid_keeps_unprotected: "unprotected po \<Longrightarrow> valid_keeps po s ms = ms"
  by (auto simp: valid_keeps_def unprotected_def deletes_are_safe_def split: option.splits)

definition preferred :: "plan_options \<Rightarrow> planned_item \<Rightarrow> bool" where
  "preferred po i \<longleftrightarrow> projr (preference_key po (pi_keep i)) \<le> projr (preference_key po (pi_delete i))"

lemma contribution_preferred:
  assumes "contribution po s g c s'" "unprotected po" "po_policy po \<noteq> ''balanced-roots''" "i \<in> set c"
  shows "preferred po i"
  using assms(1)
proof (cases rule: contribution.cases)
  case (reduced keep ms)
  with assms(4) obtain d where d: "d \<in> set ms" "i = group_item g keep d" by auto
  from reduced assms(2,3) have "min_by (\<lambda>c. projr (preference_key po c)) ms = Some keep"
    by (simp add: select_keep_def valid_keeps_unprotected)
  from min_by_le [OF this d(1)] d(2) show ?thesis by (simp add: preferred_def)
qed (use assms in simp)

lemma plan_items_preferred:
  assumes "unprotected po" "po_policy po \<noteq> ''balanced-roots''"
  shows "\<forall>i \<in> set (ps_items (fold (plan_group po) gs plan_start)). preferred po i"
proof (rule fold_plan_invariant [where I = "\<lambda>s. \<forall>i \<in> set (ps_items s). preferred po i"])
  show "\<forall>i\<in>set (ps_items plan_start). preferred po i" by (simp add: plan_start_def)
next
  fix s g c s'
  assume "\<forall>i\<in>set (ps_items s). preferred po i" and c: "contribution po s g c s'"
  with contribution_preferred [OF c assms] show "\<forall>i\<in>set (ps_items s'). preferred po i"
    by (auto simp: contribution_items [OF c])
qed

subsection \<open>Properties\<close>

text \<open>
  C1: A plan never loses data. For groups with pairwise disjoint files, a group either is
  skipped, and then none of its files is deleted, or exactly one of its files is kept and all the
  others are deleted, so a group that has files always keeps one of them. Nothing outside the
  groups is deleted.
\<close>

theorem generate_plan_keeps_one:
  assumes plan: "generate_plan po groups = Inr r" and dis: "disjoint_groups groups"
  shows "(\<forall>g \<in> set groups.
           (cg_content_hash g \<in> set (pr_skipped r) \<and> planned_deletes r \<inter> set (cg_files g) = {}) \<or>
           (\<exists>keep \<in> set (cg_files g). planned_deletes r \<inter> set (cg_files g) = set (cg_files g) - {keep})) \<and>
         (\<forall>g \<in> set groups. cg_files g \<noteq> [] \<longrightarrow> \<not> set (cg_files g) \<subseteq> planned_deletes r) \<and>
         planned_deletes r \<subseteq> (\<Union>g \<in> set groups. set (cg_files g))"
proof -
  let ?gs = "sort_key (\<lambda>g. (cg_content_hash g, cg_file_size g)) groups"
  from plan obtain s where s: "s = fold (plan_group po) ?gs plan_start"
    "pr_items r = ps_items s" "pr_skipped r = ps_skipped s" by (rule generate_plan_cases)
  obtain cs where cs: "ps_items s = concat cs" "list_all2 (group_outcome (ps_skipped s)) ?gs cs"
    using fold_plan_outcomes [of po ?gs plan_start] s(1) by (auto simp: plan_start_def)
  have del: "planned_deletes r = pi_delete ` set (concat cs)"
    by (simp add: planned_deletes_def s(2) cs(1))
  have one: "(cg_content_hash g \<in> set (pr_skipped r) \<and> planned_deletes r \<inter> set (cg_files g) = {}) \<or>
      (\<exists>keep \<in> set (cg_files g). planned_deletes r \<inter> set (cg_files g) = set (cg_files g) - {keep})"
    if g: "g \<in> set groups" for g
  proof -
    obtain c where "group_outcome (ps_skipped s) g c"
      "pi_delete ` set (concat cs) \<inter> set (cg_files g) = pi_delete ` set c"
      by (rule group_decides_its_files [of ?gs "ps_skipped s" cs g]) (use dis cs(2) g in auto)
    then show ?thesis using outcome_reduces del s(3) by metis
  qed
  have "planned_deletes r \<subseteq> (\<Union>g \<in> set groups. set (cg_files g))"
  proof
    fix f assume "f \<in> planned_deletes r"
    then obtain c d where c: "c \<in> set cs" "d \<in> set c" "f = pi_delete d" using del by auto
    with cs(2) obtain g where "g \<in> set ?gs" "group_outcome (ps_skipped s) g c"
      by (metis in_set_conv_nth list_all2_conv_all_nth)
    with c show "f \<in> (\<Union>g \<in> set groups. set (cg_files g))" using outcome_deleted by fastforce
  qed
  moreover have "\<forall>g \<in> set groups. cg_files g \<noteq> [] \<longrightarrow> \<not> set (cg_files g) \<subseteq> planned_deletes r"
    using one by (metis Diff_iff inf.absorb2 insertI1 set_empty)
  ultimately show ?thesis using one by blast
qed

text \<open>
  C2: Last-file protection. With \<open>protect_last_file\<close>, the number of files the whole plan deletes
  under a top-level directory that the counts know is zero or leaves at least one file there.
\<close>

theorem generate_plan_protects_last_file:
  assumes "generate_plan po groups = Inr r" "po_protect_last_file po"
    and "po_directory_file_counts po = Some counts" "counts dir = Some n"
  shows "filter (\<lambda>i. cf_top_level_dir (pi_delete i) = dir) (pr_items r) = [] \<or>
         1 \<le> n - int (length (filter (\<lambda>i. cf_top_level_dir (pi_delete i) = dir) (pr_items r)))"
proof -
  let ?gs = "sort_key (\<lambda>g. (cg_content_hash g, cg_file_size g)) groups"
  from assms(1) obtain s where s: "s = fold (plan_group po) ?gs plan_start" "pr_items r = ps_items s"
    by (rule generate_plan_cases)
  have "last_file_kept po s" unfolding s(1) by (rule plan_last_file_kept)
  moreover have "accounted s" unfolding s(1) by (rule plan_accounted)
  ultimately show ?thesis using assms s(2) by (fastforce simp: last_file_kept_def accounted_def)
qed

text \<open>
  The policy decides which copy survives. Without last-file protection, \<open>keep-newest\<close> never
  deletes a file newer than the one it keeps, \<open>keep-oldest\<close> never one older, and
  \<open>keep-first-root\<close> never one in a root that comes before the kept file's root.
\<close>

theorem generate_plan_keeps_preferred:
  assumes "generate_plan po groups = Inr r" "unprotected po" "i \<in> set (pr_items r)"
  shows "(po_policy po = ''keep-newest'' \<longrightarrow> cf_mtime_ns (pi_delete i) \<le> cf_mtime_ns (pi_keep i)) \<and>
         (po_policy po = ''keep-oldest'' \<longrightarrow> cf_mtime_ns (pi_keep i) \<le> cf_mtime_ns (pi_delete i)) \<and>
         (po_policy po = ''keep-first-root'' \<longrightarrow>
            root_rank (cf_root_id (pi_keep i)) (po_root_order po)
              \<le> root_rank (cf_root_id (pi_delete i)) (po_root_order po))"
proof (cases "po_policy po = ''balanced-roots''")
  case False
  from assms(1) obtain s where
    "s = fold (plan_group po) (sort_key (\<lambda>g. (cg_content_hash g, cg_file_size g)) groups) plan_start"
    "pr_items r = ps_items s" by (rule generate_plan_cases)
  with plan_items_preferred [OF assms(2) False] assms(3) have "preferred po i" by simp
  then show ?thesis
    by (auto simp: preferred_def preference_key_def Let_def less_eq_prod_def)
qed simp

text \<open>
  The per-root totals the plan reports are the numbers of files it deletes in each root.
\<close>

theorem generate_plan_counts_roots:
  assumes "generate_plan po groups = Inr r"
  shows "counted (pr_delete_counts r) root
         = int (length (filter (\<lambda>i. cf_root_id (pi_delete i) = root) (pr_items r)))"
proof -
  let ?gs = "sort_key (\<lambda>g. (cg_content_hash g, cg_file_size g)) groups"
  from assms obtain s where s: "s = fold (plan_group po) ?gs plan_start" "pr_items r = ps_items s"
    "pr_delete_counts r = ps_delete_counts s" by (rule generate_plan_cases)
  have "accounted s" unfolding s(1) by (rule plan_accounted)
  with s show ?thesis by (simp add: accounted_def)
qed

subsection \<open>Witnesses\<close>

definition ex_file :: "string \<Rightarrow> int \<Rightarrow> string \<Rightarrow> int \<Rightarrow> candidate_file" where
  "ex_file p root tld mt = \<lparr>cf_path = p, cf_root_id = root, cf_top_level_dir = tld, cf_size = 10,
     cf_mtime_ns = mt, cf_device = 1, cf_inode = 1, cf_relative_path = p\<rparr>"

definition ex_groups :: "candidate_group list" where
  "ex_groups =
     [\<lparr>cg_content_hash = ''h1'', cg_file_size = 10,
        cg_files = [ex_file ''/b/x'' 2 ''/b'' 5, ex_file ''/a/x'' 1 ''/a'' 9]\<rparr>,
      \<lparr>cg_content_hash = ''h0'', cg_file_size = 10,
        cg_files = [ex_file ''/a/y'' 1 ''/a'' 7, ex_file ''/c/y'' 2 ''/c'' 8, ex_file ''/c/z'' 2 ''/c'' 3]\<rparr>]"

definition ex_options :: "bool \<Rightarrow> plan_options" where
  "ex_options protect = \<lparr>po_policy = ''keep-newest'', po_root_order = [1, 2],
     po_directory_file_counts = Some [''/a'' \<mapsto> 2, ''/b'' \<mapsto> 1], po_protect_last_file = protect,
     po_path_patterns = None, po_relative_patterns = None\<rparr>"

definition ex_plan :: "bool \<Rightarrow> plan_result" where
  "ex_plan protect = projr (generate_plan (ex_options protect) ex_groups)"

lemma ex_plan: "generate_plan (ex_options b) ex_groups = Inr (ex_plan b)"
  by (simp add: ex_plan_def generate_plan_def ex_options_def supported_policies_def Let_def)

lemma ex_disjoint: "disjoint_groups ex_groups"
  by (simp add: disjoint_groups_def ex_groups_def ex_file_def)

theorem generate_plan_keeps_one_witness:
  "\<not> (\<exists>g \<in> set ex_groups. set (cg_files g) \<subseteq> planned_deletes (ex_plan False))"
proof -
  have "\<forall>g \<in> set ex_groups. cg_files g \<noteq> []" by (simp add: ex_groups_def)
  then show ?thesis using generate_plan_keeps_one [OF ex_plan [of False] ex_disjoint] by blast
qed

lemma ex_counts: "the (po_directory_file_counts (ex_options True)) ''/a'' = Some 2"
  by (simp add: ex_options_def)

theorem generate_plan_protects_last_file_witness:
  "filter (\<lambda>i. cf_top_level_dir (pi_delete i) = ''/a'') (pr_items (ex_plan True)) = [] \<or>
   1 \<le> 2 - int (length (filter (\<lambda>i. cf_top_level_dir (pi_delete i) = ''/a'') (pr_items (ex_plan True))))"
  by (rule generate_plan_protects_last_file
        [OF ex_plan [of True], where counts = "[''/a'' \<mapsto> 2, ''/b'' \<mapsto> 1]"])
     (simp_all add: ex_options_def)

lemma ex_plan_items:
  "map (\<lambda>i. (cf_path (pi_keep i), cf_path (pi_delete i))) (pr_items (ex_plan False))
     = [(''/c/y'', ''/a/y''), (''/c/y'', ''/c/z''), (''/a/x'', ''/b/x'')]"
  by code_simp

theorem generate_plan_keeps_preferred_witness:
  "cf_mtime_ns (pi_delete (hd (pr_items (ex_plan False)))) \<le> cf_mtime_ns (pi_keep (hd (pr_items (ex_plan False))))"
proof -
  have "pr_items (ex_plan False) \<noteq> []" using ex_plan_items by auto
  moreover have "unprotected (ex_options False)" "po_policy (ex_options False) = ''keep-newest''"
    by (simp_all add: unprotected_def ex_options_def)
  ultimately show ?thesis
    using generate_plan_keeps_preferred [OF ex_plan [of False], of "hd (pr_items (ex_plan False))"] by simp
qed

theorem generate_plan_counts_roots_witness:
  "counted (pr_delete_counts (ex_plan False)) 2
     = int (length (filter (\<lambda>i. cf_root_id (pi_delete i) = 2) (pr_items (ex_plan False))))"
  by (rule generate_plan_counts_roots [OF ex_plan])

end
