(* ===== verification/Records.thy ===== *)
theory Records
  imports Prelude
begin

section \<open>The database: rows, tables and stored JSON\<close>

text \<open>
  Models the rows of app/models.py that the task and scheduler components read and write, and
  the session operations they use on them. A table is its rows in the order of their ids; a
  transaction is a function on the record \<open>db\<close>. A JSON column holds no text, text that does
  not parse, or the parsed value.
\<close>

subsection \<open>JSON columns\<close>

datatype json = JNull | JBool bool | JInt int | JStr string | JList "json list"
  | JObj "(string \<times> json) list"

datatype json_text = NoText | BadText | Text json

text \<open>\<open>json.loads(column or "{}")\<close>: \<open>None\<close> when it raises.\<close>

definition loads_or_empty :: "json_text \<Rightarrow> json option" where
  "loads_or_empty t = (case t of NoText \<Rightarrow> Some (JObj []) | BadText \<Rightarrow> None | Text j \<Rightarrow> Some j)"

text \<open>\<open>value.get(key)\<close>: \<open>None\<close> when the value is no dictionary (AttributeError), else the value or null.\<close>

definition jget :: "json \<Rightarrow> string \<Rightarrow> json option" where
  "jget j k = (case j of
      JObj kvs \<Rightarrow> Some (case map_of kvs k of Some v \<Rightarrow> v | None \<Rightarrow> JNull)
    | _ \<Rightarrow> None)"

text \<open>\<open>d[key] = value\<close> on a dictionary.\<close>

definition dict_set :: "string \<Rightarrow> json \<Rightarrow> (string \<times> json) list \<Rightarrow> (string \<times> json) list" where
  "dict_set k v kvs = (if k \<in> fst ` set kvs
     then map (\<lambda>(k', v'). if k' = k then (k', v) else (k', v')) kvs else kvs @ [(k, v)])"

fun truthy :: "json \<Rightarrow> bool" where
  "truthy JNull = False"
| "truthy (JBool b) = b"
| "truthy (JInt n) = (n \<noteq> 0)"
| "truthy (JStr s) = (s \<noteq> [])"
| "truthy (JList xs) = (xs \<noteq> [])"
| "truthy (JObj kvs) = (kvs \<noteq> [])"

text \<open>\<open>int(text)\<close>: surrounding blanks, a sign, digits with single underscores between them.\<close>

definition is_digit :: "char \<Rightarrow> bool" where
  "is_digit c \<longleftrightarrow> CHR ''0'' \<le> c \<and> c \<le> CHR ''9''"

definition digit_val :: "char \<Rightarrow> int" where
  "digit_val c = of_char c - 48"

definition py_space :: "char \<Rightarrow> bool" where
  "py_space c \<longleftrightarrow> (let n = (of_char c :: nat) in
     (9 \<le> n \<and> n \<le> 13) \<or> (28 \<le> n \<and> n \<le> 32) \<or> n = 133 \<or> n = 160)"

definition py_strip :: "string \<Rightarrow> string" where
  "py_strip s = rev (dropWhile py_space (rev (dropWhile py_space s)))"

text \<open>\<open>str.lower\<close> on these code points: A-Z and the Latin-1 capitals without the multiplication sign.\<close>

definition lower_char :: "char \<Rightarrow> char" where
  "lower_char c = (let n = (of_char c :: nat) in
     if (65 \<le> n \<and> n \<le> 90) \<or> (192 \<le> n \<and> n \<le> 222 \<and> n \<noteq> 215) then char_of (n + 32) else c)"

definition py_lower :: "string \<Rightarrow> string" where
  "py_lower s = map lower_char s"

lemma py_lower_idem [simp]: "py_lower (py_lower s) = py_lower s"
proof -
  have "lower_char (lower_char c) = lower_char c" for c
  proof -
    have "(of_char (char_of (of_char c + 32 :: nat)) :: nat) = of_char c + 32" if "of_char c \<le> (222::nat)"
      using that by (simp add: of_char_of)
    then show ?thesis by (auto simp: lower_char_def Let_def)
  qed
  then show ?thesis by (simp add: py_lower_def)
qed

fun digits_val :: "int \<Rightarrow> bool \<Rightarrow> string \<Rightarrow> int option" where
  "digits_val acc after_digit [] = (if after_digit then Some acc else None)"
| "digits_val acc after_digit (c # cs) =
     (if is_digit c then digits_val (10 * acc + digit_val c) True cs
      else if c = CHR ''_'' \<and> after_digit then digits_val acc False cs
      else None)"

definition int_of_text :: "string \<Rightarrow> int option" where
  "int_of_text s = (case py_strip s of
      [] \<Rightarrow> None
    | c # cs \<Rightarrow>
        if c = CHR ''-'' then map_option uminus (digits_val 0 False cs)
        else if c = CHR ''+'' then digits_val 0 False cs
        else digits_val 0 False (c # cs))"

definition int_of_json :: "json \<Rightarrow> int option" where
  "int_of_json j = (case j of
      JInt n \<Rightarrow> Some n
    | JBool b \<Rightarrow> Some (if b then 1 else 0)
    | JStr s \<Rightarrow> int_of_text s
    | _ \<Rightarrow> None)"

text \<open>
  SQLite's \<open>CAST(json_extract(col, '$.key') AS INTEGER)\<close> for the values the code stores:
  numbers and booleans are themselves, text is read like an integer prefix, null and
  missing keys give NULL.
\<close>

fun digit_prefix :: "int \<Rightarrow> string \<Rightarrow> int" where
  "digit_prefix acc [] = acc"
| "digit_prefix acc (c # cs) = (if is_digit c then digit_prefix (10 * acc + digit_val c) cs else acc)"

definition sql_cast_int :: "json \<Rightarrow> int option" where
  "sql_cast_int j = (case j of
      JInt n \<Rightarrow> Some n
    | JBool b \<Rightarrow> Some (if b then 1 else 0)
    | JStr s \<Rightarrow> Some (case dropWhile py_space s of
          [] \<Rightarrow> 0
        | c # cs \<Rightarrow> if c = CHR ''-'' then - digit_prefix 0 cs
                    else if c = CHR ''+'' then digit_prefix 0 cs else digit_prefix 0 (c # cs))
    | JNull \<Rightarrow> None
    | _ \<Rightarrow> Some 0)"

definition linked_id :: "string \<Rightarrow> json_text \<Rightarrow> int option" where
  "linked_id k t = (case t of
      Text j \<Rightarrow> (case jget j k of Some v \<Rightarrow> sql_cast_int v | None \<Rightarrow> None)
    | _ \<Rightarrow> None)"

subsection \<open>Tables\<close>

definition tbl_get :: "('r \<Rightarrow> int) \<Rightarrow> 'r list \<Rightarrow> int \<Rightarrow> 'r option" where
  "tbl_get key rows i = find (\<lambda>r. key r = i) rows"

definition tbl_put :: "('r \<Rightarrow> int) \<Rightarrow> 'r \<Rightarrow> 'r list \<Rightarrow> 'r list" where
  "tbl_put key r rows = map (\<lambda>x. if key x = key r then r else x) rows"

definition tbl_next_id :: "('r \<Rightarrow> int) \<Rightarrow> 'r list \<Rightarrow> int" where
  "tbl_next_id key rows = fold (\<lambda>r m. max (key r) m) rows 0 + 1"

definition tbl_insert :: "'r \<Rightarrow> 'r list \<Rightarrow> 'r list" where
  "tbl_insert r rows = rows @ [r]"

definition tbl_delete :: "('r \<Rightarrow> bool) \<Rightarrow> 'r list \<Rightarrow> 'r list" where
  "tbl_delete p rows = filter (\<lambda>r. \<not> p r) rows"

text \<open>
  The contract of a table that the components rely on: a written row is read back, other rows
  are untouched, a new id is fresh, and the rows after a write are the old ones and the new one.
\<close>

locale row_store =
  fixes key :: "'r \<Rightarrow> int"
    and get :: "'t \<Rightarrow> int \<Rightarrow> 'r option"
    and put :: "'r \<Rightarrow> 't \<Rightarrow> 't"
    and add :: "'r \<Rightarrow> 't \<Rightarrow> 't"
    and fresh :: "'t \<Rightarrow> int"
    and rows :: "'t \<Rightarrow> 'r list"
  assumes get_key: "get t i = Some r \<Longrightarrow> key r = i"
    and get_row: "get t i = Some r \<Longrightarrow> r \<in> set (rows t)"
    and get_put: "get (put r t) i = (if i = key r \<and> get t i \<noteq> None then Some r else get t i)"
    and get_add: "get (add r t) i
                    = (if get t i = None \<and> i = key r then Some r else get t i)"
    and fresh_free: "get t (fresh t) = None"
    and row_get: "r \<in> set (rows t) \<Longrightarrow> \<exists>r'. get t (key r) = Some r'"
    and rows_put: "set (rows (put r t)) \<subseteq> insert r (set (rows t))"
    and rows_add: "set (rows (add r t)) = insert r (set (rows t))"
begin

lemma get_put_same: "get t (key r) = Some r0 \<Longrightarrow> get (put r t) (key r) = Some r"
  by (simp add: get_put)

lemma get_put_other: "i \<noteq> key r \<Longrightarrow> get (put r t) i = get t i"
  by (simp add: get_put)

lemma get_add_fresh: "key r = fresh t \<Longrightarrow> get (add r t) (key r) = Some r"
  by (simp add: get_add fresh_free)

lemma get_add_old: "get t i = Some r0 \<Longrightarrow> get (add r t) i = Some r0"
  by (simp add: get_add)

lemma fresh_not_a_row: "r \<in> set (rows t) \<Longrightarrow> key r \<noteq> fresh t"
  using row_get fresh_free by fastforce

lemma all_rows_put:
  "\<lbrakk> \<forall>x \<in> set (rows t). P x; P r \<rbrakk> \<Longrightarrow> \<forall>x \<in> set (rows (put r t)). P x"
  using rows_put by blast

lemma all_rows_add: "(\<forall>x \<in> set (rows (add r t)). P x) \<longleftrightarrow> P r \<and> (\<forall>x \<in> set (rows t). P x)"
  by (simp add: rows_add)

text \<open>A property every write establishes for the written key survives any later write of it.\<close>

lemma put_preserves:
  assumes "get t i = Some r0" "P r0" "key r = i \<Longrightarrow> P r"
  shows "\<exists>r'. get (put r t) i = Some r' \<and> P r'"
  using assms by (auto simp: get_put)

end

lemma tbl_fold_max: "m \<le> fold (\<lambda>r m. max (key r) m) rows (m :: int)"
  by (induction rows arbitrary: m) (auto intro: order_trans [OF max.cobounded2])

lemma tbl_fold_max_ge: "r \<in> set rows \<Longrightarrow> key r \<le> fold (\<lambda>r m. max (key r) m) rows (m :: int)"
  by (induction rows arbitrary: m) (auto intro: order_trans [OF _ tbl_fold_max])

lemma tbl_fresh: "r \<in> set rows \<Longrightarrow> key r < tbl_next_id key rows"
  using tbl_fold_max_ge [of r rows key 0] by (simp add: tbl_next_id_def)

lemma tbl_get_map:
  assumes "\<And>x. key (f x) = key x"
  shows "tbl_get key (map f rows) i = map_option f (tbl_get key rows i)"
  unfolding tbl_get_def by (induction rows) (auto simp: assms)

lemma tbl_get_Some: "tbl_get key rows i = Some r \<Longrightarrow> r \<in> set rows \<and> key r = i"
  by (auto simp: tbl_get_def find_Some_iff)

lemma tbl_get_None: "tbl_get key rows i = None \<longleftrightarrow> (\<forall>r \<in> set rows. key r \<noteq> i)"
  by (auto simp: tbl_get_def find_None_iff)

lemma tbl_get_put:
  "tbl_get key (tbl_put key r rows) i
     = (if i = key r \<and> tbl_get key rows i \<noteq> None then Some r else tbl_get key rows i)"
  by (induction rows) (auto simp: tbl_get_def tbl_put_def)

lemma tbl_get_insert:
  "tbl_get key (tbl_insert r rows) i
     = (if tbl_get key rows i = None \<and> i = key r then Some r else tbl_get key rows i)"
  by (induction rows) (auto simp: tbl_get_def tbl_insert_def)

lemma tbl_row_store:
  "row_store key (tbl_get key) (tbl_put key) tbl_insert (tbl_next_id key) (\<lambda>t. t)"
proof
  fix t :: "'a list" and i and r
  show "tbl_get key t i = Some r \<Longrightarrow> key r = i" by (simp add: tbl_get_Some)
  show "tbl_get key t i = Some r \<Longrightarrow> r \<in> set t" by (simp add: tbl_get_Some)
  show "tbl_get key t (tbl_next_id key t) = None"
    by (auto simp: tbl_get_None dest: tbl_fresh [of _ _ key])
  show "r \<in> set t \<Longrightarrow> \<exists>r'. tbl_get key t (key r) = Some r'"
    using tbl_get_None [of key t "key r"] by (cases "tbl_get key t (key r)") auto
  show "set (tbl_put key r t) \<subseteq> insert r (set t)" by (auto simp: tbl_put_def)
  show "set (tbl_insert r t) = insert r (set t)" by (simp add: tbl_insert_def)
qed (simp_all add: tbl_get_put tbl_get_insert)

subsection \<open>Rows\<close>

record work_job =
  wj_id :: int
  wj_kind :: string
  wj_status :: string
  wj_progress_current :: int
  wj_progress_total :: int
  wj_progress_message :: "string option"
  wj_state_json :: json_text
  wj_checkpoint_json :: json_text
  wj_error_text :: "string option"
  wj_error_code :: "string option"
  wj_pause_requested_at :: "time option"
  wj_cancel_requested_at :: "time option"
  wj_heartbeat_at :: "time option"
  wj_retry_of :: "int option"
  wj_created_at :: time
  wj_started_at :: "time option"
  wj_finished_at :: "time option"

record task_event =
  te_id :: int
  te_job_id :: int
  te_timestamp :: time
  te_level :: string
  te_event_type :: string

record scan_job =
  sj_id :: int
  sj_name :: string
  sj_mode :: string
  sj_roots :: "string list"
  sj_status :: string
  sj_fclones_args :: json
  sj_started_at :: "time option"
  sj_finished_at :: "time option"
  sj_total_groups :: int
  sj_total_files_in_groups :: int
  sj_reclaimable_bytes :: int
  sj_error_text :: "string option"

record duplicate_group =
  dg_id :: int
  dg_scan_job_id :: int

record duplicate_file =
  df_id :: int
  df_group_id :: int

record batch_plan =
  bp_id :: int
  bp_kind :: string
  bp_status :: string

record batch_plan_item =
  bi_id :: int
  bi_plan_id :: int
  bi_sequence :: int
  bi_operation :: string
  bi_source_path :: string
  bi_target_path :: "string option"
  bi_state :: string
  bi_reason :: "string option"

record task_lock =
  tl_locked :: bool
  tl_owner :: "string option"
  tl_acquired_at :: "time option"

record worker_state =
  ws_worker_id :: string
  ws_started_at :: time
  ws_heartbeat_at :: time
  ws_updated_at :: time

record resource_policy =
  rp_scan_threads :: int
  rp_hash_threads :: int
  rp_io_limit :: string
  rp_job_priority :: string
  rp_active_window_enabled :: bool
  rp_active_window_start :: "string option"
  rp_active_window_end :: "string option"
  rp_active_window_timezone :: "string option"
  rp_outside_window_mode :: string
  rp_revision :: int

record index_root =
  ir_id :: int
  ir_root :: string
  ir_created_at :: time

record schedule =
  sc_id :: int
  sc_name :: string
  sc_description :: string
  sc_enabled :: bool
  sc_target_type :: string
  sc_target_json :: json_text
  sc_cron_expression :: string
  sc_timezone :: string
  sc_overlap_policy :: string
  sc_missed_run_policy :: string
  sc_created_by_user_id :: "int option"
  sc_revision :: int
  sc_created_at :: time
  sc_updated_at :: time
  sc_last_scheduled_for_utc :: "time option"
  sc_next_scheduled_for_utc :: "time option"

record schedule_run =
  sr_id :: int
  sr_schedule_id :: int
  sr_schedule_revision :: int
  sr_scheduled_for_utc :: time
  sr_dispatched_at :: "time option"
  sr_status :: string
  sr_work_job_id :: "int option"
  sr_error_code :: "string option"
  sr_target_snapshot :: json_text
  sr_created_at :: time

record scheduler_state =
  ss_owner :: "string option"
  ss_lease_expires_at :: "time option"
  ss_heartbeat_at :: "time option"
  ss_updated_at :: time

record workflow =
  wf_id :: int
  wf_name :: string
  wf_description :: string
  wf_current_revision :: int
  wf_is_builtin :: bool
  wf_created_by_user_id :: "int option"
  wf_archived_at :: "time option"
  wf_created_at :: time
  wf_updated_at :: time

record workflow_revision =
  wr_id :: int
  wr_workflow_id :: int
  wr_revision :: int
  wr_definition_json :: json_text
  wr_definition_sha256 :: string
  wr_created_by_user_id :: "int option"
  wr_created_at :: time

record db =
  db_jobs :: "work_job list"
  db_events :: "task_event list"
  db_scans :: "scan_job list"
  db_groups :: "duplicate_group list"
  db_files :: "duplicate_file list"
  db_plans :: "batch_plan list"
  db_items :: "batch_plan_item list"
  db_lock :: "task_lock option"
  db_worker :: "worker_state option"
  db_policy :: "resource_policy option"
  db_roots :: "index_root list"
  db_schedules :: "schedule list"
  db_runs :: "schedule_run list"
  db_scheduler :: "scheduler_state option"
  db_workflows :: "workflow list"
  db_wf_revisions :: "workflow_revision list"

text \<open>The tables the components write row by row satisfy the contract.\<close>

interpretation jobs: row_store wj_id "tbl_get wj_id" "tbl_put wj_id" tbl_insert "tbl_next_id wj_id" "\<lambda>t. t"
  by (rule tbl_row_store)

interpretation scans: row_store sj_id "tbl_get sj_id" "tbl_put sj_id" tbl_insert "tbl_next_id sj_id" "\<lambda>t. t"
  by (rule tbl_row_store)

interpretation plans: row_store bp_id "tbl_get bp_id" "tbl_put bp_id" tbl_insert "tbl_next_id bp_id" "\<lambda>t. t"
  by (rule tbl_row_store)

interpretation schedules: row_store sc_id "tbl_get sc_id" "tbl_put sc_id" tbl_insert "tbl_next_id sc_id" "\<lambda>t. t"
  by (rule tbl_row_store)

interpretation runs: row_store sr_id "tbl_get sr_id" "tbl_put sr_id" tbl_insert "tbl_next_id sr_id" "\<lambda>t. t"
  by (rule tbl_row_store)

subsection \<open>Session operations\<close>

definition get_job :: "db \<Rightarrow> int \<Rightarrow> work_job option" where
  "get_job d i = tbl_get wj_id (db_jobs d) i"

definition put_job :: "work_job \<Rightarrow> db \<Rightarrow> db" where
  "put_job j d = d\<lparr>db_jobs := tbl_put wj_id j (db_jobs d)\<rparr>"

definition add_job :: "work_job \<Rightarrow> db \<Rightarrow> db" where
  "add_job j d = d\<lparr>db_jobs := tbl_insert j (db_jobs d)\<rparr>"

text \<open>
  The row an ORM insert creates when only kind, status and \<open>state_json\<close> are given: the column
  defaults of \<open>WorkJob\<close>, with the next free id.
\<close>

definition new_job :: "db \<Rightarrow> string \<Rightarrow> string \<Rightarrow> json_text \<Rightarrow> time \<Rightarrow> work_job" where
  "new_job d kind st state created =
     \<lparr>wj_id = tbl_next_id wj_id (db_jobs d), wj_kind = kind, wj_status = st,
      wj_progress_current = 0, wj_progress_total = 0, wj_progress_message = None,
      wj_state_json = state, wj_checkpoint_json = Text (JObj []), wj_error_text = None,
      wj_error_code = None, wj_pause_requested_at = None, wj_cancel_requested_at = None,
      wj_heartbeat_at = None, wj_retry_of = None, wj_created_at = created,
      wj_started_at = None, wj_finished_at = None\<rparr>"

definition log_task_event :: "int \<Rightarrow> string \<Rightarrow> string \<Rightarrow> time \<Rightarrow> db \<Rightarrow> db" where
  "log_task_event job_id event_type level ts d =
     d\<lparr>db_events := db_events d @ [\<lparr>te_id = tbl_next_id te_id (db_events d), te_job_id = job_id,
          te_timestamp = ts, te_level = level, te_event_type = event_type\<rparr>]\<rparr>"

text \<open>
  Deleting job rows, with the foreign keys on: their events go, and the references of retries and
  schedule runs become null.
\<close>

definition delete_jobs :: "(work_job \<Rightarrow> bool) \<Rightarrow> db \<Rightarrow> db" where
  "delete_jobs p d =
     (let gone = map wj_id (filter p (db_jobs d));
          clear = (\<lambda>r. case r of Some i \<Rightarrow> if i \<in> set gone then None else Some i | None \<Rightarrow> None)
      in d\<lparr>db_jobs := map (\<lambda>j. j\<lparr>wj_retry_of := clear (wj_retry_of j)\<rparr>) (tbl_delete p (db_jobs d)),
           db_events := tbl_delete (\<lambda>e. te_job_id e \<in> set gone) (db_events d),
           db_runs := map (\<lambda>r. r\<lparr>sr_work_job_id := clear (sr_work_job_id r)\<rparr>) (db_runs d)\<rparr>)"

named_theorems db_simps \<open>what each session operation reads and changes\<close>

lemma log_task_event_frame [simp, db_simps]:
  "db_jobs (log_task_event j e l t d) = db_jobs d"
  "db_scans (log_task_event j e l t d) = db_scans d"
  "db_plans (log_task_event j e l t d) = db_plans d"
  "db_items (log_task_event j e l t d) = db_items d"
  "db_groups (log_task_event j e l t d) = db_groups d"
  "db_files (log_task_event j e l t d) = db_files d"
  "db_lock (log_task_event j e l t d) = db_lock d"
  "db_worker (log_task_event j e l t d) = db_worker d"
  "db_policy (log_task_event j e l t d) = db_policy d"
  "db_runs (log_task_event j e l t d) = db_runs d"
  "db_schedules (log_task_event j e l t d) = db_schedules d"
  by (simp_all add: log_task_event_def)

lemma put_job_frame [simp, db_simps]:
  "db_jobs (put_job j d) = tbl_put wj_id j (db_jobs d)"
  "db_events (put_job j d) = db_events d"
  "db_scans (put_job j d) = db_scans d"
  "db_plans (put_job j d) = db_plans d"
  "db_items (put_job j d) = db_items d"
  "db_groups (put_job j d) = db_groups d"
  "db_files (put_job j d) = db_files d"
  "db_lock (put_job j d) = db_lock d"
  "db_worker (put_job j d) = db_worker d"
  "db_policy (put_job j d) = db_policy d"
  "db_runs (put_job j d) = db_runs d"
  "db_schedules (put_job j d) = db_schedules d"
  by (simp_all add: put_job_def)

lemma get_job_id: "get_job d i = Some j \<Longrightarrow> wj_id j = i"
  unfolding get_job_def by (rule jobs.get_key)

lemma get_job_put [simp, db_simps]:
  "get_job (put_job j d) i = (if i = wj_id j \<and> get_job d i \<noteq> None then Some j else get_job d i)"
  by (auto simp: get_job_def jobs.get_put)

lemma get_job_log [simp, db_simps]: "get_job (log_task_event j e l t d) i = get_job d i"
  by (simp add: get_job_def)

lemma get_job_add: "get_job d i = Some j0 \<Longrightarrow> get_job (add_job j d) i = Some j0"
  by (simp add: get_job_def add_job_def jobs.get_add_old)

lemma get_job_new: "get_job (add_job (new_job d k s st t) d) (tbl_next_id wj_id (db_jobs d))
    = Some (new_job d k s st t)"
  by (simp add: get_job_def add_job_def jobs.get_add jobs.fresh_free new_job_def)

end
