(* ===== verification/Cron.thy ===== *)
theory Cron
  imports Records
begin

section \<open>Cron expressions\<close>

text \<open>
  Models app/scheduler/cron.py. A date is its number of days since 1970-01-01 and a wall-clock
  (naive) time a number of microseconds on the same scale, so that adding a \<open>timedelta\<close> is adding
  numbers; the calendar is the proleptic Gregorian one of \<open>datetime\<close>. The timezone database
  (zoneinfo) is the parameter \<open>zone_db\<close>: which names it knows, the wall time and the fold of an
  instant, and the instant of a wall time read with \<open>fold=0\<close>.
\<close>

datatype cron_error = BadWhitespace | EmptyItem | BadStep | NotNumeric string | StepNotPositive
  | BadRange | DescendingRange | OutOfRange | NoValues | NotFiveFields | BadZone string
  | BadHorizon | BadCount | NoOccurrence

record cron_field =
  cf_values :: "int list"
  cf_wildcard :: bool

record cron_expression =
  ce_minute :: cron_field
  ce_hour :: cron_field
  ce_day_of_month :: cron_field
  ce_month :: cron_field
  ce_day_of_week :: cron_field
  ce_source :: string

record zone_db =
  zd_known :: "string \<Rightarrow> bool"
  zd_to_local :: "string \<Rightarrow> time \<Rightarrow> time"
  zd_fold :: "string \<Rightarrow> time \<Rightarrow> bool"
  zd_from_local :: "string \<Rightarrow> time \<Rightarrow> time"

subsection \<open>The calendar\<close>

abbreviation micros_per_day :: int where "micros_per_day \<equiv> 86400000000"

text \<open>Year, month and day of a day number; years start in March inside the computation.\<close>

definition civil_of_days :: "int \<Rightarrow> int \<times> int \<times> int" where
  "civil_of_days n =
     (let z = n + 719468;
          era = z div 146097;
          doe = z mod 146097;
          yoe = (doe - doe div 1460 + doe div 36524 - doe div 146096) div 365;
          doy = doe - (365 * yoe + yoe div 4 - yoe div 100);
          mp = (5 * doy + 2) div 153;
          d = doy - (153 * mp + 2) div 5 + 1;
          m = (if mp < 10 then mp + 3 else mp - 9);
          y = yoe + era * 400 + (if m \<le> 2 then 1 else 0)
      in (y, m, d))"

definition month_of :: "int \<Rightarrow> int" where "month_of n = fst (snd (civil_of_days n))"
definition day_of :: "int \<Rightarrow> int" where "day_of n = snd (snd (civil_of_days n))"

text \<open>\<open>date.weekday()\<close>, Monday 0: day 0 was a Thursday.\<close>

definition weekday :: "int \<Rightarrow> int" where "weekday n = (n + 3) mod 7"

definition matches_date :: "cron_expression \<Rightarrow> int \<Rightarrow> bool" where
  "matches_date c n =
     (if month_of n \<notin> set (cf_values (ce_month c)) then False
      else
        let dom_match = day_of n \<in> set (cf_values (ce_day_of_month c));
            dow_match = (weekday n + 1) mod 7 \<in> set (cf_values (ce_day_of_week c))
        in if cf_wildcard (ce_day_of_month c) \<and> cf_wildcard (ce_day_of_week c) then True
           else if cf_wildcard (ce_day_of_month c) then dow_match
           else if cf_wildcard (ce_day_of_week c) then dom_match
           else dom_match \<or> dow_match)"

subsection \<open>Parsing\<close>

text \<open>\<open>text.split()\<close>.\<close>

definition split_ws :: "string \<Rightarrow> string list" where
  "split_ws s = filter (\<lambda>p. p \<noteq> []) (split_char CHR '' '' (map (\<lambda>c. if py_space c then CHR '' '' else c) s))"

fun join_space :: "string list \<Rightarrow> string" where
  "join_space [] = []"
| "join_space [p] = p"
| "join_space (p # q # ps) = p @ CHR '' '' # join_space (q # ps)"

definition parse_uint :: "string \<Rightarrow> cron_error + int" where
  "parse_uint raw = (if raw \<noteq> [] \<and> list_all is_digit raw then Inr (the (digits_val 0 False raw))
     else Inl (NotNumeric raw))"

definition count_char :: "char \<Rightarrow> string \<Rightarrow> nat" where
  "count_char c s = length (filter (\<lambda>x. x = c) s)"

definition before_char :: "char \<Rightarrow> string \<Rightarrow> string" where
  "before_char c s = takeWhile (\<lambda>x. x \<noteq> c) s"

definition after_char :: "char \<Rightarrow> string \<Rightarrow> string" where
  "after_char c s = drop 1 (dropWhile (\<lambda>x. x \<noteq> c) s)"

definition py_range :: "int \<Rightarrow> int \<Rightarrow> int \<Rightarrow> int list" where
  "py_range start stop step = map (\<lambda>k. start + int k * step) [0..<nat ((stop - start + step - 1) div step)]"

definition part_step :: "string \<Rightarrow> cron_error + (string \<times> int)" where
  "part_step part =
     (if CHR ''/'' \<in> set part then
        bind_res (parse_uint (after_char CHR ''/'' part)) (\<lambda>step.
          if step \<le> 0 then Inl StepNotPositive else Inr (before_char CHR ''/'' part, step))
      else Inr (part, 1))"

definition part_bounds :: "int \<Rightarrow> int \<Rightarrow> bool \<Rightarrow> string \<Rightarrow> cron_error + (int \<times> int)" where
  "part_bounds minimum maximum stepped base =
     (if base = ''*'' then Inr (minimum, maximum)
      else if CHR ''-'' \<in> set base then
        (if count_char CHR ''-'' base \<noteq> 1 then Inl BadRange
         else bind_res (parse_uint (before_char CHR ''-'' base)) (\<lambda>start.
              bind_res (parse_uint (after_char CHR ''-'' base)) (\<lambda>stop.
              if start > stop then Inl DescendingRange else Inr (start, stop))))
      else bind_res (parse_uint base) (\<lambda>start. Inr (start, if stepped then maximum else start)))"

definition parse_part :: "int \<Rightarrow> int \<Rightarrow> string \<Rightarrow> cron_error + int list" where
  "parse_part minimum maximum part =
     (if part = [] then Inl EmptyItem
      else if count_char CHR ''/'' part > 1 then Inl BadStep
      else bind_res (part_step part) (\<lambda>(base, step).
           bind_res (part_bounds minimum maximum (CHR ''/'' \<in> set part) base) (\<lambda>(start, stop).
           if start < minimum \<or> start > maximum \<or> stop < minimum \<or> stop > maximum then Inl OutOfRange
           else Inr (py_range start (stop + 1) step))))"

definition parse_field :: "int \<Rightarrow> int \<Rightarrow> string \<Rightarrow> cron_error + cron_field" where
  "parse_field minimum maximum raw =
     (if raw = [] \<or> list_ex py_space raw then Inl BadWhitespace
      else bind_res (map_res (parse_part minimum maximum) (split_char CHR '','' raw)) (\<lambda>vss.
        if concat vss = [] then Inl NoValues
        else Inr \<lparr>cf_values = concat vss, cf_wildcard = (raw = ''*'')\<rparr>))"

definition parse_cron_expression :: "string \<Rightarrow> cron_error + cron_expression" where
  "parse_cron_expression expression =
     (let normalized = join_space (split_ws expression);
          parts = (if normalized = [] then [] else split_char CHR '' '' normalized)
      in case parts of
           [p1, p2, p3, p4, p5] \<Rightarrow>
             bind_res (parse_field 0 59 p1) (\<lambda>mi.
             bind_res (parse_field 0 23 p2) (\<lambda>h.
             bind_res (parse_field 1 31 p3) (\<lambda>md.
             bind_res (parse_field 1 12 p4) (\<lambda>mo.
             bind_res (parse_field 0 6 p5) (\<lambda>wd.
             Inr \<lparr>ce_minute = mi, ce_hour = h, ce_day_of_month = md, ce_month = mo,
                  ce_day_of_week = wd, ce_source = normalized\<rparr>)))))
         | _ \<Rightarrow> Inl NotFiveFields)"

subsection \<open>Occurrences\<close>

definition resolve_scheduler_timezone :: "zone_db \<Rightarrow> string \<Rightarrow> cron_error + string" where
  "resolve_scheduler_timezone zd name =
     (if name = [] \<or> py_strip name \<noteq> name \<or> \<not> zd_known zd name then Inl (BadZone name) else Inr name)"

definition wall_time :: "int \<Rightarrow> int \<Rightarrow> int \<Rightarrow> time" where
  "wall_time date hour minute = date * micros_per_day + (hour * 60 + minute) * 60000000"

definition valid_fold_zero :: "zone_db \<Rightarrow> string \<Rightarrow> time \<Rightarrow> time option" where
  "valid_fold_zero zd tz naive =
     (let utc = zd_from_local zd tz naive
      in if zd_to_local zd tz utc \<noteq> naive then None
         else if zd_fold zd tz utc then None else Some utc)"

definition ascending :: "int list \<Rightarrow> int list" where
  "ascending vs = sort (remdups vs)"

definition day_times :: "cron_expression \<Rightarrow> int \<Rightarrow> time list" where
  "day_times c date = concat (map (\<lambda>h. map (\<lambda>m. wall_time date h m) (ascending (cf_values (ce_minute c))))
     (ascending (cf_values (ce_hour c))))"

fun first_after :: "zone_db \<Rightarrow> string \<Rightarrow> time \<Rightarrow> time list \<Rightarrow> time option" where
  "first_after zd tz after [] = None"
| "first_after zd tz after (n # ns) = (case valid_fold_zero zd tz n of
      None \<Rightarrow> first_after zd tz after ns
    | Some u \<Rightarrow> if u > after then Some u else first_after zd tz after ns)"

fun search_days :: "zone_db \<Rightarrow> string \<Rightarrow> cron_expression \<Rightarrow> time \<Rightarrow> int list \<Rightarrow> time option" where
  "search_days zd tz c after [] = None"
| "search_days zd tz c after (d # ds) =
     (if \<not> matches_date c d then search_days zd tz c after ds
      else case first_after zd tz after (day_times c d) of
          Some u \<Rightarrow> Some u
        | None \<Rightarrow> search_days zd tz c after ds)"

definition default_horizon :: int where "default_horizon = 366 * 8"

definition next_occurrence ::
  "zone_db \<Rightarrow> cron_expression \<Rightarrow> string \<Rightarrow> time \<Rightarrow> int \<Rightarrow> cron_error + time" where
  "next_occurrence zd c timezone_name after horizon =
     bind_res (resolve_scheduler_timezone zd timezone_name) (\<lambda>tz.
     if horizon \<le> 0 then Inl BadHorizon
     else
       let start = zd_to_local zd tz after div micros_per_day
       in case search_days zd tz c after [start..start + horizon] of
            Some u \<Rightarrow> Inr u | None \<Rightarrow> Inl NoOccurrence)"

fun occurrences_from :: "zone_db \<Rightarrow> cron_expression \<Rightarrow> string \<Rightarrow> time \<Rightarrow> nat \<Rightarrow> cron_error + time list" where
  "occurrences_from zd c tz cursor 0 = Inr []"
| "occurrences_from zd c tz cursor (Suc n) =
     bind_res (next_occurrence zd c tz cursor default_horizon) (\<lambda>u.
     bind_res (occurrences_from zd c tz u n) (\<lambda>us. Inr (u # us)))"

definition next_occurrences ::
  "zone_db \<Rightarrow> string \<Rightarrow> string \<Rightarrow> time \<Rightarrow> int \<Rightarrow> cron_error + time list" where
  "next_occurrences zd expression timezone_name after count =
     (if count < 1 \<or> count > 100 then Inl BadCount
      else bind_res (parse_cron_expression expression) (\<lambda>c.
        occurrences_from zd c timezone_name after (nat count)))"

text \<open>The text form of \<open>next_occurrence\<close>, as its callers use it.\<close>

definition next_of_text :: "zone_db \<Rightarrow> string \<Rightarrow> string \<Rightarrow> time \<Rightarrow> cron_error + time" where
  "next_of_text zd expression timezone_name after =
     bind_res (parse_cron_expression expression) (\<lambda>c.
       next_occurrence zd c timezone_name after default_horizon)"

subsection \<open>Parsed fields stay in their ranges\<close>

definition field_ok :: "int \<Rightarrow> int \<Rightarrow> cron_field \<Rightarrow> bool" where
  "field_ok lo hi f \<longleftrightarrow> cf_values f \<noteq> [] \<and> (\<forall>v \<in> set (cf_values f). lo \<le> v \<and> v \<le> hi)"

definition cron_ok :: "cron_expression \<Rightarrow> bool" where
  "cron_ok c \<longleftrightarrow> field_ok 0 59 (ce_minute c) \<and> field_ok 0 23 (ce_hour c) \<and>
     field_ok 1 31 (ce_day_of_month c) \<and> field_ok 1 12 (ce_month c) \<and> field_ok 0 6 (ce_day_of_week c)"

lemma py_range_bounds: "v \<in> set (py_range a b k) \<Longrightarrow> 0 < k \<Longrightarrow> a \<le> v \<and> v < b"
proof -
  assume v: "v \<in> set (py_range a b k)" and k: "0 < k"
  then obtain n where n: "v = a + int n * k" "int n < (b - a + k - 1) div k"
    by (auto simp: py_range_def)
  have "int n * k \<le> ((b - a + k - 1) div k - 1) * k" using n(2) k by (intro mult_right_mono) auto
  also have "\<dots> = (b - a + k - 1) div k * k - k" by (simp add: algebra_simps)
  also have "\<dots> \<le> b - a - 1" using k div_mult_mod_eq [of "b - a + k - 1" k] pos_mod_sign [of k "b - a + k - 1"] by linarith
  finally show ?thesis using n(1) k by simp
qed

lemma part_step_pos: "part_step part = Inr (base, step) \<Longrightarrow> 0 < step"
  by (auto simp: part_step_def bind_res_Inr split: if_splits)

lemma parse_part_bounds:
  assumes "parse_part lo hi part = Inr vs" "v \<in> set vs"
  shows "lo \<le> v \<and> v \<le> hi"
proof -
  from assms(1) obtain base step start stop where
    p: "part_step part = Inr (base, step)" "lo \<le> start" "stop \<le> hi" "vs = py_range start (stop + 1) step"
    by (auto simp: parse_part_def bind_res_Inr not_less split: if_splits)
  with py_range_bounds [of v start "stop + 1" step] part_step_pos [OF p(1)] assms(2) show ?thesis by auto
qed

lemma parse_field_ok:
  assumes "parse_field lo hi raw = Inr f"
  shows "field_ok lo hi f"
proof -
  from assms obtain vss where m: "map_res (parse_part lo hi) (split_char CHR '','' raw) = Inr vss"
    and f: "concat vss \<noteq> []" "f = \<lparr>cf_values = concat vss, cf_wildcard = (raw = ''*'')\<rparr>"
    by (auto simp: parse_field_def bind_res_Inr split: if_splits)
  have "lo \<le> v \<and> v \<le> hi" if "vs \<in> set vss" "v \<in> set vs" for vs v
    using map_res_set [OF m that(1)] parse_part_bounds that(2) by blast
  with f show ?thesis by (auto simp: field_ok_def)
qed

lemma parse_cron_ok: "parse_cron_expression e = Inr c \<Longrightarrow> cron_ok c"
  by (auto simp: parse_cron_expression_def cron_ok_def Let_def bind_res_Inr parse_field_ok split: list.splits)

subsection \<open>The search finds the least occurrence\<close>

text \<open>
  What the code relies on of zoneinfo: the wall time shown at an instant exists and its first
  reading is not after that instant, and first readings of existing wall times keep their order.
\<close>

definition zone_rules :: "zone_db \<Rightarrow> string \<Rightarrow> bool" where
  "zone_rules zd tz \<longleftrightarrow>
     (\<forall>u. \<exists>v \<le> u. valid_fold_zero zd tz (zd_to_local zd tz u) = Some v) \<and>
     (\<forall>m n u v. m < n \<longrightarrow> valid_fold_zero zd tz m = Some u \<longrightarrow> valid_fold_zero zd tz n = Some v \<longrightarrow> u < v)"

definition occurs :: "zone_db \<Rightarrow> string \<Rightarrow> cron_expression \<Rightarrow> time \<Rightarrow> time \<Rightarrow> bool" where
  "occurs zd tz c n u \<longleftrightarrow> matches_date c (n div micros_per_day) \<and>
     n \<in> set (day_times c (n div micros_per_day)) \<and> valid_fold_zero zd tz n = Some u"

lemma wall_time_date:
  "0 \<le> h \<Longrightarrow> h \<le> 23 \<Longrightarrow> 0 \<le> m \<Longrightarrow> m \<le> 59 \<Longrightarrow> wall_time d h m div micros_per_day = d"
proof -
  assume a: "0 \<le> h" "h \<le> 23" "0 \<le> m" "m \<le> 59"
  have "wall_time d h m div micros_per_day = d + (h * 60 + m) * 60000000 div micros_per_day"
    unfolding wall_time_def by (subst add.commute) simp
  also have "(h * 60 + m) * 60000000 div micros_per_day = 0" using a by (intro div_pos_pos_trivial) auto
  finally show ?thesis by simp
qed

lemma day_times_date:
  assumes "cron_ok c" "n \<in> set (day_times c d)"
  shows "n div micros_per_day = d"
  using assms wall_time_date by (auto simp: day_times_def ascending_def cron_ok_def field_ok_def)

lemma sorted_concat_blocks:
  "sorted_wrt (<) hs \<Longrightarrow> (\<And>h. h \<in> set hs \<Longrightarrow> sorted (f h)) \<Longrightarrow>
   (\<And>h h' x y. h \<in> set hs \<Longrightarrow> h' \<in> set hs \<Longrightarrow> h < h' \<Longrightarrow> x \<in> set (f h) \<Longrightarrow> y \<in> set (f h') \<Longrightarrow> x \<le> y) \<Longrightarrow>
   sorted (concat (map f hs))"
  for f :: "int \<Rightarrow> int list"
proof (induction hs)
  case (Cons a hs)
  have "sorted (concat (map f hs))" using Cons.prems by (intro Cons.IH) (auto intro: Cons.prems)
  moreover have "\<forall>x \<in> set (f a). \<forall>y \<in> set (concat (map f hs)). x \<le> y"
    using Cons.prems(1) Cons.prems(3) [of a] by auto
  ultimately show ?case using Cons.prems(2) by (simp add: sorted_append)
qed simp

lemma ascending_strict: "sorted_wrt (<) (ascending vs)"
  by (simp add: ascending_def strict_sorted_iff)

lemma day_times_sorted:
  assumes "cron_ok c"
  shows "sorted (day_times c d)"
  unfolding day_times_def
proof (rule sorted_concat_blocks [OF ascending_strict])
  fix h
  have "sorted (map (wall_time d h) ms)" if "sorted ms" for ms
    using that by (induction ms) (auto simp: wall_time_def)
  then show "sorted (map (wall_time d h) (ascending (cf_values (ce_minute c))))"
    by (simp add: ascending_def)
next
  fix h h' x y :: int
  assume "h < h'" "x \<in> set (map (wall_time d h) (ascending (cf_values (ce_minute c))))"
    "y \<in> set (map (wall_time d h') (ascending (cf_values (ce_minute c))))"
  moreover from this(2,3) obtain m m' where m: "x = wall_time d h m" "y = wall_time d h' m'"
    "m \<in> set (cf_values (ce_minute c))" "m' \<in> set (cf_values (ce_minute c))" by (auto simp: ascending_def)
  moreover have "m \<le> 59" "0 \<le> m'" using m(3,4) assms by (auto simp: cron_ok_def field_ok_def)
  ultimately show "x \<le> y" by (simp add: wall_time_def)
qed

lemma first_after_Some:
  "sorted ns \<Longrightarrow> first_after zd tz after ns = Some u \<Longrightarrow>
     \<exists>n \<in> set ns. valid_fold_zero zd tz n = Some u \<and> after < u \<and>
       (\<forall>n' \<in> set ns. \<forall>u'. n' < n \<longrightarrow> valid_fold_zero zd tz n' = Some u' \<longrightarrow> u' \<le> after)"
  by (induction ns) (force split: option.splits if_splits)+

lemma first_after_None:
  "first_after zd tz after ns = None \<longleftrightarrow> (\<forall>n \<in> set ns. \<forall>u. valid_fold_zero zd tz n = Some u \<longrightarrow> u \<le> after)"
  by (induction ns) (auto split: option.splits)

text \<open>No day before the one found has an occurrence after the cursor.\<close>

lemma search_days_Some:
  "search_days zd tz c after ds = Some u \<Longrightarrow>
     \<exists>ds1 d ds2. ds = ds1 @ d # ds2 \<and> matches_date c d \<and> first_after zd tz after (day_times c d) = Some u \<and>
       (\<forall>d' \<in> set ds1. matches_date c d' \<longrightarrow> first_after zd tz after (day_times c d') = None)"
proof (induction ds)
  case (Cons d ds)
  show ?case
  proof (cases "matches_date c d \<and> first_after zd tz after (day_times c d) \<noteq> None")
    case True
    with Cons.prems show ?thesis by (intro exI [of _ "[]"]) auto
  next
    case False
    with Cons.prems have "search_days zd tz c after ds = Some u" by (auto split: if_splits)
    from Cons.IH [OF this] obtain ds1 d0 ds2 where "ds = ds1 @ d0 # ds2" "matches_date c d0"
      "first_after zd tz after (day_times c d0) = Some u"
      "\<forall>d' \<in> set ds1. matches_date c d' \<longrightarrow> first_after zd tz after (day_times c d') = None" by blast
    with False show ?thesis by (intro exI [of _ "d # ds1"] exI [of _ d0] exI [of _ ds2]) auto
  qed
qed simp

lemma search_days_None:
  "search_days zd tz c after ds = None \<longleftrightarrow>
     (\<forall>d \<in> set ds. matches_date c d \<longrightarrow> first_after zd tz after (day_times c d) = None)"
  by (induction ds) (auto split: option.splits)

lemma occurrence_not_before_start:
  assumes "zone_rules zd tz" "valid_fold_zero zd tz n = Some u" "after < u"
  shows "zd_to_local zd tz after div micros_per_day \<le> n div micros_per_day"
proof -
  obtain v where v: "v \<le> after" "valid_fold_zero zd tz (zd_to_local zd tz after) = Some v"
    using assms(1) unfolding zone_rules_def by blast
  have "\<not> n < zd_to_local zd tz after"
  proof
    assume "n < zd_to_local zd tz after"
    then have "u < v" using assms(1,2) v(2) unfolding zone_rules_def by blast
    with v(1) assms(3) show False by simp
  qed
  then show ?thesis by (intro zdiv_mono1) auto
qed

lemma next_occurrence_Inr:
  assumes "next_occurrence zd c tz after hz = Inr u"
  obtains start where "start = zd_to_local zd tz after div micros_per_day"
    "search_days zd tz c after [start..start + hz] = Some u"
  using assms by (auto simp: next_occurrence_def bind_res_Inr resolve_scheduler_timezone_def Let_def
      split: if_splits option.splits)

lemma next_occurrence_least:
  assumes "zone_rules zd tz" "cron_ok c" "next_occurrence zd c tz after hz = Inr u"
  shows "after < u \<and> (\<exists>n. occurs zd tz c n u) \<and> (\<forall>n' u'. occurs zd tz c n' u' \<longrightarrow> after < u' \<longrightarrow> u \<le> u')"
proof -
  from next_occurrence_Inr [OF assms(3)] obtain start where
    start: "start = zd_to_local zd tz after div micros_per_day"
    and s: "search_days zd tz c after [start..start + hz] = Some u" by blast
  from search_days_Some [OF s] obtain ds1 d ds2 where
    ds: "[start..start + hz] = ds1 @ d # ds2" and md: "matches_date c d"
    and f: "first_after zd tz after (day_times c d) = Some u"
    and before: "\<forall>d' \<in> set ds1. matches_date c d' \<longrightarrow> first_after zd tz after (day_times c d') = None" by blast
  from first_after_Some [OF day_times_sorted [OF assms(2)] f] obtain n where
    n: "n \<in> set (day_times c d)" "valid_fold_zero zd tz n = Some u" "after < u"
    "\<forall>n' \<in> set (day_times c d). \<forall>u'. n' < n \<longrightarrow> valid_fold_zero zd tz n' = Some u' \<longrightarrow> u' \<le> after" by blast
  have nd: "n div micros_per_day = d" using day_times_date [OF assms(2) n(1)] .
  have "sorted_wrt (<) (ds1 @ d # ds2)" unfolding ds [symmetric] by simp
  then have ord: "\<forall>x \<in> set ds1. x < d" by (simp add: sorted_wrt_append)
  have "u \<le> u'" if o: "occurs zd tz c n' u'" and a: "after < u'" for n' u'
  proof (rule ccontr)
    assume "\<not> u \<le> u'"
    then have lt: "u' < u" by simp
    have v': "valid_fold_zero zd tz n' = Some u'" using o by (simp add: occurs_def)
    have "n' < n"
    proof (rule ccontr)
      assume "\<not> n' < n"
      then consider "n < n'" | "n = n'" by linarith
      then show False using assms(1) n(2) v' lt by cases (force simp: zone_rules_def)+
    qed
    let ?d' = "n' div micros_per_day"
    have "start \<le> ?d'" using occurrence_not_before_start [OF assms(1) v' a] start by simp
    moreover have "?d' \<le> d" using \<open>n' < n\<close> nd zdiv_mono1 [of n' n micros_per_day] by simp
    moreover have "d \<in> set [start..start + hz]" unfolding ds by simp
    ultimately have "?d' \<in> set [start..start + hz]" by auto
    then consider "?d' \<in> set ds1" | "?d' = d" | "?d' \<in> set ds2" unfolding ds by auto
    then show False
    proof cases
      case 1
      then have "first_after zd tz after (day_times c ?d') = None" using before o by (auto simp: occurs_def)
      then show False using o a by (auto simp: first_after_None occurs_def)
    next
      case 2
      then show False using n(4) o a \<open>n' < n\<close> by (auto simp: occurs_def)
    next
      case 3
      have "\<forall>x \<in> set ds2. d < x"
        using \<open>sorted_wrt (<) (ds1 @ d # ds2)\<close> by (simp add: sorted_wrt_append)
      with 3 \<open>?d' \<le> d\<close> show False by auto
    qed
  qed
  then show ?thesis using n nd md by (auto simp: occurs_def)
qed

lemma no_occurrence_in_horizon:
  assumes "cron_ok c" "next_occurrence zd c tz after hz = Inl NoOccurrence"
    and "occurs zd tz c n u" "after < u"
    and "n div micros_per_day \<in> set [zd_to_local zd tz after div micros_per_day ..
       zd_to_local zd tz after div micros_per_day + hz]"
  shows False
proof -
  have "search_days zd tz c after [zd_to_local zd tz after div micros_per_day ..
       zd_to_local zd tz after div micros_per_day + hz] = None"
    using assms(2) by (auto simp: next_occurrence_def bind_res_Inl resolve_scheduler_timezone_def Let_def
        split: if_splits option.splits)
  with assms(3-5) show False by (fastforce simp: search_days_None first_after_None occurs_def)
qed

text \<open>A longer horizon finds what a shorter one finds.\<close>

lemma search_days_append:
  "search_days zd tz c after (ds @ ds') = (case search_days zd tz c after ds of
     Some u \<Rightarrow> Some u | None \<Rightarrow> search_days zd tz c after ds')"
  by (induction ds) (auto split: option.splits)

lemma next_occurrence_horizon:
  assumes "next_occurrence zd c tz after hz = Inr u" "hz \<le> hz'"
  shows "next_occurrence zd c tz after hz' = Inr u"
proof -
  from next_occurrence_Inr [OF assms(1)] obtain start where
    st: "start = zd_to_local zd tz after div micros_per_day"
    and s: "search_days zd tz c after [start..start + hz] = Some u" by blast
  have pos: "0 < hz" "resolve_scheduler_timezone zd tz = Inr tz"
    using assms(1) by (auto simp: next_occurrence_def bind_res_Inr resolve_scheduler_timezone_def split: if_splits)
  have "[start..start + hz'] = [start..start + hz] @ [start + hz + 1..start + hz']"
    using assms(2) pos(1) by (intro upto_split2) auto
  with s pos st assms(2) show ?thesis
    by (simp add: next_occurrence_def Let_def search_days_append)
qed

subsection \<open>Properties\<close>

text \<open>
  C17: The next run of a schedule is exactly the next time its cron expression names. For a parsed
  expression and a zone that follows the zoneinfo rules, the instant returned is after the cursor, it
  is a matching local date and time that exists in the zone, read at its first occurrence, and no
  matching instant lies between the cursor and it; when none is reported, the days of the horizon
  have none.
\<close>

theorem next_occurrence_is_next:
  assumes "parse_cron_expression text_form = Inr c" "zone_rules zd tz"
  shows "(next_occurrence zd c tz after hz = Inr u \<longrightarrow>
      after < u \<and> (\<exists>n. occurs zd tz c n u) \<and> (\<forall>n' u'. occurs zd tz c n' u' \<longrightarrow> after < u' \<longrightarrow> u \<le> u')) \<and>
    (next_occurrence zd c tz after hz = Inl NoOccurrence \<longrightarrow>
      \<not> (\<exists>n u. occurs zd tz c n u \<and> after < u \<and>
         n div micros_per_day \<le> zd_to_local zd tz after div micros_per_day + hz))"
proof -
  have ok: "cron_ok c" using assms(1) by (rule parse_cron_ok)
  have "\<not> (\<exists>n u. occurs zd tz c n u \<and> after < u \<and>
         n div micros_per_day \<le> zd_to_local zd tz after div micros_per_day + hz)"
    if "next_occurrence zd c tz after hz = Inl NoOccurrence"
  proof
    assume "\<exists>n u. occurs zd tz c n u \<and> after < u \<and>
         n div micros_per_day \<le> zd_to_local zd tz after div micros_per_day + hz"
    then obtain n u where o: "occurs zd tz c n u" "after < u"
      "n div micros_per_day \<le> zd_to_local zd tz after div micros_per_day + hz" by blast
    have "valid_fold_zero zd tz n = Some u" using o(1) by (simp add: occurs_def)
    from occurrence_not_before_start [OF assms(2) this o(2)] o(3)
    have "n div micros_per_day \<in> set [zd_to_local zd tz after div micros_per_day ..
       zd_to_local zd tz after div micros_per_day + hz]" by simp
    from no_occurrence_in_horizon [OF ok that o(1,2) this] show False .
  qed
  then show ?thesis using next_occurrence_least [OF assms(2) ok] by blast
qed

text \<open>A zone eight hours ahead of UTC without transitions follows the rules.\<close>

definition fixed_zone :: zone_db where
  "fixed_zone = \<lparr>zd_known = (\<lambda>z. z = ''Asia/Shanghai''), zd_to_local = (\<lambda>z u. u + 28800000000),
     zd_fold = (\<lambda>z u. False), zd_from_local = (\<lambda>z n. n - 28800000000)\<rparr>"

lemma fixed_zone_rules: "zone_rules fixed_zone tz"
  by (auto simp: zone_rules_def valid_fold_zero_def fixed_zone_def)

lemma cron_example:
  "map_sum id ce_source (parse_cron_expression ''30 2  * * 1-5'') = Inr ''30 2 * * 1-5''"
  "bind_res (parse_cron_expression ''30 2  * * 1-5'') (\<lambda>c. next_occurrence fixed_zone c ''Asia/Shanghai'' 0 2)
     = Inr 66600000000"
  by code_simp+

theorem next_occurrence_is_next_witness:
  "\<exists>c. parse_cron_expression ''30 2  * * 1-5'' = Inr c \<and> (\<exists>n. occurs fixed_zone ''Asia/Shanghai'' c n 66600000000)"
proof -
  obtain c where c: "parse_cron_expression ''30 2  * * 1-5'' = Inr c"
    using cron_example(1) by (cases "parse_cron_expression ''30 2  * * 1-5''") auto
  have "next_occurrence fixed_zone c ''Asia/Shanghai'' 0 2 = Inr 66600000000"
    using cron_example(2) c by simp
  with next_occurrence_is_next [OF c fixed_zone_rules] c show ?thesis by blast
qed

lemma occurrences_increase:
  assumes "zone_rules zd tz" "cron_ok c" "occurrences_from zd c tz after n = Inr us"
  shows "length us = n \<and> sorted_wrt (<) (after # us) \<and> (\<forall>u \<in> set us. \<exists>k. occurs zd tz c k u)"
  using assms(3)
proof (induction n arbitrary: after us)
  case (Suc n)
  from Suc.prems obtain u us' where u: "next_occurrence zd c tz after default_horizon = Inr u"
    and r: "occurrences_from zd c tz u n = Inr us'" and us: "us = u # us'"
    by (auto simp: bind_res_Inr)
  with Suc.IH [OF r] next_occurrence_least [OF assms(1,2) u] show ?case by auto
qed simp

text \<open>
  The preview of a schedule is a strictly increasing list of matching instants after the given
  one, of exactly the length asked for, with nothing left out between two of them; fewer than one or
  more than a hundred are refused.
\<close>

theorem preview_is_increasing:
  assumes "next_occurrences zd text_form tz after count = Inr us" "zone_rules zd tz"
  shows "int (length us) = count \<and> 1 \<le> count \<and> count \<le> 100 \<and> sorted_wrt (<) (after # us) \<and>
    (\<exists>c. parse_cron_expression text_form = Inr c \<and> (\<forall>u \<in> set us. \<exists>n. occurs zd tz c n u) \<and>
       (\<forall>n u. occurs zd tz c n u \<longrightarrow> after < u \<longrightarrow> u \<le> last us \<longrightarrow> u \<in> set us))"
proof -
  from assms(1) obtain c where c: "parse_cron_expression text_form = Inr c" "1 \<le> count" "count \<le> 100"
    and o: "occurrences_from zd c tz after (nat count) = Inr us"
    by (auto simp: next_occurrences_def bind_res_Inr split: if_splits)
  have ok: "cron_ok c" using c(1) by (rule parse_cron_ok)
  have all: "u \<in> set us" if "occurrences_from zd c tz a k = Inr us" "occurs zd tz c n u" "a < u" "u \<le> last us" "us \<noteq> []"
    for a k n u us
    using that
  proof (induction k arbitrary: a us)
    case (Suc k)
    from Suc.prems(1) obtain v us' where v: "next_occurrence zd c tz a default_horizon = Inr v"
      and r: "occurrences_from zd c tz v k = Inr us'" and us: "us = v # us'"
      by (auto simp: bind_res_Inr)
    have "v \<le> u" using next_occurrence_least [OF assms(2) ok v] Suc.prems(2,3) by blast
    show ?case
    proof (cases "v = u \<or> us' = []")
      case True
      then show ?thesis using us Suc.prems(4) \<open>v \<le> u\<close> by auto
    next
      case False
      then have "u \<in> set us'" using \<open>v \<le> u\<close> Suc.prems(2,4) us by (intro Suc.IH [OF r]) auto
      then show ?thesis by (simp add: us)
    qed
  qed simp
  have inc: "length us = nat count \<and> sorted_wrt (<) (after # us) \<and> (\<forall>u \<in> set us. \<exists>k. occurs zd tz c k u)"
    using occurrences_increase [OF assms(2) ok o] .
  then have "us \<noteq> []" using c(2) by auto
  with all [OF o] inc c show ?thesis by auto
qed

definition daily :: cron_expression where
  "daily = \<lparr>ce_minute = \<lparr>cf_values = [0], cf_wildcard = False\<rparr>,
     ce_hour = \<lparr>cf_values = [8], cf_wildcard = False\<rparr>,
     ce_day_of_month = \<lparr>cf_values = [1..31], cf_wildcard = True\<rparr>,
     ce_month = \<lparr>cf_values = [1..12], cf_wildcard = True\<rparr>,
     ce_day_of_week = \<lparr>cf_values = [0..6], cf_wildcard = True\<rparr>, ce_source = ''0 8 * * *''\<rparr>"

lemma daily_parsed: "parse_cron_expression ''0 8 * * *'' = Inr daily"
  by code_simp

lemma daily_first: "next_occurrence fixed_zone daily ''Asia/Shanghai'' 0 1 = Inr 86400000000"
  by code_simp

lemma daily_second: "next_occurrence fixed_zone daily ''Asia/Shanghai'' 86400000000 1 = Inr 172800000000"
  by code_simp

lemma preview_example:
  "next_occurrences fixed_zone ''0 8 * * *'' ''Asia/Shanghai'' 0 2 = Inr [86400000000, 172800000000]"
proof -
  have "next_occurrence fixed_zone daily ''Asia/Shanghai'' 0 default_horizon = Inr 86400000000"
    by (rule next_occurrence_horizon [OF daily_first]) (simp add: default_horizon_def)
  moreover have "next_occurrence fixed_zone daily ''Asia/Shanghai'' 86400000000 default_horizon = Inr 172800000000"
    by (rule next_occurrence_horizon [OF daily_second]) (simp add: default_horizon_def)
  ultimately show ?thesis by (simp add: next_occurrences_def numeral_2_eq_2 daily_parsed)
qed

theorem preview_is_increasing_witness:
  "sorted_wrt (<) [0::int, 86400000000, 172800000000]"
  using preview_is_increasing [OF preview_example fixed_zone_rules] by simp

end
