(* ===== verification/SchedulerSchema.thy ===== *)
theory SchedulerSchema
  imports Cron "HOL-Library.Monad_Syntax"
begin

section \<open>Schedule payloads\<close>

text \<open>
  Models app/scheduler/schema.py (and \<open>RuntimeInputs\<close> of app/workflows/schema.py): what the pydantic
  models accept of a JSON value and how a target is written back to its row. The models forbid
  unknown keys and are strict, so a value of another JSON type is rejected and never converted; a
  key that is absent takes its default. Validation yields \<open>None\<close> when pydantic raises.
\<close>

record runtime_inputs =
  ri_root_ids :: "int list option"
  ri_scan_job_id :: "int option"

datatype schedule_target =
    IndexRootTarget int
  | FclonesScanTarget "string list" bool "string option" "string list option" "string list option"
  | MediaAnalysisTarget "string list"
  | MediaIntegrityTarget "string list"
  | WorkflowTarget int int string string "runtime_inputs option"

definition target_type :: "schedule_target \<Rightarrow> string" where
  "target_type t = (case t of
      IndexRootTarget _ \<Rightarrow> ''index_root''
    | FclonesScanTarget _ _ _ _ _ \<Rightarrow> ''fclones_scan''
    | MediaAnalysisTarget _ \<Rightarrow> ''media_analysis''
    | MediaIntegrityTarget _ \<Rightarrow> ''media_integrity_verification''
    | WorkflowTarget _ _ _ _ _ \<Rightarrow> ''workflow'')"

subsection \<open>Strict fields\<close>

type_synonym fields = "(string \<times> json) list"

definition only_keys :: "string list \<Rightarrow> fields \<Rightarrow> bool" where
  "only_keys ks kvs = list_all (\<lambda>kv. fst kv \<in> set ks) kvs"

definition required :: "(json \<Rightarrow> 'a option) \<Rightarrow> fields \<Rightarrow> string \<Rightarrow> 'a option" where
  "required p kvs k = (case map_of kvs k of None \<Rightarrow> None | Some v \<Rightarrow> p v)"

definition defaulted :: "(json \<Rightarrow> 'a option) \<Rightarrow> 'a \<Rightarrow> fields \<Rightarrow> string \<Rightarrow> 'a option" where
  "defaulted p x kvs k = (case map_of kvs k of None \<Rightarrow> Some x | Some v \<Rightarrow> p v)"

definition nullable :: "(json \<Rightarrow> 'a option) \<Rightarrow> json \<Rightarrow> 'a option option" where
  "nullable p v = (if v = JNull then Some None else map_option Some (p v))"

definition p_positive :: "json \<Rightarrow> int option" where
  "p_positive v = (case v of JInt n \<Rightarrow> if n > 0 then Some n else None | _ \<Rightarrow> None)"

definition p_bool :: "json \<Rightarrow> bool option" where
  "p_bool v = (case v of JBool b \<Rightarrow> Some b | _ \<Rightarrow> None)"

definition p_text :: "nat \<Rightarrow> nat \<Rightarrow> json \<Rightarrow> string option" where
  "p_text lo hi v = (case v of JStr s \<Rightarrow> if lo \<le> length s \<and> length s \<le> hi then Some s else None | _ \<Rightarrow> None)"

definition p_literal :: "string list \<Rightarrow> json \<Rightarrow> string option" where
  "p_literal xs v = (case v of JStr s \<Rightarrow> if s \<in> set xs then Some s else None | _ \<Rightarrow> None)"

fun all_some :: "'a option list \<Rightarrow> 'a list option" where
  "all_some [] = Some []"
| "all_some (x # xs) = (case x of None \<Rightarrow> None | Some y \<Rightarrow> map_option (Cons y) (all_some xs))"

definition p_text_list :: "nat \<Rightarrow> json \<Rightarrow> string list option" where
  "p_text_list lo v = (case v of
      JList vs \<Rightarrow> if lo \<le> length vs \<and> length vs \<le> 100
        then all_some (map (\<lambda>x. case x of JStr s \<Rightarrow> Some s | _ \<Rightarrow> None) vs) else None
    | _ \<Rightarrow> None)"

text \<open>The validators: stripped, not blank, and for roots unique.\<close>

definition validate_patterns :: "string list \<Rightarrow> string list option" where
  "validate_patterns values =
     (let cleaned = map py_strip values in if list_ex (\<lambda>v. v = []) cleaned then None else Some cleaned)"

definition validate_roots :: "string list \<Rightarrow> string list option" where
  "validate_roots values =
     (let cleaned = map py_strip values
      in if list_ex (\<lambda>v. v = []) cleaned then None
         else if \<not> distinct cleaned then None else Some cleaned)"

definition p_roots :: "json \<Rightarrow> string list option" where
  "p_roots v = p_text_list 1 v \<bind> validate_roots"

definition p_patterns :: "json \<Rightarrow> string list option option" where
  "p_patterns = nullable (\<lambda>v. p_text_list 0 v \<bind> validate_patterns)"

definition is_hex :: "char \<Rightarrow> bool" where
  "is_hex c \<longleftrightarrow> is_digit c \<or> (CHR ''a'' \<le> c \<and> c \<le> CHR ''f'') \<or> (CHR ''A'' \<le> c \<and> c \<le> CHR ''F'')"

definition p_sha256 :: "json \<Rightarrow> string option" where
  "p_sha256 v = p_text 64 64 v \<bind> (\<lambda>s. if list_all is_hex s then Some (py_lower s) else None)"

definition p_root_ids :: "json \<Rightarrow> int list option option" where
  "p_root_ids = nullable (\<lambda>v. case v of JList vs \<Rightarrow> all_some (map p_positive vs) | _ \<Rightarrow> None)"

definition p_runtime_inputs :: "json \<Rightarrow> runtime_inputs option" where
  "p_runtime_inputs v = (case v of
      JObj kvs \<Rightarrow>
        if \<not> only_keys [''root_ids'', ''scan_job_id''] kvs then None
        else do {
          ids \<leftarrow> defaulted p_root_ids None kvs ''root_ids'';
          scan \<leftarrow> defaulted (nullable p_positive) None kvs ''scan_job_id'';
          Some \<lparr>ri_root_ids = ids, ri_scan_job_id = scan\<rparr>
        }
    | _ \<Rightarrow> None)"

subsection \<open>Targets\<close>

definition p_index_root :: "fields \<Rightarrow> schedule_target option" where
  "p_index_root kvs =
     (if \<not> only_keys [''type'', ''root_id''] kvs then None
      else map_option IndexRootTarget (required p_positive kvs ''root_id''))"

definition p_fclones_scan :: "fields \<Rightarrow> schedule_target option" where
  "p_fclones_scan kvs =
     (if \<not> only_keys [''type'', ''roots'', ''isolate'', ''min_size'', ''name_patterns'', ''exclude_patterns''] kvs
      then None
      else do {
        roots \<leftarrow> required p_roots kvs ''roots'';
        isolate \<leftarrow> defaulted p_bool False kvs ''isolate'';
        min_size \<leftarrow> defaulted (nullable (p_text 0 128)) None kvs ''min_size'';
        names \<leftarrow> defaulted p_patterns None kvs ''name_patterns'';
        excludes \<leftarrow> defaulted p_patterns None kvs ''exclude_patterns'';
        Some (FclonesScanTarget roots isolate min_size names excludes)
      })"

definition p_media :: "(string list \<Rightarrow> schedule_target) \<Rightarrow> fields \<Rightarrow> schedule_target option" where
  "p_media mk kvs =
     (if \<not> only_keys [''type'', ''root_keys''] kvs then None
      else map_option mk (required p_roots kvs ''root_keys''))"

definition p_workflow :: "fields \<Rightarrow> schedule_target option" where
  "p_workflow kvs =
     (if \<not> only_keys [''type'', ''workflow_id'', ''workflow_revision'', ''definition_sha256'', ''action'', ''runtime_inputs''] kvs
      then None
      else do {
        wid \<leftarrow> required p_positive kvs ''workflow_id'';
        number \<leftarrow> required p_positive kvs ''workflow_revision'';
        sha \<leftarrow> required p_sha256 kvs ''definition_sha256'';
        action \<leftarrow> defaulted (p_literal [''preview'', ''draft'']) ''preview'' kvs ''action'';
        inputs \<leftarrow> defaulted (nullable p_runtime_inputs) None kvs ''runtime_inputs'';
        Some (WorkflowTarget wid number sha action inputs)
      })"

definition p_target :: "json \<Rightarrow> schedule_target option" where
  "p_target v = (case v of
      JObj kvs \<Rightarrow> (case map_of kvs ''type'' of
          Some (JStr t) \<Rightarrow>
            if t = ''index_root'' then p_index_root kvs
            else if t = ''fclones_scan'' then p_fclones_scan kvs
            else if t = ''media_analysis'' then p_media MediaAnalysisTarget kvs
            else if t = ''media_integrity_verification'' then p_media MediaIntegrityTarget kvs
            else if t = ''workflow'' then p_workflow kvs
            else None
        | _ \<Rightarrow> None)
    | _ \<Rightarrow> None)"

subsection \<open>Writing a target\<close>

definition j_opt :: "('a \<Rightarrow> json) \<Rightarrow> 'a option \<Rightarrow> json" where
  "j_opt f x = (case x of None \<Rightarrow> JNull | Some y \<Rightarrow> f y)"

definition j_strs :: "string list \<Rightarrow> json" where "j_strs xs = JList (map JStr xs)"
definition j_ints :: "int list \<Rightarrow> json" where "j_ints xs = JList (map JInt xs)"

definition dump_runtime_inputs :: "runtime_inputs \<Rightarrow> json" where
  "dump_runtime_inputs r = JObj [(''root_ids'', j_opt j_ints (ri_root_ids r)),
     (''scan_job_id'', j_opt JInt (ri_scan_job_id r))]"

definition dump_target :: "schedule_target \<Rightarrow> json" where
  "dump_target t = (case t of
      IndexRootTarget i \<Rightarrow> JObj [(''type'', JStr (target_type t)), (''root_id'', JInt i)]
    | FclonesScanTarget roots isolate min_size names excludes \<Rightarrow>
        JObj [(''type'', JStr (target_type t)), (''roots'', j_strs roots), (''isolate'', JBool isolate),
          (''min_size'', j_opt JStr min_size), (''name_patterns'', j_opt j_strs names),
          (''exclude_patterns'', j_opt j_strs excludes)]
    | MediaAnalysisTarget keys \<Rightarrow> JObj [(''type'', JStr (target_type t)), (''root_keys'', j_strs keys)]
    | MediaIntegrityTarget keys \<Rightarrow> JObj [(''type'', JStr (target_type t)), (''root_keys'', j_strs keys)]
    | WorkflowTarget wid number sha action inputs \<Rightarrow>
        JObj [(''type'', JStr (target_type t)), (''workflow_id'', JInt wid), (''workflow_revision'', JInt number),
          (''definition_sha256'', JStr sha), (''action'', JStr action),
          (''runtime_inputs'', j_opt dump_runtime_inputs inputs)])"

text \<open>\<open>json.dumps(..., sort_keys=True)\<close> orders the keys of every object.\<close>

fun sort_keys :: "json \<Rightarrow> json" where
  "sort_keys (JList xs) = JList (map sort_keys xs)"
| "sort_keys (JObj kvs) = JObj (sort_key fst (map (\<lambda>kv. (fst kv, sort_keys (snd kv))) kvs))"
| "sort_keys v = v"

definition canonical_target_json :: "schedule_target \<Rightarrow> json_text" where
  "canonical_target_json t = Text (sort_keys (dump_target t))"

subsection \<open>Creating and updating\<close>

record schedule_create =
  cr_name :: string
  cr_description :: string
  cr_enabled :: bool
  cr_target :: schedule_target
  cr_cron_expression :: string
  cr_timezone :: string
  cr_overlap_policy :: string
  cr_missed_run_policy :: string

text \<open>An update names the revision it was made from; a field that is absent or null stays.\<close>

record schedule_update =
  up_expected_revision :: int
  up_name :: "string option"
  up_description :: "string option"
  up_enabled :: "bool option"
  up_target :: "schedule_target option"
  up_cron_expression :: "string option"
  up_timezone :: "string option"
  up_overlap_policy :: "string option"
  up_missed_run_policy :: "string option"

definition p_name :: "json \<Rightarrow> string option" where
  "p_name v = p_text 1 128 v \<bind> (\<lambda>s. if py_strip s = [] then None else Some (py_strip s))"

definition p_cron :: "json \<Rightarrow> string option" where
  "p_cron v = p_text 1 128 v \<bind> (\<lambda>s. case parse_cron_expression s of Inl _ \<Rightarrow> None | Inr c \<Rightarrow> Some (ce_source c))"

definition p_timezone :: "zone_db \<Rightarrow> json \<Rightarrow> string option" where
  "p_timezone zd v = p_text 1 64 v \<bind>
     (\<lambda>s. case resolve_scheduler_timezone zd s of Inl _ \<Rightarrow> None | Inr z \<Rightarrow> Some s)"

definition p_create :: "zone_db \<Rightarrow> json \<Rightarrow> schedule_create option" where
  "p_create zd v = (case v of
      JObj kvs \<Rightarrow>
        if \<not> only_keys [''name'', ''description'', ''enabled'', ''target'', ''cron_expression'', ''timezone'',
             ''overlap_policy'', ''missed_run_policy''] kvs then None
        else do {
          name \<leftarrow> required p_name kvs ''name'';
          description \<leftarrow> defaulted (p_text 0 2000) [] kvs ''description'';
          enabled \<leftarrow> defaulted p_bool True kvs ''enabled'';
          target \<leftarrow> required p_target kvs ''target'';
          cron \<leftarrow> required p_cron kvs ''cron_expression'';
          zone \<leftarrow> required (p_timezone zd) kvs ''timezone'';
          overlap \<leftarrow> defaulted (p_literal [''skip_if_active'']) ''skip_if_active'' kvs ''overlap_policy'';
          missed \<leftarrow> defaulted (p_literal [''skip'']) ''skip'' kvs ''missed_run_policy'';
          Some \<lparr>cr_name = name, cr_description = description, cr_enabled = enabled, cr_target = target,
                cr_cron_expression = cron, cr_timezone = zone, cr_overlap_policy = overlap,
                cr_missed_run_policy = missed\<rparr>
        }
    | _ \<Rightarrow> None)"

definition p_update :: "zone_db \<Rightarrow> json \<Rightarrow> schedule_update option" where
  "p_update zd v = (case v of
      JObj kvs \<Rightarrow>
        if \<not> only_keys [''expected_revision'', ''name'', ''description'', ''enabled'', ''target'',
             ''cron_expression'', ''timezone'', ''overlap_policy'', ''missed_run_policy''] kvs then None
        else do {
          expected \<leftarrow> required p_positive kvs ''expected_revision'';
          name \<leftarrow> defaulted (nullable p_name) None kvs ''name'';
          description \<leftarrow> defaulted (nullable (p_text 0 2000)) None kvs ''description'';
          enabled \<leftarrow> defaulted (nullable p_bool) None kvs ''enabled'';
          target \<leftarrow> defaulted (nullable p_target) None kvs ''target'';
          cron \<leftarrow> defaulted (nullable p_cron) None kvs ''cron_expression'';
          zone \<leftarrow> defaulted (nullable (p_timezone zd)) None kvs ''timezone'';
          overlap \<leftarrow> defaulted (nullable (p_literal [''skip_if_active''])) None kvs ''overlap_policy'';
          missed \<leftarrow> defaulted (nullable (p_literal [''skip''])) None kvs ''missed_run_policy'';
          Some \<lparr>up_expected_revision = expected, up_name = name, up_description = description,
                up_enabled = enabled, up_target = target, up_cron_expression = cron, up_timezone = zone,
                up_overlap_policy = overlap, up_missed_run_policy = missed\<rparr>
        }
    | _ \<Rightarrow> None)"

subsection \<open>A stored target is read back\<close>

definition strs_ok :: "string list \<Rightarrow> bool" where
  "strs_ok xs \<longleftrightarrow> length xs \<le> 100 \<and> (\<forall>x \<in> set xs. x \<noteq> [] \<and> py_strip x = x)"

definition opt_ok :: "('a \<Rightarrow> bool) \<Rightarrow> 'a option \<Rightarrow> bool" where
  "opt_ok p x \<longleftrightarrow> (case x of None \<Rightarrow> True | Some y \<Rightarrow> p y)"

definition inputs_ok :: "runtime_inputs \<Rightarrow> bool" where
  "inputs_ok r \<longleftrightarrow> opt_ok (list_all (\<lambda>i. 0 < i)) (ri_root_ids r) \<and> opt_ok (\<lambda>i. 0 < i) (ri_scan_job_id r)"

definition roots_ok :: "string list \<Rightarrow> bool" where
  "roots_ok xs \<longleftrightarrow> strs_ok xs \<and> xs \<noteq> [] \<and> distinct xs"

definition target_ok :: "schedule_target \<Rightarrow> bool" where
  "target_ok t = (case t of
      IndexRootTarget i \<Rightarrow> 0 < i
    | FclonesScanTarget roots isolate min_size names excludes \<Rightarrow>
        roots_ok roots \<and> opt_ok (\<lambda>s. length s \<le> 128) min_size \<and> opt_ok strs_ok names \<and> opt_ok strs_ok excludes
    | MediaAnalysisTarget keys \<Rightarrow> roots_ok keys
    | MediaIntegrityTarget keys \<Rightarrow> roots_ok keys
    | WorkflowTarget wid number sha action inputs \<Rightarrow>
        0 < wid \<and> 0 < number \<and> length sha = 64 \<and> list_all is_hex sha \<and> py_lower sha = sha \<and>
        action \<in> {''preview'', ''draft''} \<and> opt_ok inputs_ok inputs)"

lemma dropWhile_idem: "dropWhile P (dropWhile P xs) = dropWhile P xs"
  by (induction xs) auto

lemma dropWhile_last: "dropWhile P xs = xs \<Longrightarrow> dropWhile P (rev (dropWhile P (rev xs))) = rev (dropWhile P (rev xs))"
proof -
  assume a: "dropWhile P xs = xs"
  show ?thesis
  proof (cases "rev (dropWhile P (rev xs))")
    case (Cons y ys)
    then have "dropWhile P (rev xs) = rev ys @ [y]" by (simp add: rev_swap)
    then obtain zs where "rev xs = zs @ rev ys @ [y]" by (metis takeWhile_dropWhile_id)
    then have "xs = y # ys @ rev zs" by (simp add: rev_swap)
    with a have "\<not> P y" by (auto split: if_splits) (metis dropWhile_eq_Cons_conv)
    with Cons show ?thesis by simp
  next
    case Nil
    then show ?thesis by (simp only: dropWhile.simps)
  qed
qed

lemma strip_strip: "py_strip (py_strip s) = py_strip s"
  by (simp add: py_strip_def dropWhile_last dropWhile_idem)

lemma lower_lower: "py_lower (py_lower s) = py_lower s"
proof -
  have "lower_char (lower_char c) = lower_char c" for c
    by (auto simp: lower_char_def Let_def)
  then show ?thesis by (simp add: py_lower_def)
qed

lemma lower_hex: "is_hex c \<Longrightarrow> is_hex (lower_char c)"
  by (auto simp: is_hex_def is_digit_def lower_char_def less_eq_char_def Let_def)

lemma all_some_iff: "all_some (map f xs) = Some ys \<longleftrightarrow> list_all2 (\<lambda>x y. f x = Some y) xs ys"
  by (induction xs arbitrary: ys) (auto simp: list_all2_Cons1 split: option.splits)

lemma all_some_map: "(\<And>x. x \<in> set xs \<Longrightarrow> f (g x) = Some x) \<Longrightarrow> all_some (map f (map g xs)) = Some xs"
  by (induction xs) auto

lemma p_text_list_len: "p_text_list lo v = Some xs \<Longrightarrow> lo \<le> length xs \<and> length xs \<le> 100"
  by (auto simp: p_text_list_def all_some_iff split: json.splits if_splits dest: list_all2_lengthD)

lemma validate_patterns_ok: "validate_patterns xs = Some ys \<Longrightarrow> length xs \<le> 100 \<Longrightarrow> strs_ok ys"
  by (auto simp: validate_patterns_def strs_ok_def Let_def list_ex_iff strip_strip split: if_splits)

lemma validate_patterns_id: "strs_ok xs \<Longrightarrow> validate_patterns xs = Some xs"
  by (auto simp: validate_patterns_def strs_ok_def Let_def list_ex_iff map_idI)

lemma validate_roots_ok:
  "validate_roots xs = Some ys \<Longrightarrow> 1 \<le> length xs \<Longrightarrow> length xs \<le> 100 \<Longrightarrow> roots_ok ys"
  by (auto simp: validate_roots_def roots_ok_def strs_ok_def Let_def list_ex_iff strip_strip split: if_splits)

lemma validate_roots_id: "roots_ok xs \<Longrightarrow> validate_roots xs = Some xs"
  by (auto simp: validate_roots_def roots_ok_def strs_ok_def Let_def list_ex_iff map_idI)

lemma p_text_list_strs: "lo \<le> length xs \<Longrightarrow> length xs \<le> 100 \<Longrightarrow> p_text_list lo (j_strs xs) = Some xs"
  using all_some_map [of xs "\<lambda>x. case x of JStr s \<Rightarrow> Some s | _ \<Rightarrow> None" JStr]
  by (simp add: p_text_list_def j_strs_def)

lemma sort_keys_leaf [simp]:
  "sort_keys (j_strs xs) = j_strs xs" "sort_keys (j_ints is) = j_ints is"
  "sort_keys (j_opt f x) = j_opt (\<lambda>y. sort_keys (f y)) x"
  by (simp_all add: j_strs_def j_ints_def j_opt_def split: option.splits)

lemma p_roots_strs: "roots_ok xs \<Longrightarrow> p_roots (j_strs xs) = Some xs"
  by (simp add: p_roots_def p_text_list_strs validate_roots_id roots_ok_def strs_ok_def Suc_le_eq)

lemma p_patterns_strs: "opt_ok strs_ok x \<Longrightarrow> p_patterns (j_opt j_strs x) = Some x"
  using p_text_list_strs [of 0] by (cases x) (auto simp: p_patterns_def nullable_def j_opt_def opt_ok_def
      validate_patterns_id strs_ok_def j_strs_def)

lemma nullable_opt: "opt_ok (\<lambda>y. f y \<noteq> JNull \<and> p (f y) = Some y) x \<Longrightarrow> nullable p (j_opt f x) = Some x"
  by (cases x) (auto simp: nullable_def j_opt_def opt_ok_def)

lemma p_inputs_dump: "inputs_ok r \<Longrightarrow> p_runtime_inputs (sort_keys (dump_runtime_inputs r)) = Some r"
proof -
  assume r: "inputs_ok r"
  have ids: "p_root_ids (j_opt j_ints (ri_root_ids r)) = Some (ri_root_ids r)"
    using r all_some_map [where f = p_positive and g = JInt] unfolding p_root_ids_def
    by (intro nullable_opt) (auto simp: inputs_ok_def opt_ok_def j_ints_def p_positive_def list_all_iff split: option.splits)
  have scan: "nullable p_positive (j_opt JInt (ri_scan_job_id r)) = Some (ri_scan_job_id r)"
    using r by (intro nullable_opt) (auto simp: inputs_ok_def opt_ok_def p_positive_def split: option.splits)
  show ?thesis
    using ids scan by (simp add: p_runtime_inputs_def dump_runtime_inputs_def only_keys_def defaulted_def)
qed

lemma dump_not_null: "sort_keys (dump_runtime_inputs r) \<noteq> JNull"
  by (simp add: dump_runtime_inputs_def)

lemma p_sha256_id: "length s = 64 \<Longrightarrow> list_all is_hex s \<Longrightarrow> py_lower s = s \<Longrightarrow> p_sha256 (JStr s) = Some s"
  by (simp add: p_sha256_def p_text_def)

lemma p_target_dump:
  assumes ok: "target_ok t"
  shows "p_target (sort_keys (dump_target t)) = Some t"
proof (cases t)
  case (IndexRootTarget i)
  then show ?thesis using ok
    by (simp add: dump_target_def target_type_def p_target_def p_index_root_def only_keys_def required_def
        p_positive_def target_ok_def)
next
  case (FclonesScanTarget roots isolate min_size names excludes)
  have "nullable (p_text 0 128) (j_opt JStr min_size) = Some min_size"
    using ok FclonesScanTarget by (intro nullable_opt) (auto simp: target_ok_def opt_ok_def p_text_def split: option.splits)
  then show ?thesis using ok FclonesScanTarget
    by (simp add: dump_target_def target_type_def p_target_def p_fclones_scan_def only_keys_def required_def
        defaulted_def p_bool_def target_ok_def p_roots_strs p_patterns_strs)
next
  case (MediaAnalysisTarget keys)
  then show ?thesis using ok
    by (simp add: dump_target_def target_type_def p_target_def p_media_def only_keys_def required_def
        target_ok_def p_roots_strs)
next
  case (MediaIntegrityTarget keys)
  then show ?thesis using ok
    by (simp add: dump_target_def target_type_def p_target_def p_media_def only_keys_def required_def
        target_ok_def p_roots_strs)
next
  case (WorkflowTarget wid number sha action inputs)
  have "nullable p_runtime_inputs (j_opt (\<lambda>y. sort_keys (dump_runtime_inputs y)) inputs) = Some inputs"
    using ok WorkflowTarget by (intro nullable_opt)
      (auto simp: target_ok_def opt_ok_def p_inputs_dump dump_not_null split: option.splits)
  then show ?thesis using ok WorkflowTarget
    by (auto simp: dump_target_def target_type_def p_target_def p_workflow_def only_keys_def required_def
        defaulted_def target_ok_def p_positive_def p_sha256_id p_literal_def)
qed

text \<open>What the reader accepts satisfies the constraints of the models.\<close>

lemma p_positive_Some: "p_positive v = Some n \<longleftrightarrow> v = JInt n \<and> 0 < n"
  by (auto simp: p_positive_def split: json.splits)

lemma p_roots_ok: "p_roots v = Some xs \<Longrightarrow> roots_ok xs"
  by (auto simp: p_roots_def bind_eq_Some_conv dest!: p_text_list_len intro: validate_roots_ok)

lemma nullable_ok: "nullable p v = Some x \<Longrightarrow> (\<And>y. p v = Some y \<Longrightarrow> q y) \<Longrightarrow> opt_ok q x"
  by (auto simp: nullable_def opt_ok_def split: if_splits)

lemma p_patterns_ok: "p_patterns v = Some x \<Longrightarrow> opt_ok strs_ok x"
  unfolding p_patterns_def
  by (erule nullable_ok) (auto simp: bind_eq_Some_conv dest!: p_text_list_len intro: validate_patterns_ok)

lemma defaulted_ok: "defaulted p x kvs k = Some y \<Longrightarrow> q x \<Longrightarrow> (\<And>v. p v = Some y \<Longrightarrow> q y) \<Longrightarrow> q y"
  by (auto simp: defaulted_def split: option.splits)

lemma required_ok: "required p kvs k = Some y \<Longrightarrow> (\<And>v. p v = Some y \<Longrightarrow> q y) \<Longrightarrow> q y"
  by (auto simp: required_def split: option.splits)

lemma p_text_Some: "p_text lo hi v = Some s \<longleftrightarrow> v = JStr s \<and> lo \<le> length s \<and> length s \<le> hi"
  by (auto simp: p_text_def split: json.splits)

lemma p_sha256_ok: "p_sha256 v = Some s \<Longrightarrow> length s = 64 \<and> list_all is_hex s \<and> py_lower s = s"
proof -
  assume "p_sha256 v = Some s"
  then obtain u where "length u = 64" "list_all is_hex u" "s = py_lower u"
    by (auto simp: p_sha256_def bind_eq_Some_conv p_text_Some split: if_splits)
  then show ?thesis using lower_lower [of u] by (auto simp: list_all_iff py_lower_def lower_hex)
qed

lemma p_root_ids_ok: "p_root_ids v = Some x \<Longrightarrow> opt_ok (list_all (\<lambda>i. 0 < i)) x"
  unfolding p_root_ids_def
  by (erule nullable_ok) (auto simp: all_some_iff list_all2_conv_all_nth list_all_length p_positive_Some split: json.splits)

lemma p_inputs_ok: "p_runtime_inputs v = Some r \<Longrightarrow> inputs_ok r"
proof -
  assume "p_runtime_inputs v = Some r"
  then obtain kvs ids scan where i: "defaulted p_root_ids None kvs ''root_ids'' = Some ids"
    and s: "defaulted (nullable p_positive) None kvs ''scan_job_id'' = Some scan"
    and r: "r = \<lparr>ri_root_ids = ids, ri_scan_job_id = scan\<rparr>"
    by (auto simp: p_runtime_inputs_def bind_eq_Some_conv split: json.splits if_splits)
  have "opt_ok (list_all (\<lambda>i. 0 < i)) ids"
    by (rule defaulted_ok [OF i], simp add: opt_ok_def, rule p_root_ids_ok)
  moreover have "opt_ok (\<lambda>i. 0 < i) scan"
    by (rule defaulted_ok [OF s]) (auto simp: opt_ok_def nullable_def p_positive_Some split: if_splits option.splits)
  ultimately show ?thesis using r by (simp add: inputs_ok_def)
qed

lemma p_target_ok: "p_target v = Some t \<Longrightarrow> target_ok t"
proof -
  assume "p_target v = Some t"
  then consider (index) kvs where "p_index_root kvs = Some t" | (scan) kvs where "p_fclones_scan kvs = Some t"
    | (analysis) kvs where "p_media MediaAnalysisTarget kvs = Some t"
    | (integrity) kvs where "p_media MediaIntegrityTarget kvs = Some t"
    | (workflow) kvs where "p_workflow kvs = Some t"
    by (auto simp: p_target_def split: json.splits option.splits if_splits)
  then show ?thesis
  proof cases
    case index
    then show ?thesis by (auto simp: p_index_root_def required_def p_positive_Some target_ok_def split: if_splits option.splits)
  next
    case scan
    then obtain roots isolate min_size names excludes where t: "t = FclonesScanTarget roots isolate min_size names excludes"
      and p: "required p_roots kvs ''roots'' = Some roots" "defaulted (nullable (p_text 0 128)) None kvs ''min_size'' = Some min_size"
        "defaulted p_patterns None kvs ''name_patterns'' = Some names" "defaulted p_patterns None kvs ''exclude_patterns'' = Some excludes"
      by (auto simp: p_fclones_scan_def bind_eq_Some_conv split: if_splits)
    have "roots_ok roots" by (rule required_ok [OF p(1)]) (rule p_roots_ok)
    moreover have "opt_ok (\<lambda>s. length s \<le> 128) min_size"
      by (rule defaulted_ok [OF p(2)]) (auto simp: opt_ok_def p_text_Some nullable_def split: if_splits option.splits)
    moreover have "opt_ok strs_ok names"
      by (rule defaulted_ok [OF p(3)]) (simp_all add: p_patterns_ok, simp add: opt_ok_def)
    moreover have "opt_ok strs_ok excludes"
      by (rule defaulted_ok [OF p(4)]) (simp_all add: p_patterns_ok, simp add: opt_ok_def)
    ultimately show ?thesis by (simp add: t target_ok_def)
  next
    case analysis
    then show ?thesis by (auto simp: p_media_def required_def target_ok_def p_roots_ok split: if_splits option.splits)
  next
    case integrity
    then show ?thesis by (auto simp: p_media_def required_def target_ok_def p_roots_ok split: if_splits option.splits)
  next
    case workflow
    then obtain wid number sha action inputs where t: "t = WorkflowTarget wid number sha action inputs"
      and p: "required p_positive kvs ''workflow_id'' = Some wid" "required p_positive kvs ''workflow_revision'' = Some number"
        "required p_sha256 kvs ''definition_sha256'' = Some sha"
        "defaulted (p_literal [''preview'', ''draft'']) ''preview'' kvs ''action'' = Some action"
        "defaulted (nullable p_runtime_inputs) None kvs ''runtime_inputs'' = Some inputs"
      by (auto simp: p_workflow_def bind_eq_Some_conv split: if_splits)
    have "0 < wid" by (rule required_ok [OF p(1)]) (simp add: p_positive_Some)
    moreover have "0 < number" by (rule required_ok [OF p(2)]) (simp add: p_positive_Some)
    moreover have "length sha = 64 \<and> list_all is_hex sha \<and> py_lower sha = sha"
      by (rule required_ok [OF p(3)]) (rule p_sha256_ok)
    moreover have "action \<in> {''preview'', ''draft''}"
      by (rule defaulted_ok [OF p(4)]) (auto simp: p_literal_def split: json.splits if_splits)
    moreover have "opt_ok inputs_ok inputs"
      by (rule defaulted_ok [OF p(5)]) (auto simp: opt_ok_def nullable_def p_inputs_ok split: if_splits option.splits)
    ultimately show ?thesis by (simp add: t target_ok_def)
  qed
qed

subsection \<open>Properties\<close>

text \<open>
  C19: A validated target survives its row. Whatever JSON a target was read from (defaults filled
  in, strings stripped, the digest in lower case), it satisfies the constraints of its model, the
  text stored for it reads back as the same target.
\<close>

theorem stored_target_reads_back:
  assumes "p_target v = Some t"
  shows "target_ok t \<and> p_target (sort_keys (dump_target t)) = Some t \<and>
    (case t of FclonesScanTarget roots _ _ _ _ \<Rightarrow> distinct roots \<and> (\<forall>r \<in> set roots. r \<noteq> [])
             | WorkflowTarget _ _ sha _ _ \<Rightarrow> length sha = 64 \<and> py_lower sha = sha | _ \<Rightarrow> True)"
proof -
  have ok: "target_ok t" using assms by (rule p_target_ok)
  then have "case t of FclonesScanTarget roots _ _ _ _ \<Rightarrow> distinct roots \<and> (\<forall>r \<in> set roots. r \<noteq> [])
             | WorkflowTarget _ _ sha _ _ \<Rightarrow> length sha = 64 \<and> py_lower sha = sha | _ \<Rightarrow> True"
    by (auto simp: target_ok_def roots_ok_def strs_ok_def split: schedule_target.splits)
  with ok p_target_dump [OF ok] show ?thesis by simp
qed

theorem stored_target_reads_back_witness:
  "p_target (sort_keys (dump_target (FclonesScanTarget [''/data/a'', ''/data/b''] True None None (Some [''*.tmp'']))))
     = Some (FclonesScanTarget [''/data/a'', ''/data/b''] True None None (Some [''*.tmp'']))"
proof -
  have "p_target (JObj [(''roots'', JList [JStr '' /data/a'', JStr ''/data/b '']), (''type'', JStr ''fclones_scan''),
      (''exclude_patterns'', JList [JStr '' *.tmp'']), (''isolate'', JBool True)])
    = Some (FclonesScanTarget [''/data/a'', ''/data/b''] True None None (Some [''*.tmp'']))"
    by code_simp
  from stored_target_reads_back [OF this] show ?thesis by blast
qed

end
