(* ===== verification/Lease.thy ===== *)
theory Lease
  imports Prelude
begin

section \<open>Exclusive leases\<close>

text \<open>
  The contract shared by the two leases of the program: the worker's lease on the task queue
  (app/tasks/recovery.py) and the scheduler's (app/scheduler/service.py). A client may acquire and
  renew; \<open>holds s w t\<close> is the fence the other operations assert, and \<open>covers t t'\<close> says that a
  lease written at \<open>t\<close> is still good at \<open>t'\<close>. Each provider discharges the laws on its own
  definitions; the consequences for runs of many clients are proved here, once.
\<close>

locale exclusive_lease =
  fixes holds :: "'s \<Rightarrow> string \<Rightarrow> time \<Rightarrow> bool"
    and acquire :: "string \<Rightarrow> time \<Rightarrow> 's \<Rightarrow> 's \<times> bool"
    and renew :: "string \<Rightarrow> time \<Rightarrow> 's \<Rightarrow> 's \<times> bool"
    and covers :: "time \<Rightarrow> time \<Rightarrow> bool"
  assumes holder_unique: "holds s w t \<Longrightarrow> holds s w' t' \<Longrightarrow> w' = w"
    and acquire_busy: "holds s w t \<Longrightarrow> w' \<noteq> w \<Longrightarrow> acquire w' t s = (s, False)"
    and acquire_refused: "\<not> snd (acquire w t s) \<Longrightarrow> fst (acquire w t s) = s"
    and acquire_grants: "snd (acquire w t s) \<Longrightarrow> w \<noteq> [] \<Longrightarrow> covers t t' \<Longrightarrow> holds (fst (acquire w t s)) w t'"
    and renew_needs: "snd (renew w t s) \<Longrightarrow> w \<noteq> [] \<Longrightarrow> holds s w t"
    and renew_refused: "\<not> snd (renew w t s) \<Longrightarrow> fst (renew w t s) = s"
    and renew_grants: "snd (renew w t s) \<Longrightarrow> w \<noteq> [] \<Longrightarrow> covers t t' \<Longrightarrow> holds (fst (renew w t s)) w t'"
begin

text \<open>A request: who, when, and whether it is a renewal.\<close>

fun serve :: "(string \<times> time \<times> bool) list \<Rightarrow> 's \<Rightarrow> 's \<times> bool list" where
  "serve [] s = (s, [])"
| "serve ((w, t, renewal) # rs) s =
     (let (s1, b) = (if renewal then renew w t s else acquire w t s);
          (s2, bs) = serve rs s1
      in (s2, b # bs))"

lemma renew_by_other: "holds s w t \<Longrightarrow> w' \<noteq> w \<Longrightarrow> w' \<noteq> [] \<Longrightarrow> renew w' t' s = (s, False)"
  using renew_needs renew_refused holder_unique by (metis prod.collapse)

text \<open>While a lease is good, every request of another client is refused and changes nothing.\<close>

lemma others_refused:
  assumes "\<And>t'. covers t t' \<Longrightarrow> holds s w t'"
    and "\<forall>(w', t', r) \<in> set rs. w' \<noteq> w \<and> w' \<noteq> [] \<and> covers t t'"
  shows "serve rs s = (s, map (\<lambda>_. False) rs)"
  using assms(2)
proof (induction rs)
  case (Cons x rs)
  obtain w' t' r where x: "x = (w', t', r)" by (cases x)
  with Cons.prems have o: "w' \<noteq> w" "w' \<noteq> []" "covers t t'" by auto
  then have "holds s w t'" using assms(1) by blast
  then have "(if r then renew w' t' s else acquire w' t' s) = (s, False)"
    using acquire_busy renew_by_other o by auto
  with Cons x show ?case by (auto simp: Let_def)
qed simp

lemma granted_excludes_others:
  assumes "snd (acquire w t s)" "w \<noteq> []"
    and "\<forall>(w', t', r) \<in> set rs. w' \<noteq> w \<and> w' \<noteq> [] \<and> covers t t'"
  shows "serve rs (fst (acquire w t s)) = (fst (acquire w t s), map (\<lambda>_. False) rs)"
  using assms by (intro others_refused [where t = t]) (auto intro: acquire_grants)

lemma renewed_excludes_others:
  assumes "snd (renew w t s)" "w \<noteq> []"
    and "\<forall>(w', t', r) \<in> set rs. w' \<noteq> w \<and> w' \<noteq> [] \<and> covers t t'"
  shows "serve rs (fst (renew w t s)) = (fst (renew w t s), map (\<lambda>_. False) rs)"
  using assms by (intro others_refused [where t = t]) (auto intro: renew_grants)

text \<open>After a takeover the old holder can neither renew nor pass the fence.\<close>

lemma takeover_fences_out:
  assumes "snd (acquire w' t s)" "w' \<noteq> []" "w \<noteq> []" "w \<noteq> w'" "covers t t"
  shows "\<not> holds (fst (acquire w' t s)) w t''"
    and "renew w t'' (fst (acquire w' t s)) = (fst (acquire w' t s), False)"
proof -
  have h: "holds (fst (acquire w' t s)) w' t" using assms by (intro acquire_grants)
  show "\<not> holds (fst (acquire w' t s)) w t''" using holder_unique [OF h] assms(4) by blast
  show "renew w t'' (fst (acquire w' t s)) = (fst (acquire w' t s), False)"
    using renew_by_other [OF h] assms by blast
qed

end

end
