(* ===== verification/SchedulerService.thy ===== *)
theory SchedulerService
  imports SchedulerSchema Lease
begin

section \<open>Schedules, their runs and the scheduler's lease\<close>

text \<open>
  Models app/scheduler/service.py. Each method is one transaction; where the source rolls back or
  raises, the result carries no database. \<open>now\<close> is the clock reading of the call and \<open>ttl\<close> a
  duration in microseconds.
\<close>

datatype sched_error = ScheduleNotFound int | RevisionConflict int int | CronFailed cron_error | LimitOutOfRange

datatype lease_error = BlankOwner | TtlNotPositive | LeaseNotHeld | LeaseExpired

definition cron_res :: "cron_error + 'a \<Rightarrow> sched_error + 'a" where
  "cron_res r = (case r of Inl e \<Rightarrow> Inl (CronFailed e) | Inr x \<Rightarrow> Inr x)"

definition get_schedule_row :: "db \<Rightarrow> int \<Rightarrow> schedule option" where
  "get_schedule_row d i = tbl_get sc_id (db_schedules d) i"

definition put_schedule :: "schedule \<Rightarrow> db \<Rightarrow> db" where
  "put_schedule s d = d\<lparr>db_schedules := tbl_put sc_id s (db_schedules d)\<rparr>"

definition put_run :: "schedule_run \<Rightarrow> db \<Rightarrow> db" where
  "put_run r d = d\<lparr>db_runs := tbl_put sr_id r (db_runs d)\<rparr>"

definition add_run :: "schedule_run \<Rightarrow> db \<Rightarrow> db" where
  "add_run r d = d\<lparr>db_runs := tbl_insert r (db_runs d)\<rparr>"

subsection \<open>Schedules\<close>

definition next_if_enabled :: "zone_db \<Rightarrow> bool \<Rightarrow> string \<Rightarrow> string \<Rightarrow> time \<Rightarrow> sched_error + time option" where
  "next_if_enabled zd enabled cron tz now =
     (if enabled then bind_res (cron_res (next_of_text zd cron tz now)) (\<lambda>u. Inr (Some u)) else Inr None)"

definition create_schedule ::
  "zone_db \<Rightarrow> int option \<Rightarrow> schedule_create \<Rightarrow> time \<Rightarrow> db \<Rightarrow> sched_error + (db \<times> schedule)" where
  "create_schedule zd user p now d =
     bind_res (next_if_enabled zd (cr_enabled p) (cr_cron_expression p) (cr_timezone p) now) (\<lambda>next_run.
     let row = \<lparr>sc_id = tbl_next_id sc_id (db_schedules d), sc_name = cr_name p,
           sc_description = cr_description p, sc_enabled = cr_enabled p,
           sc_target_type = target_type (cr_target p), sc_target_json = canonical_target_json (cr_target p),
           sc_cron_expression = cr_cron_expression p, sc_timezone = cr_timezone p,
           sc_overlap_policy = cr_overlap_policy p, sc_missed_run_policy = cr_missed_run_policy p,
           sc_created_by_user_id = user, sc_revision = 1, sc_created_at = now, sc_updated_at = now,
           sc_last_scheduled_for_utc = None, sc_next_scheduled_for_utc = next_run\<rparr>
     in Inr (d\<lparr>db_schedules := tbl_insert row (db_schedules d)\<rparr>, row))"

definition get_schedule :: "db \<Rightarrow> int \<Rightarrow> sched_error + schedule" where
  "get_schedule d i = (case get_schedule_row d i of None \<Rightarrow> Inl (ScheduleNotFound i) | Some s \<Rightarrow> Inr s)"

definition list_schedules :: "bool \<Rightarrow> db \<Rightarrow> schedule list" where
  "list_schedules include_disabled d =
     sort_key sc_id (filter (\<lambda>s. include_disabled \<or> sc_enabled s) (db_schedules d))"

definition set_or :: "'a option \<Rightarrow> 'a \<Rightarrow> 'a" where
  "set_or x old = (case x of None \<Rightarrow> old | Some y \<Rightarrow> y)"

definition with_update :: "schedule_update \<Rightarrow> schedule \<Rightarrow> schedule" where
  "with_update p s = s\<lparr>
     sc_name := set_or (up_name p) (sc_name s),
     sc_description := set_or (up_description p) (sc_description s),
     sc_enabled := set_or (up_enabled p) (sc_enabled s),
     sc_target_type := set_or (map_option target_type (up_target p)) (sc_target_type s),
     sc_target_json := set_or (map_option canonical_target_json (up_target p)) (sc_target_json s),
     sc_cron_expression := set_or (up_cron_expression p) (sc_cron_expression s),
     sc_timezone := set_or (up_timezone p) (sc_timezone s),
     sc_overlap_policy := set_or (up_overlap_policy p) (sc_overlap_policy s),
     sc_missed_run_policy := set_or (up_missed_run_policy p) (sc_missed_run_policy s)\<rparr>"

definition update_schedule ::
  "zone_db \<Rightarrow> int \<Rightarrow> schedule_update \<Rightarrow> time \<Rightarrow> db \<Rightarrow> sched_error + (db \<times> schedule)" where
  "update_schedule zd i p now d = (case get_schedule_row d i of
      None \<Rightarrow> Inl (ScheduleNotFound i)
    | Some s \<Rightarrow>
        if sc_revision s \<noteq> up_expected_revision p then
          Inl (RevisionConflict (up_expected_revision p) (sc_revision s))
        else
          let s1 = (with_update p s)\<lparr>sc_revision := sc_revision s + 1, sc_updated_at := now\<rparr>
          in bind_res (next_if_enabled zd (sc_enabled s1) (sc_cron_expression s1) (sc_timezone s1) now) (\<lambda>next_run.
             let s2 = s1\<lparr>sc_next_scheduled_for_utc := next_run\<rparr> in Inr (put_schedule s2 d, s2)))"

definition is_due :: "time \<Rightarrow> schedule \<Rightarrow> bool" where
  "is_due now s \<longleftrightarrow> sc_enabled s \<and>
     (case sc_next_scheduled_for_utc s of None \<Rightarrow> False | Some u \<Rightarrow> u \<le> now)"

definition list_due_schedules :: "time \<Rightarrow> db \<Rightarrow> schedule list" where
  "list_due_schedules now d =
     sort_key (\<lambda>s. (sc_next_scheduled_for_utc s, sc_id s)) (filter (is_due now) (db_schedules d))"

subsection \<open>Runs\<close>

definition slot_taken :: "db \<Rightarrow> int \<Rightarrow> time \<Rightarrow> bool" where
  "slot_taken d i slot \<longleftrightarrow>
     list_ex (\<lambda>r. sr_schedule_id r = i \<and> sr_scheduled_for_utc r = slot) (db_runs d)"

definition pending_run :: "db \<Rightarrow> schedule \<Rightarrow> time \<Rightarrow> time \<Rightarrow> schedule_run" where
  "pending_run d s slot created =
     \<lparr>sr_id = tbl_next_id sr_id (db_runs d), sr_schedule_id = sc_id s, sr_schedule_revision = sc_revision s,
      sr_scheduled_for_utc = slot, sr_dispatched_at = None, sr_status = ''pending'', sr_work_job_id = None,
      sr_error_code = None, sr_target_snapshot = sc_target_json s, sr_created_at = created\<rparr>"

definition reserve_scheduled_slot ::
  "zone_db \<Rightarrow> int \<Rightarrow> time \<Rightarrow> time \<Rightarrow> db \<Rightarrow> sched_error + (db \<times> schedule_run option)" where
  "reserve_scheduled_slot zd i slot created d = (case get_schedule_row d i of
      None \<Rightarrow> Inl (ScheduleNotFound i)
    | Some s \<Rightarrow>
        if slot_taken d i slot then Inr (d, None)
        else if \<not> sc_enabled s \<or> sc_next_scheduled_for_utc s \<noteq> Some slot then Inr (d, None)
        else
          bind_res (cron_res (next_of_text zd (sc_cron_expression s) (sc_timezone s) slot)) (\<lambda>next_run.
          let run = pending_run d s slot created;
              s1 = s\<lparr>sc_last_scheduled_for_utc := Some slot, sc_next_scheduled_for_utc := Some next_run\<rparr>
          in Inr (put_schedule s1 (add_run run d), Some run)))"

definition list_schedule_runs :: "int \<Rightarrow> int \<Rightarrow> db \<Rightarrow> sched_error + schedule_run list" where
  "list_schedule_runs i limit d =
     (if limit < 1 \<or> limit > 500 then Inl LimitOutOfRange
      else Inr (take (nat limit)
        (sort_key (\<lambda>r. - sr_scheduled_for_utc r) (filter (\<lambda>r. sr_schedule_id r = i) (db_runs d)))))"

subsection \<open>The lease\<close>

definition get_scheduler_state :: "time \<Rightarrow> db \<Rightarrow> scheduler_state" where
  "get_scheduler_state now d = (case db_scheduler d of
      Some st \<Rightarrow> st
    | None \<Rightarrow> \<lparr>ss_owner = None, ss_lease_expires_at = None, ss_heartbeat_at = None, ss_updated_at = now\<rparr>)"

definition check_lease_args :: "string \<Rightarrow> time \<Rightarrow> lease_error + unit" where
  "check_lease_args owner ttl =
     (if py_strip owner = [] then Inl BlankOwner else if ttl \<le> 0 then Inl TtlNotPositive else Inr ())"

definition acquire_scheduler_lease :: "string \<Rightarrow> time \<Rightarrow> time \<Rightarrow> db \<Rightarrow> lease_error + (db \<times> bool)" where
  "acquire_scheduler_lease owner ttl now d =
     bind_res (check_lease_args owner ttl) (\<lambda>_.
     let st = get_scheduler_state now d
     in if (case ss_owner st of None \<Rightarrow> False | Some w \<Rightarrow> w \<noteq> [] \<and> w \<noteq> owner) \<and>
           (case ss_lease_expires_at st of None \<Rightarrow> False | Some e \<Rightarrow> e > now)
        then Inr (d, False)
        else Inr (d\<lparr>db_scheduler := Some (st\<lparr>ss_owner := Some owner, ss_lease_expires_at := Some (now + ttl),
               ss_heartbeat_at := Some now, ss_updated_at := now\<rparr>)\<rparr>, True))"

definition renew_scheduler_lease :: "string \<Rightarrow> time \<Rightarrow> time \<Rightarrow> db \<Rightarrow> lease_error + (db \<times> bool)" where
  "renew_scheduler_lease owner ttl now d =
     bind_res (check_lease_args owner ttl) (\<lambda>_.
     let st = get_scheduler_state now d
     in if ss_owner st \<noteq> Some owner \<or> (case ss_lease_expires_at st of None \<Rightarrow> True | Some e \<Rightarrow> e \<le> now)
        then Inr (d, False)
        else Inr (d\<lparr>db_scheduler := Some (st\<lparr>ss_lease_expires_at := Some (now + ttl),
               ss_heartbeat_at := Some now, ss_updated_at := now\<rparr>)\<rparr>, True))"

definition assert_scheduler_lease :: "db \<Rightarrow> string \<Rightarrow> time \<Rightarrow> lease_error + scheduler_state" where
  "assert_scheduler_lease d owner now = (case db_scheduler d of
      None \<Rightarrow> Inl LeaseNotHeld
    | Some st \<Rightarrow> (case ss_lease_expires_at st of
          None \<Rightarrow> Inl LeaseNotHeld
        | Some e \<Rightarrow> if ss_owner st \<noteq> Some owner then Inl LeaseNotHeld
                    else if e \<le> now then Inl LeaseExpired else Inr st))"

definition release_scheduler_lease :: "string \<Rightarrow> time \<Rightarrow> db \<Rightarrow> db \<times> bool" where
  "release_scheduler_lease owner now d =
     (let st = get_scheduler_state now d
      in if ss_owner st \<noteq> Some owner then (d, False)
         else (d\<lparr>db_scheduler := Some (st\<lparr>ss_owner := None, ss_lease_expires_at := None,
                ss_heartbeat_at := Some now, ss_updated_at := now\<rparr>)\<rparr>, True))"

subsection \<open>The lease is exclusive\<close>

text \<open>A request that raises leaves the database alone: to the other clients it is a refusal.\<close>

definition or_refused :: "db \<Rightarrow> lease_error + (db \<times> bool) \<Rightarrow> db \<times> bool" where
  "or_refused d r = (case r of Inl _ \<Rightarrow> (d, False) | Inr x \<Rightarrow> x)"

definition scheduler_holds :: "db \<Rightarrow> string \<Rightarrow> time \<Rightarrow> bool" where
  "scheduler_holds d w t \<longleftrightarrow> w \<noteq> [] \<and> (\<exists>st. assert_scheduler_lease d w t = Inr st)"

lemma scheduler_holds_iff:
  "scheduler_holds d w t \<longleftrightarrow> w \<noteq> [] \<and>
     (\<exists>st e. db_scheduler d = Some st \<and> ss_owner st = Some w \<and> ss_lease_expires_at st = Some e \<and> t < e)"
  by (auto simp: scheduler_holds_def assert_scheduler_lease_def split: option.splits)

definition lease_args_ok :: "string \<Rightarrow> time \<Rightarrow> bool" where
  "lease_args_ok w ttl \<longleftrightarrow> py_strip w \<noteq> [] \<and> 0 < ttl"

lemma check_lease_args_res: "check_lease_args w ttl = Inr u \<longleftrightarrow> lease_args_ok w ttl"
  by (auto simp: check_lease_args_def lease_args_ok_def)

lemma acquire_scheduler_granted:
  "acquire_scheduler_lease w ttl t d = Inr (d', True) \<longleftrightarrow>
     lease_args_ok w ttl \<and> \<not> (\<exists>w'. w' \<noteq> w \<and> scheduler_holds d w' t) \<and>
     d' = d\<lparr>db_scheduler := Some ((get_scheduler_state t d)\<lparr>ss_owner := Some w, ss_lease_expires_at := Some (t + ttl),
               ss_heartbeat_at := Some t, ss_updated_at := t\<rparr>)\<rparr>"
proof (cases "db_scheduler d")
  case None
  then show ?thesis
    by (auto simp: acquire_scheduler_lease_def bind_res_Inr check_lease_args_res Let_def get_scheduler_state_def
        scheduler_holds_iff)
next
  case (Some st)
  then show ?thesis
    by (cases "ss_owner st"; cases "ss_lease_expires_at st")
      (auto simp: acquire_scheduler_lease_def bind_res_Inr check_lease_args_res Let_def get_scheduler_state_def
        scheduler_holds_iff)
qed

lemma renew_scheduler_granted:
  "renew_scheduler_lease w ttl t d = Inr (d', True) \<longleftrightarrow>
     lease_args_ok w ttl \<and> (\<exists>st e. db_scheduler d = Some st \<and> ss_owner st = Some w \<and>
       ss_lease_expires_at st = Some e \<and> t < e \<and>
       d' = d\<lparr>db_scheduler := Some (st\<lparr>ss_lease_expires_at := Some (t + ttl),
               ss_heartbeat_at := Some t, ss_updated_at := t\<rparr>)\<rparr>)"
proof (cases "db_scheduler d")
  case None
  then show ?thesis by (auto simp: renew_scheduler_lease_def bind_res_Inr Let_def get_scheduler_state_def)
next
  case (Some st)
  then show ?thesis
    by (cases "ss_lease_expires_at st")
      (auto simp: renew_scheduler_lease_def bind_res_Inr check_lease_args_res Let_def get_scheduler_state_def)
qed

lemma lease_refused:
  "acquire_scheduler_lease w ttl t d = Inr (d', False) \<Longrightarrow> d' = d"
  "renew_scheduler_lease w ttl t d = Inr (d', False) \<Longrightarrow> d' = d"
  by (auto simp: acquire_scheduler_lease_def renew_scheduler_lease_def bind_res_Inr Let_def split: if_splits)

lemma or_refused_granted: "snd (or_refused d r) \<Longrightarrow> r = Inr (fst (or_refused d r), True)"
  by (cases r) (auto simp: or_refused_def prod_eq_iff)

lemma or_refused_not: "\<not> snd (or_refused d r) \<Longrightarrow> (\<And>d'. r = Inr (d', False) \<Longrightarrow> d' = d) \<Longrightarrow> or_refused d r = (d, False)"
  by (cases r) (auto simp: or_refused_def prod_eq_iff)

interpretation scheduler_lease: exclusive_lease
  "scheduler_holds"
  "\<lambda>w t d. or_refused d (acquire_scheduler_lease w ttl t d)"
  "\<lambda>w t d. or_refused d (renew_scheduler_lease w ttl t d)"
  "\<lambda>t t'. t' < t + ttl" for ttl
proof
  fix d :: db and w w' t t'
  show "scheduler_holds d w t \<Longrightarrow> scheduler_holds d w' t' \<Longrightarrow> w' = w"
    by (auto simp: scheduler_holds_iff)
  show "or_refused d (acquire_scheduler_lease w' ttl t d) = (d, False)"
    if h: "scheduler_holds d w t" "w' \<noteq> w"
  proof (rule or_refused_not)
    show "\<not> snd (or_refused d (acquire_scheduler_lease w' ttl t d))"
      using h or_refused_granted [of d "acquire_scheduler_lease w' ttl t d"] acquire_scheduler_granted by metis
  qed (rule lease_refused)
  show "\<not> snd (or_refused d (acquire_scheduler_lease w ttl t d)) \<Longrightarrow>
      fst (or_refused d (acquire_scheduler_lease w ttl t d)) = d"
    using or_refused_not lease_refused(1) by (metis fst_conv)
  show "\<not> snd (or_refused d (renew_scheduler_lease w ttl t d)) \<Longrightarrow>
      fst (or_refused d (renew_scheduler_lease w ttl t d)) = d"
    using or_refused_not lease_refused(2) by (metis fst_conv)
  show "snd (or_refused d (acquire_scheduler_lease w ttl t d)) \<Longrightarrow> w \<noteq> [] \<Longrightarrow> t' < t + ttl \<Longrightarrow>
      scheduler_holds (fst (or_refused d (acquire_scheduler_lease w ttl t d))) w t'"
    by (drule or_refused_granted) (simp add: acquire_scheduler_granted scheduler_holds_iff)
  show "snd (or_refused d (renew_scheduler_lease w ttl t d)) \<Longrightarrow> w \<noteq> [] \<Longrightarrow> scheduler_holds d w t"
    by (drule or_refused_granted) (auto simp: renew_scheduler_granted scheduler_holds_iff)
  show "snd (or_refused d (renew_scheduler_lease w ttl t d)) \<Longrightarrow> w \<noteq> [] \<Longrightarrow> t' < t + ttl \<Longrightarrow>
      scheduler_holds (fst (or_refused d (renew_scheduler_lease w ttl t d))) w t'"
    by (drule or_refused_granted) (auto simp: renew_scheduler_granted scheduler_holds_iff)
qed

subsection \<open>Properties\<close>

lemma strip_nonempty: "py_strip w \<noteq> [] \<Longrightarrow> w \<noteq> []"
  by (auto simp: py_strip_def)

text \<open>
  C20: The scheduler's lease is exclusive until it expires. After an owner acquires it at time \<open>t\<close>
  for \<open>ttl\<close>, the fence passes for it at every time before \<open>t + ttl\<close> and for no one else ever; every
  sequence of acquire and renew requests of other owners in that time is refused and changes
  nothing, and so is a release by another owner. From \<open>t + ttl\<close> on the fence reports an expired
  lease and anyone may take it over; a release by the owner frees it at once.
\<close>

theorem scheduler_lease_exclusive:
  assumes "acquire_scheduler_lease w ttl t d = Inr (d', True)"
    and "\<forall>(w', t', renewal) \<in> set requests. w' \<noteq> w \<and> w' \<noteq> [] \<and> t' < t + ttl"
  shows "scheduler_lease.serve ttl requests d' = (d', map (\<lambda>_. False) requests) \<and>
    (\<forall>t'. (\<exists>st. assert_scheduler_lease d' w t' = Inr st) \<longleftrightarrow> t' < t + ttl) \<and>
    (\<forall>t' \<ge> t + ttl. assert_scheduler_lease d' w t' = Inl LeaseExpired \<and>
       (\<forall>w'. lease_args_ok w' ttl \<longrightarrow> (\<exists>d''. acquire_scheduler_lease w' ttl t' d' = Inr (d'', True)))) \<and>
    (\<forall>w' t'. w' \<noteq> w \<longrightarrow> assert_scheduler_lease d' w' t' = Inl LeaseNotHeld \<and> release_scheduler_lease w' t' d' = (d', False)) \<and>
    (\<forall>w' t' t''. lease_args_ok w' ttl \<longrightarrow>
       (\<exists>d''. acquire_scheduler_lease w' ttl t'' (fst (release_scheduler_lease w t' d')) = Inr (d'', True)))"
proof -
  have a: "snd (or_refused d (acquire_scheduler_lease w ttl t d))" "fst (or_refused d (acquire_scheduler_lease w ttl t d)) = d'"
    using assms(1) by (simp_all add: or_refused_def)
  have st: "lease_args_ok w ttl" "\<exists>st. db_scheduler d' = Some st \<and> ss_owner st = Some w \<and> ss_lease_expires_at st = Some (t + ttl)"
    using assms(1) by (auto simp: acquire_scheduler_granted)
  have w: "w \<noteq> []" using st(1) strip_nonempty by (auto simp: lease_args_ok_def)
  have "scheduler_lease.serve ttl requests d' = (d', map (\<lambda>_. False) requests)"
    using scheduler_lease.granted_excludes_others [OF a(1) w] assms(2) a(2) by simp
  then show ?thesis using st
    by (auto simp: assert_scheduler_lease_def release_scheduler_lease_def get_scheduler_state_def acquire_scheduler_granted
        scheduler_holds_iff split: if_splits)
qed

definition fresh_db :: db where
  "fresh_db = \<lparr>db_jobs = [], db_events = [], db_scans = [], db_groups = [], db_files = [],
     db_plans = [], db_items = [], db_lock = None, db_worker = None, db_policy = None,
     db_roots = [], db_schedules = [], db_runs = [], db_scheduler = None,
     db_workflows = [], db_wf_revisions = []\<rparr>"

theorem scheduler_lease_exclusive_witness:
  "\<exists>d'. acquire_scheduler_lease ''a'' 90 1000 fresh_db = Inr (d', True) \<and>
     scheduler_lease.serve 90 [(''b'', 1001, False), (''c'', 1089, True)] d' = (d', [False, False]) \<and>
     assert_scheduler_lease d' ''a'' 1090 = Inl LeaseExpired"
proof -
  have ok: "lease_args_ok ''a'' 90" by code_simp
  have "\<not> (\<exists>w'. w' \<noteq> ''a'' \<and> scheduler_holds fresh_db w' 1000)" by (simp add: scheduler_holds_iff fresh_db_def)
  with ok obtain d' where a: "acquire_scheduler_lease ''a'' 90 1000 fresh_db = Inr (d', True)"
    by (simp add: acquire_scheduler_granted)
  from scheduler_lease_exclusive [OF a, of "[(''b'', 1001, False), (''c'', 1089, True)]"] a show ?thesis by simp
qed

lemma get_schedule_put [simp]:
  "get_schedule_row (put_schedule s d) i
     = (if i = sc_id s \<and> get_schedule_row d i \<noteq> None then Some s else get_schedule_row d i)"
  by (auto simp: get_schedule_row_def put_schedule_def schedules.get_put)

lemma get_schedule_id: "get_schedule_row d i = Some s \<Longrightarrow> sc_id s = i"
  by (simp add: get_schedule_row_def schedules.get_key)

lemma with_update_kept [simp]:
  "sc_id (with_update p s) = sc_id s" "sc_revision (with_update p s) = sc_revision s"
  "sc_created_by_user_id (with_update p s) = sc_created_by_user_id s"
  "sc_created_at (with_update p s) = sc_created_at s"
  "sc_last_scheduled_for_utc (with_update p s) = sc_last_scheduled_for_utc s"
  by (simp_all add: with_update_def)

lemma next_of_text_later:
  "next_of_text zd cron tz now = Inr u \<Longrightarrow> zone_rules zd tz \<Longrightarrow> now < u"
  by (auto simp: next_of_text_def bind_res_Inr dest!: next_occurrence_least [OF _ parse_cron_ok])

lemma cron_res_Inr: "cron_res r = Inr x \<longleftrightarrow> r = Inr x"
  by (cases r) (auto simp: cron_res_def)

lemma next_if_enabled_Inr:
  "next_if_enabled zd e cron tz now = Inr x \<longleftrightarrow>
     (if e then \<exists>u. next_of_text zd cron tz now = Inr u \<and> x = Some u else x = None)"
  by (auto simp: next_if_enabled_def bind_res_Inr cron_res_Inr)

lemma update_scheduleD:
  assumes "update_schedule zd i p now d = Inr (d', s')"
  obtains s next_run where "get_schedule_row d i = Some s" "sc_revision s = up_expected_revision p"
    "d' = put_schedule s' d"
    "s' = (with_update p s)\<lparr>sc_revision := sc_revision s + 1, sc_updated_at := now,
       sc_next_scheduled_for_utc := next_run\<rparr>"
    "next_if_enabled zd (sc_enabled s') (sc_cron_expression s') (sc_timezone s') now = Inr next_run"
  using assms that by (auto simp: update_schedule_def Let_def bind_res_Inr split: option.splits if_splits)

text \<open>
  C21: Schedule updates are optimistic. An update succeeds only from the stored revision; it writes
  that one row, raises its revision by one, keeps who created it, when, and the last slot, and
  the next slot is set, later than now, exactly when the schedule is enabled. A second update made
  from the same revision is refused as a conflict.
\<close>

theorem update_schedule_optimistic:
  assumes "update_schedule zd i p now d = Inr (d', s')" "zone_rules zd (sc_timezone s')"
  shows "(\<exists>s. get_schedule_row d i = Some s \<and> sc_revision s = up_expected_revision p \<and>
      sc_revision s' = sc_revision s + 1 \<and> sc_created_by_user_id s' = sc_created_by_user_id s \<and>
      sc_created_at s' = sc_created_at s \<and> sc_last_scheduled_for_utc s' = sc_last_scheduled_for_utc s) \<and>
    (\<forall>k. get_schedule_row d' k = (if k = i then Some s' else get_schedule_row d k)) \<and>
    (sc_enabled s' \<longleftrightarrow> (\<exists>u. sc_next_scheduled_for_utc s' = Some u \<and> now < u)) \<and>
    (\<forall>q later. up_expected_revision q = up_expected_revision p \<longrightarrow>
      update_schedule zd i q later d' = Inl (RevisionConflict (up_expected_revision q) (up_expected_revision p + 1)))"
proof -
  obtain s n where s: "get_schedule_row d i = Some s" "sc_revision s = up_expected_revision p"
    "d' = put_schedule s' d"
    "s' = (with_update p s)\<lparr>sc_revision := sc_revision s + 1, sc_updated_at := now, sc_next_scheduled_for_utc := n\<rparr>"
    "next_if_enabled zd (sc_enabled s') (sc_cron_expression s') (sc_timezone s') now = Inr n"
    by (rule update_scheduleD [OF assms(1)])
  have id: "sc_id s' = i" using s(1,4) get_schedule_id by simp
  have get: "get_schedule_row d' k = (if k = i then Some s' else get_schedule_row d k)" for k
    using s(1,3) id by simp
  have "sc_next_scheduled_for_utc s' = n" using s(4) by simp
  then have "sc_enabled s' \<longleftrightarrow> (\<exists>u. sc_next_scheduled_for_utc s' = Some u \<and> now < u)"
    using s(5) next_of_text_later [OF _ assms(2)] by (cases "sc_enabled s'") (auto simp: next_if_enabled_Inr)
  moreover have "up_expected_revision q = up_expected_revision p \<longrightarrow>
      update_schedule zd i q later d' = Inl (RevisionConflict (up_expected_revision q) (up_expected_revision p + 1))" for q later
    using s(2,4) get [of i] by (simp add: update_schedule_def)
  ultimately show ?thesis using s get by simp
qed

definition nightly :: schedule where
  "nightly = \<lparr>sc_id = 1, sc_name = ''nightly'', sc_description = [], sc_enabled = True,
     sc_target_type = ''index_root'', sc_target_json = canonical_target_json (IndexRootTarget 1),
     sc_cron_expression = ''0 8 * * *'', sc_timezone = ''Asia/Shanghai'', sc_overlap_policy = ''skip_if_active'',
     sc_missed_run_policy = ''skip'', sc_created_by_user_id = None, sc_revision = 1, sc_created_at = 0,
     sc_updated_at = 0, sc_last_scheduled_for_utc = None, sc_next_scheduled_for_utc = Some 86400000000\<rparr>"

definition disable_nightly :: schedule_update where
  "disable_nightly = \<lparr>up_expected_revision = 1, up_name = None, up_description = None, up_enabled = Some False,
     up_target = None, up_cron_expression = None, up_timezone = None, up_overlap_policy = None,
     up_missed_run_policy = None\<rparr>"

theorem update_schedule_optimistic_witness:
  "let d = fresh_db\<lparr>db_schedules := [nightly]\<rparr>
   in \<exists>d' s'. update_schedule fixed_zone 1 disable_nightly 5 d = Inr (d', s') \<and>
      update_schedule fixed_zone 1 disable_nightly 6 d' = Inl (RevisionConflict 1 2)"
proof -
  obtain d' s' where u: "update_schedule fixed_zone 1 disable_nightly 5 (fresh_db\<lparr>db_schedules := [nightly]\<rparr>) = Inr (d', s')"
    by (simp add: update_schedule_def get_schedule_row_def fresh_db_def tbl_get_def nightly_def disable_nightly_def
        with_update_def set_or_def next_if_enabled_def Let_def)
  from update_schedule_optimistic [OF u fixed_zone_rules] u show ?thesis
    by (auto simp: Let_def disable_nightly_def)
qed

end
