(* ===== verification/PathSafety.thy ===== *)
theory PathSafety
  imports Records
begin

section \<open>Allowed and reserved paths\<close>

text \<open>
  Models the checks of app/path_safety.py. What \<open>Path(p).expanduser().resolve(strict=False)\<close> gives
  depends on the home directory and the symbolic links of the file system: it is the parameter
  \<open>fs_resolve\<close>, from a text to the components of an absolute path. A resolved path is one that
  resolves to itself.
\<close>

type_synonym path = "string list"

record filesystem =
  fs_resolve :: "string \<Rightarrow> path"
  fs_is_dir :: "path \<Rightarrow> bool"

record settings =
  st_allowed_roots :: "string list"
  st_quarantine_root :: "string option"

datatype path_error = OutsideRoots string | ReservedQuarantine string
  | SymlinkTarget | UnusableName string | NameTooLong nat

text \<open>\<open>str(path)\<close>, and \<open>p == root or p.is_relative_to(root)\<close>.\<close>

definition path_str :: "path \<Rightarrow> string" where
  "path_str p = (if p = [] then ''/'' else concat (map (\<lambda>c. CHR ''/'' # c) p))"

definition within :: "path \<Rightarrow> path \<Rightarrow> bool" where
  "within root p = prefix root p"

definition resolved_roots :: "'a filesystem_scheme \<Rightarrow> string list \<Rightarrow> path list" where
  "resolved_roots fs roots = map (fs_resolve fs) roots"

definition is_path_allowed :: "'a filesystem_scheme \<Rightarrow> string list \<Rightarrow> string \<Rightarrow> bool" where
  "is_path_allowed fs roots p = list_ex (\<lambda>root. within root (fs_resolve fs p)) (resolved_roots fs roots)"

definition require_allowed_path :: "'a filesystem_scheme \<Rightarrow> string list \<Rightarrow> string \<Rightarrow> path_error + path" where
  "require_allowed_path fs roots p =
     (if list_ex (\<lambda>root. within root (fs_resolve fs p)) (resolved_roots fs roots)
      then Inr (fs_resolve fs p) else Inl (OutsideRoots p))"

definition is_reserved_quarantine_path :: "'a filesystem_scheme \<Rightarrow> string option \<Rightarrow> string \<Rightarrow> bool" where
  "is_reserved_quarantine_path fs quarantine p = (case quarantine of
      None \<Rightarrow> False
    | Some q \<Rightarrow> if q = [] then False else within (fs_resolve fs q) (fs_resolve fs p))"

definition require_unreserved_path :: "'a filesystem_scheme \<Rightarrow> string option \<Rightarrow> string \<Rightarrow> path_error + path" where
  "require_unreserved_path fs quarantine p =
     (if is_reserved_quarantine_path fs quarantine p then Inl (ReservedQuarantine p)
      else Inr (fs_resolve fs p))"

lemma require_allowed_Inr:
  "require_allowed_path fs roots p = Inr q \<longleftrightarrow> is_path_allowed fs roots p \<and> q = fs_resolve fs p"
  by (auto simp: require_allowed_path_def is_path_allowed_def)

lemma require_unreserved_Inr:
  "require_unreserved_path fs quarantine p = Inr q \<longleftrightarrow>
     \<not> is_reserved_quarantine_path fs quarantine p \<and> q = fs_resolve fs p"
  by (auto simp: require_unreserved_path_def)

text \<open>What the code relies on: resolving a resolved path again changes nothing.\<close>

definition resolve_idempotent :: "'a filesystem_scheme \<Rightarrow> bool" where
  "resolve_idempotent fs \<longleftrightarrow> (\<forall>p. fs_resolve fs (path_str (fs_resolve fs p)) = fs_resolve fs p)"

lemma allowed_resolved:
  "resolve_idempotent fs \<Longrightarrow> is_path_allowed fs roots (path_str (fs_resolve fs p)) \<longleftrightarrow> is_path_allowed fs roots p"
  "resolve_idempotent fs \<Longrightarrow> is_reserved_quarantine_path fs q (path_str (fs_resolve fs p))
     \<longleftrightarrow> is_reserved_quarantine_path fs q p"
  by (simp_all add: is_path_allowed_def is_reserved_quarantine_path_def resolve_idempotent_def split: option.splits)

text \<open>A sibling whose name merely begins like an allowed root is not inside it.\<close>

lemma within_component: "within root p \<longleftrightarrow> (\<exists>rest. p = root @ rest)"
  by (auto simp: within_def prefix_def)

subsection \<open>Pure paths\<close>

text \<open>
  \<open>pathlib.PurePosixPath\<close>: the root (empty, one slash, or exactly two) and the components, without
  the empty ones and the single dots; \<open>name\<close>, \<open>parent\<close>, \<open>/\<close> and \<open>str\<close>.
\<close>

type_synonym pure_path = "string \<times> string list"

definition pure_root :: "string \<Rightarrow> string" where
  "pure_root s = (if prefix ''//'' s \<and> \<not> prefix ''///'' s then ''//''
                  else if prefix ''/'' s then ''/'' else [])"

definition pure_parts :: "string \<Rightarrow> string list" where
  "pure_parts s = filter (\<lambda>c. c \<noteq> [] \<and> c \<noteq> ''.'') (split_char (CHR ''/'') s)"

definition pure_path :: "string \<Rightarrow> pure_path" where
  "pure_path s = (pure_root s, pure_parts s)"

definition pure_str :: "pure_path \<Rightarrow> string" where
  "pure_str p = (if p = ([], []) then ''.'' else fst p @ join_slash (snd p))"

definition pure_name :: "pure_path \<Rightarrow> string" where
  "pure_name p = (if snd p = [] then [] else last (snd p))"

definition pure_parent :: "pure_path \<Rightarrow> pure_path" where
  "pure_parent p = (fst p, butlast (snd p))"

definition pure_join :: "pure_path \<Rightarrow> string \<Rightarrow> pure_path" where
  "pure_join p s = (if pure_root s \<noteq> [] then pure_path s else (fst p, snd p @ pure_parts s))"

subsection \<open>Destinations of a mutation\<close>

text \<open>
  \<open>validate_mutation_destination\<close> looks at the live file system: whether the path is a symbolic link
  (the question may fail, with a name that is too long or another error, which is ignored), and the
  longest name its directory takes, when known. \<open>os.fsencode\<close> writes UTF-8.
\<close>

datatype symlink_probe = IsSymlink | NoSymlink | ProbeNameTooLong | ProbeFailed

record mutation_fs = filesystem +
  fs_expanduser :: "pure_path \<Rightarrow> pure_path"
  fs_symlink :: "pure_path \<Rightarrow> symlink_probe"
  fs_name_max :: "path \<Rightarrow> nat option"
  fs_exists :: "string \<Rightarrow> bool"

definition name_bytes :: "string \<Rightarrow> nat" where
  "name_bytes s = sum_list (map (\<lambda>c. if (of_char c :: nat) < 128 then 1 else 2) s)"

definition name_max :: "'a mutation_fs_scheme \<Rightarrow> path \<Rightarrow> nat" where
  "name_max fs dir = (case fs_name_max fs dir of Some n \<Rightarrow> n | None \<Rightarrow> 255)"

definition validate_mutation_destination ::
  "'a mutation_fs_scheme \<Rightarrow> string list \<Rightarrow> string option \<Rightarrow> string \<Rightarrow> path_error + path" where
  "validate_mutation_destination fs roots quarantine s =
     (let p = fs_expanduser fs (pure_path s); filename = pure_name p in
      if fs_symlink fs p = IsSymlink then Inl SymlinkTarget
      else if fs_symlink fs p = ProbeNameTooLong then Inl (NameTooLong (name_bytes filename))
      else bind_res (require_allowed_path fs roots (pure_str (pure_parent p))) (\<lambda>parent.
        let dest = (if filename = [] then parent else parent @ [filename]) in
        if is_reserved_quarantine_path fs quarantine (path_str dest) then Inl (ReservedQuarantine (path_str dest))
        else if filename = [] \<or> CHR ''/'' \<in> set filename \<or> CHR 0x00 \<in> set filename then Inl (UnusableName filename)
        else if name_bytes filename > name_max fs parent then Inl (NameTooLong (name_bytes filename))
        else Inr dest))"

text \<open>An accepted destination is an entry of an allowed directory, outside the reserved storage.\<close>

lemma validate_mutation_destination_Inr:
  assumes "validate_mutation_destination fs roots quarantine s = Inr dest"
  obtains parent filename where "dest = parent @ [filename]" "filename \<noteq> []" "CHR ''/'' \<notin> set filename"
    "list_ex (\<lambda>root. within root parent) (resolved_roots fs roots)"
    "\<not> is_reserved_quarantine_path fs quarantine (path_str dest)" "name_bytes filename \<le> name_max fs parent"
  using assms
  by (auto simp: validate_mutation_destination_def Let_def bind_res_Inr require_allowed_path_def
      split: if_splits)

end
