(* ===== verification/JobState.thy ===== *)
theory JobState
  imports Prelude
begin

section \<open>The job state machine\<close>

text \<open>
  Models app/tasks/state_machine.py. States are the strings the database stores; the
  transition map is the table \<open>VALID_TRANSITIONS\<close> of the source, read with \<open>get(..., set())\<close>.
  The relation \<open>job_step\<close> is the map as a step relation, with its case rules.
\<close>

abbreviation QUEUED :: string where "QUEUED \<equiv> ''queued''"
abbreviation RUNNING :: string where "RUNNING \<equiv> ''running''"
abbreviation PAUSED :: string where "PAUSED \<equiv> ''paused''"
abbreviation CANCEL_REQUESTED :: string where "CANCEL_REQUESTED \<equiv> ''cancel_requested''"
abbreviation CANCELLED :: string where "CANCELLED \<equiv> ''cancelled''"
abbreviation FAILED :: string where "FAILED \<equiv> ''failed''"
abbreviation COMPLETED :: string where "COMPLETED \<equiv> ''completed''"

definition TERMINAL_STATES :: "string list" where
  "TERMINAL_STATES = [CANCELLED, FAILED, COMPLETED]"

definition VALID_TRANSITIONS :: "(string \<times> string list) list" where
  "VALID_TRANSITIONS =
     [(QUEUED, [RUNNING, PAUSED, CANCELLED]),
      (RUNNING, [PAUSED, CANCEL_REQUESTED, COMPLETED, FAILED]),
      (CANCEL_REQUESTED, [CANCELLED, FAILED]),
      (PAUSED, [QUEUED, CANCELLED]),
      (CANCELLED, []), (FAILED, []), (COMPLETED, [])]"

datatype transition_error = TerminalJob string string | IllegalTransition string string

definition is_terminal :: "string \<Rightarrow> bool" where
  "is_terminal s \<longleftrightarrow> s \<in> set TERMINAL_STATES"

definition can_transition :: "string \<Rightarrow> string \<Rightarrow> bool" where
  "can_transition from_s to_s =
     (to_s \<in> set (case map_of VALID_TRANSITIONS from_s of Some allowed \<Rightarrow> allowed | None \<Rightarrow> []))"

definition validate_transition :: "string \<Rightarrow> string \<Rightarrow> transition_error + unit" where
  "validate_transition from_s to_s =
     (if is_terminal from_s then Inl (TerminalJob from_s to_s)
      else if \<not> can_transition from_s to_s then Inl (IllegalTransition from_s to_s)
      else Inr ())"

lemma is_terminal_iff [simp]: "is_terminal s \<longleftrightarrow> s = CANCELLED \<or> s = FAILED \<or> s = COMPLETED"
  by (simp add: is_terminal_def TERMINAL_STATES_def)

lemma can_transition_iff:
  "can_transition f t \<longleftrightarrow>
     (f = QUEUED \<and> (t = RUNNING \<or> t = PAUSED \<or> t = CANCELLED)) \<or>
     (f = RUNNING \<and> (t = PAUSED \<or> t = CANCEL_REQUESTED \<or> t = COMPLETED \<or> t = FAILED)) \<or>
     (f = CANCEL_REQUESTED \<and> (t = CANCELLED \<or> t = FAILED)) \<or>
     (f = PAUSED \<and> (t = QUEUED \<or> t = CANCELLED))"
  by (auto simp: can_transition_def VALID_TRANSITIONS_def)

lemma validate_transition_Inr [simp]:
  "validate_transition f t = Inr u \<longleftrightarrow> can_transition f t"
  by (auto simp: validate_transition_def can_transition_iff)

inductive job_step :: "string \<Rightarrow> string \<Rightarrow> bool" where
  job_step: "validate_transition s t = Inr () \<Longrightarrow> job_step s t"

inductive_simps job_step_iff: "job_step s t"
inductive_cases job_stepE [elim!]: "job_step s t"

text \<open>A job is live while it is not in a terminal state.\<close>

definition live_states :: "string list" where
  "live_states = [QUEUED, RUNNING, PAUSED, CANCEL_REQUESTED]"

lemma terminal_has_no_step: "is_terminal s \<Longrightarrow> \<not> job_step s t"
  by (auto simp: can_transition_iff)

lemma terminal_stays: "job_step\<^sup>*\<^sup>* s t \<Longrightarrow> is_terminal s \<Longrightarrow> t = s"
  by (induction rule: converse_rtranclp_induct) (auto simp: can_transition_iff)

lemma step_from_known:
  "job_step s t \<Longrightarrow> s \<in> set live_states \<and> (t \<in> set live_states \<or> is_terminal t)"
  by (auto simp: can_transition_iff live_states_def)

text \<open>
  C3: Terminal states are absorbing and the only dead ends: a run of validated transitions that
  starts in a terminal state never leaves it, every validated transition starts in a live state,
  and from every live state some run of validated transitions reaches \<open>cancelled\<close>.
\<close>

theorem job_states_absorbing_and_live:
  "(\<forall>s t. is_terminal s \<longrightarrow> job_step\<^sup>*\<^sup>* s t \<longrightarrow> t = s) \<and>
   (\<forall>s t. validate_transition s t = Inr () \<longrightarrow> s \<in> set live_states) \<and>
   (\<forall>s \<in> set live_states. job_step\<^sup>*\<^sup>* s CANCELLED)"
proof -
  have c: "job_step CANCEL_REQUESTED CANCELLED" "job_step RUNNING CANCEL_REQUESTED"
    "job_step QUEUED CANCELLED" "job_step PAUSED CANCELLED"
    by (auto simp: job_step_iff can_transition_iff)
  then have "job_step\<^sup>*\<^sup>* RUNNING CANCELLED"
    by (intro converse_rtranclp_into_rtranclp [OF _ r_into_rtranclp])
  with c have "\<forall>s \<in> set live_states. job_step\<^sup>*\<^sup>* s CANCELLED"
    by (simp add: live_states_def r_into_rtranclp)
  moreover have "\<forall>s t. validate_transition s t = Inr () \<longrightarrow> s \<in> set live_states"
    by (auto simp: can_transition_iff live_states_def)
  moreover have "\<forall>s t. is_terminal s \<longrightarrow> job_step\<^sup>*\<^sup>* s t \<longrightarrow> t = s"
    by (intro allI impI) (rule terminal_stays)
  ultimately show ?thesis by (intro conjI)
qed

theorem job_states_absorbing_and_live_witness:
  "job_step\<^sup>*\<^sup>* RUNNING CANCELLED \<and> \<not> (\<exists>t. validate_transition COMPLETED t = Inr ())"
proof -
  have "RUNNING \<in> set live_states" by (simp add: live_states_def)
  then have "job_step\<^sup>*\<^sup>* RUNNING CANCELLED" using job_states_absorbing_and_live by blast
  moreover have "COMPLETED \<notin> set live_states" by (simp add: live_states_def)
  ultimately show ?thesis using job_states_absorbing_and_live by blast
qed

end
