(* ===== verification/TaskSync.thy ===== *)
theory TaskSync
  imports Records JobState
begin

section \<open>Scan jobs and batch plans follow their work job\<close>

text \<open>
  Models app/tasks/sync.py. A work job of kind \<open>fclones-scan\<close> (or \<open>batch-plan-execute\<close>) names a
  scan job (a batch plan) in its JSON state; when the job changes state, the linked row follows.
  Every exception of the source is caught and leaves the linked row alone.
\<close>

subsection \<open>Definitions\<close>

definition linked_ref :: "string \<Rightarrow> string \<Rightarrow> work_job \<Rightarrow> int option" where
  "linked_ref kind k job =
     (if wj_kind job \<noteq> kind then None
      else (case loads_or_empty (wj_state_json job) of
              None \<Rightarrow> None
            | Some st \<Rightarrow> (case jget st k of
                  None \<Rightarrow> None
                | Some v \<Rightarrow> if truthy v then int_of_json v else None)))"

definition linked_scan :: "db \<Rightarrow> work_job \<Rightarrow> scan_job option" where
  "linked_scan d job =
     (case linked_ref ''fclones-scan'' ''scan_job_id'' job of
        None \<Rightarrow> None | Some i \<Rightarrow> tbl_get sj_id (db_scans d) i)"

definition linked_plan :: "db \<Rightarrow> work_job \<Rightarrow> batch_plan option" where
  "linked_plan d job =
     (case linked_ref ''batch-plan-execute'' ''plan_id'' job of
        None \<Rightarrow> None | Some i \<Rightarrow> tbl_get bp_id (db_plans d) i)"

definition or_else :: "'a option \<Rightarrow> 'a option \<Rightarrow> 'a option" where
  "or_else a b = (case a of Some x \<Rightarrow> Some x | None \<Rightarrow> b)"

lemma or_else_simps [simp]: "or_else (Some x) b = Some x" "or_else None b = b"
  by (simp_all add: or_else_def)

text \<open>Removing the partial results of a scan: its groups and the files of these groups.\<close>

definition cleanup_partial :: "scan_job \<Rightarrow> db \<Rightarrow> db" where
  "cleanup_partial scan d =
     (let gids = map dg_id (filter (\<lambda>g. dg_scan_job_id g = sj_id scan) (db_groups d))
      in d\<lparr>db_files := tbl_delete (\<lambda>f. df_group_id f \<in> set gids) (db_files d),
           db_groups := tbl_delete (\<lambda>g. dg_scan_job_id g = sj_id scan) (db_groups d)\<rparr>)"

definition put_scan :: "scan_job \<Rightarrow> db \<Rightarrow> db" where
  "put_scan s d = d\<lparr>db_scans := tbl_put sj_id s (db_scans d)\<rparr>"

definition put_plan :: "batch_plan \<Rightarrow> db \<Rightarrow> db" where
  "put_plan p d = d\<lparr>db_plans := tbl_put bp_id p (db_plans d)\<rparr>"

definition zero_totals :: "scan_job \<Rightarrow> scan_job" where
  "zero_totals s = s\<lparr>sj_total_groups := 0, sj_total_files_in_groups := 0, sj_reclaimable_bytes := 0\<rparr>"

definition end_scan :: "bool \<Rightarrow> scan_job \<Rightarrow> db \<Rightarrow> db" where
  "end_scan cleanup scan d =
     (if cleanup then put_scan (zero_totals scan) (cleanup_partial scan d) else put_scan scan d)"

definition text_or :: "string option \<Rightarrow> string \<Rightarrow> string" where
  "text_or t dflt = (case t of None \<Rightarrow> dflt | Some s \<Rightarrow> if s = [] then dflt else s)"

definition sync_scan_job_status ::
  "work_job \<Rightarrow> string \<Rightarrow> time option \<Rightarrow> time option \<Rightarrow> string option \<Rightarrow> bool \<Rightarrow> time \<Rightarrow> db \<Rightarrow> db" where
  "sync_scan_job_status job target started finished err cleanup now d =
     (case linked_scan d job of
        None \<Rightarrow> d
      | Some scan \<Rightarrow>
          if target = ''running'' then
            put_scan (scan\<lparr>sj_status := ''running'',
              sj_started_at := or_else (sj_started_at scan) (or_else started (Some now))\<rparr>) d
          else if target = ''completed'' then
            put_scan (scan\<lparr>sj_status := ''completed'',
              sj_finished_at := or_else (sj_finished_at scan) (or_else finished (Some now)),
              sj_error_text := None\<rparr>) d
          else if target = ''cancelled'' then
            end_scan cleanup (scan\<lparr>sj_status := ''cancelled'',
              sj_finished_at := or_else (sj_finished_at scan) (or_else finished (Some now)),
              sj_error_text := Some (text_or err ''Cancelled by user'')\<rparr>) d
          else if target = ''failed'' then
            end_scan cleanup (scan\<lparr>sj_status := ''failed'',
              sj_finished_at := or_else (sj_finished_at scan) (or_else finished (Some now)),
              sj_error_text := err\<rparr>) d
          else d)"

definition plan_item_states :: "db \<Rightarrow> batch_plan \<Rightarrow> string list" where
  "plan_item_states d p = map bi_state (filter (\<lambda>i. bi_plan_id i = bp_id p) (db_items d))"

definition all_completed :: "string list \<Rightarrow> bool" where
  "all_completed states = list_all (\<lambda>s. s = ''completed'') states"

definition ended_plan_status :: "string \<Rightarrow> string list \<Rightarrow> string" where
  "ended_plan_status target states =
     (if states \<noteq> [] \<and> all_completed states then ''completed''
      else if list_ex (\<lambda>s. s = ''completed'' \<or> s = ''failed'') states then ''partial''
      else if target = ''cancelled'' \<and> list_all (\<lambda>s. s = ''pending'') states then ''ready''
      else if target = ''completed'' then (if all_completed states then ''completed'' else ''partial'')
      else ''failed'')"

definition synced_plan :: "db \<Rightarrow> string \<Rightarrow> batch_plan \<Rightarrow> batch_plan" where
  "synced_plan d target plan =
     (if target = ''running'' then plan\<lparr>bp_status := ''executing''\<rparr>
      else if target = ''completed'' \<or> target = ''cancelled'' \<or> target = ''failed'' then
        plan\<lparr>bp_status := ended_plan_status target (plan_item_states d plan)\<rparr>
      else if target = ''paused'' \<and> list_ex (\<lambda>s. s = ''completed'') (plan_item_states d plan) then
        plan\<lparr>bp_status := ''partial''\<rparr>
      else plan)"

definition sync_batch_plan_status :: "work_job \<Rightarrow> string \<Rightarrow> db \<Rightarrow> db \<times> batch_plan option" where
  "sync_batch_plan_status job target d =
     (case linked_plan d job of
        None \<Rightarrow> (d, None)
      | Some plan \<Rightarrow> (put_plan (synced_plan d target plan) d, Some (synced_plan d target plan)))"

subsection \<open>What the synchronisation leaves alone\<close>

lemma sync_frames [simp, db_simps]:
  "db_jobs (put_scan s d) = db_jobs d" "db_jobs (put_plan p d) = db_jobs d"
  "db_jobs (cleanup_partial s d) = db_jobs d"
  "db_items (put_scan s d) = db_items d" "db_items (put_plan p d) = db_items d"
  "db_items (cleanup_partial s d) = db_items d"
  "db_lock (put_scan s d) = db_lock d" "db_lock (put_plan p d) = db_lock d"
  "db_lock (cleanup_partial s d) = db_lock d"
  "db_plans (put_scan s d) = db_plans d" "db_plans (cleanup_partial s d) = db_plans d"
  "db_scans (put_plan p d) = db_scans d" "db_scans (cleanup_partial s d) = db_scans d"
  by (simp_all add: put_scan_def put_plan_def cleanup_partial_def Let_def)

lemma sync_scan_frame [simp, db_simps]:
  "db_jobs (sync_scan_job_status j t st fi e c n d) = db_jobs d"
  "db_items (sync_scan_job_status j t st fi e c n d) = db_items d"
  "db_lock (sync_scan_job_status j t st fi e c n d) = db_lock d"
  "db_plans (sync_scan_job_status j t st fi e c n d) = db_plans d"
  by (simp_all add: sync_scan_job_status_def end_scan_def split: option.splits)

lemma sync_plan_frame [simp, db_simps]:
  "db_jobs (fst (sync_batch_plan_status j t d)) = db_jobs d"
  "db_items (fst (sync_batch_plan_status j t d)) = db_items d"
  "db_lock (fst (sync_batch_plan_status j t d)) = db_lock d"
  "db_scans (fst (sync_batch_plan_status j t d)) = db_scans d"
  by (simp_all add: sync_batch_plan_status_def split: option.splits)

lemma get_job_sync [simp, db_simps]:
  "get_job (sync_scan_job_status j t st fi e c n d) i = get_job d i"
  "get_job (fst (sync_batch_plan_status j t d)) i = get_job d i"
  by (simp_all add: get_job_def)

lemma linked_scan_get: "linked_scan d job = Some s \<Longrightarrow> tbl_get sj_id (db_scans d) (sj_id s) = Some s"
  by (auto simp: linked_scan_def split: option.splits dest: scans.get_key)

lemma linked_plan_get: "linked_plan d job = Some p \<Longrightarrow> tbl_get bp_id (db_plans d) (bp_id p) = Some p"
  by (auto simp: linked_plan_def split: option.splits dest: plans.get_key)

subsection \<open>Properties\<close>

text \<open>
  Cancelling or failing a scan with cleanup leaves no partial result behind: the linked scan
  gets the target status and zero totals, none of its duplicate groups is left, no file row points
  to a removed group, and the groups and files of other scans are kept.
\<close>

theorem sync_scan_cleans_up:
  assumes "target = ''cancelled'' \<or> target = ''failed''" and "linked_scan d job = Some scan"
    and "d' = sync_scan_job_status job target started finished err True now d"
  shows "(\<exists>s'. tbl_get sj_id (db_scans d') (sj_id scan) = Some s' \<and> sj_status s' = target \<and>
            sj_total_groups s' = 0 \<and> sj_total_files_in_groups s' = 0 \<and> sj_reclaimable_bytes s' = 0) \<and>
         (\<forall>g. g \<in> set (db_groups d') \<longleftrightarrow> g \<in> set (db_groups d) \<and> dg_scan_job_id g \<noteq> sj_id scan) \<and>
         (\<forall>f. f \<in> set (db_files d') \<longleftrightarrow> f \<in> set (db_files d) \<and>
            \<not> (\<exists>g \<in> set (db_groups d). dg_id g = df_group_id f \<and> dg_scan_job_id g = sj_id scan))"
proof -
  obtain t where t: "d' = end_scan True t d" "sj_id t = sj_id scan" "sj_status t = target"
    using assms by (auto simp: sync_scan_job_status_def)
  let ?s' = "zero_totals t"
  have "tbl_get sj_id (db_scans d') (sj_id scan) = Some ?s'"
    using linked_scan_get [OF assms(2)] scans.get_put_same [of "db_scans d" ?s' scan] t
    by (simp add: end_scan_def put_scan_def cleanup_partial_def Let_def zero_totals_def)
  then show ?thesis
    using t by (fastforce simp: end_scan_def put_scan_def cleanup_partial_def Let_def tbl_delete_def
        zero_totals_def image_iff)
qed

definition ex_scan_job :: work_job where
  "ex_scan_job = \<lparr>wj_id = 4, wj_kind = ''fclones-scan'', wj_status = CANCEL_REQUESTED,
     wj_progress_current = 1, wj_progress_total = 5, wj_progress_message = None,
     wj_state_json = Text (JObj [(''scan_job_id'', JInt 7)]), wj_checkpoint_json = NoText,
     wj_error_text = None, wj_error_code = None, wj_pause_requested_at = None,
     wj_cancel_requested_at = Some 3, wj_heartbeat_at = Some 3, wj_retry_of = None,
     wj_created_at = 1, wj_started_at = Some 2, wj_finished_at = None\<rparr>"

definition ex_scan :: scan_job where
  "ex_scan = \<lparr>sj_id = 7, sj_name = ''s'', sj_mode = ''normal'', sj_roots = [''/data''],
     sj_status = ''running'', sj_fclones_args = JObj [], sj_started_at = Some 2, sj_finished_at = None,
     sj_total_groups = 2, sj_total_files_in_groups = 4, sj_reclaimable_bytes = 90, sj_error_text = None\<rparr>"

definition ex_db :: db where
  "ex_db = \<lparr>db_jobs = [ex_scan_job], db_events = [], db_scans = [ex_scan],
     db_groups = [\<lparr>dg_id = 1, dg_scan_job_id = 7\<rparr>, \<lparr>dg_id = 2, dg_scan_job_id = 6\<rparr>],
     db_files = [\<lparr>df_id = 1, df_group_id = 1\<rparr>, \<lparr>df_id = 2, df_group_id = 2\<rparr>],
     db_plans = [\<lparr>bp_id = 9, bp_kind = ''delete'', bp_status = ''executing''\<rparr>],
     db_items = [\<lparr>bi_id = 1, bi_plan_id = 9, bi_sequence = 1, bi_operation = ''delete'', bi_source_path = ''/r/a'', bi_target_path = None,
                   bi_state = ''completed'', bi_reason = None\<rparr>],
     db_lock = None, db_worker = None, db_policy = None, db_roots = [], db_schedules = [],
     db_runs = [], db_scheduler = None,
     db_workflows = [], db_wf_revisions = []\<rparr>"

lemma ex_linked: "linked_scan ex_db ex_scan_job = Some ex_scan"
  by (simp add: linked_scan_def linked_ref_def ex_scan_job_def ex_db_def ex_scan_def
      loads_or_empty_def jget_def int_of_json_def tbl_get_def)

theorem sync_scan_cleans_up_witness:
  "\<forall>g. g \<in> set (db_groups (sync_scan_job_status ex_scan_job ''cancelled'' None (Some 5) None True 5 ex_db))
     \<longleftrightarrow> g \<in> set (db_groups ex_db) \<and> dg_scan_job_id g \<noteq> 7"
  using sync_scan_cleans_up [OF _ ex_linked refl, of "''cancelled''" None "Some 5" None 5]
  by (simp add: ex_scan_def)


definition ex_plan_job :: work_job where
  "ex_plan_job = ex_scan_job\<lparr>wj_id := 5, wj_kind := ''batch-plan-execute'',
     wj_state_json := Text (JObj [(''plan_id'', JInt 9)])\<rparr>"


end
