(* ===== verification/JobQueue.thy ===== *)
theory JobQueue
  imports PathSafety TaskSync
begin

section \<open>Putting work on the queue\<close>

text \<open>
  Models app/job_queue.py. Each function validates its input against the configured roots and the
  database, then inserts the rows of the new work in the caller's transaction; an exception leaves
  the rollback to the caller, so here it carries no database.
\<close>

datatype queue_error = QueuePath path_error | NotADirectory path | IndexRootMissing int
  | IndexRootMoved int | IndexRootUnknown string | NoRoots | RootsNotUnique | IsolateNeedsTwo
  | MediaKind string | MediaRootsUnknown "string list"

record enqueued_job =
  eq_work_job :: work_job
  eq_index_root :: "index_root option"
  eq_scan_job :: "scan_job option"
  eq_roots :: "string list"
  eq_created :: bool

definition queue_path :: "path_error + 'a \<Rightarrow> queue_error + 'a" where
  "queue_path r = (case r of Inl e \<Rightarrow> Inl (QueuePath e) | Inr p \<Rightarrow> Inr p)"

definition normalize_root :: "filesystem \<Rightarrow> settings \<Rightarrow> string \<Rightarrow> queue_error + string" where
  "normalize_root fs st raw =
     bind_res (queue_path (require_allowed_path fs (st_allowed_roots st) raw)) (\<lambda>safe.
     bind_res (queue_path (require_unreserved_path fs (st_quarantine_root st) (path_str safe))) (\<lambda>safe.
     Inr (path_str safe)))"

definition require_dir :: "filesystem \<Rightarrow> settings \<Rightarrow> string \<Rightarrow> queue_error + unit" where
  "require_dir fs st root =
     bind_res (queue_path (require_allowed_path fs (st_allowed_roots st) root)) (\<lambda>safe.
     ensure (fs_is_dir fs safe) (NotADirectory safe))"

definition queue_job :: "string \<Rightarrow> json \<Rightarrow> time \<Rightarrow> db \<Rightarrow> db \<times> work_job" where
  "queue_job kind state now d =
     (let j = new_job d kind QUEUED (Text state) now in (add_job j d, j))"

subsection \<open>Indexing\<close>

definition find_index_root ::
  "string \<Rightarrow> int option \<Rightarrow> bool \<Rightarrow> time \<Rightarrow> db \<Rightarrow> queue_error + (db \<times> index_root \<times> bool)" where
  "find_index_root root existing allow_create now d = (case existing of
      Some i \<Rightarrow> (case tbl_get ir_id (db_roots d) i of
          None \<Rightarrow> Inl (IndexRootMissing i)
        | Some r \<Rightarrow> if ir_root r \<noteq> root then Inl (IndexRootMoved i) else Inr (d, r, False))
    | None \<Rightarrow> (case find (\<lambda>r. ir_root r = root) (db_roots d) of
          Some r \<Rightarrow> Inr (d, r, False)
        | None \<Rightarrow>
            if \<not> allow_create then Inl (IndexRootUnknown root)
            else let r = \<lparr>ir_id = tbl_next_id ir_id (db_roots d), ir_root = root, ir_created_at = now\<rparr>
                 in Inr (d\<lparr>db_roots := tbl_insert r (db_roots d)\<rparr>, r, True)))"

definition enqueue_index_work ::
  "filesystem \<Rightarrow> settings \<Rightarrow> string \<Rightarrow> int option \<Rightarrow> bool \<Rightarrow> time \<Rightarrow> db \<Rightarrow> queue_error + (db \<times> enqueued_job)" where
  "enqueue_index_work fs st root existing allow_create now d =
     bind_res (normalize_root fs st root) (\<lambda>root_str.
     bind_res (require_dir fs st root_str) (\<lambda>_.
     bind_res (find_index_root root_str existing allow_create now d) (\<lambda>(d1, r, created).
     let (d2, work) = queue_job ''index-root'' (JObj [(''root'', JStr root_str)]) now d1
     in Inr (d2, \<lparr>eq_work_job = work, eq_index_root = Some r, eq_scan_job = None,
                  eq_roots = [root_str], eq_created = created\<rparr>))))"

subsection \<open>Duplicate scans\<close>

definition opt_str :: "string option \<Rightarrow> json" where
  "opt_str s = (case s of None \<Rightarrow> JNull | Some t \<Rightarrow> JStr t)"

definition str_list :: "string list \<Rightarrow> json" where
  "str_list xs = JList (map JStr xs)"

definition opt_strs :: "string list option \<Rightarrow> json" where
  "opt_strs xs = (case xs of None \<Rightarrow> JNull | Some ys \<Rightarrow> str_list ys)"

record scan_request =
  sq_name :: string
  sq_roots :: "string list"
  sq_isolate :: bool
  sq_min_size :: "string option"
  sq_name_patterns :: "string list option"
  sq_exclude_patterns :: "string list option"

definition scan_args :: "scan_request \<Rightarrow> (string \<times> json) list" where
  "scan_args q = [(''min_size'', opt_str (sq_min_size q)), (''name_patterns'', opt_strs (sq_name_patterns q)),
     (''exclude_patterns'', opt_strs (sq_exclude_patterns q))]"

definition new_scan :: "scan_request \<Rightarrow> string list \<Rightarrow> db \<Rightarrow> scan_job" where
  "new_scan q roots d =
     \<lparr>sj_id = tbl_next_id sj_id (db_scans d), sj_name = sq_name q,
      sj_mode = (if sq_isolate q then ''isolate'' else ''normal''), sj_roots = roots,
      sj_status = ''queued'', sj_fclones_args = JObj (scan_args q), sj_started_at = None,
      sj_finished_at = None, sj_total_groups = 0, sj_total_files_in_groups = 0,
      sj_reclaimable_bytes = 0, sj_error_text = None\<rparr>"

definition enqueue_scan_work ::
  "filesystem \<Rightarrow> settings \<Rightarrow> scan_request \<Rightarrow> bool \<Rightarrow> bool \<Rightarrow> time \<Rightarrow> db \<Rightarrow> queue_error + (db \<times> enqueued_job)" where
  "enqueue_scan_work fs st q require_existing_dirs require_unique_roots now d =
     bind_res (map_res (normalize_root fs st) (sq_roots q)) (\<lambda>roots.
     bind_res (ensure (roots \<noteq> []) NoRoots) (\<lambda>_.
     bind_res (ensure (\<not> (require_unique_roots \<and> \<not> distinct roots)) RootsNotUnique) (\<lambda>_.
     bind_res (ensure (\<not> (sq_isolate q \<and> length roots < 2)) IsolateNeedsTwo) (\<lambda>_.
     bind_res (if require_existing_dirs then map_res (require_dir fs st) roots else Inr []) (\<lambda>_.
     let scan = new_scan q roots d;
         d1 = d\<lparr>db_scans := tbl_insert scan (db_scans d)\<rparr>;
         (d2, work) = queue_job ''fclones-scan''
           (JObj ([(''scan_job_id'', JInt (sj_id scan)), (''roots'', str_list roots),
              (''isolate'', JBool (sq_isolate q))] @ scan_args q)) now d1
     in Inr (d2, \<lparr>eq_work_job = work, eq_index_root = None, eq_scan_job = Some scan,
                  eq_roots = roots, eq_created = False\<rparr>))))))"

subsection \<open>Media work\<close>

definition normalize_media_root :: "filesystem \<Rightarrow> settings \<Rightarrow> bool \<Rightarrow> string \<Rightarrow> queue_error + string" where
  "normalize_media_root fs st require_unreserved raw =
     bind_res (queue_path (require_allowed_path fs (st_allowed_roots st) raw)) (\<lambda>safe.
     bind_res (if require_unreserved
               then queue_path (require_unreserved_path fs (st_quarantine_root st) (path_str safe))
               else Inr safe) (\<lambda>safe. Inr (path_str safe)))"

fun keep_first :: "string list \<Rightarrow> string list \<Rightarrow> string list" where
  "keep_first seen [] = []"
| "keep_first seen (x # xs) = (if x \<in> set seen then keep_first seen xs else x # keep_first (x # seen) xs)"

definition validate_media_roots ::
  "filesystem \<Rightarrow> settings \<Rightarrow> string list \<Rightarrow> bool \<Rightarrow> db \<Rightarrow> queue_error + string list" where
  "validate_media_roots fs st root_keys require_unreserved d =
     bind_res (ensure (root_keys \<noteq> []) NoRoots) (\<lambda>_.
     bind_res (map_res (normalize_media_root fs st require_unreserved) root_keys) (\<lambda>roots.
     let normalized = keep_first [] roots;
         missing = filter (\<lambda>r. r \<notin> ir_root ` set (db_roots d)) normalized
     in if missing \<noteq> [] then Inl (MediaRootsUnknown missing) else Inr normalized))"

definition enqueue_media_work ::
  "filesystem \<Rightarrow> settings \<Rightarrow> string \<Rightarrow> string list \<Rightarrow> bool \<Rightarrow> time \<Rightarrow> db \<Rightarrow> queue_error + (db \<times> enqueued_job)" where
  "enqueue_media_work fs st kind root_keys require_unreserved now d =
     bind_res (ensure (kind \<in> {''media-analysis'', ''media-integrity-verify''}) (MediaKind kind)) (\<lambda>_.
     bind_res (validate_media_roots fs st root_keys require_unreserved d) (\<lambda>roots.
     let (d1, work) = queue_job kind (JObj [(''root_keys'', str_list roots)]) now d
     in Inr (d1, \<lparr>eq_work_job = work, eq_index_root = None, eq_scan_job = None,
                  eq_roots = roots, eq_created = False\<rparr>)))"

subsection \<open>What is queued\<close>

text \<open>One fresh queued job is appended, and its roots lie inside the allowed ones and off the quarantine.\<close>

definition confined :: "filesystem \<Rightarrow> settings \<Rightarrow> string \<Rightarrow> bool" where
  "confined fs st r \<longleftrightarrow> is_path_allowed fs (st_allowed_roots st) r \<and>
     \<not> is_reserved_quarantine_path fs (st_quarantine_root st) r"

definition appended :: "db \<Rightarrow> db \<Rightarrow> work_job \<Rightarrow> bool" where
  "appended d d' w \<longleftrightarrow>
     db_jobs d' = db_jobs d @ [w] \<and> wj_status w = QUEUED \<and> wj_kind w \<noteq> ''batch-plan-execute'' \<and>
     wj_id w = tbl_next_id wj_id (db_jobs d) \<and>
     db_runs d' = db_runs d \<and> db_schedules d' = db_schedules d \<and> db_scheduler d' = db_scheduler d"

definition roots_confined :: "filesystem \<Rightarrow> settings \<Rightarrow> enqueued_job \<Rightarrow> bool" where
  "roots_confined fs st q \<longleftrightarrow> eq_roots q \<noteq> [] \<and> list_all (confined fs st) (eq_roots q)"

lemma queue_path_Inr: "queue_path r = Inr p \<longleftrightarrow> r = Inr p"
  by (cases r) (auto simp: queue_path_def)

lemma normalize_root_confined:
  "normalize_root fs st raw = Inr r \<Longrightarrow> resolve_idempotent fs \<Longrightarrow> confined fs st r"
  by (auto simp: normalize_root_def bind_res_Inr queue_path_Inr require_allowed_Inr require_unreserved_Inr
      confined_def allowed_resolved resolve_idempotent_def)

lemma normalize_media_confined:
  "normalize_media_root fs st True raw = Inr r \<Longrightarrow> resolve_idempotent fs \<Longrightarrow> confined fs st r"
  by (auto simp: normalize_media_root_def bind_res_Inr queue_path_Inr require_allowed_Inr require_unreserved_Inr
      confined_def allowed_resolved resolve_idempotent_def)

lemma normalized_roots_confined:
  "map_res (normalize_root fs st) raws = Inr rs \<Longrightarrow> resolve_idempotent fs \<Longrightarrow> list_all (confined fs st) rs"
  using map_res_set [of "normalize_root fs st" raws rs] normalize_root_confined by (fastforce simp: list_all_iff)

lemma keep_first_set: "set (keep_first seen xs) = set xs - set seen"
  by (induction xs arbitrary: seen) auto

lemma keep_first_distinct: "distinct (keep_first seen xs)"
  by (induction xs arbitrary: seen) (auto simp: keep_first_set)

lemma queue_job_frame:
  "queue_job kind state now d = (d', work) \<Longrightarrow>
     db_jobs d' = db_jobs d @ [work] \<and> wj_status work = QUEUED \<and> wj_kind work = kind \<and>
     wj_state_json work = Text state \<and> wj_id work = tbl_next_id wj_id (db_jobs d) \<and>
     db_scans d' = db_scans d \<and> db_roots d' = db_roots d \<and> db_runs d' = db_runs d \<and>
     db_schedules d' = db_schedules d \<and> db_scheduler d' = db_scheduler d"
  by (auto simp: queue_job_def Let_def add_job_def tbl_insert_def new_job_def)

lemma find_index_root_frame:
  "find_index_root root e c now d = Inr (d1, r, created) \<Longrightarrow>
     db_jobs d1 = db_jobs d \<and> db_runs d1 = db_runs d \<and> db_schedules d1 = db_schedules d \<and>
     db_scheduler d1 = db_scheduler d \<and> ir_root r = root \<and> r \<in> set (db_roots d1)"
  by (auto simp: find_index_root_def Let_def tbl_insert_def find_Some_iff dest: tbl_get_Some split: option.splits if_splits)

lemma enqueue_index_queued:
  assumes "enqueue_index_work fs st root e c now d = Inr (d', q)"
  shows "appended d d' (eq_work_job q) \<and> (resolve_idempotent fs \<longrightarrow> roots_confined fs st q)"
proof -
  obtain r where r: "normalize_root fs st root = Inr r"
    using assms(1) by (cases "normalize_root fs st root") (auto simp: enqueue_index_work_def)
  obtain d1 ir created where f: "find_index_root r e c now d = Inr (d1, ir, created)"
    using assms(1) r by (cases "find_index_root r e c now d") (auto simp: enqueue_index_work_def bind_res_Inr)
  have q: "queue_job ''index-root'' (JObj [(''root'', JStr r)]) now d1 = (d', eq_work_job q)" "eq_roots q = [r]"
    using assms(1) r f by (auto simp: enqueue_index_work_def bind_res_Inr split: prod.splits)
  show ?thesis
    using find_index_root_frame [OF f] queue_job_frame [OF q(1)] normalize_root_confined [OF r] q(2)
    by (simp add: appended_def roots_confined_def)
qed

lemma validated_media_roots:
  assumes "validate_media_roots fs st keys True d = Inr rs" "resolve_idempotent fs"
  shows "rs \<noteq> [] \<and> distinct rs \<and> list_all (confined fs st) rs \<and> set rs \<subseteq> ir_root ` set (db_roots d)"
proof -
  from assms(1) obtain ns where n: "keys \<noteq> []" "map_res (normalize_media_root fs st True) keys = Inr ns"
    "rs = keep_first [] ns" "filter (\<lambda>r. r \<notin> ir_root ` set (db_roots d)) rs = []"
    by (auto simp: validate_media_roots_def Let_def bind_res_Inr split: if_splits)
  have "list_all (confined fs st) ns"
    using map_res_set [OF n(2)] normalize_media_confined assms(2) by (fastforce simp: list_all_iff)
  moreover have "ns \<noteq> []" using n(1,2) by (auto simp: map_res_Inr_iff)
  ultimately show ?thesis
    using n(3,4) keep_first_set [of "[]" ns] keep_first_distinct [of "[]" ns]
    by (auto simp: list_all_iff filter_empty_conv)
qed

lemma enqueue_media_queued:
  assumes "enqueue_media_work fs st kind keys True now d = Inr (d', q)"
  shows "appended d d' (eq_work_job q) \<and> (resolve_idempotent fs \<longrightarrow> roots_confined fs st q)"
proof -
  obtain rs where rs: "validate_media_roots fs st keys True d = Inr rs"
    using assms(1) by (cases "validate_media_roots fs st keys True d") (auto simp: enqueue_media_work_def split: if_splits)
  have "queue_job kind (JObj [(''root_keys'', str_list rs)]) now d = (d', eq_work_job q) \<and> eq_roots q = rs"
    using assms(1) rs by (auto simp: enqueue_media_work_def Let_def split: prod.splits if_splits)
  moreover have "kind = ''media-analysis'' \<or> kind = ''media-integrity-verify''"
    using assms(1) by (auto simp: enqueue_media_work_def split: if_splits)
  ultimately show ?thesis using queue_job_frame validated_media_roots [OF rs]
    by (auto simp: appended_def roots_confined_def)
qed

lemma enqueue_scan_parts:
  assumes "enqueue_scan_work fs st q dirs uniq now d = Inr (d', e)"
  obtains rs where "map_res (normalize_root fs st) (sq_roots q) = Inr rs" "rs \<noteq> []" "eq_roots e = rs"
    "uniq \<longrightarrow> distinct rs" "sq_isolate q \<longrightarrow> 2 \<le> length rs"
    "dirs \<longrightarrow> (\<exists>us. map_res (require_dir fs st) rs = Inr us)"
    "eq_scan_job e = Some (new_scan q rs d)"
    "queue_job ''fclones-scan'' (JObj ([(''scan_job_id'', JInt (sj_id (new_scan q rs d))),
        (''roots'', str_list rs), (''isolate'', JBool (sq_isolate q))] @ scan_args q)) now
       (d\<lparr>db_scans := tbl_insert (new_scan q rs d) (db_scans d)\<rparr>) = (d', eq_work_job e)"
proof -
  obtain rs where rs: "map_res (normalize_root fs st) (sq_roots q) = Inr rs"
    using assms by (cases "map_res (normalize_root fs st) (sq_roots q)") (auto simp: enqueue_scan_work_def)
  show thesis
    by (rule that [OF rs]; use assms rs in
        \<open>auto simp: enqueue_scan_work_def Let_def bind_res_Inr not_less split: prod.splits if_splits\<close>)
qed

lemma linked_scan_of_queued:
  assumes "wj_kind w = ''fclones-scan''" "wj_state_json w = Text (JObj ((''scan_job_id'', JInt (sj_id s)) # kvs))"
    and "tbl_get sj_id (db_scans d) (sj_id s) = Some s" "sj_id s \<noteq> 0"
  shows "linked_scan d w = Some s"
  using assms by (simp add: linked_scan_def linked_ref_def loads_or_empty_def jget_def int_of_json_def)

lemma enqueue_scan_queued:
  assumes "enqueue_scan_work fs st q dirs uniq now d = Inr (d', e)"
  shows "appended d d' (eq_work_job e) \<and> (resolve_idempotent fs \<longrightarrow> roots_confined fs st e)"
  using assms(1)
proof (cases rule: enqueue_scan_parts)
  case (1 rs)
  show ?thesis
    using queue_job_frame [OF 1(8)] 1(2,3) normalized_roots_confined [OF 1(1)] by (simp add: appended_def roots_confined_def)
qed

lemma next_id_pos: "0 < tbl_next_id key rows"
  using tbl_fold_max [of 0 key rows] by (simp add: tbl_next_id_def)

subsection \<open>Properties\<close>

text \<open>
  C18: A queued duplicate scan is confined, fresh and linked. When the enqueue succeeds, every root
  of the scan lies inside an allowed root, outside the reserved quarantine, and, as requested, is
  an existing directory and listed once (at least two for an isolate scan); exactly one queued
  work job with a fresh id and one queued scan row are appended; and the scan row that
  the job's JSON state links to is the new one. An input with a root outside the allowed ones is
  refused.
\<close>

theorem enqueued_scan_confined_and_linked:
  assumes "resolve_idempotent fs"
    and "enqueue_scan_work fs st q dirs uniq now d = Inr (d', e)"
  shows "list_all (confined fs st) (eq_roots e) \<and> (uniq \<longrightarrow> distinct (eq_roots e)) \<and>
    (sq_isolate q \<longrightarrow> 2 \<le> length (eq_roots e)) \<and>
    (dirs \<longrightarrow> list_all (\<lambda>r. fs_is_dir fs (fs_resolve fs r)) (eq_roots e)) \<and>
    list_all (\<lambda>raw. is_path_allowed fs (st_allowed_roots st) raw) (sq_roots q) \<and>
    db_jobs d' = db_jobs d @ [eq_work_job e] \<and> wj_id (eq_work_job e) \<notin> wj_id ` set (db_jobs d) \<and>
    wj_status (eq_work_job e) = QUEUED \<and>
    (\<exists>s. eq_scan_job e = Some s \<and> sj_status s = ''queued'' \<and> sj_roots s = eq_roots e \<and>
       db_scans d' = db_scans d @ [s] \<and> sj_id s \<notin> sj_id ` set (db_scans d) \<and>
       linked_scan d' (eq_work_job e) = Some s)"
  using assms(2)
proof (cases rule: enqueue_scan_parts)
  case (1 rs)
  let ?s = "new_scan q rs d"
  note f = queue_job_frame [OF 1(8)]
  have fresh: "wj_id (eq_work_job e) \<notin> wj_id ` set (db_jobs d)" "sj_id ?s \<notin> sj_id ` set (db_scans d)"
    using f tbl_fresh [of _ "db_jobs d" wj_id] tbl_fresh [of _ "db_scans d" sj_id]
    by (force simp: new_scan_def)+
  have "tbl_get sj_id (db_scans d') (sj_id ?s) = Some ?s"
    using f scans.get_add_fresh [of ?s "db_scans d"] by (simp add: new_scan_def)
  moreover have "sj_id ?s \<noteq> 0" using next_id_pos [of sj_id "db_scans d"] by (simp add: new_scan_def)
  ultimately have "linked_scan d' (eq_work_job e) = Some ?s"
    using f by (intro linked_scan_of_queued) simp_all
  moreover have "dirs \<longrightarrow> list_all (\<lambda>r. fs_is_dir fs (fs_resolve fs r)) rs"
    using 1(6) by (auto simp: map_res_Inr_iff list_all2_conv_all_nth list_all_length require_dir_def bind_res_Inr
        queue_path_Inr require_allowed_Inr)
  moreover have "list_all (\<lambda>raw. is_path_allowed fs (st_allowed_roots st) raw) (sq_roots q)"
    using 1(1) by (auto simp: map_res_Inr_iff list_all2_conv_all_nth list_all_length normalize_root_def bind_res_Inr
        queue_path_Inr require_allowed_Inr)
  ultimately show ?thesis
    using f fresh 1 normalized_roots_confined [OF 1(1) assms(1)]
    by (simp add: tbl_insert_def new_scan_def)
qed

text \<open>A file system without links: the components of a path are its parts between slashes.\<close>

definition plain_fs :: filesystem where
  "plain_fs = \<lparr>fs_resolve = (\<lambda>s. filter (\<lambda>p. p \<noteq> []) (split_char CHR ''/'' s)), fs_is_dir = (\<lambda>_. True)\<rparr>"

lemma split_path_str:
  "\<forall>p \<in> set ps. p \<noteq> [] \<and> CHR ''/'' \<notin> set p \<Longrightarrow> filter (\<lambda>p. p \<noteq> []) (split_char CHR ''/'' (path_str ps)) = ps"
proof -
  have "filter (\<lambda>p. p \<noteq> []) (split_char CHR ''/'' (x @ concat (map (\<lambda>c. CHR ''/'' # c) ps))) = filter (\<lambda>p. p \<noteq> []) [x] @ ps"
    if "\<forall>p \<in> set ps. p \<noteq> [] \<and> CHR ''/'' \<notin> set p" "CHR ''/'' \<notin> set x" for x
    using that by (induction ps arbitrary: x) auto
  from this [of "[]"] show "\<forall>p \<in> set ps. p \<noteq> [] \<and> CHR ''/'' \<notin> set p \<Longrightarrow> ?thesis"
    by (auto simp: path_str_def)
qed

lemma plain_fs_idempotent: "resolve_idempotent plain_fs"
  using split_char_free [of _ "CHR ''/''"] by (auto simp: resolve_idempotent_def plain_fs_def intro!: split_path_str)

definition nas_settings :: settings where
  "nas_settings = \<lparr>st_allowed_roots = [''/data''], st_quarantine_root = Some ''/data/.trash''\<rparr>"

definition photo_scan :: scan_request where
  "photo_scan = \<lparr>sq_name = ''photos'', sq_roots = [''/data/a'', ''/data//b/''], sq_isolate = True,
     sq_min_size = None, sq_name_patterns = None, sq_exclude_patterns = None\<rparr>"

definition no_db :: db where
  "no_db = \<lparr>db_jobs = [], db_events = [], db_scans = [], db_groups = [], db_files = [],
     db_plans = [], db_items = [], db_lock = None, db_worker = None, db_policy = None,
     db_roots = [], db_schedules = [], db_runs = [], db_scheduler = None,
     db_workflows = [], db_wf_revisions = []\<rparr>"

lemma photo_scan_queued:
  "map_sum id (eq_roots \<circ> snd) (enqueue_scan_work plain_fs nas_settings photo_scan True True 7 no_db)
     = Inr [''/data/a'', ''/data/b'']"
  "enqueue_scan_work plain_fs nas_settings (photo_scan\<lparr>sq_roots := [''/database'', ''/data/b'']\<rparr>) True True 7 no_db
     = Inl (QueuePath (OutsideRoots ''/database''))"
  by code_simp+

theorem enqueued_scan_confined_and_linked_witness:
  "\<exists>d' e. enqueue_scan_work plain_fs nas_settings photo_scan True True 7 no_db = Inr (d', e) \<and>
     eq_roots e = [''/data/a'', ''/data/b''] \<and> list_all (confined plain_fs nas_settings) (eq_roots e) \<and>
     (\<exists>s. linked_scan d' (eq_work_job e) = Some s)"
proof -
  obtain d' e where e: "enqueue_scan_work plain_fs nas_settings photo_scan True True 7 no_db = Inr (d', e)"
    "eq_roots e = [''/data/a'', ''/data/b'']"
    using photo_scan_queued(1)
    by (cases "enqueue_scan_work plain_fs nas_settings photo_scan True True 7 no_db") auto
  with enqueued_scan_confined_and_linked [OF plain_fs_idempotent e(1)] show ?thesis by blast
qed

end
