(* ===== verification/PyJson.thy ===== *)
theory PyJson
  imports Records
begin

section \<open>Printing numbers and JSON\<close>

text \<open>
  \<open>str(int)\<close>, \<open>json.dumps(value, ensure_ascii=False)\<close> with its default separators, and the number
  of bytes of a text in UTF-8, as the components use them. Code points stay below 256.
\<close>

fun digits_of :: "nat \<Rightarrow> string" where
  "digits_of n = (if n < 10 then [char_of (48 + n)] else digits_of (n div 10) @ [char_of (48 + n mod 10)])"

declare digits_of.simps [simp del]

definition str_of_int :: "int \<Rightarrow> string" where
  "str_of_int i = (if i < 0 then CHR ''-'' # digits_of (nat (- i)) else digits_of (nat i))"

definition hex_digit :: "nat \<Rightarrow> char" where
  "hex_digit n = (if n < 10 then char_of (48 + n) else char_of (87 + n))"

definition escape_char :: "char \<Rightarrow> string" where
  "escape_char c = (let n = (of_char c :: nat) in
     if n = 34 then [CHR 0x5C, c] else if n = 92 then [CHR 0x5C, c]
     else if n = 10 then [CHR 0x5C, CHR ''n''] else if n = 13 then [CHR 0x5C, CHR ''r'']
     else if n = 9 then [CHR 0x5C, CHR ''t''] else if n = 8 then [CHR 0x5C, CHR ''b'']
     else if n = 12 then [CHR 0x5C, CHR ''f'']
     else if n < 32 then [CHR 0x5C, CHR ''u'', CHR ''0'', CHR ''0'', hex_digit (n div 16), hex_digit (n mod 16)]
     else [c])"

definition quote_json :: "string \<Rightarrow> string" where
  "quote_json s = CHR 0x22 # concat (map escape_char s) @ [CHR 0x22]"

fun join_with :: "string \<Rightarrow> string list \<Rightarrow> string" where
  "join_with sep [] = []"
| "join_with sep [x] = x"
| "join_with sep (x # y # ys) = x @ sep @ join_with sep (y # ys)"

fun json_dumps :: "json \<Rightarrow> string" where
  "json_dumps JNull = ''null''"
| "json_dumps (JBool b) = (if b then ''true'' else ''false'')"
| "json_dumps (JInt i) = str_of_int i"
| "json_dumps (JStr s) = quote_json s"
| "json_dumps (JList xs) = ''['' @ join_with '', '' (map json_dumps xs) @ '']''"
| "json_dumps (JObj kvs) =
     ''{'' @ join_with '', '' (map (\<lambda>kv. quote_json (fst kv) @ '': '' @ json_dumps (snd kv)) kvs) @ ''}''"

definition utf8_length :: "string \<Rightarrow> int" where
  "utf8_length s = int (length s) + int (length (filter (\<lambda>c. (of_char c :: nat) \<ge> 128) s))"

text \<open>A printed number is read back by \<open>int(text)\<close>.\<close>

lemma digits_of_digits: "\<forall>c \<in> set (digits_of n). is_digit c" "digits_of n \<noteq> []"
proof (induction n rule: digits_of.induct)
  case (1 n)
  { case 1 then show ?case using "1.IH"
      by (subst digits_of.simps) (auto simp: is_digit_def less_eq_char_def) }
  { case 2 show ?case by (subst digits_of.simps) simp }
qed

lemma digits_val_True:
  "\<forall>c \<in> set xs. is_digit c \<Longrightarrow> digits_val a True (xs @ ys) = digits_val (the (digits_val a True xs)) True ys"
proof (induction xs arbitrary: a)
  case (Cons x xs)
  then show ?case using Cons.IH [of "10 * a + digit_val x"] by (simp del: add_mult_distrib)
qed simp

lemma digits_val_append:
  "\<forall>c \<in> set xs. is_digit c \<Longrightarrow> xs \<noteq> [] \<Longrightarrow>
     digits_val a b (xs @ ys) = digits_val (the (digits_val a b xs)) True ys"
  by (cases xs) (use digits_val_True in auto)

lemma of_char_int: "(of_char c :: int) = int (of_char c)"
  by (cases c) simp

lemma digits_val_of: "digits_val 0 b (digits_of n) = Some (int n)"
proof (induction n arbitrary: b rule: digits_of.induct)
  case (1 n)
  have d: "is_digit (char_of (48 + n mod 10))" "digit_val (char_of (48 + n mod 10)) = int (n mod 10)"
    by (auto simp: is_digit_def less_eq_char_def digit_val_def of_char_int)
  show ?case
  proof (cases "n < 10")
    case True
    with d show ?thesis by (subst digits_of.simps) simp
  next
    case False
    have "digits_of n = digits_of (n div 10) @ [char_of (48 + n mod 10)]"
      using False by (subst digits_of.simps) simp
    then have "digits_val 0 b (digits_of n) = Some (10 * int (n div 10) + int (n mod 10))"
      using d 1 [OF False] digits_of_digits [of "n div 10"] by (simp add: digits_val_append)
    also have "10 * int (n div 10) + int (n mod 10) = int n" by presburger
    finally show ?thesis .
  qed
qed

lemma digit_not_space: "is_digit c \<Longrightarrow> \<not> py_space c" "is_digit c \<Longrightarrow> c \<noteq> CHR ''-'' \<and> c \<noteq> CHR ''+''"
  by (auto simp: is_digit_def py_space_def less_eq_char_def Let_def)

lemma py_strip_id: "s \<noteq> [] \<Longrightarrow> \<not> py_space (hd s) \<Longrightarrow> \<not> py_space (last s) \<Longrightarrow> py_strip s = s"
proof -
  assume a: "s \<noteq> []" "\<not> py_space (hd s)" "\<not> py_space (last s)"
  have "dropWhile py_space s = s" using a by (cases s) auto
  moreover have "dropWhile py_space (rev s) = rev s" using a by (cases s rule: rev_cases) auto
  ultimately show ?thesis by (simp add: py_strip_def)
qed

lemma int_of_text_str: "int_of_text (str_of_int i) = Some i"
proof -
  let ?ds = "digits_of (nat (if i < 0 then - i else i))"
  have ds: "\<forall>c \<in> set ?ds. is_digit c" "?ds \<noteq> []" by (rule digits_of_digits)+
  obtain c cs where c: "?ds = c # cs" using ds(2) by (cases ?ds) auto
  have l: "\<not> py_space (last ?ds)" using ds by (intro digit_not_space) auto
  have h: "is_digit c" using ds c by auto
  have v: "digits_val 0 False ?ds = Some (int (nat (if i < 0 then - i else i)))" by (rule digits_val_of)
  show ?thesis
  proof (cases "i < 0")
    case True
    have "py_strip (CHR ''-'' # ?ds) = CHR ''-'' # ?ds"
      using l ds by (intro py_strip_id) (auto simp: py_space_def)
    with True v show ?thesis by (simp add: str_of_int_def int_of_text_def)
  next
    case False
    have "py_strip ?ds = ?ds" using l ds digit_not_space(1) [OF h] c by (intro py_strip_id) auto
    with False v digit_not_space(2) [OF h] c show ?thesis by (simp add: str_of_int_def int_of_text_def)
  qed
qed

end
