(* ===== verification/SchedulerDispatch.thy ===== *)
theory SchedulerDispatch
  imports SchedulerService JobQueue PyJson
begin

section \<open>Dispatching schedules\<close>

text \<open>
  Models app/scheduler/dispatch.py: one tick of the scheduler, the transaction for one due
  schedule, and a run requested by an administrator. The savepoint around the enqueue is the
  database before it. \<open>mode_of\<close> stands for the validation of a pinned workflow definition
  (\<open>validate_raw_steps_types\<close>, \<open>WorkflowDefinition\<close> and \<open>validate_workflow_definition\<close>): the
  mode of a valid definition, \<open>None\<close> when any of them raises. Error texts are not modelled.
\<close>

datatype dispatch_error = InvalidTarget | TargetTypeMismatch string string | RootGone int
  | QueueRefused queue_error | WorkflowGone int | WorkflowArchived int | RevisionGone int int
  | DigestMismatch | DefinitionInvalid | UtilityRuntimeInputs | UtilityDraft | DedupeInputs
  | ScanGone int | ScanNotCompleted string | FileScanInput | RootIdsRepeated | RootIdsMissing "int list"

datatype outcome = NotDue | MissedSkipped | DuplicateSlot | SkippedOverlap | DispatchFailed | Dispatched

datatype tick_error = TickLease lease_error | TickCron cron_error

datatype run_now_error = NowNotFound int | NowCollision

record tick_result =
  tr_lease_acquired :: bool
  tr_due_seen :: int
  tr_dispatched :: int
  tr_skipped_overlap :: int
  tr_missed_skipped :: int
  tr_failed :: int
  tr_duplicate_slots :: int

abbreviation micros_per_minute :: int where "micros_per_minute \<equiv> 60000000"

definition minute_floor :: "time \<Rightarrow> time" where
  "minute_floor t = t div micros_per_minute * micros_per_minute"

text \<open>\<open>value.isoformat()\<close> of an instant in UTC.\<close>

definition pad :: "nat \<Rightarrow> int \<Rightarrow> string" where
  "pad n i = (let s = str_of_int i in replicate (n - length s) CHR ''0'' @ s)"

definition isoformat :: "time \<Rightarrow> string" where
  "isoformat t =
     (let (y, m, dd) = civil_of_days (t div micros_per_day);
          us = t mod micros_per_day; secs = us div 1000000; frac = us mod 1000000
      in pad 4 y @ ''-'' @ pad 2 m @ ''-'' @ pad 2 dd @ ''T'' @ pad 2 (secs div 3600) @ '':'' @
         pad 2 (secs div 60 mod 60) @ '':'' @ pad 2 (secs mod 60) @
         (if frac = 0 then [] else ''.'' @ pad 6 frac) @ ''+00:00'')"

subsection \<open>The target\<close>

definition parse_target :: "schedule \<Rightarrow> dispatch_error + schedule_target" where
  "parse_target s = (case sc_target_json s of
      Text v \<Rightarrow> (case p_target v of
          None \<Rightarrow> Inl InvalidTarget
        | Some t \<Rightarrow> if target_type t \<noteq> sc_target_type s
            then Inl (TargetTypeMismatch (sc_target_type s) (target_type t)) else Inr t)
    | _ \<Rightarrow> Inl InvalidTarget)"

definition queue_res :: "queue_error + 'a \<Rightarrow> dispatch_error + 'a" where
  "queue_res r = (case r of Inl e \<Rightarrow> Inl (QueueRefused e) | Inr x \<Rightarrow> Inr x)"

definition check_workflow :: "(db \<Rightarrow> json_text \<Rightarrow> string option) \<Rightarrow> int \<Rightarrow> int \<Rightarrow> string \<Rightarrow> db \<Rightarrow> dispatch_error + string" where
  "check_workflow mode_of wid number sha d = (case tbl_get wf_id (db_workflows d) wid of
      None \<Rightarrow> Inl (WorkflowGone wid)
    | Some w \<Rightarrow>
        if wf_archived_at w \<noteq> None then Inl (WorkflowArchived wid)
        else (case find (\<lambda>r. wr_workflow_id r = wid \<and> wr_revision r = number) (db_wf_revisions d) of
            None \<Rightarrow> Inl (RevisionGone wid number)
          | Some r \<Rightarrow>
              if py_lower (wr_definition_sha256 r) \<noteq> py_lower sha then Inl DigestMismatch
              else (case mode_of d (wr_definition_json r) of None \<Rightarrow> Inl DefinitionInvalid | Some m \<Rightarrow> Inr m)))"

definition check_runtime_inputs ::
  "string \<Rightarrow> string \<Rightarrow> runtime_inputs option \<Rightarrow> db \<Rightarrow> dispatch_error + unit" where
  "check_runtime_inputs mode action inputs d =
     (if mode = ''utility'' then
        (if inputs \<noteq> None then Inl UtilityRuntimeInputs
         else if action = ''draft'' then Inl UtilityDraft else Inr ())
      else if mode = ''dedupe'' then
        (case inputs of
           None \<Rightarrow> Inl DedupeInputs
         | Some ri \<Rightarrow> (case ri_scan_job_id ri of
             None \<Rightarrow> Inl DedupeInputs
           | Some i \<Rightarrow>
               if ri_root_ids ri \<noteq> None then Inl DedupeInputs
               else (case tbl_get sj_id (db_scans d) i of
                   None \<Rightarrow> Inl (ScanGone i)
                 | Some scan \<Rightarrow> if sj_status scan \<noteq> ''completed'' then Inl (ScanNotCompleted (sj_status scan)) else Inr ())))
      else if mode = ''file'' \<or> mode = ''organizer'' then
        (case inputs of
           None \<Rightarrow> Inr ()
         | Some ri \<Rightarrow>
             if ri_scan_job_id ri \<noteq> None then Inl FileScanInput
             else (case ri_root_ids ri of
                 None \<Rightarrow> Inr ()
               | Some ids \<Rightarrow>
                   if \<not> distinct ids then Inl RootIdsRepeated
                   else let missing = filter (\<lambda>i. i \<notin> ir_id ` set (db_roots d)) (sort ids)
                        in if missing \<noteq> [] then Inl (RootIdsMissing missing) else Inr ()))
      else Inr ())"

definition workflow_state :: "int \<Rightarrow> int \<Rightarrow> string \<Rightarrow> string \<Rightarrow> runtime_inputs option \<Rightarrow> int option \<Rightarrow> json" where
  "workflow_state wid number sha action inputs user =
     sort_keys (JObj [(''workflow_id'', JInt wid), (''workflow_revision'', JInt number),
       (''definition_sha256'', JStr (py_lower sha)), (''action'', JStr action),
       (''runtime_inputs'', j_opt dump_runtime_inputs inputs), (''requested_by_user_id'', j_opt JInt user)])"

definition scheduler_metadata :: "schedule \<Rightarrow> schedule_run \<Rightarrow> time \<Rightarrow> json" where
  "scheduler_metadata s run slot =
     JObj [(''schedule_id'', JInt (sc_id s)), (''schedule_revision'', JInt (sc_revision s)),
       (''schedule_run_id'', JInt (sr_id run)), (''scheduled_for_utc'', JStr (isoformat slot))]"

definition with_scheduler :: "schedule \<Rightarrow> schedule_run \<Rightarrow> time \<Rightarrow> work_job \<Rightarrow> work_job" where
  "with_scheduler s run slot job =
     (let state = (case loads_or_empty (wj_state_json job) of Some (JObj kvs) \<Rightarrow> kvs | _ \<Rightarrow> [])
      in job\<lparr>wj_state_json := Text (sort_keys (JObj (dict_set ''scheduler'' (scheduler_metadata s run slot) state)))\<rparr>)"

definition attach_scheduler_metadata ::
  "schedule \<Rightarrow> schedule_run \<Rightarrow> time \<Rightarrow> db \<times> enqueued_job \<Rightarrow> db \<times> enqueued_job" where
  "attach_scheduler_metadata s run slot = (\<lambda>(d, q).
     let job = with_scheduler s run slot (eq_work_job q)
     in (put_job job d, q\<lparr>eq_work_job := job\<rparr>))"

definition scan_request_of ::
  "schedule \<Rightarrow> string list \<Rightarrow> bool \<Rightarrow> string option \<Rightarrow> string list option \<Rightarrow> string list option \<Rightarrow> scan_request" where
  "scan_request_of s roots isolate min_size names excludes =
     \<lparr>sq_name = take 255 (''Scheduled: '' @ sc_name s), sq_roots = roots, sq_isolate = isolate,
      sq_min_size = min_size, sq_name_patterns = names, sq_exclude_patterns = excludes\<rparr>"

definition enqueue_workflow ::
  "(db \<Rightarrow> json_text \<Rightarrow> string option) \<Rightarrow> schedule \<Rightarrow> int \<Rightarrow> int \<Rightarrow> string \<Rightarrow> string \<Rightarrow> runtime_inputs option \<Rightarrow>
    time \<Rightarrow> db \<Rightarrow> dispatch_error + (db \<times> enqueued_job)" where
  "enqueue_workflow mode_of s wid number sha action inputs now d =
     bind_res (check_workflow mode_of wid number sha d) (\<lambda>mode.
     bind_res (check_runtime_inputs mode action inputs d) (\<lambda>_.
     let (d1, work) = queue_job ''workflow-scheduled''
           (workflow_state wid number sha action inputs (sc_created_by_user_id s)) now d
     in Inr (d1, \<lparr>eq_work_job = work, eq_index_root = None, eq_scan_job = None, eq_roots = [],
                  eq_created = False\<rparr>)))"

definition enqueue_for_target ::
  "filesystem \<Rightarrow> settings \<Rightarrow> (db \<Rightarrow> json_text \<Rightarrow> string option) \<Rightarrow> schedule \<Rightarrow> schedule_target \<Rightarrow> time \<Rightarrow> db \<Rightarrow>
    dispatch_error + (db \<times> enqueued_job)" where
  "enqueue_for_target fs st mode_of s target now d = (case target of
      IndexRootTarget i \<Rightarrow> (case tbl_get ir_id (db_roots d) i of
          None \<Rightarrow> Inl (RootGone i)
        | Some r \<Rightarrow> queue_res (enqueue_index_work fs st (ir_root r) (Some i) False now d))
    | FclonesScanTarget roots isolate min_size names excludes \<Rightarrow>
        queue_res (enqueue_scan_work fs st (scan_request_of s roots isolate min_size names excludes) True True now d)
    | MediaAnalysisTarget keys \<Rightarrow> queue_res (enqueue_media_work fs st ''media-analysis'' keys True now d)
    | MediaIntegrityTarget keys \<Rightarrow> queue_res (enqueue_media_work fs st ''media-integrity-verify'' keys True now d)
    | WorkflowTarget wid number sha action inputs \<Rightarrow>
        enqueue_workflow mode_of s wid number sha action inputs now d)"

definition enqueue_target ::
  "filesystem \<Rightarrow> settings \<Rightarrow> (db \<Rightarrow> json_text \<Rightarrow> string option) \<Rightarrow> schedule \<Rightarrow> schedule_run \<Rightarrow> schedule_target \<Rightarrow>
    time \<Rightarrow> time \<Rightarrow> db \<Rightarrow> dispatch_error + (db \<times> enqueued_job)" where
  "enqueue_target fs st mode_of s run target slot now d =
     bind_res (enqueue_for_target fs st mode_of s target now d) (\<lambda>r.
       Inr (attach_scheduler_metadata s run slot r))"

subsection \<open>Earlier runs\<close>

definition live_bound :: "db \<Rightarrow> schedule_run \<Rightarrow> bool" where
  "live_bound d r \<longleftrightarrow> (case sr_work_job_id r of
      None \<Rightarrow> False
    | Some i \<Rightarrow> (case get_job d i of None \<Rightarrow> False | Some j \<Rightarrow> \<not> is_terminal (wj_status j)))"

definition run_interrupted :: "schedule_run \<Rightarrow> schedule_run" where
  "run_interrupted r = r\<lparr>sr_status := ''failed'', sr_error_code := Some ''SCHEDULER_DISPATCH_INTERRUPTED'',
     sr_work_job_id := None, sr_dispatched_at := None\<rparr>"

fun prior_runs :: "schedule_run list \<Rightarrow> db \<Rightarrow> db \<times> schedule_run option" where
  "prior_runs [] d = (d, None)"
| "prior_runs (r # rs) d =
     (if live_bound d r then (d, Some r)
      else if sr_status r = ''pending'' then prior_runs rs (put_run (run_interrupted r) d)
      else prior_runs rs d)"

definition active_prior_run :: "int \<Rightarrow> db \<Rightarrow> db \<times> schedule_run option" where
  "active_prior_run i d =
     prior_runs (sort_key (\<lambda>r. (- sr_scheduled_for_utc r, - sr_id r))
       (filter (\<lambda>r. sr_schedule_id r = i \<and> (sr_status r = ''pending'' \<or> sr_status r = ''dispatched'')) (db_runs d))) d"

subsection \<open>Settling a run\<close>

definition skipped :: "schedule_run \<Rightarrow> schedule_run" where
  "skipped r = r\<lparr>sr_status := ''skipped_overlap'', sr_error_code := Some ''OVERLAP_ACTIVE''\<rparr>"

definition target_invalid :: "schedule_run \<Rightarrow> schedule_run" where
  "target_invalid r = r\<lparr>sr_status := ''failed'', sr_error_code := Some ''SCHEDULE_TARGET_INVALID'',
     sr_work_job_id := None, sr_dispatched_at := None\<rparr>"

definition dispatched_to :: "int \<Rightarrow> time \<Rightarrow> schedule_run \<Rightarrow> schedule_run" where
  "dispatched_to job now r = r\<lparr>sr_work_job_id := Some job, sr_status := ''dispatched'',
     sr_dispatched_at := Some now, sr_error_code := None\<rparr>"

text \<open>Inserting a run, \<open>None\<close> for the IntegrityError of the unique slot.\<close>

definition insert_run :: "schedule_run \<Rightarrow> db \<Rightarrow> db option" where
  "insert_run run d =
     (if slot_taken d (sr_schedule_id run) (sr_scheduled_for_utc run) then None else Some (add_run run d))"

definition settle_run ::
  "filesystem \<Rightarrow> settings \<Rightarrow> (db \<Rightarrow> json_text \<Rightarrow> string option) \<Rightarrow> schedule \<Rightarrow> schedule_run \<Rightarrow> schedule_run option \<Rightarrow>
    time \<Rightarrow> time \<Rightarrow> db \<Rightarrow> db \<times> schedule_run \<times> outcome" where
  "settle_run fs st mode_of s run active slot now d =
     (if active \<noteq> None then (put_run (skipped run) d, skipped run, SkippedOverlap)
      else (case bind_res (parse_target s) (\<lambda>target. enqueue_target fs st mode_of s run target slot now d) of
          Inl _ \<Rightarrow> (put_run (target_invalid run) d, target_invalid run, DispatchFailed)
        | Inr (d', q) \<Rightarrow>
            let run' = dispatched_to (wj_id (eq_work_job q)) now run
            in (put_run run' d', run', Dispatched)))"

subsection \<open>One due schedule\<close>

definition process_due_schedule ::
  "filesystem \<Rightarrow> settings \<Rightarrow> zone_db \<Rightarrow> (db \<Rightarrow> json_text \<Rightarrow> string option) \<Rightarrow> string \<Rightarrow> int \<Rightarrow> time \<Rightarrow> db \<Rightarrow>
    tick_error + (db \<times> outcome)" where
  "process_due_schedule fs st zd mode_of owner i now d = (case assert_scheduler_lease d owner now of
      Inl e \<Rightarrow> Inl (TickLease e)
    | Inr _ \<Rightarrow> (case get_schedule_row d i of
        None \<Rightarrow> Inr (d, NotDue)
      | Some s \<Rightarrow>
          if \<not> sc_enabled s then Inr (d, NotDue)
          else (case sc_next_scheduled_for_utc s of
              None \<Rightarrow> Inr (d, NotDue)
            | Some slot \<Rightarrow>
                if slot > now then Inr (d, NotDue)
                else if slot < minute_floor now then
                  (case next_of_text zd (sc_cron_expression s) (sc_timezone s) now of
                     Inl e \<Rightarrow> Inl (TickCron e)
                   | Inr u \<Rightarrow> Inr (put_schedule (s\<lparr>sc_next_scheduled_for_utc := Some u, sc_updated_at := now\<rparr>) d,
                                  MissedSkipped))
                else if slot_taken d (sc_id s) slot then
                  (case next_of_text zd (sc_cron_expression s) (sc_timezone s) slot of
                     Inl e \<Rightarrow> Inl (TickCron e)
                   | Inr u \<Rightarrow> Inr (put_schedule (s\<lparr>sc_next_scheduled_for_utc := Some u, sc_updated_at := now\<rparr>) d,
                                  DuplicateSlot))
                else
                  let (d1, active) = active_prior_run (sc_id s) d;
                      run = pending_run d1 s slot now
                  in (case insert_run run d1 of
                      None \<Rightarrow> Inr (d, DuplicateSlot)
                    | Some d2 \<Rightarrow> (case next_of_text zd (sc_cron_expression s) (sc_timezone s) slot of
                        Inl e \<Rightarrow> Inl (TickCron e)
                      | Inr u \<Rightarrow>
                          let s' = s\<lparr>sc_last_scheduled_for_utc := Some slot,
                                     sc_next_scheduled_for_utc := Some u, sc_updated_at := now\<rparr>;
                              (d3, run', res) = settle_run fs st mode_of s' run active slot now (put_schedule s' d2)
                          in Inr (d3, res))))))"

subsection \<open>A tick\<close>

definition no_result :: tick_result where
  "no_result = \<lparr>tr_lease_acquired = False, tr_due_seen = 0, tr_dispatched = 0, tr_skipped_overlap = 0,
     tr_missed_skipped = 0, tr_failed = 0, tr_duplicate_slots = 0\<rparr>"

definition count_outcome :: "outcome \<Rightarrow> tick_result \<Rightarrow> tick_result" where
  "count_outcome res c = (case res of
      NotDue \<Rightarrow> c
    | MissedSkipped \<Rightarrow> c\<lparr>tr_missed_skipped := tr_missed_skipped c + 1\<rparr>
    | DuplicateSlot \<Rightarrow> c\<lparr>tr_duplicate_slots := tr_duplicate_slots c + 1\<rparr>
    | SkippedOverlap \<Rightarrow> c\<lparr>tr_skipped_overlap := tr_skipped_overlap c + 1\<rparr>
    | DispatchFailed \<Rightarrow> c\<lparr>tr_failed := tr_failed c + 1\<rparr>
    | Dispatched \<Rightarrow> c\<lparr>tr_dispatched := tr_dispatched c + 1\<rparr>)"

text \<open>Each schedule is its own transaction: what was committed before an exception stays.\<close>

fun process_all ::
  "filesystem \<Rightarrow> settings \<Rightarrow> zone_db \<Rightarrow> (db \<Rightarrow> json_text \<Rightarrow> string option) \<Rightarrow> string \<Rightarrow> time \<Rightarrow> int list \<Rightarrow>
    tick_result \<Rightarrow> db \<Rightarrow> db \<times> (tick_error + tick_result)" where
  "process_all fs st zd mode_of owner now [] c d = (d, Inr c)"
| "process_all fs st zd mode_of owner now (i # is) c d =
     (case process_due_schedule fs st zd mode_of owner i now d of
        Inl e \<Rightarrow> (d, Inl e)
      | Inr (d', res) \<Rightarrow> process_all fs st zd mode_of owner now is (count_outcome res c) d')"

definition run_scheduler_tick ::
  "filesystem \<Rightarrow> settings \<Rightarrow> zone_db \<Rightarrow> (db \<Rightarrow> json_text \<Rightarrow> string option) \<Rightarrow> string \<Rightarrow> time \<Rightarrow> time \<Rightarrow> db \<Rightarrow>
    db \<times> (tick_error + tick_result)" where
  "run_scheduler_tick fs st zd mode_of owner ttl now d =
     (case acquire_scheduler_lease owner ttl now d of
        Inl e \<Rightarrow> (d, Inl (TickLease e))
      | Inr (d1, acquired) \<Rightarrow>
          if \<not> acquired then (d1, Inr no_result)
          else
            let due_ids = map sc_id (list_due_schedules now d1)
            in process_all fs st zd mode_of owner now due_ids
                 (no_result\<lparr>tr_lease_acquired := True, tr_due_seen := int (length due_ids)\<rparr>) d1)"

subsection \<open>A run on request\<close>

definition run_schedule_now ::
  "filesystem \<Rightarrow> settings \<Rightarrow> (db \<Rightarrow> json_text \<Rightarrow> string option) \<Rightarrow> int \<Rightarrow> time \<Rightarrow> db \<Rightarrow>
    run_now_error + (db \<times> schedule_run)" where
  "run_schedule_now fs st mode_of i now d = (case get_schedule_row d i of
      None \<Rightarrow> Inl (NowNotFound i)
    | Some s \<Rightarrow>
        let (d1, active) = active_prior_run (sc_id s) d;
            run = pending_run d1 s now now
        in (case insert_run run d1 of
            None \<Rightarrow> Inl NowCollision
          | Some d2 \<Rightarrow>
              let (d3, run', res) = settle_run fs st mode_of s run active now now d2 in Inr (d3, run')))"

subsection \<open>What an enqueue changes\<close>

lemma tbl_put_last:
  "key r = tbl_next_id key rows \<Longrightarrow> key r' = key r \<Longrightarrow> tbl_put key r' (rows @ [r]) = rows @ [r']"
  using tbl_fresh [of _ rows key] by (force simp: tbl_put_def intro!: map_idI)

lemma with_scheduler_kept [simp]:
  "wj_kind (with_scheduler s run slot j) = wj_kind j" "wj_id (with_scheduler s run slot j) = wj_id j" "wj_status (with_scheduler s run slot j) = wj_status j"
  by (simp_all add: with_scheduler_def Let_def)

lemma enqueue_for_target_appended:
  assumes "enqueue_for_target fs st mode_of s target now d = Inr (d', q)"
  shows "appended d d' (eq_work_job q) \<and>
    (resolve_idempotent fs \<and> target_type target \<noteq> ''workflow'' \<longrightarrow> roots_confined fs st q)"
proof (cases target)
  case (IndexRootTarget i)
  then show ?thesis using assms
    by (auto simp: enqueue_for_target_def queue_res_def dest: enqueue_index_queued split: option.splits sum.splits)
next
  case (FclonesScanTarget roots isolate min_size names excludes)
  then show ?thesis using assms
    by (auto simp: enqueue_for_target_def queue_res_def dest: enqueue_scan_queued split: sum.splits)
next
  case (MediaAnalysisTarget keys)
  then show ?thesis using assms
    by (auto simp: enqueue_for_target_def queue_res_def dest: enqueue_media_queued split: sum.splits)
next
  case (MediaIntegrityTarget keys)
  then show ?thesis using assms
    by (auto simp: enqueue_for_target_def queue_res_def dest: enqueue_media_queued split: sum.splits)
next
  case (WorkflowTarget wid number sha action inputs)
  then show ?thesis using assms
    by (auto simp: enqueue_for_target_def enqueue_workflow_def bind_res_Inr appended_def target_type_def
        dest: queue_job_frame split: prod.splits)
qed

lemma enqueue_target_appended:
  assumes "enqueue_target fs st mode_of s run target slot now d = Inr (d', q)"
  shows "appended d d' (eq_work_job q) \<and>
    (resolve_idempotent fs \<and> target_type target \<noteq> ''workflow'' \<longrightarrow> roots_confined fs st q)"
proof -
  obtain d1 q1 where e: "enqueue_for_target fs st mode_of s target now d = Inr (d1, q1)"
    and a: "d' = put_job (with_scheduler s run slot (eq_work_job q1)) d1"
      "q = q1\<lparr>eq_work_job := with_scheduler s run slot (eq_work_job q1)\<rparr>"
    using assms by (auto simp: enqueue_target_def bind_res_Inr attach_scheduler_metadata_def Let_def)
  with enqueue_for_target_appended [OF e] show ?thesis
    by (simp add: appended_def tbl_put_last roots_confined_def put_job_def)
qed

subsection \<open>What the look at earlier runs changes\<close>

text \<open>The database with the runs in \<open>ps\<close> marked as interrupted.\<close>

definition interrupt_all :: "schedule_run set \<Rightarrow> db \<Rightarrow> db" where
  "interrupt_all ps d = d\<lparr>db_runs := map (\<lambda>r. if r \<in> ps then run_interrupted r else r) (db_runs d)\<rparr>"

lemma interrupt_all_empty [simp]: "interrupt_all {} d = d"
  by (simp add: interrupt_all_def)

lemma interrupt_all_frame [simp]:
  "db_jobs (interrupt_all ps d) = db_jobs d" "db_schedules (interrupt_all ps d) = db_schedules d"
  "db_scans (interrupt_all ps d) = db_scans d" "db_roots (interrupt_all ps d) = db_roots d"
  "db_scheduler (interrupt_all ps d) = db_scheduler d"
  "db_runs (interrupt_all ps d) = map (\<lambda>r. if r \<in> ps then run_interrupted r else r) (db_runs d)"
  by (simp_all add: interrupt_all_def)

lemma interrupted_kept [simp]:
  "sr_id (run_interrupted r) = sr_id r" "sr_schedule_id (run_interrupted r) = sr_schedule_id r"
  "sr_scheduled_for_utc (run_interrupted r) = sr_scheduled_for_utc r"
  "sr_status (run_interrupted r) = ''failed''" "sr_work_job_id (run_interrupted r) = None"
  by (simp_all add: run_interrupted_def)

lemma live_bound_jobs: "db_jobs d = db_jobs d' \<Longrightarrow> live_bound d r = live_bound d' r"
proof -
  assume "db_jobs d = db_jobs d'"
  then have "get_job d = get_job d'" by (simp add: get_job_def fun_eq_iff)
  then show ?thesis by (simp only: live_bound_def)
qed

lemma interrupt_all_ids: "map sr_id (db_runs (interrupt_all ps d)) = map sr_id (db_runs d)"
  by auto

lemma put_run_interrupt:
  assumes "distinct (map sr_id (db_runs d))" "r \<in> set (db_runs d)"
  shows "put_run (run_interrupted r) d = interrupt_all {r} d"
proof -
  have "sr_id x = sr_id r \<longleftrightarrow> x = r" if "x \<in> set (db_runs d)" for x
    using assms that by (auto dest: inj_onD simp: distinct_map)
  then show ?thesis by (simp add: put_run_def interrupt_all_def tbl_put_def)
qed

definition prior_spec :: "schedule_run list \<Rightarrow> db \<Rightarrow> db \<Rightarrow> schedule_run option \<Rightarrow> bool" where
  "prior_spec rs d d1 a \<longleftrightarrow>
     (\<exists>ps \<subseteq> {r \<in> set rs. sr_status r = ''pending'' \<and> \<not> live_bound d r}. d1 = interrupt_all ps d) \<and>
     (a = None \<longrightarrow> (\<forall>r \<in> set rs. \<not> live_bound d r)) \<and>
     (\<forall>r. a = Some r \<longrightarrow> r \<in> set rs \<and> live_bound d r)"

lemma prior_spec_stop: "live_bound d r \<Longrightarrow> prior_spec (r # rs) d d (Some r)"
  unfolding prior_spec_def by (intro conjI exI [of _ "{}"]) simp_all

lemma prior_spec_skip: "\<not> live_bound d r \<Longrightarrow> prior_spec rs d d1 a \<Longrightarrow> prior_spec (r # rs) d d1 a"
  unfolding prior_spec_def set_simps by blast

lemma prior_spec_interrupt:
  assumes "\<not> live_bound d r" "sr_status r = ''pending''" "prior_spec rs (interrupt_all {r} d) d1 a"
  shows "prior_spec (r # rs) d d1 a"
proof -
  have lb: "live_bound (interrupt_all {r} d) x = live_bound d x" for x by (rule live_bound_jobs) simp
  obtain ps where ps: "ps \<subseteq> {r \<in> set rs. sr_status r = ''pending'' \<and> \<not> live_bound d r}"
    "d1 = interrupt_all ps (interrupt_all {r} d)"
    using assms(3) unfolding prior_spec_def lb by blast
  have "run_interrupted r \<notin> ps" using ps(1) by auto
  then have d1: "d1 = interrupt_all (insert r ps) d" unfolding ps(2) interrupt_all_def by auto
  have sub: "insert r ps \<subseteq> {x \<in> set (r # rs). sr_status x = ''pending'' \<and> \<not> live_bound d x}"
    using ps(1) assms(1,2) unfolding set_simps by blast
  have "(a = None \<longrightarrow> (\<forall>x \<in> set (r # rs). \<not> live_bound d x)) \<and>
      (\<forall>x. a = Some x \<longrightarrow> x \<in> set (r # rs) \<and> live_bound d x)"
    using assms(1,3) unfolding prior_spec_def lb set_simps by blast
  then show ?thesis using d1 sub unfolding prior_spec_def by blast
qed

lemma prior_runs_interrupt:
  assumes "distinct (map sr_id (db_runs d))" "set rs \<subseteq> set (db_runs d)" "distinct rs" "prior_runs rs d = (d1, a)"
  shows "prior_spec rs d d1 a"
  using assms
proof (induction rs arbitrary: d)
  case Nil
  then show ?case unfolding prior_spec_def by (intro conjI exI [of _ "{}"]) simp_all
next
  case (Cons r rs)
  have sub: "set rs \<subseteq> set (db_runs (interrupt_all {r} d))" "distinct rs" using Cons.prems(2,3) by auto
  have "sr_status r = ''pending'' \<Longrightarrow> put_run (run_interrupted r) d = interrupt_all {r} d"
    using put_run_interrupt Cons.prems(1,2) by simp
  then have step: "prior_runs (r # rs) d = (if live_bound d r then (d, Some r)
      else if sr_status r = ''pending'' then prior_runs rs (interrupt_all {r} d) else prior_runs rs d)"
    by simp
  consider "live_bound d r" | "\<not> live_bound d r" "sr_status r = ''pending''" | "\<not> live_bound d r" "sr_status r \<noteq> ''pending''"
    by blast
  then show ?case
  proof cases
    case 1
    with Cons.prems(4) prior_spec_stop [of d r rs] show ?thesis by auto
  next
    case 2
    have "distinct (map sr_id (db_runs (interrupt_all {r} d)))"
      using Cons.prems(1) by (simp only: interrupt_all_ids)
    moreover have "prior_runs rs (interrupt_all {r} d) = (d1, a)" using Cons.prems(4) 2 unfolding step by simp
    ultimately show ?thesis using 2 sub by (intro prior_spec_interrupt Cons.IH)
  next
    case 3
    have "prior_runs rs d = (d1, a)" using Cons.prems(4) 3 unfolding step by simp
    with 3 Cons.prems(1,2) sub(2) show ?thesis by (intro prior_spec_skip Cons.IH) simp_all
  qed
qed

lemma active_prior_runD:
  assumes "active_prior_run i d = (d1, a)" "distinct (map sr_id (db_runs d))"
  obtains ps where "ps \<subseteq> {r \<in> set (db_runs d). sr_schedule_id r = i \<and> sr_status r = ''pending'' \<and> \<not> live_bound d r}"
    "d1 = interrupt_all ps d"
    "a = None \<longrightarrow> (\<forall>r \<in> set (db_runs d). sr_schedule_id r = i \<longrightarrow>
       sr_status r = ''pending'' \<or> sr_status r = ''dispatched'' \<longrightarrow> \<not> live_bound d r)"
    "\<forall>r. a = Some r \<longrightarrow> r \<in> set (db_runs d) \<and> sr_schedule_id r = i \<and> live_bound d r"
proof -
  let ?rs = "sort_key (\<lambda>r. (- sr_scheduled_for_utc r, - sr_id r))
     (filter (\<lambda>r. sr_schedule_id r = i \<and> (sr_status r = ''pending'' \<or> sr_status r = ''dispatched'')) (db_runs d))"
  have set_rs: "set ?rs = {r \<in> set (db_runs d). sr_schedule_id r = i \<and> (sr_status r = ''pending'' \<or> sr_status r = ''dispatched'')}"
    by auto
  have rs: "set ?rs \<subseteq> set (db_runs d)" "distinct ?rs" "prior_runs ?rs d = (d1, a)"
    using assms by (auto simp: distinct_map active_prior_run_def)
  have p: "prior_spec ?rs d d1 a" by (rule prior_runs_interrupt [OF assms(2) rs])
  then obtain ps where ps: "ps \<subseteq> {r \<in> set ?rs. sr_status r = ''pending'' \<and> \<not> live_bound d r}" "d1 = interrupt_all ps d"
    unfolding prior_spec_def by blast
  show thesis
  proof (rule that)
    show "ps \<subseteq> {r \<in> set (db_runs d). sr_schedule_id r = i \<and> sr_status r = ''pending'' \<and> \<not> live_bound d r}"
      using ps(1) unfolding set_rs by blast
    show "a = None \<longrightarrow> (\<forall>r \<in> set (db_runs d). sr_schedule_id r = i \<longrightarrow>
       sr_status r = ''pending'' \<or> sr_status r = ''dispatched'' \<longrightarrow> \<not> live_bound d r)"
      using p unfolding prior_spec_def set_rs by blast
    show "\<forall>r. a = Some r \<longrightarrow> r \<in> set (db_runs d) \<and> sr_schedule_id r = i \<and> live_bound d r"
      using p unfolding prior_spec_def set_rs by blast
  qed (rule ps(2))
qed

subsection \<open>What settling a run changes\<close>

lemma settle_run_cases:
  assumes "settle_run fs st mode_of s run active slot now d = (d', run', res)"
  obtains (skip) "active \<noteq> None" "res = SkippedOverlap" "run' = skipped run" "d' = put_run run' d"
  | (fail) "active = None" "res = DispatchFailed" "run' = target_invalid run" "d' = put_run run' d"
  | (go) target q d1 where "active = None" "res = Dispatched" "parse_target s = Inr target"
      "enqueue_target fs st mode_of s run target slot now d = Inr (d1, q)"
      "run' = dispatched_to (wj_id (eq_work_job q)) now run" "d' = put_run run' d1"
proof (cases "active \<noteq> None")
  case True
  with assms show thesis by (intro that(1)) (auto simp: settle_run_def)
next
  case a: False
  let ?r = "bind_res (parse_target s) (\<lambda>target. enqueue_target fs st mode_of s run target slot now d)"
  show thesis
  proof (cases ?r)
    case (Inl e)
    with a assms show thesis by (intro that(2)) (auto simp: settle_run_def)
  next
    case (Inr x)
    obtain d1 q where x: "x = (d1, q)" by (cases x)
    with Inr obtain target where "parse_target s = Inr target"
      "enqueue_target fs st mode_of s run target slot now d = Inr (d1, q)"
      by (auto simp: bind_res_Inr)
    with a assms Inr x show thesis by (intro that(3)) (auto simp: settle_run_def Let_def)
  qed
qed

lemma put_run_frame [simp]:
  "db_jobs (put_run r d) = db_jobs d" "db_schedules (put_run r d) = db_schedules d"
  "db_scheduler (put_run r d) = db_scheduler d" "db_scans (put_run r d) = db_scans d"
  "db_roots (put_run r d) = db_roots d" "db_runs (put_run r d) = tbl_put sr_id r (db_runs d)"
  by (simp_all add: put_run_def)

lemma put_schedule_frame [simp]:
  "db_jobs (put_schedule s d) = db_jobs d" "db_runs (put_schedule s d) = db_runs d"
  "db_scheduler (put_schedule s d) = db_scheduler d" "db_scans (put_schedule s d) = db_scans d"
  "db_roots (put_schedule s d) = db_roots d"
  "db_schedules (put_schedule s d) = tbl_put sc_id s (db_schedules d)"
  by (simp_all add: put_schedule_def)

lemma add_run_frame [simp]:
  "db_jobs (add_run r d) = db_jobs d" "db_schedules (add_run r d) = db_schedules d"
  "db_scheduler (add_run r d) = db_scheduler d" "db_scans (add_run r d) = db_scans d"
  "db_roots (add_run r d) = db_roots d" "db_runs (add_run r d) = db_runs d @ [r]"
  by (simp_all add: add_run_def tbl_insert_def)

lemma settled_kept [simp]:
  "sr_id (skipped r) = sr_id r" "sr_id (target_invalid r) = sr_id r" "sr_id (dispatched_to j t r) = sr_id r"
  "sr_schedule_id (skipped r) = sr_schedule_id r" "sr_schedule_id (target_invalid r) = sr_schedule_id r"
  "sr_schedule_id (dispatched_to j t r) = sr_schedule_id r"
  "sr_scheduled_for_utc (skipped r) = sr_scheduled_for_utc r"
  "sr_scheduled_for_utc (target_invalid r) = sr_scheduled_for_utc r"
  "sr_scheduled_for_utc (dispatched_to j t r) = sr_scheduled_for_utc r"
  "sr_work_job_id (skipped r) = sr_work_job_id r" "sr_work_job_id (target_invalid r) = None"
  "sr_work_job_id (dispatched_to j t r) = Some j"
  "sr_status (skipped r) = ''skipped_overlap''" "sr_status (target_invalid r) = ''failed''"
  "sr_status (dispatched_to j t r) = ''dispatched''"
  by (simp_all add: skipped_def target_invalid_def dispatched_to_def)

lemma pending_run_fields [simp]:
  "sr_id (pending_run d s slot t) = tbl_next_id sr_id (db_runs d)"
  "sr_schedule_id (pending_run d s slot t) = sc_id s" "sr_scheduled_for_utc (pending_run d s slot t) = slot"
  "sr_work_job_id (pending_run d s slot t) = None" "sr_status (pending_run d s slot t) = ''pending''"
  by (simp_all add: pending_run_def)

text \<open>
  The last steps of a dispatch, from the database with the new pending run as its last one: the
  run is settled by one of the three outcomes, and jobs are added only by a dispatch.
\<close>

definition run_settled :: "db \<Rightarrow> schedule_run \<Rightarrow> schedule_run option \<Rightarrow> db \<Rightarrow> schedule_run \<Rightarrow> outcome \<Rightarrow> bool" where
  "run_settled d run active d' run' res \<longleftrightarrow>
     db_runs d' = butlast (db_runs d) @ [run'] \<and> db_schedules d' = db_schedules d \<and>
     db_scheduler d' = db_scheduler d \<and>
     sr_id run' = sr_id run \<and> sr_schedule_id run' = sr_schedule_id run \<and>
     sr_scheduled_for_utc run' = sr_scheduled_for_utc run \<and>
     (if res = Dispatched then
        active = None \<and> sr_status run' = ''dispatched'' \<and>
        (\<exists>j. db_jobs d' = db_jobs d @ [j] \<and> wj_id j = tbl_next_id wj_id (db_jobs d) \<and>
             wj_status j = QUEUED \<and> wj_kind j \<noteq> ''batch-plan-execute'' \<and> sr_work_job_id run' = Some (wj_id j))
      else db_jobs d' = db_jobs d \<and> db_scans d' = db_scans d \<and> db_roots d' = db_roots d \<and>
        sr_work_job_id run' = None \<and>
        (res = SkippedOverlap \<and> active \<noteq> None \<and> sr_status run' = ''skipped_overlap'' \<or>
         res = DispatchFailed \<and> active = None \<and> sr_status run' = ''failed''))"

lemma settle_run_settled:
  assumes "settle_run fs st mode_of s run active slot now d = (d', run', res)"
    and "db_runs d = rs @ [run]" "sr_id run = tbl_next_id sr_id rs" "sr_work_job_id run = None"
  shows "run_settled d run active d' run' res"
  using assms(1)
proof (cases rule: settle_run_cases)
  case (go target q d1)
  with enqueue_target_appended [OF go(4)] assms(2-4) show ?thesis
    by (auto simp: run_settled_def appended_def tbl_put_last)
qed (use assms(2-4) in \<open>auto simp: run_settled_def tbl_put_last\<close>)

end
