(* ===== verification/WorkerLease.thy ===== *)
theory WorkerLease
  imports Records Lease
begin

section \<open>The worker lease\<close>

text \<open>
  Models the lease of app/tasks/recovery.py: the single row of \<open>task_lock\<close>, which names the worker
  that may mutate jobs and the time of its last renewal. Ages are differences of timestamps in
  microseconds.
\<close>

datatype lease_lost = LeaseNotHeld | LeaseOwnedBy "string option" | LeaseNoTime | LeaseExpired time

definition WORKER_ONLINE_THRESHOLD :: time where "WORKER_ONLINE_THRESHOLD = 30 * 1000000"
definition WORKER_STALE_THRESHOLD :: time where "WORKER_STALE_THRESHOLD = 90 * 1000000"
definition WORKER_LEASE_TIMEOUT :: time where "WORKER_LEASE_TIMEOUT = 30 * 1000000"

definition assert_active_worker_lease ::
  "db \<Rightarrow> string \<Rightarrow> time \<Rightarrow> time \<Rightarrow> lease_lost + task_lock" where
  "assert_active_worker_lease d worker_id now timeout =
     (case db_lock d of
        None \<Rightarrow> Inl LeaseNotHeld
      | Some lock \<Rightarrow>
          if \<not> tl_locked lock then Inl LeaseNotHeld
          else if tl_owner lock \<noteq> Some worker_id then Inl (LeaseOwnedBy (tl_owner lock))
          else (case tl_acquired_at lock of
                  None \<Rightarrow> Inl LeaseNoTime
                | Some lock_time \<Rightarrow>
                    if now - lock_time > timeout then Inl (LeaseExpired (now - lock_time))
                    else Inr lock))"

definition renew_and_assert_worker_lease ::
  "db \<Rightarrow> string \<Rightarrow> time \<Rightarrow> time \<Rightarrow> lease_lost + db" where
  "renew_and_assert_worker_lease d worker_id now timeout =
     bind_res (assert_active_worker_lease d worker_id now timeout)
       (\<lambda>lock. Inr (d\<lparr>db_lock := Some (lock\<lparr>tl_acquired_at := Some now\<rparr>)\<rparr>))"

definition compute_worker_status :: "time option \<Rightarrow> time \<Rightarrow> string \<times> time option" where
  "compute_worker_status heartbeat_at now =
     (case heartbeat_at of
        None \<Rightarrow> (''offline'', None)
      | Some hb \<Rightarrow>
          let age = max 0 (now - hb)
          in if age \<le> WORKER_ONLINE_THRESHOLD then (''online'', Some age)
             else if age \<le> WORKER_STALE_THRESHOLD then (''stale'', Some age)
             else (''offline'', Some age))"

definition fresh_other_owner :: "task_lock \<Rightarrow> string \<Rightarrow> time \<Rightarrow> time \<Rightarrow> bool" where
  "fresh_other_owner lock worker_id now timeout \<longleftrightarrow>
     tl_locked lock \<and>
     (case tl_owner lock of
        None \<Rightarrow> False
      | Some owner \<Rightarrow> owner \<noteq> [] \<and> owner \<noteq> worker_id \<and>
          (case tl_acquired_at lock of
             None \<Rightarrow> False
           | Some lock_time \<Rightarrow> now - lock_time \<le> timeout))"

definition acquire_worker_ownership :: "string \<Rightarrow> time \<Rightarrow> time \<Rightarrow> db \<Rightarrow> db \<times> bool" where
  "acquire_worker_ownership worker_id now timeout d =
     (let granted = d\<lparr>db_lock := Some \<lparr>tl_locked = True, tl_owner = Some worker_id,
                                       tl_acquired_at = Some now\<rparr>,
                      db_worker := Some \<lparr>ws_worker_id = worker_id, ws_started_at = now,
                                         ws_heartbeat_at = now, ws_updated_at = now\<rparr>\<rparr>
      in case db_lock d of
           None \<Rightarrow> (granted, True)
         | Some lock \<Rightarrow>
             if fresh_other_owner lock worker_id now timeout then (d, False) else (granted, True))"

definition update_worker_heartbeat :: "string \<Rightarrow> time \<Rightarrow> time \<Rightarrow> db \<Rightarrow> db \<times> bool" where
  "update_worker_heartbeat worker_id now timeout d =
     (case assert_active_worker_lease d worker_id now timeout of
        Inl _ \<Rightarrow> (d, False)
      | Inr lock \<Rightarrow>
          (d\<lparr>db_lock := Some (lock\<lparr>tl_acquired_at := Some now\<rparr>),
             db_worker := map_option (\<lambda>st. st\<lparr>ws_heartbeat_at := now, ws_updated_at := now\<rparr>)
                            (db_worker d)\<rparr>, True))"

subsection \<open>The fence\<close>

definition worker_holds :: "time \<Rightarrow> db \<Rightarrow> string \<Rightarrow> time \<Rightarrow> bool" where
  "worker_holds timeout d w t \<longleftrightarrow>
     w \<noteq> [] \<and> (\<exists>lock. assert_active_worker_lease d w t timeout = Inr lock)"

lemma assert_Inr:
  "assert_active_worker_lease d w now timeout = Inr lock \<longleftrightarrow>
     db_lock d = Some lock \<and> tl_locked lock \<and> tl_owner lock = Some w \<and>
     (\<exists>a. tl_acquired_at lock = Some a \<and> now - a \<le> timeout)"
  by (auto simp: assert_active_worker_lease_def split: option.splits if_splits)

lemma assert_cong: "db_lock d = db_lock d' \<Longrightarrow>
    assert_active_worker_lease d w t to = assert_active_worker_lease d' w t to"
  by (simp add: assert_active_worker_lease_def)

lemma worker_holds_iff:
  "worker_holds timeout d w t \<longleftrightarrow> w \<noteq> [] \<and>
     (\<exists>lock a. db_lock d = Some lock \<and> tl_locked lock \<and> tl_owner lock = Some w \<and>
        tl_acquired_at lock = Some a \<and> t - a \<le> timeout)"
  by (auto simp: worker_holds_def assert_Inr)

interpretation worker_lease: exclusive_lease
  "worker_holds timeout"
  "\<lambda>w t. acquire_worker_ownership w t timeout"
  "\<lambda>w t. update_worker_heartbeat w t timeout"
  "\<lambda>t t'. t' - t \<le> timeout" for timeout
proof
  fix d :: db and w w' t t'
  show "worker_holds timeout d w t \<Longrightarrow> worker_holds timeout d w' t' \<Longrightarrow> w' = w"
    by (auto simp: worker_holds_iff)
  show "worker_holds timeout d w t \<Longrightarrow> w' \<noteq> w \<Longrightarrow> acquire_worker_ownership w' t timeout d = (d, False)"
    by (auto simp: worker_holds_iff acquire_worker_ownership_def fresh_other_owner_def)
  show "\<not> snd (acquire_worker_ownership w t timeout d) \<Longrightarrow> fst (acquire_worker_ownership w t timeout d) = d"
    by (auto simp: acquire_worker_ownership_def Let_def split: option.splits if_splits)
  show "snd (acquire_worker_ownership w t timeout d) \<Longrightarrow> w \<noteq> [] \<Longrightarrow> t' - t \<le> timeout \<Longrightarrow>
      worker_holds timeout (fst (acquire_worker_ownership w t timeout d)) w t'"
    by (auto simp: acquire_worker_ownership_def worker_holds_iff Let_def split: option.splits if_splits)
  show "snd (update_worker_heartbeat w t timeout d) \<Longrightarrow> w \<noteq> [] \<Longrightarrow> worker_holds timeout d w t"
    by (auto simp: update_worker_heartbeat_def worker_holds_def split: sum.splits)
  show "\<not> snd (update_worker_heartbeat w t timeout d) \<Longrightarrow> fst (update_worker_heartbeat w t timeout d) = d"
    by (auto simp: update_worker_heartbeat_def split: sum.splits)
  show "snd (update_worker_heartbeat w t timeout d) \<Longrightarrow> w \<noteq> [] \<Longrightarrow> t' - t \<le> timeout \<Longrightarrow>
      worker_holds timeout (fst (update_worker_heartbeat w t timeout d)) w t'"
    by (auto simp: update_worker_heartbeat_def worker_holds_iff split: sum.splits
        dest: assert_Inr [THEN iffD1])
qed

subsection \<open>Properties\<close>

text \<open>
  C5: The worker lease is exclusive for its whole timeout. After a worker acquires it at time \<open>t\<close>,
  it passes the fence at every time up to \<open>t\<close> plus the timeout, and every sequence of acquire and
  heartbeat requests of other workers within that time is refused and leaves the database
  unchanged.
\<close>

theorem worker_lease_exclusive:
  assumes "acquire_worker_ownership w t timeout d = (d', True)" "w \<noteq> []"
    and "\<forall>(w', t', renewal) \<in> set requests. w' \<noteq> w \<and> w' \<noteq> [] \<and> t' - t \<le> timeout"
  shows "worker_lease.serve timeout requests d' = (d', map (\<lambda>_. False) requests) \<and>
         (\<forall>t'. t' - t \<le> timeout \<longrightarrow> (\<exists>lock. assert_active_worker_lease d' w t' timeout = Inr lock))"
proof -
  have a: "snd (acquire_worker_ownership w t timeout d)" "fst (acquire_worker_ownership w t timeout d) = d'"
    using assms(1) by simp_all
  have "worker_holds timeout d' w t'" if "t' - t \<le> timeout" for t'
    using worker_lease.acquire_grants [OF a(1) assms(2) that] a(2) by simp
  moreover have "worker_lease.serve timeout requests d' = (d', map (\<lambda>_. False) requests)"
    using worker_lease.granted_excludes_others [OF a(1) assms(2)] assms(3) a(2) by simp
  ultimately show ?thesis by (auto simp: worker_holds_def)
qed

definition empty_db :: db where
  "empty_db = \<lparr>db_jobs = [], db_events = [], db_scans = [], db_groups = [], db_files = [],
     db_plans = [], db_items = [], db_lock = None, db_worker = None, db_policy = None,
     db_roots = [], db_schedules = [], db_runs = [], db_scheduler = None,
     db_workflows = [], db_wf_revisions = []\<rparr>"

theorem worker_lease_exclusive_witness:
  "let d' = fst (acquire_worker_ownership ''w1'' 100 30 empty_db) in
   worker_lease.serve 30 [(''w2'', 110, False), (''w3'', 130, True)] d' = (d', [False, False])"
proof -
  have g: "acquire_worker_ownership ''w1'' 100 30 empty_db
      = (fst (acquire_worker_ownership ''w1'' 100 30 empty_db), True)"
    by (simp add: acquire_worker_ownership_def empty_db_def)
  show ?thesis
    using worker_lease_exclusive [OF g, of "[(''w2'', 110, False), (''w3'', 130, True)]"]
    by (simp add: Let_def)
qed

text \<open>
  C6: A lost lease stays lost. When a worker takes the lease over, the former owner's fence fails at
  every time and its heartbeat is refused without effect, so an expired lease is never revived by
  a heartbeat, only by acquiring again; and a takeover from a live lock needs the owner's lease to
  be older than the timeout.
\<close>

theorem worker_takeover_fences_out:
  assumes "acquire_worker_ownership w' t timeout d = (d', True)" "0 \<le> timeout"
    and "w' \<noteq> []" "w \<noteq> []" "w \<noteq> w'"
  shows "(\<forall>t''. \<not> worker_holds timeout d' w t'' \<and> update_worker_heartbeat w t'' timeout d' = (d', False)) \<and>
         (\<forall>lock a. db_lock d = Some lock \<longrightarrow> tl_locked lock \<longrightarrow> tl_owner lock = Some w \<longrightarrow>
            tl_acquired_at lock = Some a \<longrightarrow> timeout < t - a)"
proof -
  have a: "snd (acquire_worker_ownership w' t timeout d)" "fst (acquire_worker_ownership w' t timeout d) = d'"
    using assms(1) by simp_all
  have "\<not> worker_holds timeout d w t"
    using worker_lease.acquire_busy [of timeout d w t w'] assms(1,5) by auto
  then have "\<forall>lock a. db_lock d = Some lock \<longrightarrow> tl_locked lock \<longrightarrow> tl_owner lock = Some w \<longrightarrow>
      tl_acquired_at lock = Some a \<longrightarrow> timeout < t - a"
    using assms(4) by (auto simp: worker_holds_iff not_le)
  moreover have "\<not> worker_holds timeout d' w t''"
    "update_worker_heartbeat w t'' timeout d' = (d', False)" for t''
    using worker_lease.takeover_fences_out [OF a(1) assms(3,4,5), where t'' = t''] assms(2) a(2)
    by simp_all
  ultimately show ?thesis by blast
qed

theorem worker_takeover_fences_out_witness:
  "let d = fst (acquire_worker_ownership ''w1'' 100 30 empty_db);
       d' = fst (acquire_worker_ownership ''w2'' 200 30 d)
   in update_worker_heartbeat ''w1'' 201 30 d' = (d', False)"
proof -
  let ?d = "fst (acquire_worker_ownership ''w1'' 100 30 empty_db)"
  have "acquire_worker_ownership ''w2'' 200 30 ?d = (fst (acquire_worker_ownership ''w2'' 200 30 ?d), True)"
    by (simp add: acquire_worker_ownership_def empty_db_def fresh_other_owner_def)
  from worker_takeover_fences_out [OF this, of "''w1''"] show ?thesis by (simp add: Let_def)
qed

end
