(* ===== verification/TaskHandlers.thy ===== *)
theory TaskHandlers
  imports Prelude
begin

section \<open>Handler capabilities\<close>

text \<open>
  Models the handler registry of app/tasks/handlers_base.py as far as the task components use it:
  the capability flags every registered handler class declares, and \<open>get_job_capabilities\<close>, which
  reads them with defaults for an unknown kind.
\<close>

record capabilities =
  supports_pause :: bool
  supports_cancel :: bool
  supports_retry :: bool
  supports_resume :: bool

definition caps :: "bool \<Rightarrow> bool \<Rightarrow> bool \<Rightarrow> bool \<Rightarrow> capabilities" where
  "caps p c r s = \<lparr>supports_pause = p, supports_cancel = c, supports_retry = r, supports_resume = s\<rparr>"

definition JOB_HANDLERS :: "(string \<times> capabilities) list" where
  "JOB_HANDLERS =
     [(''index-root'', caps False False True False),
      (''fclones-scan'', caps False True True False),
      (''batch-plan-execute'', caps True True True True),
      (''quarantine-record-cleanup'', caps False False False False),
      (''archive-recovery'', caps False True False False),
      (''media-analysis'', caps True True True True),
      (''media-integrity-verify'', caps True True True True),
      (''workflow-scheduled'', caps False False False False),
      (''download-verify-webdav'', caps True True False True)]"

definition default_capabilities :: capabilities where
  "default_capabilities = caps False True True False"

definition get_job_capabilities :: "string \<Rightarrow> capabilities" where
  "get_job_capabilities kind =
     (case map_of JOB_HANDLERS kind of Some c \<Rightarrow> c | None \<Rightarrow> default_capabilities)"

definition has_handler :: "string \<Rightarrow> bool" where
  "has_handler kind = (map_of JOB_HANDLERS kind \<noteq> None)"

text \<open>Every kind that can be resumed can also be paused and cancelled.\<close>

lemma resume_needs_pause:
  "supports_resume (get_job_capabilities k) \<Longrightarrow>
     supports_pause (get_job_capabilities k) \<and> supports_cancel (get_job_capabilities k)"
  by (auto simp: get_job_capabilities_def JOB_HANDLERS_def default_capabilities_def caps_def
      split: if_splits)

end
