(* ===== verification/TaskRecovery.thy ===== *)
theory TaskRecovery
  imports TaskSync WorkerLease TaskHandlers "HOL-Library.Multiset"
begin

section \<open>Recovery after a worker restart\<close>

text \<open>
  Models \<open>recover_interrupted_jobs\<close> and \<open>_repair_orphaned_executing_plans\<close> of
  app/tasks/recovery.py. The candidates are read first; each is then handled in a transaction of its
  own, which asserts the lease and dispatches on the status the job has at that moment. \<open>clock\<close>
  gives the time read in the transaction of a job id, \<open>plan_clock\<close> in that of a plan id.
\<close>

record recovery_stats =
  rs_requeued :: int
  rs_failed :: int
  rs_cancelled :: int
  rs_repaired :: int

definition zero_stats :: recovery_stats where
  "zero_stats = \<lparr>rs_requeued = 0, rs_failed = 0, rs_cancelled = 0, rs_repaired = 0\<rparr>"

definition lease_ok :: "string option \<Rightarrow> time \<Rightarrow> time \<Rightarrow> db \<Rightarrow> bool" where
  "lease_ok worker timeout now d = (case worker of
      None \<Rightarrow> True
    | Some w \<Rightarrow> (case assert_active_worker_lease d w now timeout of Inl _ \<Rightarrow> False | Inr _ \<Rightarrow> True))"

definition has_checkpoint :: "work_job \<Rightarrow> bool" where
  "has_checkpoint j = (case wj_checkpoint_json j of
      Text data \<Rightarrow> (case data of
          JObj _ \<Rightarrow> (case jget data ''schema_version'' of Some v \<Rightarrow> truthy v | None \<Rightarrow> False)
        | _ \<Rightarrow> False)
    | _ \<Rightarrow> False)"

definition resumable :: "work_job \<Rightarrow> bool" where
  "resumable j \<longleftrightarrow> supports_resume (get_job_capabilities (wj_kind j)) \<and> has_checkpoint j"

text \<open>The new row of an interrupted job.\<close>

definition recovered :: "time \<Rightarrow> work_job \<Rightarrow> work_job" where
  "recovered now j =
     (if wj_status j = CANCEL_REQUESTED then
        j\<lparr>wj_status := CANCELLED, wj_finished_at := Some now,
          wj_error_text := Some ''Cancelled by user''\<rparr>
      else if wj_status j = RUNNING then
        if resumable j then j\<lparr>wj_status := QUEUED\<rparr>
        else j\<lparr>wj_status := FAILED, wj_error_code := Some ''WORKER_INTERRUPTED'',
               wj_error_text := Some ''Worker restarted while job was running'',
               wj_finished_at := Some now\<rparr>
      else j)"

definition sync_linked :: "work_job \<Rightarrow> string \<Rightarrow> time \<Rightarrow> string \<Rightarrow> db \<Rightarrow> db" where
  "sync_linked j target now err d =
     fst (sync_batch_plan_status j target
       (sync_scan_job_status j target None (Some now) (Some err) True now d))"

definition recover_job :: "time \<Rightarrow> int \<Rightarrow> db \<times> recovery_stats \<Rightarrow> db \<times> recovery_stats" where
  "recover_job now jid ds = (case ds of (d, st) \<Rightarrow>
     (case get_job d jid of
        None \<Rightarrow> (d, st)
      | Some job \<Rightarrow>
          let job' = recovered now job; d1 = put_job job' d
          in if wj_status job = CANCEL_REQUESTED then
               (log_task_event jid ''cancelled'' ''warning'' now
                  (sync_linked job' ''cancelled'' now ''Cancelled by user'' d1),
                st\<lparr>rs_cancelled := rs_cancelled st + 1\<rparr>)
             else if wj_status job = RUNNING then
               if resumable job then
                 (log_task_event jid ''recovered_after_worker_restart'' ''info'' now d1,
                  st\<lparr>rs_requeued := rs_requeued st + 1\<rparr>)
               else
                 (log_task_event jid ''failed'' ''error'' now
                    (sync_linked job' ''failed'' now ''Worker restarted while job was running'' d1),
                  st\<lparr>rs_failed := rs_failed st + 1\<rparr>)
             else (d, st)))"

text \<open>The loop over the candidates; the flag says whether the lease was held to the end.\<close>

fun recover_jobs :: "string option \<Rightarrow> time \<Rightarrow> (int \<Rightarrow> time) \<Rightarrow> int list \<Rightarrow> db \<times> recovery_stats
    \<Rightarrow> (db \<times> recovery_stats) \<times> bool" where
  "recover_jobs worker timeout clock [] ds = (ds, True)"
| "recover_jobs worker timeout clock (jid # jids) ds =
     (if \<not> lease_ok worker timeout (clock jid) (fst ds) then (ds, False)
      else recover_jobs worker timeout clock jids (recover_job (clock jid) jid ds))"

subsection \<open>Orphaned plans\<close>

definition execution_job :: "int \<Rightarrow> string list \<Rightarrow> work_job \<Rightarrow> bool" where
  "execution_job plan_id statuses j \<longleftrightarrow>
     wj_kind j = ''batch-plan-execute'' \<and> wj_status j \<in> set statuses \<and>
     linked_id ''plan_id'' (wj_state_json j) = Some plan_id"

definition active_statuses :: "string list" where
  "active_statuses = [QUEUED, RUNNING, PAUSED, CANCEL_REQUESTED]"

definition terminal_statuses :: "string list" where
  "terminal_statuses = [COMPLETED, FAILED, CANCELLED]"

definition latest_execution :: "int \<Rightarrow> string list \<Rightarrow> db \<Rightarrow> work_job option" where
  "latest_execution plan_id statuses d =
     min_by (\<lambda>j. - wj_id j) (filter (execution_job plan_id statuses) (db_jobs d))"

definition repair_plan :: "time \<Rightarrow> int \<Rightarrow> db \<Rightarrow> db \<times> bool" where
  "repair_plan now plan_id d = (case tbl_get bp_id (db_plans d) plan_id of
      None \<Rightarrow> (d, False)
    | Some plan \<Rightarrow>
        if bp_status plan \<noteq> ''executing'' then (d, False)
        else if latest_execution plan_id active_statuses d \<noteq> None then (d, False)
        else (case latest_execution plan_id terminal_statuses d of
            None \<Rightarrow> (d, False)
          | Some job \<Rightarrow>
              (log_task_event (wj_id job) ''plan_recovered_after_worker_restart'' ''warning'' now
                 (fst (sync_batch_plan_status job (wj_status job) d)), True)))"

fun repair_plans :: "string option \<Rightarrow> time \<Rightarrow> (int \<Rightarrow> time) \<Rightarrow> int list \<Rightarrow> db \<Rightarrow> int \<Rightarrow> db \<times> int" where
  "repair_plans worker timeout clock [] d n = (d, n)"
| "repair_plans worker timeout clock (pid # pids) d n =
     (if \<not> lease_ok worker timeout (clock pid) d then (d, n)
      else let (d', b) = repair_plan (clock pid) pid d
           in repair_plans worker timeout clock pids d' (if b then n + 1 else n))"

definition repair_orphaned_executing_plans ::
  "string option \<Rightarrow> time \<Rightarrow> (int \<Rightarrow> time) \<Rightarrow> db \<Rightarrow> db \<times> int" where
  "repair_orphaned_executing_plans worker timeout clock d =
     repair_plans worker timeout clock
       (sort (map bp_id (filter (\<lambda>p. bp_status p = ''executing'') (db_plans d)))) d 0"

definition recover_interrupted_jobs ::
  "string option \<Rightarrow> time \<Rightarrow> time \<Rightarrow> (int \<Rightarrow> time) \<Rightarrow> (int \<Rightarrow> time) \<Rightarrow> db \<Rightarrow> db \<times> recovery_stats" where
  "recover_interrupted_jobs worker timeout now clock plan_clock d =
     (if \<not> lease_ok worker timeout now d then (d, zero_stats)
      else
        let ids = sort (map wj_id (filter (\<lambda>j. wj_status j = RUNNING \<or> wj_status j = CANCEL_REQUESTED)
                    (db_jobs d)));
            ((d1, st), done_all) = recover_jobs worker timeout clock ids (d, zero_stats)
        in if \<not> done_all then (d1, st)
           else let (d2, n) = repair_orphaned_executing_plans worker timeout plan_clock d1
                in (d2, st\<lparr>rs_repaired := n\<rparr>))"

subsection \<open>The effect of recovery on the jobs\<close>

lemma recovered_id [simp]: "wj_id (recovered now j) = wj_id j"
  by (simp add: recovered_def)

lemma sync_linked_frame [simp, db_simps]:
  "db_jobs (sync_linked j t n e d) = db_jobs d" "db_lock (sync_linked j t n e d) = db_lock d"
  by (simp_all add: sync_linked_def)

lemma lease_ok_cong: "db_lock d = db_lock d' \<Longrightarrow> lease_ok w to n d = lease_ok w to n d'"
  by (simp add: lease_ok_def assert_cong [of d d'] split: option.splits)

text \<open>With distinct keys, writing back a changed row is a map over the table.\<close>

lemma tbl_put_image:
  assumes "distinct (map key rows)" "tbl_get key rows i = Some r" "key (f r) = i"
  shows "tbl_put key (f r) rows = map (\<lambda>x. if key x = i then f x else x) rows"
proof -
  have r: "r \<in> set rows" "key r = i" using tbl_get_Some [OF assms(2)] by auto
  have "x = r" if "x \<in> set rows" "key x = i" for x
    using assms(1) r that by (auto simp: distinct_map dest: inj_onD)
  then show ?thesis using assms(3) by (auto simp: tbl_put_def)
qed

lemma tbl_get_mem: "distinct (map key rows) \<Longrightarrow> r \<in> set rows \<Longrightarrow> tbl_get key rows (key r) = Some r"
  by (induction rows) (auto simp: tbl_get_def)

definition interrupted :: "work_job \<Rightarrow> bool" where
  "interrupted j \<longleftrightarrow> wj_status j = RUNNING \<or> wj_status j = CANCEL_REQUESTED"

lemma recovered_other: "\<not> interrupted j \<Longrightarrow> recovered now j = j"
  by (simp add: recovered_def interrupted_def)

lemma recovered_settled: "\<not> interrupted (recovered now j)"
  by (auto simp: recovered_def interrupted_def)

lemma recover_job_lock [simp]: "db_lock (fst (recover_job now jid ds)) = db_lock (fst ds)"
  by (cases ds) (simp add: recover_job_def Let_def split: option.splits)

lemma recover_job_jobs:
  assumes "distinct (map wj_id (db_jobs d))"
  shows "db_jobs (fst (recover_job now jid (d, st)))
    = map (\<lambda>j. if wj_id j = jid then recovered now j else j) (db_jobs d)"
proof (cases "get_job d jid")
  case None
  then have "\<forall>j \<in> set (db_jobs d). wj_id j \<noteq> jid" by (simp add: get_job_def tbl_get_None)
  with None show ?thesis by (simp add: recover_job_def map_idI)
next
  case (Some job)
  have id: "wj_id job = jid" using Some by (rule get_job_id)
  have put: "tbl_put wj_id (recovered now job) (db_jobs d)
      = map (\<lambda>j. if wj_id j = jid then recovered now j else j) (db_jobs d)"
    using Some id by (intro tbl_put_image [OF assms]) (simp_all add: get_job_def)
  show ?thesis
  proof (cases "interrupted job")
    case True
    with Some put show ?thesis by (auto simp: recover_job_def interrupted_def Let_def)
  next
    case False
    with Some id have "recovered now job = job" by (simp add: recovered_other)
    moreover have "tbl_put wj_id job (db_jobs d) = db_jobs d"
    proof -
      have "x = job" if "x \<in> set (db_jobs d)" "wj_id x = wj_id job" for x
        using tbl_get_mem [OF assms that(1)] Some that(2) id by (simp add: get_job_def)
      then show ?thesis unfolding tbl_put_def by (intro map_idI) metis
    qed
    ultimately show ?thesis using False Some put by (auto simp: recover_job_def interrupted_def Let_def)
  qed
qed

text \<open>Which counter a job adds to.\<close>

definition counts :: "recovery_stats \<Rightarrow> int \<times> int \<times> int" where
  "counts st = (rs_cancelled st, rs_requeued st, rs_failed st)"

definition outcome :: "work_job option \<Rightarrow> int \<times> int \<times> int" where
  "outcome r = (case r of None \<Rightarrow> (0, 0, 0) | Some j \<Rightarrow>
     (if wj_status j = CANCEL_REQUESTED then 1 else 0,
      if wj_status j = RUNNING \<and> resumable j then 1 else 0,
      if wj_status j = RUNNING \<and> \<not> resumable j then 1 else 0))"

definition add3 :: "int \<times> int \<times> int \<Rightarrow> int \<times> int \<times> int \<Rightarrow> int \<times> int \<times> int" where
  "add3 x y = (fst x + fst y, fst (snd x) + fst (snd y), snd (snd x) + snd (snd y))"

lemma recover_job_counts:
  "counts (snd (recover_job now jid (d, st))) = add3 (counts st) (outcome (get_job d jid))"
  by (auto simp: recover_job_def counts_def outcome_def add3_def Let_def split: option.splits)

lemma get_job_recover:
  assumes "distinct (map wj_id (db_jobs d))" "i \<noteq> jid"
  shows "get_job (fst (recover_job now jid (d, st))) i = get_job d i"
proof -
  have "tbl_get wj_id (map (\<lambda>j. if wj_id j = jid then recovered now j else j) js) i = tbl_get wj_id js i" for js
    using assms(2) by (induction js) (auto simp: tbl_get_def)
  then show ?thesis by (simp add: get_job_def recover_job_jobs [OF assms(1)])
qed

lemma recover_jobs_all:
  assumes "\<forall>i \<in> set ids. lease_ok w to (clock i) d" "distinct (map wj_id (db_jobs d))" "distinct ids"
    and "recover_jobs w to clock ids (d, st) = ((d', st'), b)"
  shows "b \<and> db_lock d' = db_lock d \<and>
    db_jobs d' = map (\<lambda>j. if wj_id j \<in> set ids then recovered (clock (wj_id j)) j else j) (db_jobs d) \<and>
    counts st' = fold (\<lambda>i acc. add3 acc (outcome (get_job d i))) ids (counts st)"
  using assms
proof (induction ids arbitrary: d st)
  case (Cons i ids)
  obtain d1 st1 where r: "recover_job (clock i) i (d, st) = (d1, st1)" by fastforce
  have jobs: "db_jobs d1 = map (\<lambda>j. if wj_id j = i then recovered (clock i) j else j) (db_jobs d)"
    using recover_job_jobs [OF Cons.prems(2), of "clock i" i st] r by simp
  have lock: "db_lock d1 = db_lock d" using recover_job_lock [of "clock i" i "(d, st)"] r by simp
  have "map wj_id (db_jobs d1) = map wj_id (db_jobs d)" by (simp add: jobs)
  moreover have "\<forall>k \<in> set ids. lease_ok w to (clock k) d1"
    using Cons.prems(1) lease_ok_cong [OF lock] by auto
  moreover have "recover_jobs w to clock ids (d1, st1) = ((d', st'), b)"
    using Cons.prems(1,4) r by simp
  ultimately have ih: "b \<and> db_lock d' = db_lock d1 \<and>
      db_jobs d' = map (\<lambda>j. if wj_id j \<in> set ids then recovered (clock (wj_id j)) j else j) (db_jobs d1) \<and>
      counts st' = fold (\<lambda>i acc. add3 acc (outcome (get_job d1 i))) ids (counts st1)"
    using Cons.prems(2,3) by (intro Cons.IH) auto
  have "get_job d1 k = get_job d k" if "k \<in> set ids" for k
    using get_job_recover [OF Cons.prems(2), of k i "clock i" st] that Cons.prems(3) r by auto
  then have "fold (\<lambda>i acc. add3 acc (outcome (get_job d1 i))) ids c
      = fold (\<lambda>i acc. add3 acc (outcome (get_job d i))) ids c" for c
    by (intro fold_cong) auto
  moreover have "counts st1 = add3 (counts st) (outcome (get_job d i))"
    using recover_job_counts [of "clock i" i d st] r by simp
  ultimately show ?case using ih lock Cons.prems(3) by (auto simp: jobs)
qed simp

lemma add3_perm:
  assumes "mset xs = mset ys"
  shows "fold (\<lambda>i acc. add3 acc (f i)) xs a = fold (\<lambda>i acc. add3 acc (f i)) ys a"
  by (rule fun_cong [OF fold_multiset_equiv [OF _ assms]]) (auto simp: add3_def)

definition count_jobs :: "(work_job \<Rightarrow> bool) \<Rightarrow> work_job list \<Rightarrow> int" where
  "count_jobs P js = int (length (filter P js))"

lemma outcomes_counted:
  "fold (\<lambda>j acc. add3 acc (outcome (Some j))) js a =
     add3 a (count_jobs (\<lambda>j. wj_status j = CANCEL_REQUESTED) js,
             count_jobs (\<lambda>j. wj_status j = RUNNING \<and> resumable j) js,
             count_jobs (\<lambda>j. wj_status j = RUNNING \<and> \<not> resumable j) js)"
  by (induction js arbitrary: a) (auto simp: add3_def outcome_def count_jobs_def)

lemma count_interrupted:
  "(\<And>j. P j \<Longrightarrow> interrupted j) \<Longrightarrow> count_jobs P (filter interrupted js) = count_jobs P js"
  by (auto simp: count_jobs_def intro!: arg_cong [where f = length] filter_cong)

subsection \<open>The effect of the plan repair\<close>

lemma repair_plan_frame [simp]:
  "db_jobs (fst (repair_plan now p d)) = db_jobs d" "db_lock (fst (repair_plan now p d)) = db_lock d"
  "db_items (fst (repair_plan now p d)) = db_items d"
  by (auto simp: repair_plan_def split: option.splits)

lemma repair_plans_frame:
  "db_jobs (fst (repair_plans w to clock ps d n)) = db_jobs d \<and>
   db_lock (fst (repair_plans w to clock ps d n)) = db_lock d"
proof (induction ps arbitrary: d n)
  case (Cons p ps)
  obtain d' b where "repair_plan (clock p) p d = (d', b)" by fastforce
  moreover from this have "db_jobs d' = db_jobs d" "db_lock d' = db_lock d"
    by (metis fst_conv repair_plan_frame)+
  ultimately show ?case using Cons.IH [of d'] by simp
qed simp

subsection \<open>Properties\<close>

text \<open>
  C10: When the lease is held to the end, recovery settles every interrupted job and touches no
  other: each cancel-requested job becomes cancelled; each running job whose handler supports
  resuming and which has a versioned checkpoint is queued again, every other running job is failed
  with \<open>WORKER_INTERRUPTED\<close>; all other rows are as before, no job is left running or
  cancel-requested, and the three counters of the result are the numbers of such jobs.
\<close>

theorem recovery_settles_jobs:
  assumes "distinct (map wj_id (db_jobs d))"
    and "lease_ok w to now d" "\<forall>j \<in> set (db_jobs d). lease_ok w to (clock (wj_id j)) d"
    and "recover_interrupted_jobs w to now clock plan_clock d = (d', st)"
  shows "db_jobs d' = map (\<lambda>j. recovered (clock (wj_id j)) j) (db_jobs d) \<and>
    (\<forall>j \<in> set (db_jobs d'). wj_status j \<noteq> RUNNING \<and> wj_status j \<noteq> CANCEL_REQUESTED) \<and>
    rs_cancelled st = count_jobs (\<lambda>j. wj_status j = CANCEL_REQUESTED) (db_jobs d) \<and>
    rs_requeued st = count_jobs (\<lambda>j. wj_status j = RUNNING \<and> resumable j) (db_jobs d) \<and>
    rs_failed st = count_jobs (\<lambda>j. wj_status j = RUNNING \<and> \<not> resumable j) (db_jobs d)"
proof -
  let ?js = "filter interrupted (db_jobs d)"
  let ?ids = "sort (map wj_id ?js)"
  obtain d1 st1 b where r: "recover_jobs w to clock ?ids (d, zero_stats) = ((d1, st1), b)"
    by (metis prod.collapse)
  have dist: "distinct ?ids" using assms(1) by (simp add: distinct_map_filter)
  have "\<forall>i \<in> set ?ids. lease_ok w to (clock i) d" using assms(3) by auto
  from recover_jobs_all [OF this assms(1) dist r]
  have b: "b" and j1: "db_jobs d1 = map (\<lambda>j. if wj_id j \<in> set ?ids then recovered (clock (wj_id j)) j else j) (db_jobs d)"
    and c1: "counts st1 = fold (\<lambda>i acc. add3 acc (outcome (get_job d i))) ?ids (counts zero_stats)"
    by auto
  have "wj_id j \<in> set ?ids \<longleftrightarrow> interrupted j" if "j \<in> set (db_jobs d)" for j
    using assms(1) that by (auto simp: distinct_map dest: inj_onD)
  then have jobs: "db_jobs d1 = map (\<lambda>j. recovered (clock (wj_id j)) j) (db_jobs d)"
    unfolding j1 by (intro map_cong refl) (auto simp: recovered_other)
  have "counts st1 = fold (\<lambda>i acc. add3 acc (outcome (get_job d i))) (map wj_id ?js) (counts zero_stats)"
    unfolding c1 by (rule add3_perm) simp
  also have "\<dots> = fold (\<lambda>j acc. add3 acc (outcome (Some j))) ?js (counts zero_stats)"
    unfolding fold_map
    by (intro fold_cong) (auto simp: get_job_def tbl_get_mem [OF assms(1)])
  also have "\<dots> = (count_jobs (\<lambda>j. wj_status j = CANCEL_REQUESTED) (db_jobs d),
      count_jobs (\<lambda>j. wj_status j = RUNNING \<and> resumable j) (db_jobs d),
      count_jobs (\<lambda>j. wj_status j = RUNNING \<and> \<not> resumable j) (db_jobs d))"
    by (subst outcomes_counted, subst (1 2 3) count_interrupted)
      (auto simp: interrupted_def add3_def counts_def zero_stats_def)
  finally have cnt: "counts st1 = \<dots>" .
  have fr: "db_jobs e' = db_jobs e" if "repair_plans w to plan_clock ps e n = (e', k)" for ps e n e' k
    using repair_plans_frame [of w to plan_clock ps e n] that by simp
  have d': "db_jobs d' = db_jobs d1" "counts st = counts st1"
    using assms(2,4) r b
    by (auto simp: recover_interrupted_jobs_def interrupted_def [abs_def, symmetric] counts_def
        repair_orphaned_executing_plans_def Let_def split: prod.splits dest: fr)
  show ?thesis using jobs cnt d' recovered_settled
    by (auto simp: counts_def interrupted_def)
qed

definition restart_db :: db where
  "restart_db = ex_db\<lparr>db_jobs := [ex_scan_job,
     ex_plan_job\<lparr>wj_status := RUNNING, wj_checkpoint_json := Text (JObj [(''schema_version'', JInt 1)])\<rparr>,
     ex_scan_job\<lparr>wj_id := 6, wj_kind := ''index-root'', wj_status := RUNNING\<rparr>]\<rparr>"

theorem recovery_settles_jobs_witness:
  "map wj_status (db_jobs (fst (recover_interrupted_jobs None 30 100 (\<lambda>_. 100) (\<lambda>_. 100) restart_db)))
     = [CANCELLED, QUEUED, FAILED]"
proof -
  obtain d' st where r: "recover_interrupted_jobs None 30 100 (\<lambda>_. 100) (\<lambda>_. 100) restart_db = (d', st)"
    by fastforce
  have "distinct (map wj_id (db_jobs restart_db))" by code_simp
  from recovery_settles_jobs [OF this _ _ r]
  have "db_jobs d' = map (\<lambda>j. recovered 100 j) (db_jobs restart_db)" by (simp add: lease_ok_def)
  moreover have "map wj_status (map (\<lambda>j. recovered 100 j) (db_jobs restart_db)) = [CANCELLED, QUEUED, FAILED]"
    by code_simp
  ultimately show ?thesis using r by simp
qed

text \<open>
  C11: The repair of one plan is conservative. It changes at most that plan, and only when the plan is
  executing, no execution job of it is active and an ended one names it in its state; then the plan
  leaves the executing state. Jobs, items and every other plan keep their rows.
\<close>

theorem repair_plan_conservative:
  assumes "repair_plan now pid d = (d', b)"
    and "\<forall>j \<in> set (db_jobs d). execution_job pid terminal_statuses j \<longrightarrow>
           linked_ref ''batch-plan-execute'' ''plan_id'' j = Some pid"
  shows "db_jobs d' = db_jobs d \<and> db_items d' = db_items d \<and>
    (\<forall>i. i \<noteq> pid \<longrightarrow> tbl_get bp_id (db_plans d') i = tbl_get bp_id (db_plans d) i) \<and>
    (b \<longleftrightarrow> (\<exists>p. tbl_get bp_id (db_plans d) pid = Some p \<and> bp_status p = ''executing'') \<and>
       \<not> (\<exists>j \<in> set (db_jobs d). execution_job pid active_statuses j) \<and>
       (\<exists>j \<in> set (db_jobs d). execution_job pid terminal_statuses j)) \<and>
    (\<not> b \<longrightarrow> d' = d) \<and>
    (b \<longrightarrow> (\<exists>p. tbl_get bp_id (db_plans d') pid = Some p \<and> bp_status p \<noteq> ''executing''))"
proof -
  have le: "latest_execution pid ss d = None \<longleftrightarrow> \<not> (\<exists>j \<in> set (db_jobs d). execution_job pid ss j)" for ss
    by (auto simp: latest_execution_def filter_empty_conv)
  show ?thesis
  proof (cases b)
    case False
    with assms(1) le show ?thesis
      by (auto simp: repair_plan_def split: option.splits if_splits)
  next
    case True
    from assms(1) True obtain plan job where
      p: "tbl_get bp_id (db_plans d) pid = Some plan" "bp_status plan = ''executing''"
      and a: "latest_execution pid active_statuses d = None"
      and j: "latest_execution pid terminal_statuses d = Some job"
      and d': "d' = log_task_event (wj_id job) ''plan_recovered_after_worker_restart'' ''warning'' now
                 (fst (sync_batch_plan_status job (wj_status job) d))"
      by (auto simp: repair_plan_def split: option.splits if_splits)
    have job: "job \<in> set (db_jobs d)" "execution_job pid terminal_statuses job"
      using min_by_mem [of _ _ job] j by (force simp: latest_execution_def)+
    with assms(2) p have lp: "linked_plan d job = Some plan" by (simp add: linked_plan_def)
    have id: "bp_id plan = pid" using p(1) by (rule plans.get_key)
    have st: "wj_status job \<in> {COMPLETED, FAILED, CANCELLED}"
      using job(2) by (simp add: execution_job_def terminal_statuses_def)
    have pl: "db_plans d' = tbl_put bp_id (synced_plan d (wj_status job) plan) (db_plans d)"
      by (simp add: d' sync_batch_plan_status_def lp put_plan_def)
    have sid: "bp_id (synced_plan d (wj_status job) plan) = pid"
      using id by (simp add: synced_plan_def)
    have "bp_status (synced_plan d (wj_status job) plan) \<noteq> ''executing''"
      using st by (auto simp: synced_plan_def ended_plan_status_def)
    then show ?thesis using True p le a j job pl sid
      by (auto simp: d' plans.get_put plans.get_put_other)
  qed
qed

definition orphan_db :: db where
  "orphan_db = ex_db\<lparr>db_jobs := [ex_plan_job\<lparr>wj_status := FAILED\<rparr>]\<rparr>"

theorem repair_plan_conservative_witness:
  "\<exists>p. tbl_get bp_id (db_plans (fst (repair_plan 50 9 orphan_db))) 9 = Some p \<and> bp_status p \<noteq> ''executing''"
proof -
  obtain d' b where r: "repair_plan 50 9 orphan_db = (d', b)" by fastforce
  have b: "snd (repair_plan 50 9 orphan_db)" by code_simp
  have "\<forall>j \<in> set (db_jobs orphan_db). linked_ref ''batch-plan-execute'' ''plan_id'' j = Some 9"
    by code_simp
  with repair_plan_conservative [OF r] r b show ?thesis by auto
qed

end
