(* ===== verification/TaskService.thy ===== *)
theory TaskService
  imports TaskRecovery
begin

section \<open>The task service\<close>

text \<open>
  Models app/tasks/service.py: the operations a user calls on jobs. Each runs in one write
  transaction that reloads the job, so it is a function on the database that returns an error (the
  transaction rolled back) or the new database and the job the response shows.
\<close>

datatype task_error = TaskNotFound int | NotSupported string | WrongStatus string
  | NoPlanId | PlanIdInvalid | PlanNotFound int | PlanConflict int string | PlanActive int int
  | BadTransition transition_error | BadPayload | NoStatuses | NonTerminalStatus string

type_synonym 'r task_result = "task_error + (db \<times> 'r)"

definition check_transition :: "string \<Rightarrow> string \<Rightarrow> task_error + unit" where
  "check_transition f t = (case validate_transition f t of
      Inl e \<Rightarrow> Inl (BadTransition e) | Inr u \<Rightarrow> Inr u)"

definition atomic_task_transition ::
  "int \<Rightarrow> (work_job \<Rightarrow> db \<Rightarrow> 'r task_result) \<Rightarrow> db \<Rightarrow> 'r task_result" where
  "atomic_task_transition task_id f d = (case get_job d task_id of
      None \<Rightarrow> Inl (TaskNotFound task_id) | Some job \<Rightarrow> f job d)"

subsection \<open>Pause, resume, cancel\<close>

definition pause_task :: "time \<Rightarrow> int \<Rightarrow> db \<Rightarrow> work_job task_result" where
  "pause_task now task_id = atomic_task_transition task_id (\<lambda>job d.
     if \<not> supports_pause (get_job_capabilities (wj_kind job)) then Inl (NotSupported ''pause'')
     else if wj_status job = PAUSED then Inr (d, job)
     else if is_terminal (wj_status job) \<or> wj_status job = CANCEL_REQUESTED
       then Inl (WrongStatus (wj_status job))
     else if wj_status job = QUEUED then
       bind_res (check_transition (wj_status job) PAUSED) (\<lambda>_.
         let job' = job\<lparr>wj_status := PAUSED\<rparr>
         in Inr (log_task_event task_id ''paused'' ''info'' now (put_job job' d), job'))
     else if wj_status job = RUNNING then
       (let job' = job\<lparr>wj_pause_requested_at := Some now\<rparr>
        in Inr (log_task_event task_id ''pause_requested'' ''info'' now (put_job job' d), job'))
     else Inl (WrongStatus (wj_status job)))"

definition resume_task :: "time \<Rightarrow> int \<Rightarrow> db \<Rightarrow> work_job task_result" where
  "resume_task now task_id = atomic_task_transition task_id (\<lambda>job d.
     if \<not> supports_resume (get_job_capabilities (wj_kind job)) then Inl (NotSupported ''resume'')
     else if wj_status job \<noteq> PAUSED then Inl (WrongStatus (wj_status job))
     else bind_res (check_transition (wj_status job) QUEUED) (\<lambda>_.
       let job' = job\<lparr>wj_status := QUEUED, wj_pause_requested_at := None\<rparr>
       in Inr (log_task_event task_id ''resumed'' ''info'' now (put_job job' d), job')))"

definition cancel_task :: "time \<Rightarrow> int \<Rightarrow> db \<Rightarrow> work_job task_result" where
  "cancel_task now task_id = atomic_task_transition task_id (\<lambda>job d.
     if \<not> supports_cancel (get_job_capabilities (wj_kind job)) then Inl (NotSupported ''cancel'')
     else if is_terminal (wj_status job) then Inl (WrongStatus (wj_status job))
     else if wj_status job = CANCEL_REQUESTED then Inr (d, job)
     else if wj_status job = QUEUED \<or> wj_status job = PAUSED then
       bind_res (check_transition (wj_status job) CANCELLED) (\<lambda>_.
         let job' = job\<lparr>wj_status := CANCELLED, wj_finished_at := Some now\<rparr>
         in Inr (log_task_event task_id ''cancelled'' ''warning'' now
                   (sync_linked job' ''cancelled'' now ''Cancelled by user'' (put_job job' d)), job'))
     else if wj_status job = RUNNING then
       bind_res (check_transition (wj_status job) CANCEL_REQUESTED) (\<lambda>_.
         let job' = job\<lparr>wj_status := CANCEL_REQUESTED, wj_cancel_requested_at := Some now\<rparr>
         in Inr (log_task_event task_id ''cancel_requested'' ''warning'' now (put_job job' d), job'))
     else Inl (WrongStatus (wj_status job)))"

subsection \<open>Retry\<close>

definition RETRY_WHITELISTS :: "(string \<times> string list) list" where
  "RETRY_WHITELISTS =
     [(''index-root'', [''root'']),
      (''fclones-scan'', [''scan_job_id'', ''roots'', ''isolate'', ''min_size'', ''name_patterns'',
         ''exclude_patterns'']),
      (''batch-plan-execute'', [''plan_id'']),
      (''media-analysis'', [''root_keys''])]"

definition denied_keys :: "string list" where
  "denied_keys = [''allow_mutation'', ''allow_delete'', ''authorization'', ''auth'', ''token'',
     ''password'', ''secret'', ''unexpected'']"

definition retry_key_allowed :: "string \<Rightarrow> string \<Rightarrow> bool" where
  "retry_key_allowed kind k = (case map_of RETRY_WHITELISTS kind of
      Some allowed \<Rightarrow> k \<in> set allowed
    | None \<Rightarrow> py_lower k \<notin> set denied_keys)"

definition filter_retry_payload :: "string \<Rightarrow> json_text \<Rightarrow> (string \<times> json) list" where
  "filter_retry_payload kind t = (case t of
      Text (JObj kvs) \<Rightarrow> filter (\<lambda>(k, v). retry_key_allowed kind k) kvs
    | _ \<Rightarrow> [])"

definition retry_plan_id :: "work_job \<Rightarrow> json option" where
  "retry_plan_id job = (case loads_or_empty (wj_state_json job) of
      None \<Rightarrow> None | Some st \<Rightarrow> jget st ''plan_id'')"

definition retry_plan_check :: "work_job \<Rightarrow> db \<Rightarrow> task_error + unit" where
  "retry_plan_check job d =
     (if wj_kind job \<noteq> ''batch-plan-execute'' then Inr ()
      else (case retry_plan_id job of
          None \<Rightarrow> Inl NoPlanId
        | Some v \<Rightarrow>
            if \<not> truthy v then Inl NoPlanId
            else (case int_of_json v of
                None \<Rightarrow> Inl PlanIdInvalid
              | Some pid \<Rightarrow> (case tbl_get bp_id (db_plans d) pid of
                    None \<Rightarrow> Inl (PlanNotFound pid)
                  | Some plan \<Rightarrow>
                      if bp_status plan \<notin> {''ready'', ''partial''}
                      then Inl (PlanConflict pid (bp_status plan))
                      else (case latest_execution pid active_statuses d of
                          Some j \<Rightarrow> Inl (PlanActive pid (wj_id j))
                        | None \<Rightarrow> Inr ())))))"

definition retry_payload :: "work_job \<Rightarrow> int option \<Rightarrow> json_text" where
  "retry_payload job user = (let kvs = filter_retry_payload (wj_kind job) (wj_state_json job) in
     Text (JObj (case user of None \<Rightarrow> kvs | Some u \<Rightarrow> dict_set ''requested_by_user_id'' (JInt u) kvs)))"

definition retry_task :: "time \<Rightarrow> int \<Rightarrow> int option \<Rightarrow> db \<Rightarrow> work_job task_result" where
  "retry_task now task_id user = atomic_task_transition task_id (\<lambda>job d.
     if \<not> supports_retry (get_job_capabilities (wj_kind job)) then Inl (NotSupported ''retry'')
     else if wj_status job \<noteq> FAILED then Inl (WrongStatus (wj_status job))
     else bind_res (retry_plan_check job d) (\<lambda>_.
       let job' = (new_job d (wj_kind job) QUEUED (retry_payload job user) now)\<lparr>wj_retry_of := Some (wj_id job)\<rparr>
       in Inr (log_task_event (wj_id job') ''queued'' ''info'' now
                 (log_task_event (wj_id job) ''retry_created'' ''info'' now (add_job job' d)), job')))"

subsection \<open>Deletion and history\<close>

definition delete_task :: "int \<Rightarrow> db \<Rightarrow> int task_result" where
  "delete_task task_id = atomic_task_transition task_id (\<lambda>job d.
     if \<not> is_terminal (wj_status job) then Inl (WrongStatus (wj_status job))
     else Inr (delete_jobs (\<lambda>j. wj_id j = task_id) d, task_id))"

definition clear_task_history :: "string list option \<Rightarrow> db \<Rightarrow> int task_result" where
  "clear_task_history statuses d =
     bind_res (case statuses of
         None \<Rightarrow> Inr TERMINAL_STATES
       | Some ss \<Rightarrow> if ss = [] then Inl NoStatuses else Inr ss) (\<lambda>target.
     case find (\<lambda>s. \<not> is_terminal s) target of
       Some s \<Rightarrow> Inl (NonTerminalStatus s)
     | None \<Rightarrow> Inr (delete_jobs (\<lambda>j. wj_status j \<in> set target) d,
                   int (length (filter (\<lambda>j. wj_status j \<in> set target) (db_jobs d)))))"

subsection \<open>Listing\<close>

definition page_number :: "int \<Rightarrow> int" where "page_number p = max 1 p"
definition page_limit :: "int \<Rightarrow> int" where "page_limit n = min 500 (max 1 n)"

definition page_rows :: "int \<Rightarrow> int \<Rightarrow> 'r list \<Rightarrow> 'r list" where
  "page_rows page psize rows =
     take (nat (page_limit psize)) (drop (nat ((page_number page - 1) * page_limit psize)) rows)"

definition matches_filter :: "string option \<Rightarrow> string \<Rightarrow> bool" where
  "matches_filter f v = (case f of None \<Rightarrow> True | Some s \<Rightarrow> s = [] \<or> v = s)"

definition listed_jobs :: "string option \<Rightarrow> string option \<Rightarrow> db \<Rightarrow> work_job list" where
  "listed_jobs st kind d = rev (sort_key wj_id
     (filter (\<lambda>j. matches_filter st (wj_status j) \<and> matches_filter kind (wj_kind j)) (db_jobs d)))"

definition list_tasks ::
  "int \<Rightarrow> int \<Rightarrow> string option \<Rightarrow> string option \<Rightarrow> db \<Rightarrow> work_job list \<times> int \<times> int \<times> int" where
  "list_tasks page psize st kind d =
     (page_rows page psize (listed_jobs st kind d), page_number page, page_limit psize,
      int (length (listed_jobs st kind d)))"

definition task_events :: "int \<Rightarrow> string option \<Rightarrow> db \<Rightarrow> task_event list" where
  "task_events task_id level d = sort_key te_id
     (filter (\<lambda>e. te_job_id e = task_id \<and> matches_filter level (te_level e)) (db_events d))"

definition get_task_logs ::
  "int \<Rightarrow> int \<Rightarrow> int \<Rightarrow> string option \<Rightarrow> db \<Rightarrow> task_error + (task_event list \<times> int \<times> int \<times> int)" where
  "get_task_logs task_id page psize level d = (case get_job d task_id of
      None \<Rightarrow> Inl (TaskNotFound task_id)
    | Some _ \<Rightarrow> Inr (page_rows page psize (task_events task_id level d), page_number page,
        page_limit psize, int (length (task_events task_id level d))))"

definition get_worker_status :: "time \<Rightarrow> db \<Rightarrow> string \<times> string option \<times> time option" where
  "get_worker_status now d = (case db_worker d of
      None \<Rightarrow> (fst (compute_worker_status None now), None, None)
    | Some st \<Rightarrow> (case compute_worker_status (Some (ws_heartbeat_at st)) now of
        (status, age) \<Rightarrow> (status, Some (ws_worker_id st), age)))"

text \<open>The payload a task detail shows: the parsed state, without a recovery's one-time secret.\<close>

definition shown_payload :: "work_job \<Rightarrow> task_error + json" where
  "shown_payload job = (let st = (case loads_or_empty (wj_state_json job) of None \<Rightarrow> JObj [] | Some j \<Rightarrow> j) in
     if wj_kind job = ''archive-recovery'' then
       (case st of JObj kvs \<Rightarrow> Inr (JObj (filter (\<lambda>(k, v). k \<noteq> ''secret_token'') kvs)) | _ \<Rightarrow> Inl BadPayload)
     else Inr st)"

definition get_task_detail :: "int \<Rightarrow> db \<Rightarrow> task_error + (work_job \<times> json \<times> json)" where
  "get_task_detail task_id d = (case get_job d task_id of
      None \<Rightarrow> Inl (TaskNotFound task_id)
    | Some job \<Rightarrow> bind_res (shown_payload job) (\<lambda>payload. Inr (job,
        (case loads_or_empty (wj_checkpoint_json job) of None \<Rightarrow> JObj [] | Some j \<Rightarrow> j), payload)))"

subsection \<open>Effects on the jobs\<close>

lemmas task_ops = pause_task_def resume_task_def cancel_task_def

lemma check_transition_Inr [simp]: "check_transition f t = Inr u \<longleftrightarrow> can_transition f t"
  using validate_transition_Inr [of f t u]
  by (cases "validate_transition f t") (simp_all add: check_transition_def del: validate_transition_Inr)

lemma atomic_Inr:
  "atomic_task_transition i f d = Inr out \<longleftrightarrow> (\<exists>job. get_job d i = Some job \<and> f job d = Inr out)"
  by (auto simp: atomic_task_transition_def split: option.splits)

lemma get_job_sync_linked [simp, db_simps]: "get_job (sync_linked j t n e d) i = get_job d i"
  by (simp add: get_job_def)

text \<open>What a step may do to the row of a job.\<close>

definition user_update :: "work_job \<Rightarrow> work_job \<Rightarrow> bool" where
  "user_update j j' \<longleftrightarrow> wj_id j' = wj_id j \<and> wj_kind j' = wj_kind j \<and> wj_state_json j' = wj_state_json j \<and>
     wj_checkpoint_json j' = wj_checkpoint_json j \<and>
     (wj_status j' = wj_status j \<or> can_transition (wj_status j) (wj_status j')) \<and>
     (is_terminal (wj_status j) \<longrightarrow> j' = j)"

lemma user_update_refl [simp]: "user_update j j"
  by (simp add: user_update_def)

definition job_write :: "int \<Rightarrow> work_job \<Rightarrow> work_job \<Rightarrow> db \<Rightarrow> db \<Rightarrow> bool" where
  "job_write i j r d d' \<longleftrightarrow> get_job d i = Some j \<and> user_update j r \<and>
     (d' = d \<and> r = j \<or> db_jobs d' = tbl_put wj_id r (db_jobs d))"

lemma job_write_get:
  assumes "job_write i j r d d'"
  shows "get_job d' k = (if k = i then Some r else get_job d k)"
proof -
  have "wj_id r = i" using assms get_job_id by (auto simp: job_write_def user_update_def)
  with assms show ?thesis by (auto simp: job_write_def get_job_def jobs.get_put)
qed

lemma pause_effect:
  assumes "pause_task now i d = Inr (d', r)"
  shows "\<exists>j. job_write i j r d d' \<and> supports_pause (get_job_capabilities (wj_kind j)) \<and>
    (wj_status r = wj_status j \<or> wj_status j = QUEUED \<and> wj_status r = PAUSED)"
  using assms by (auto simp: pause_task_def atomic_Inr bind_res_Inr user_update_def Let_def
      can_transition_iff job_write_def split: if_splits)

lemma resume_effect:
  assumes "resume_task now i d = Inr (d', r)"
  shows "\<exists>j. job_write i j r d d' \<and> supports_resume (get_job_capabilities (wj_kind j)) \<and>
    wj_status j = PAUSED \<and> wj_status r = QUEUED \<and> wj_pause_requested_at r = None"
  using assms by (auto simp: resume_task_def atomic_Inr bind_res_Inr user_update_def Let_def
      can_transition_iff job_write_def split: if_splits)

lemma cancel_effect:
  assumes "cancel_task now i d = Inr (d', r)"
  shows "\<exists>j. job_write i j r d d' \<and> supports_cancel (get_job_capabilities (wj_kind j)) \<and>
    \<not> is_terminal (wj_status j) \<and> wj_status r \<in> {CANCELLED, CANCEL_REQUESTED} \<and>
    (wj_status r = CANCELLED \<longrightarrow> wj_status j \<in> {QUEUED, PAUSED} \<and> wj_finished_at r = Some now)"
proof -
  from assms obtain j where j: "get_job d i = Some j" and c: "supports_cancel (get_job_capabilities (wj_kind j))"
    and t: "\<not> is_terminal (wj_status j)"
    and b: "wj_status j = CANCEL_REQUESTED \<and> d' = d \<and> r = j \<or>
      wj_status j \<in> {QUEUED, PAUSED} \<and> r = j\<lparr>wj_status := CANCELLED, wj_finished_at := Some now\<rparr> \<and>
        db_jobs d' = tbl_put wj_id r (db_jobs d) \<or>
      wj_status j = RUNNING \<and> r = j\<lparr>wj_status := CANCEL_REQUESTED, wj_cancel_requested_at := Some now\<rparr> \<and>
        db_jobs d' = tbl_put wj_id r (db_jobs d)"
    by (auto simp: cancel_task_def atomic_Inr bind_res_Inr Let_def simp del: is_terminal_iff split: if_splits)
  from b j t c show ?thesis
    by (elim disjE conjE) (auto simp: user_update_def job_write_def can_transition_iff)
qed

lemma retry_effect:
  assumes "retry_task now i user d = Inr (d', r)"
  shows "\<exists>j. get_job d i = Some j \<and> wj_status j = FAILED \<and> supports_retry (get_job_capabilities (wj_kind j)) \<and>
    retry_plan_check j d = Inr () \<and> db_jobs d' = db_jobs d @ [r] \<and>
    r = (new_job d (wj_kind j) QUEUED (retry_payload j user) now)\<lparr>wj_retry_of := Some i\<rparr>"
  using assms get_job_id by (fastforce simp: retry_task_def atomic_Inr bind_res_Inr Let_def
      add_job_def tbl_insert_def split: if_splits)

lemma retry_plan_check_Inr:
  assumes "retry_plan_check j d = Inr ()" "wj_kind j = ''batch-plan-execute''"
  obtains v pid plan where "retry_plan_id j = Some v" "int_of_json v = Some pid"
    "tbl_get bp_id (db_plans d) pid = Some plan" "bp_status plan \<in> {''ready'', ''partial''}"
    "latest_execution pid active_statuses d = None"
  using assms that by (auto simp: retry_plan_check_def split: option.splits if_splits)

lemma latest_execution_None:
  "latest_execution pid ss d = None \<longleftrightarrow> \<not> (\<exists>j \<in> set (db_jobs d). execution_job pid ss j)"
  by (auto simp: latest_execution_def filter_empty_conv)

lemma delete_jobs_mem:
  "(\<exists>j' \<in> set (db_jobs (delete_jobs p d)). wj_id j' = i) \<longleftrightarrow>
     (\<exists>j \<in> set (db_jobs d). wj_id j = i \<and> \<not> p j)"
  by (force simp: delete_jobs_def Let_def tbl_delete_def)

lemma delete_jobs_row:
  "j' \<in> set (db_jobs (delete_jobs p d)) \<Longrightarrow>
     \<exists>j \<in> set (db_jobs d). \<not> p j \<and> j' = j\<lparr>wj_retry_of := wj_retry_of j'\<rparr>"
  by (auto simp: delete_jobs_def Let_def tbl_delete_def)

lemma delete_jobs_keeps:
  "j \<in> set (db_jobs d) \<Longrightarrow> \<not> p j \<Longrightarrow>
     \<exists>ro. j\<lparr>wj_retry_of := ro\<rparr> \<in> set (db_jobs (delete_jobs p d))"
  by (auto simp: delete_jobs_def Let_def tbl_delete_def image_iff)

lemma delete_jobs_no_dangling:
  assumes "distinct (map wj_id (db_jobs d))"
    and "\<forall>e \<in> set (db_events d). \<exists>j \<in> set (db_jobs d). wj_id j = te_job_id e"
  shows "\<forall>e \<in> set (db_events (delete_jobs p d)).
    \<exists>j \<in> set (db_jobs (delete_jobs p d)). wj_id j = te_job_id e"
proof
  fix e assume "e \<in> set (db_events (delete_jobs p d))"
  then have e: "e \<in> set (db_events d)" "\<forall>j \<in> set (db_jobs d). p j \<longrightarrow> wj_id j \<noteq> te_job_id e"
    by (force simp: delete_jobs_def Let_def tbl_delete_def)+
  with assms(2) show "\<exists>j \<in> set (db_jobs (delete_jobs p d)). wj_id j = te_job_id e"
    unfolding delete_jobs_mem by blast
qed

subsection \<open>Paging\<close>

lemma page_limit_bounds: "1 \<le> page_limit n \<and> page_limit n \<le> 500"
  by (simp add: page_limit_def)

lemma pages_take:
  "concat (map (\<lambda>p. page_rows p n rows) [1..int k]) = take (k * nat (page_limit n)) rows"
proof (induction k)
  case (Suc k)
  have up: "[1..int (Suc k)] = [1..int k] @ [int (Suc k)]"
    by (simp add: upto_rec2)
  let ?l = "nat (page_limit n)"
  have "nat ((page_number (int (Suc k)) - 1) * page_limit n) = k * ?l"
    using page_limit_bounds [of n] by (simp add: page_number_def nat_mult_distrib)
  then have "page_rows (int (Suc k)) n rows = take ?l (drop (k * ?l) rows)"
    by (simp add: page_rows_def)
  then show ?case unfolding up
    by (simp add: Suc.IH take_add add.commute [of "nat (page_limit n)"] del: of_nat_Suc)
qed simp

subsection \<open>Properties\<close>

text \<open>
  C12: A retry adds one job and changes no other. It succeeds only for a failed job whose kind may be
  retried; the new job has an id no row had, is queued, has no progress, points back to the failed
  one, and its payload holds only keys the filter of its kind allows, plus the requesting user,
  with their values of the failed job. For an execution the plan exists, is ready or partial, and
  had no active execution.
\<close>

theorem retry_creates_one_job:
  assumes "retry_task now i user d = Inr (d', r)"
  shows "\<exists>j. get_job d i = Some j \<and> wj_status j = FAILED \<and> supports_retry (get_job_capabilities (wj_kind j)) \<and>
    db_jobs d' = db_jobs d @ [r] \<and> (\<forall>x \<in> set (db_jobs d). wj_id x \<noteq> wj_id r) \<and>
    wj_kind r = wj_kind j \<and> wj_status r = QUEUED \<and> wj_retry_of r = Some i \<and>
    wj_progress_current r = 0 \<and> wj_progress_total r = 0 \<and>
    (\<exists>kvs. wj_state_json r = Text (JObj kvs) \<and> (\<forall>(k, v) \<in> set kvs.
       retry_key_allowed (wj_kind j) k \<and> (\<exists>kvs0. wj_state_json j = Text (JObj kvs0) \<and> (k, v) \<in> set kvs0) \<or>
       k = ''requested_by_user_id'' \<and> user = (case v of JInt u \<Rightarrow> Some u | _ \<Rightarrow> None))) \<and>
    (wj_kind j = ''batch-plan-execute'' \<longrightarrow> (\<exists>v pid plan. retry_plan_id j = Some v \<and> int_of_json v = Some pid \<and>
       tbl_get bp_id (db_plans d) pid = Some plan \<and> bp_status plan \<in> {''ready'', ''partial''} \<and>
       \<not> (\<exists>x \<in> set (db_jobs d). execution_job pid active_statuses x)))"
proof -
  from retry_effect [OF assms] obtain j where
    j: "get_job d i = Some j" "wj_status j = FAILED" "supports_retry (get_job_capabilities (wj_kind j))"
      "retry_plan_check j d = Inr ()" "db_jobs d' = db_jobs d @ [r]"
    and r: "r = (new_job d (wj_kind j) QUEUED (retry_payload j user) now)\<lparr>wj_retry_of := Some i\<rparr>"
    by blast
  have kept: "k = ''requested_by_user_id'' \<and> (case v of JInt u \<Rightarrow> Some u | _ \<Rightarrow> None) = user \<or>
      retry_key_allowed (wj_kind j) k \<and> (\<exists>kvs0. wj_state_json j = Text (JObj kvs0) \<and> (k, v) \<in> set kvs0)"
    if "retry_payload j user = Text (JObj kvs)" "(k, v) \<in> set kvs" for k v kvs
    using that by (auto simp: retry_payload_def filter_retry_payload_def dict_set_def Let_def
        split: option.splits json_text.splits json.splits if_splits)
  have fresh: "\<forall>x \<in> set (db_jobs d). wj_id x \<noteq> wj_id r"
    using jobs.fresh_not_a_row by (auto simp: r new_job_def)
  have plan: "wj_kind j = ''batch-plan-execute'' \<longrightarrow> (\<exists>v pid plan. retry_plan_id j = Some v \<and> int_of_json v = Some pid \<and>
       tbl_get bp_id (db_plans d) pid = Some plan \<and> bp_status plan \<in> {''ready'', ''partial''} \<and>
       \<not> (\<exists>x \<in> set (db_jobs d). execution_job pid active_statuses x))"
    using retry_plan_check_Inr [OF j(4)] latest_execution_None by metis
  obtain kvs where kvs: "retry_payload j user = Text (JObj kvs)"
    by (simp add: retry_payload_def Let_def split: option.splits)
  have "\<forall>(k, v) \<in> set kvs. retry_key_allowed (wj_kind j) k \<and>
      (\<exists>kvs0. wj_state_json j = Text (JObj kvs0) \<and> (k, v) \<in> set kvs0) \<or>
      k = ''requested_by_user_id'' \<and> user = (case v of JInt u \<Rightarrow> Some u | _ \<Rightarrow> None)"
    using kept [OF kvs] by fastforce
  moreover have "wj_state_json r = Text (JObj kvs)" by (simp add: r new_job_def kvs)
  ultimately show ?thesis using j fresh plan by (auto simp: r new_job_def)
qed

definition retry_db :: db where
  "retry_db = ex_db\<lparr>db_jobs := [ex_plan_job\<lparr>wj_status := FAILED\<rparr>],
     db_plans := [\<lparr>bp_id = 9, bp_kind = ''delete'', bp_status = ''partial''\<rparr>]\<rparr>"

lemma retry_db_retries: "map_sum id (\<lambda>(d', r). wj_id r) (retry_task 60 5 (Some 2) retry_db) = Inr 6"
  by code_simp

theorem retry_creates_one_job_witness:
  "\<exists>d' r. retry_task 60 5 (Some 2) retry_db = Inr (d', r) \<and> length (db_jobs d') = 2 \<and>
     wj_retry_of r = Some 5 \<and> wj_id r = 6"
proof -
  from retry_db_retries obtain d' r where r: "retry_task 60 5 (Some 2) retry_db = Inr (d', r)" "wj_id r = 6"
    by (cases "retry_task 60 5 (Some 2) retry_db") auto
  from retry_creates_one_job [OF r(1)] r show ?thesis by (auto simp: retry_db_def)
qed

text \<open>
  Paging loses no row and repeats none. For every page size requested, the pages 1 to \<open>k\<close> of the
  job list put together are the whole list, newest id first, as soon as \<open>k\<close> pages can hold it; a
  page never has more than 500 rows; and the total is the number of matching jobs.
\<close>

theorem pages_cover_tasks:
  assumes "int (length (listed_jobs st kind d)) \<le> int k * page_limit psize"
  shows "concat (map (\<lambda>p. fst (list_tasks p psize st kind d)) [1..int k]) = listed_jobs st kind d \<and>
    sorted (rev (map wj_id (listed_jobs st kind d))) \<and>
    (\<forall>p. length (fst (list_tasks p psize st kind d)) \<le> 500 \<and>
       snd (snd (snd (list_tasks p psize st kind d))) =
         int (length (filter (\<lambda>j. matches_filter st (wj_status j) \<and> matches_filter kind (wj_kind j)) (db_jobs d))))"
proof -
  have "int (k * nat (page_limit psize)) = int k * page_limit psize"
    using page_limit_bounds [of psize] by simp
  with assms have all: "length (listed_jobs st kind d) \<le> k * nat (page_limit psize)" by linarith
  have "concat (map (\<lambda>p. fst (list_tasks p psize st kind d)) [1..int k]) = listed_jobs st kind d"
    using all by (simp add: list_tasks_def pages_take)
  moreover have "sorted (rev (map wj_id (listed_jobs st kind d)))"
    by (simp add: listed_jobs_def rev_map)
  moreover have "length (page_rows p psize rows) \<le> 500" for p and rows :: "work_job list"
  proof -
    have "length (page_rows p psize rows) \<le> nat (page_limit psize)" by (simp add: page_rows_def)
    then show ?thesis using page_limit_bounds [of psize] by linarith
  qed
  ultimately show ?thesis by (simp add: list_tasks_def listed_jobs_def)
qed

theorem pages_cover_tasks_witness:
  "concat (map (\<lambda>p. fst (list_tasks p 2 None (Some []) restart_db)) [1..2]) = listed_jobs None (Some []) restart_db"
proof -
  have "int (length (listed_jobs None (Some []) restart_db)) \<le> int 2 * page_limit 2" by code_simp
  from pages_cover_tasks [OF this] show ?thesis by simp
qed

text \<open>
  Deleting history never loses work that can still run. Whatever statuses the request names, a
  successful clearing keeps every job that is not terminal (with all columns but a reference to a
  removed retry source), removes exactly the jobs with a named status, and returns their number;
  naming a non-terminal status or an empty list is refused.
\<close>

theorem clear_history_keeps_live_jobs:
  assumes "clear_task_history statuses d = Inr (d', n)"
  shows "(\<forall>j \<in> set (db_jobs d). \<not> is_terminal (wj_status j) \<longrightarrow>
            (\<exists>ro. j\<lparr>wj_retry_of := ro\<rparr> \<in> set (db_jobs d'))) \<and>
    n = int (length (db_jobs d)) - int (length (db_jobs d')) \<and>
    (\<forall>j \<in> set (db_jobs d'). wj_status j \<notin> set (case statuses of None \<Rightarrow> TERMINAL_STATES | Some ss \<Rightarrow> ss)) \<and>
    statuses \<noteq> Some [] \<and> (\<forall>ss. statuses = Some ss \<longrightarrow> set ss \<subseteq> set TERMINAL_STATES)"
proof -
  define target where "target = (case statuses of None \<Rightarrow> TERMINAL_STATES | Some ss \<Rightarrow> ss)"
  from assms have ne: "statuses \<noteq> Some []" by (auto simp: clear_task_history_def)
  have tgt: "(case statuses of None \<Rightarrow> Inr TERMINAL_STATES
      | Some ss \<Rightarrow> if ss = [] then Inl NoStatuses else Inr ss) = Inr target"
    using ne by (cases statuses) (auto simp: target_def)
  have out: "(case find (\<lambda>s. \<not> is_terminal s) target of Some s \<Rightarrow> Inl (NonTerminalStatus s)
     | None \<Rightarrow> Inr (delete_jobs (\<lambda>j. wj_status j \<in> set target) d,
           int (length (filter (\<lambda>j. wj_status j \<in> set target) (db_jobs d))))) = Inr (d', n)"
    using assms unfolding clear_task_history_def tgt bind_res_simps .
  then have t: "find (\<lambda>s. \<not> is_terminal s) target = None"
    by (cases "find (\<lambda>s. \<not> is_terminal s) target") simp_all
  with out have d': "d' = delete_jobs (\<lambda>j. wj_status j \<in> set target) d"
    and n: "n = int (length (filter (\<lambda>j. wj_status j \<in> set target) (db_jobs d)))"
    by simp_all
  have terminal: "\<forall>s \<in> set target. is_terminal s"
    using t by (simp add: find_None_iff del: is_terminal_iff)
  have len: "length (db_jobs d') = length (filter (\<lambda>j. wj_status j \<notin> set target) (db_jobs d))"
    by (simp add: d' delete_jobs_def Let_def tbl_delete_def)
  have "n = int (length (db_jobs d)) - int (length (db_jobs d'))"
    using length_filter_partition [of "\<lambda>j. wj_status j \<in> set target" "db_jobs d"] by (simp add: n len)
  moreover have "\<forall>j \<in> set (db_jobs d'). wj_status j \<notin> set target"
    by (auto simp: d' delete_jobs_def Let_def tbl_delete_def)
  moreover have "\<exists>ro. j\<lparr>wj_retry_of := ro\<rparr> \<in> set (db_jobs d')"
    if "j \<in> set (db_jobs d)" "\<not> is_terminal (wj_status j)" for j
  proof -
    have "wj_status j \<notin> set target" using that(2) terminal by blast
    with that(1) show ?thesis unfolding d' by (rule delete_jobs_keeps)
  qed
  moreover have "\<forall>ss. statuses = Some ss \<longrightarrow> set ss \<subseteq> set TERMINAL_STATES"
  proof (intro allI impI subsetI)
    fix ss x assume "statuses = Some ss" "x \<in> set ss"
    then have "x \<in> set target" by (simp add: target_def)
    with terminal show "x \<in> set TERMINAL_STATES" by (simp only: is_terminal_def)
  qed
  ultimately show ?thesis using ne unfolding target_def by (intro conjI ballI impI) simp_all
qed

theorem clear_history_keeps_live_jobs_witness:
  "\<exists>d' n. clear_task_history (Some [FAILED]) restart_db = Inr (d', n) \<and> n = 3 - int (length (db_jobs d'))"
proof -
  obtain d' n where c: "clear_task_history (Some [FAILED]) restart_db = Inr (d', n)"
    by (simp add: clear_task_history_def)
  moreover have "length (db_jobs restart_db) = 3" by (simp add: restart_db_def)
  ultimately show ?thesis using clear_history_keeps_live_jobs [OF c] by auto
qed

end
