(* ===== verification/JobContext.thy ===== *)
theory JobContext
  imports TaskService PyJson
begin

section \<open>The context a handler runs in\<close>

text \<open>
  Models app/tasks/context.py: \<open>checkpoint\<close>, the one place where a running job meets pause and
  cancel requests, and \<open>log\<close>. A call either raises before it writes (\<open>Inl\<close>, the transaction is
  rolled back) or commits; the two exceptions raised after a commit are the results \<open>Cancelled\<close> and
  \<open>Paused\<close>. Whether a progress event is due depends on a throttle over wall-clock time and a
  rounded percentage; it is the parameter \<open>log_due\<close>.
\<close>

definition MAX_CHECKPOINT_SIZE_BYTES :: int where "MAX_CHECKPOINT_SIZE_BYTES = 64 * 1024"

datatype context_error = NegativeTotal | NegativeCurrent | CheckpointNotADict | NoSchemaVersion
  | CheckpointTooLarge | ContextLease lease_lost | JobGone | ContextTransition transition_error
  | TotalBelowCurrent int int | CurrentAboveTotal int int

datatype checkpoint_result = Proceed | Paused | Cancelled

record checkpoint_args =
  ca_current :: "int option"
  ca_total :: "int option"
  ca_message :: "string option"
  ca_data :: "json option"

definition context_fence :: "string option \<Rightarrow> time \<Rightarrow> db \<Rightarrow> context_error + unit" where
  "context_fence worker now d = (case worker of
      None \<Rightarrow> Inr ()
    | Some w \<Rightarrow> (case assert_active_worker_lease d w now WORKER_LEASE_TIMEOUT of
          Inl e \<Rightarrow> Inl (ContextLease e) | Inr _ \<Rightarrow> Inr ()))"

definition context_log ::
  "string option \<Rightarrow> int \<Rightarrow> string \<Rightarrow> string \<Rightarrow> time \<Rightarrow> db \<Rightarrow> context_error + db" where
  "context_log worker job_id event_type level now d =
     bind_res (context_fence worker now d) (\<lambda>_. Inr (log_task_event job_id event_type level now d))"

definition negative :: "int option \<Rightarrow> bool" where
  "negative n = (case n of None \<Rightarrow> False | Some v \<Rightarrow> v < 0)"

definition checked_data :: "json option \<Rightarrow> context_error + json option" where
  "checked_data cp = (case cp of
      None \<Rightarrow> Inr None
    | Some data \<Rightarrow> (case data of
          JObj kvs \<Rightarrow>
            if ''schema_version'' \<notin> fst ` set kvs then Inl NoSchemaVersion
            else if utf8_length (json_dumps data) > MAX_CHECKPOINT_SIZE_BYTES then Inl CheckpointTooLarge
            else Inr (Some data)
        | _ \<Rightarrow> Inl CheckpointNotADict))"

definition check_args :: "checkpoint_args \<Rightarrow> context_error + json option" where
  "check_args a =
     bind_res (ensure (\<not> negative (ca_total a)) NegativeTotal) (\<lambda>_.
     bind_res (ensure (\<not> negative (ca_current a)) NegativeCurrent) (\<lambda>_.
     checked_data (ca_data a)))"

definition ctx_transition :: "string \<Rightarrow> string \<Rightarrow> context_error + unit" where
  "ctx_transition f t = (case validate_transition f t of
      Inl e \<Rightarrow> Inl (ContextTransition e) | Inr u \<Rightarrow> Inr u)"

definition apply_total :: "int option \<Rightarrow> work_job \<Rightarrow> context_error + work_job" where
  "apply_total p_tot j = (case p_tot of
      None \<Rightarrow> Inr j
    | Some t \<Rightarrow> if t < wj_progress_current j then Inl (TotalBelowCurrent t (wj_progress_current j))
                else Inr (j\<lparr>wj_progress_total := t\<rparr>))"

definition apply_current :: "int option \<Rightarrow> work_job \<Rightarrow> context_error + work_job" where
  "apply_current p_curr j = (case p_curr of
      Some c \<Rightarrow>
        if wj_progress_total j > 0 \<and> c > wj_progress_total j
        then Inl (CurrentAboveTotal c (wj_progress_total j))
        else Inr (j\<lparr>wj_progress_current := max (wj_progress_current j) c\<rparr>)
    | None \<Rightarrow>
        if wj_progress_total j > 0 \<and> wj_progress_current j > wj_progress_total j
        then Inl (CurrentAboveTotal (wj_progress_current j) (wj_progress_total j))
        else Inr j)"

definition apply_message :: "string option \<Rightarrow> work_job \<Rightarrow> work_job" where
  "apply_message m j = (case m of None \<Rightarrow> j | Some s \<Rightarrow> j\<lparr>wj_progress_message := Some s\<rparr>)"

definition apply_progress :: "checkpoint_args \<Rightarrow> work_job \<Rightarrow> context_error + work_job" where
  "apply_progress a j =
     bind_res (apply_total (ca_total a) j) (\<lambda>j1.
     bind_res (apply_current (ca_current a) j1) (\<lambda>j2. Inr (apply_message (ca_message a) j2)))"

definition save_checkpoint :: "json option \<Rightarrow> work_job \<Rightarrow> work_job" where
  "save_checkpoint data j = (case data of None \<Rightarrow> j | Some v \<Rightarrow> j\<lparr>wj_checkpoint_json := Text v\<rparr>)"

definition cancel_at_checkpoint :: "int \<Rightarrow> time \<Rightarrow> work_job \<Rightarrow> db \<Rightarrow> context_error + db" where
  "cancel_at_checkpoint job_id now job d =
     bind_res (if wj_status job = RUNNING
               then bind_res (ctx_transition RUNNING CANCEL_REQUESTED) (\<lambda>_. Inr CANCEL_REQUESTED)
               else Inr (wj_status job)) (\<lambda>st.
     bind_res (ctx_transition st CANCELLED) (\<lambda>_.
       let job' = job\<lparr>wj_status := CANCELLED, wj_finished_at := Some now\<rparr>
       in Inr (log_task_event job_id ''cancelled'' ''warning'' now
            (sync_scan_job_status job' ''cancelled'' None (Some now) (Some ''Cancelled by user'') True now
              (put_job job' d)))))"

definition pause_at_checkpoint ::
  "int \<Rightarrow> time \<Rightarrow> checkpoint_args \<Rightarrow> json option \<Rightarrow> work_job \<Rightarrow> db \<Rightarrow> context_error + db" where
  "pause_at_checkpoint job_id now a data job d =
     bind_res (ctx_transition (wj_status job) PAUSED) (\<lambda>_.
     bind_res (apply_progress a (save_checkpoint data
         (job\<lparr>wj_status := PAUSED, wj_finished_at := None\<rparr>))) (\<lambda>job'.
       Inr (log_task_event job_id ''paused'' ''info'' now (put_job job' d))))"

definition continue_at_checkpoint ::
  "(work_job \<Rightarrow> bool) \<Rightarrow> int \<Rightarrow> time \<Rightarrow> checkpoint_args \<Rightarrow> json option \<Rightarrow> work_job \<Rightarrow> db
   \<Rightarrow> context_error + db" where
  "continue_at_checkpoint log_due job_id now a data job d =
     bind_res (apply_progress a (job\<lparr>wj_heartbeat_at := Some now\<rparr>)) (\<lambda>job1.
       let job' = save_checkpoint data job1; d' = put_job job' d
       in Inr (if wj_progress_total job' > 0 \<and> log_due job'
               then log_task_event job_id ''progress'' ''info'' now d' else d'))"

definition checkpoint ::
  "(work_job \<Rightarrow> bool) \<Rightarrow> string option \<Rightarrow> int \<Rightarrow> time \<Rightarrow> checkpoint_args \<Rightarrow> db
   \<Rightarrow> context_error + (db \<times> checkpoint_result)" where
  "checkpoint log_due worker job_id now a d =
     bind_res (check_args a) (\<lambda>data.
     bind_res (context_fence worker now d) (\<lambda>_.
     case get_job d job_id of
       None \<Rightarrow> Inl JobGone
     | Some job \<Rightarrow>
         if wj_cancel_requested_at job \<noteq> None \<or> wj_status job = CANCEL_REQUESTED then
           bind_res (cancel_at_checkpoint job_id now job d) (\<lambda>d'. Inr (d', Cancelled))
         else if wj_pause_requested_at job \<noteq> None then
           bind_res (pause_at_checkpoint job_id now a data job d) (\<lambda>d'. Inr (d', Paused))
         else
           bind_res (continue_at_checkpoint log_due job_id now a data job d) (\<lambda>d'. Inr (d', Proceed))))"

subsection \<open>Progress\<close>

definition progress_ok :: "work_job \<Rightarrow> bool" where
  "progress_ok j \<longleftrightarrow> 0 \<le> wj_progress_current j \<and> 0 \<le> wj_progress_total j \<and>
     (wj_progress_total j > 0 \<longrightarrow> wj_progress_current j \<le> wj_progress_total j)"

definition same_but_progress :: "work_job \<Rightarrow> work_job \<Rightarrow> bool" where
  "same_but_progress j j' \<longleftrightarrow> wj_id j' = wj_id j \<and> wj_kind j' = wj_kind j \<and> wj_status j' = wj_status j \<and>
     wj_state_json j' = wj_state_json j"

lemma ctx_transition_Inr [simp]: "ctx_transition f t = Inr u \<longleftrightarrow> can_transition f t"
  using validate_transition_Inr [of f t u]
  by (cases "validate_transition f t") (simp_all add: ctx_transition_def del: validate_transition_Inr)

lemma apply_total_Inr:
  assumes "apply_total p j = Inr j'"
  shows "same_but_progress j j' \<and> wj_progress_current j' = wj_progress_current j \<and>
    (progress_ok j \<longrightarrow> \<not> negative p \<longrightarrow> progress_ok j')"
  using assms by (cases p)
    (auto simp: apply_total_def same_but_progress_def progress_ok_def negative_def split: if_splits)

lemma apply_current_Inr:
  assumes "apply_current p j = Inr j'"
  shows "same_but_progress j j' \<and> wj_progress_current j \<le> wj_progress_current j' \<and>
    (progress_ok j \<longrightarrow> \<not> negative p \<longrightarrow> progress_ok j')"
  using assms by (cases p)
    (auto simp: apply_current_def same_but_progress_def progress_ok_def negative_def split: if_splits)

lemma apply_message_frame:
  "same_but_progress j (apply_message m j) \<and> wj_progress_current (apply_message m j) = wj_progress_current j \<and>
   (progress_ok (apply_message m j) \<longleftrightarrow> progress_ok j)"
  by (cases m) (simp_all add: apply_message_def same_but_progress_def progress_ok_def)

lemma apply_progress_ok:
  assumes "apply_progress a j = Inr j'"
  shows "same_but_progress j j' \<and> wj_progress_current j \<le> wj_progress_current j' \<and>
    (progress_ok j \<longrightarrow> \<not> negative (ca_total a) \<longrightarrow> \<not> negative (ca_current a) \<longrightarrow> progress_ok j')"
proof -
  from assms obtain j1 j2 where t: "apply_total (ca_total a) j = Inr j1"
    and c: "apply_current (ca_current a) j1 = Inr j2" and m: "j' = apply_message (ca_message a) j2"
    by (auto simp: apply_progress_def bind_res_Inr)
  show ?thesis
    using apply_total_Inr [OF t] apply_current_Inr [OF c] apply_message_frame [of j2 "ca_message a"]
    by (auto simp: m same_but_progress_def)
qed

lemma save_checkpoint_frame [simp]:
  "wj_id (save_checkpoint c j) = wj_id j" "wj_status (save_checkpoint c j) = wj_status j"
  "wj_kind (save_checkpoint c j) = wj_kind j" "wj_state_json (save_checkpoint c j) = wj_state_json j"
  "wj_progress_current (save_checkpoint c j) = wj_progress_current j"
  "wj_progress_total (save_checkpoint c j) = wj_progress_total j"
  by (simp_all add: save_checkpoint_def split: option.splits)

text \<open>What each result means for the row of the job; every other row is as before.\<close>

definition checkpoint_status :: "string \<Rightarrow> checkpoint_result \<Rightarrow> string \<Rightarrow> bool" where
  "checkpoint_status s r s' \<longleftrightarrow> (case r of
      Proceed \<Rightarrow> s' = s
    | Paused \<Rightarrow> can_transition s PAUSED \<and> s' = PAUSED
    | Cancelled \<Rightarrow> s \<in> {QUEUED, PAUSED, RUNNING, CANCEL_REQUESTED} \<and> s' = CANCELLED)"

lemma check_args_Inr:
  "check_args a = Inr data \<Longrightarrow> \<not> negative (ca_total a) \<and> \<not> negative (ca_current a)"
  by (auto simp: check_args_def split: if_splits)

definition checkpoint_row :: "work_job \<Rightarrow> checkpoint_result \<Rightarrow> work_job \<Rightarrow> db \<Rightarrow> db \<Rightarrow> bool" where
  "checkpoint_row j r j' d d' \<longleftrightarrow> db_jobs d' = tbl_put wj_id j' (db_jobs d) \<and>
    wj_id j' = wj_id j \<and> wj_kind j' = wj_kind j \<and> wj_state_json j' = wj_state_json j \<and>
    checkpoint_status (wj_status j) r (wj_status j') \<and>
    (progress_ok j \<longrightarrow> progress_ok j' \<and> wj_progress_current j \<le> wj_progress_current j')"

lemma cancel_row:
  assumes "cancel_at_checkpoint i now job d = Inr d'"
  shows "\<exists>j'. checkpoint_row job Cancelled j' d d'"
proof -
  let ?j = "job\<lparr>wj_status := CANCELLED, wj_finished_at := Some now\<rparr>"
  have "wj_status job = RUNNING \<or> can_transition (wj_status job) CANCELLED"
    and d': "db_jobs d' = tbl_put wj_id ?j (db_jobs d)"
    using assms by (auto simp: cancel_at_checkpoint_def bind_res_Inr Let_def split: if_splits)
  then have "wj_status job \<in> {QUEUED, PAUSED, RUNNING, CANCEL_REQUESTED}"
    by (auto simp: can_transition_iff)
  with d' have "checkpoint_row job Cancelled ?j d d'"
    by (simp add: checkpoint_row_def checkpoint_status_def progress_ok_def)
  then show ?thesis ..
qed

lemma pause_row:
  assumes "pause_at_checkpoint i now a data job d = Inr d'" "check_args a = Inr data'"
  shows "\<exists>j'. checkpoint_row job Paused j' d d'"
proof -
  let ?j = "save_checkpoint data (job\<lparr>wj_status := PAUSED, wj_finished_at := None\<rparr>)"
  from assms(1) obtain j' where t: "can_transition (wj_status job) PAUSED"
    and pr: "apply_progress a ?j = Inr j'" and d': "db_jobs d' = tbl_put wj_id j' (db_jobs d)"
    by (auto simp: pause_at_checkpoint_def bind_res_Inr)
  have "progress_ok job \<longleftrightarrow> progress_ok ?j" by (simp add: progress_ok_def)
  with apply_progress_ok [OF pr] check_args_Inr [OF assms(2)] t d'
  have "checkpoint_row job Paused j' d d'"
    by (simp add: checkpoint_row_def checkpoint_status_def same_but_progress_def)
  then show ?thesis ..
qed

lemma continue_row:
  assumes "continue_at_checkpoint log_due i now a data job d = Inr d'" "check_args a = Inr data'"
  shows "\<exists>j'. checkpoint_row job Proceed j' d d'"
proof -
  let ?j = "job\<lparr>wj_heartbeat_at := Some now\<rparr>"
  from assms(1) obtain j1 where pr: "apply_progress a ?j = Inr j1"
    and d': "db_jobs d' = tbl_put wj_id (save_checkpoint data j1) (db_jobs d)"
    by (auto simp: continue_at_checkpoint_def bind_res_Inr Let_def split: if_splits)
  have "progress_ok job \<longleftrightarrow> progress_ok ?j" "progress_ok (save_checkpoint data j1) \<longleftrightarrow> progress_ok j1"
    by (simp_all add: progress_ok_def)
  with apply_progress_ok [OF pr] check_args_Inr [OF assms(2)] d'
  have "checkpoint_row job Proceed (save_checkpoint data j1) d d'"
    by (simp add: checkpoint_row_def checkpoint_status_def same_but_progress_def)
  then show ?thesis ..
qed

lemma checkpoint_effect:
  assumes "checkpoint log_due worker i now a d = Inr (d', r)"
  shows "\<exists>j j'. get_job d i = Some j \<and> checkpoint_row j r j' d d'"
proof -
  obtain job where g: "get_job d i = Some job"
    using assms by (cases "get_job d i") (auto simp: checkpoint_def bind_res_Inr)
  from assms obtain data where ca: "check_args a = Inr data"
    and step: "(if wj_cancel_requested_at job \<noteq> None \<or> wj_status job = CANCEL_REQUESTED then
           bind_res (cancel_at_checkpoint i now job d) (\<lambda>d'. Inr (d', Cancelled))
         else if wj_pause_requested_at job \<noteq> None then
           bind_res (pause_at_checkpoint i now a data job d) (\<lambda>d'. Inr (d', Paused))
         else bind_res (continue_at_checkpoint log_due i now a data job d) (\<lambda>d'. Inr (d', Proceed)))
      = Inr (d', r)"
    unfolding checkpoint_def bind_res_Inr g by auto
  then consider "r = Cancelled" "cancel_at_checkpoint i now job d = Inr d'"
    | "r = Paused" "pause_at_checkpoint i now a data job d = Inr d'"
    | "r = Proceed" "continue_at_checkpoint log_due i now a data job d = Inr d'"
    by (simp add: bind_res_Inr split: if_splits)
  then have "\<exists>j'. checkpoint_row job r j' d d'"
    by cases (auto intro: cancel_row pause_row [OF _ ca] continue_row [OF _ ca])
  with g show ?thesis by blast
qed

subsection \<open>Properties\<close>

text \<open>
  C13: Progress never runs backwards and never past its total. For a job whose progress is well formed
  (no negative numbers, and at most the total once a total is known) a checkpoint that does not
  raise leaves it well formed and not smaller, whatever numbers the handler reports; the job keeps
  its kind and payload, and its status changes only to paused or cancelled, and only when the
  checkpoint says so.
\<close>

theorem checkpoint_keeps_progress:
  assumes "checkpoint log_due worker i now a d = Inr (d', r)"
    and "\<forall>j \<in> set (db_jobs d). progress_ok j"
  shows "(\<forall>j \<in> set (db_jobs d'). progress_ok j) \<and>
    (\<exists>j j'. get_job d i = Some j \<and> get_job d' i = Some j' \<and>
       wj_progress_current j \<le> wj_progress_current j' \<and>
       wj_kind j' = wj_kind j \<and> wj_state_json j' = wj_state_json j \<and>
       (r = Proceed \<longrightarrow> wj_status j' = wj_status j) \<and>
       (r = Paused \<longrightarrow> wj_status j' = PAUSED \<and> can_transition (wj_status j) PAUSED) \<and>
       (r = Cancelled \<longrightarrow> wj_status j' = CANCELLED \<and> \<not> is_terminal (wj_status j))) \<and>
    (\<forall>k. k \<noteq> i \<longrightarrow> get_job d' k = get_job d k)"
proof -
  from checkpoint_effect [OF assms(1)] obtain j j' where
    g: "get_job d i = Some j" and row: "checkpoint_row j r j' d d'" by blast
  have ok: "progress_ok j" using g assms(2) jobs.get_row [of "db_jobs d" i j] by (auto simp: get_job_def)
  have id: "wj_id j' = i" using row get_job_id [OF g] by (simp add: checkpoint_row_def)
  have jobs': "db_jobs d' = tbl_put wj_id j' (db_jobs d)" using row by (simp add: checkpoint_row_def)
  have "get_job d' i = Some j'" "\<forall>k. k \<noteq> i \<longrightarrow> get_job d' k = get_job d k"
    using g id by (simp_all add: get_job_def jobs' jobs.get_put)
  moreover have "\<forall>j \<in> set (db_jobs d'). progress_ok j"
    unfolding jobs' using assms(2) row ok by (intro jobs.all_rows_put) (simp_all add: checkpoint_row_def)
  ultimately show ?thesis
    using g row ok by (auto simp: checkpoint_row_def checkpoint_status_def)
qed

definition running_db :: db where
  "running_db = ex_db\<lparr>db_jobs := [ex_plan_job\<lparr>wj_status := RUNNING, wj_cancel_requested_at := None,
     wj_pause_requested_at := Some 8\<rparr>]\<rparr>"

definition step_args :: checkpoint_args where
  "step_args = \<lparr>ca_current = Some 3, ca_total = Some 5, ca_message = None,
     ca_data = Some (JObj [(''schema_version'', JInt 1), (''next'', JInt 3)])\<rparr>"

lemma running_db_pauses:
  "map_sum id snd (checkpoint (\<lambda>_. True) None 5 9 step_args running_db) = Inr Paused"
  by code_simp

theorem checkpoint_keeps_progress_witness:
  "\<exists>d' j'. checkpoint (\<lambda>_. True) None 5 9 step_args running_db = Inr (d', Paused) \<and>
     get_job d' 5 = Some j' \<and> wj_status j' = PAUSED \<and> progress_ok j'"
proof -
  from running_db_pauses obtain d' where c: "checkpoint (\<lambda>_. True) None 5 9 step_args running_db = Inr (d', Paused)"
    by (cases "checkpoint (\<lambda>_. True) None 5 9 step_args running_db") auto
  have ok: "\<forall>j \<in> set (db_jobs running_db). progress_ok j" by code_simp
  from checkpoint_keeps_progress [OF c ok] obtain j' where
    j': "get_job d' 5 = Some j'" "wj_status j' = PAUSED" and all: "\<forall>j \<in> set (db_jobs d'). progress_ok j"
    by auto
  have "j' \<in> set (db_jobs d')" using j'(1) jobs.get_row by (simp add: get_job_def)
  with c j' all show ?thesis by blast
qed

end
