(* ===== verification/WorkerRun.thy ===== *)
theory WorkerRun
  imports JobContext
begin

section \<open>Running a claimed job\<close>

text \<open>
  Models \<open>process_work_job\<close> of app/worker.py: the preflight transaction, the handler, and the
  transaction that settles the job according to how the handler ended. The handler is a function on
  the database that also says which exception it raised, if any; what the others commit while it
  runs is part of that function. Each transaction has its own clock reading.
\<close>

datatype run_exception = PauseRequested | CancelRequested | LeaseGone | ExecError string string

definition lease_held :: "string option \<Rightarrow> time \<Rightarrow> db \<Rightarrow> bool" where
  "lease_held worker now d = lease_ok worker WORKER_LEASE_TIMEOUT now d"

subsection \<open>The text of an incomplete plan\<close>

definition item_problem :: "batch_plan_item \<Rightarrow> string" where
  "item_problem i = ''item #'' @ str_of_int (bi_sequence i) @ '' '' @ bi_operation i @ '': '' @
     text_or (bi_reason i) (bi_state i)"

definition build_incomplete_plan_error_text :: "int \<Rightarrow> string \<Rightarrow> batch_plan_item list \<Rightarrow> string" where
  "build_incomplete_plan_error_text plan_id plan_status items =
     (let failed = filter (\<lambda>i. bi_state i = ''failed'') items;
          problems = take 3 (if failed \<noteq> [] then failed
                             else filter (\<lambda>i. bi_state i \<noteq> ''completed'') items);
          remaining = length (filter (\<lambda>i. bi_state i \<noteq> ''completed'' \<and> bi_state i \<noteq> ''failed'') items);
          parts = [''Batch plan #'' @ str_of_int plan_id @ '' finished with status '' @ plan_status] @
            (if problems \<noteq> [] then map item_problem problems else [''inspect plan items for details'']) @
            (if failed \<noteq> [] \<and> remaining > 0 then
               [str_of_int (int remaining) @ '' remaining '' @ (if remaining = 1 then ''item'' else ''items'') @
                '' were not executed after the fail-closed stop'']
             else [])
      in join_with ''; '' parts)"

definition ordered_items :: "db \<Rightarrow> int \<Rightarrow> batch_plan_item list" where
  "ordered_items d plan_id = sort_key bi_sequence (filter (\<lambda>i. bi_plan_id i = plan_id) (db_items d))"

subsection \<open>Transactions\<close>

definition cancel_work :: "time \<Rightarrow> bool \<Rightarrow> work_job \<Rightarrow> db \<Rightarrow> db" where
  "cancel_work now beat work d =
     (let work' = work\<lparr>wj_status := CANCELLED, wj_finished_at := Some now,
                       wj_error_text := Some ''Cancelled by user'',
                       wj_heartbeat_at := (if beat then Some now else wj_heartbeat_at work)\<rparr>
      in log_task_event (wj_id work) ''cancelled'' ''warning'' now
           (sync_linked work' ''cancelled'' now ''Cancelled by user'' (put_job work' d)))"

definition start_work :: "time \<Rightarrow> work_job \<Rightarrow> db \<Rightarrow> db" where
  "start_work now work d =
     (let w1 = (if wj_status work = QUEUED
                then work\<lparr>wj_status := RUNNING, wj_started_at := or_else (wj_started_at work) (Some now)\<rparr>
                else work);
          w2 = w1\<lparr>wj_heartbeat_at := Some now\<rparr>;
          d1 = sync_scan_job_status w1 ''running'' (wj_started_at w1) None None False now d;
          d2 = fst (sync_batch_plan_status w1 ''running'' d1)
      in log_task_event (wj_id work) ''started'' ''info'' now (put_job w2 d2))"

definition fail_work :: "time \<Rightarrow> string \<Rightarrow> string \<Rightarrow> work_job \<Rightarrow> db \<Rightarrow> db" where
  "fail_work now err code work d =
     (let work' = work\<lparr>wj_status := FAILED, wj_finished_at := Some now, wj_error_text := Some err,
                       wj_error_code := Some code\<rparr>
      in sync_linked work' ''failed'' now err
           (log_task_event (wj_id work) ''failed'' ''error'' now (put_job work' d)))"

definition complete_work :: "time \<Rightarrow> work_job \<Rightarrow> db \<Rightarrow> db" where
  "complete_work now work d =
     (let d1 = sync_scan_job_status work ''completed'' None (Some now) None False now d;
          (d2, linked) = sync_batch_plan_status work ''completed'' d1;
          ended = work\<lparr>wj_finished_at := Some now, wj_heartbeat_at := Some now\<rparr>
      in case linked of
           Some plan \<Rightarrow>
             if bp_status plan \<noteq> ''completed'' then
               log_task_event (wj_id work) ''failed'' ''error'' now
                 (put_job (ended\<lparr>wj_status := FAILED,
                    wj_error_text := Some (build_incomplete_plan_error_text (bp_id plan) (bp_status plan)
                                             (ordered_items d2 (bp_id plan))),
                    wj_error_code := Some ''BATCH_PLAN_NOT_COMPLETED''\<rparr>) d2)
             else log_task_event (wj_id work) ''completed'' ''info'' now
                    (put_job (ended\<lparr>wj_status := COMPLETED, wj_error_text := None, wj_error_code := None\<rparr>) d2)
         | None \<Rightarrow> log_task_event (wj_id work) ''completed'' ''info'' now
                    (put_job (ended\<lparr>wj_status := COMPLETED, wj_error_text := None, wj_error_code := None\<rparr>) d2))"

text \<open>The handler returned.\<close>

definition finish_work :: "string option \<Rightarrow> time \<Rightarrow> int \<Rightarrow> db \<Rightarrow> db \<times> bool" where
  "finish_work worker now i d =
     (if \<not> lease_held worker now d then (d, False)
      else case get_job d i of
          None \<Rightarrow> (d, True)
        | Some work \<Rightarrow>
            if wj_status work = RUNNING then (complete_work now work d, True)
            else if wj_status work = CANCEL_REQUESTED then (cancel_work now True work d, True)
            else (d, True))"

text \<open>The handler raised.\<close>

definition settle_exception :: "string option \<Rightarrow> time \<Rightarrow> int \<Rightarrow> run_exception \<Rightarrow> db \<Rightarrow> db \<times> bool" where
  "settle_exception worker now i e d = (case e of
      PauseRequested \<Rightarrow> (case get_job d i of
          None \<Rightarrow> (d, True)
        | Some work \<Rightarrow> (fst (sync_batch_plan_status work ''paused'' d), True))
    | CancelRequested \<Rightarrow>
        if \<not> lease_held worker now d then (d, False)
        else (case get_job d i of
            None \<Rightarrow> (d, True)
          | Some work \<Rightarrow> (sync_linked work ''cancelled'' now ''Cancelled by user'' d, True))
    | LeaseGone \<Rightarrow> (d, False)
    | ExecError err code \<Rightarrow>
        if \<not> lease_held worker now d then (d, False)
        else (case get_job d i of
            None \<Rightarrow> (d, False)
          | Some work \<Rightarrow>
              if wj_status work = CANCELLED \<or> wj_status work = PAUSED then (d, False)
              else (fail_work now err code work d, False)))"

definition unknown_kind :: "string option \<Rightarrow> time \<Rightarrow> int \<Rightarrow> string \<Rightarrow> db \<Rightarrow> db \<times> bool" where
  "unknown_kind worker now i kind d =
     (if \<not> lease_held worker now d then (d, False)
      else case get_job d i of
          None \<Rightarrow> (d, False)
        | Some work \<Rightarrow>
            (fail_work now (''Unsupported work job kind: '' @ kind) ''UNKNOWN_JOB_TYPE'' work d, False))"

definition process_work_job ::
  "(db \<Rightarrow> db \<times> run_exception option) \<Rightarrow> string option \<Rightarrow> time \<Rightarrow> time \<Rightarrow> int \<Rightarrow> db \<Rightarrow> db \<times> bool" where
  "process_work_job run worker now1 now2 i d =
     (if \<not> lease_held worker now1 d then (d, False)
      else case get_job d i of
          None \<Rightarrow> (d, False)
        | Some work \<Rightarrow>
            if wj_status work = CANCEL_REQUESTED then (cancel_work now1 False work d, True)
            else if is_terminal (wj_status work) \<or> wj_status work = PAUSED then (d, True)
            else
              let d1 = start_work now1 work d
              in if \<not> has_handler (wj_kind work) then unknown_kind worker now2 i (wj_kind work) d1
                 else let (d2, e) = run d1
                      in case e of
                           None \<Rightarrow> finish_work worker now2 i d2
                         | Some x \<Rightarrow> settle_exception worker now2 i x d2)"

subsection \<open>Handlers that meet requests only at checkpoints\<close>

text \<open>
  What the run loop relies on: a handler raises the pause (cancel) exception only with its job
  paused (cancelled), and never deletes its job.
\<close>

locale checkpointed_handler =
  fixes run :: "db \<Rightarrow> db \<times> run_exception option" and i :: int
  assumes pause_is_paused: "run d = (d', Some PauseRequested) \<Longrightarrow> \<exists>j. get_job d' i = Some j \<and> wj_status j = PAUSED"
    and cancel_is_cancelled: "run d = (d', Some CancelRequested) \<Longrightarrow> \<exists>j. get_job d' i = Some j \<and> wj_status j = CANCELLED"
    and keeps_job: "run d = (d', e) \<Longrightarrow> get_job d i \<noteq> None \<Longrightarrow> get_job d' i \<noteq> None"
    and keeps_lock: "run d = (d', e) \<Longrightarrow> db_lock d' = db_lock d"

text \<open>Status of a job after a transaction.\<close>

definition status_of :: "db \<Rightarrow> int \<Rightarrow> string option" where
  "status_of d i = map_option wj_status (get_job d i)"

lemma status_put: "get_job d i = Some w \<Longrightarrow> wj_id w' = i \<Longrightarrow> status_of (put_job w' d) i = Some (wj_status w')"
  by (simp add: status_of_def)

lemma status_frames [simp]:
  "status_of (log_task_event j e l t d) i = status_of d i"
  "status_of (sync_linked w tg n er d) i = status_of d i"
  "status_of (sync_scan_job_status w tg st fi eo c n d) i = status_of d i"
  "status_of (fst (sync_batch_plan_status w tg d)) i = status_of d i"
  by (simp_all add: status_of_def)

lemma cancel_work_status:
  "get_job d i = Some w \<Longrightarrow> status_of (cancel_work now b w d) i = Some CANCELLED"
  using get_job_id [of d i w] by (simp add: cancel_work_def Let_def status_put)

lemma fail_work_status:
  "get_job d i = Some w \<Longrightarrow> status_of (fail_work now er c w d) i = Some FAILED"
  using get_job_id [of d i w] by (simp add: fail_work_def Let_def status_put)

lemma complete_work_row:
  assumes "get_job d i = Some w"
  shows "\<exists>w'. get_job (complete_work now w d) i = Some w' \<and>
    (case snd (sync_batch_plan_status w ''completed'' (sync_scan_job_status w ''completed'' None (Some now) None False now d)) of
       Some plan \<Rightarrow> if bp_status plan = ''completed'' then wj_status w' = COMPLETED
         else wj_status w' = FAILED \<and> wj_error_code w' = Some ''BATCH_PLAN_NOT_COMPLETED''
     | None \<Rightarrow> wj_status w' = COMPLETED)"
proof -
  let ?d1 = "sync_scan_job_status w ''completed'' None (Some now) None False now d"
  obtain d2 linked where s: "sync_batch_plan_status w ''completed'' ?d1 = (d2, linked)" by fastforce
  have g: "get_job d2 i = get_job d i" using get_job_sync(2) [of w "''completed''" ?d1 i] s by simp
  show ?thesis using assms g get_job_id [OF assms]
    by (cases linked) (auto simp: complete_work_def Let_def s)
qed

lemma complete_work_status:
  "get_job d i = Some w \<Longrightarrow> status_of (complete_work now w d) i \<in> {Some COMPLETED, Some FAILED}"
  using complete_work_row [of d i w now] by (auto simp: status_of_def split: option.splits if_splits)

lemma start_work_job:
  assumes "get_job d i = Some w"
  shows "get_job (start_work now w d) i \<noteq> None \<and> db_lock (start_work now w d) = db_lock d"
proof -
  have p: "get_job (put_job w2 d2) i = None \<longleftrightarrow> get_job d2 i = None" for w2 d2 by auto
  show ?thesis using assms unfolding start_work_def Let_def get_job_log p by simp
qed

definition settled :: "string option \<Rightarrow> bool" where
  "settled s \<longleftrightarrow> s \<noteq> Some RUNNING \<and> s \<noteq> Some CANCEL_REQUESTED"

lemma finish_work_settles:
  assumes "lease_held worker now d" "get_job d i = Some w"
  shows "settled (status_of (fst (finish_work worker now i d)) i)"
proof -
  have "status_of d i = Some (wj_status w)" using assms(2) by (simp add: status_of_def)
  then show ?thesis
    using assms cancel_work_status [OF assms(2), of now True] complete_work_status [OF assms(2), of now]
    by (auto simp: finish_work_def settled_def)
qed

lemma settle_exception_settles:
  assumes "lease_held worker now d" "get_job d i = Some w" "x \<noteq> LeaseGone"
    and "x = PauseRequested \<Longrightarrow> wj_status w = PAUSED" "x = CancelRequested \<Longrightarrow> wj_status w = CANCELLED"
  shows "settled (status_of (fst (settle_exception worker now i x d)) i)"
proof -
  have "status_of d i = Some (wj_status w)" using assms(2) by (simp add: status_of_def)
  with assms show ?thesis
    by (cases x) (auto simp: settle_exception_def settled_def fail_work_status)
qed

context checkpointed_handler begin

lemma run_settles:
  assumes "lease_held worker now1 d" "lease_held worker now2 d" "get_job d i = Some w"
    and "process_work_job run worker now1 now2 i d = (d', b)"
    and "snd (run (start_work now1 w d)) \<noteq> Some LeaseGone"
  shows "settled (status_of d' i)"
proof -
  let ?d1 = "start_work now1 w d"
  have d1: "get_job ?d1 i \<noteq> None" "lease_held worker now2 ?d1"
    using start_work_job [OF assms(3)] assms(2) by (auto simp: lease_held_def lease_ok_cong [of ?d1 d])
  obtain d2 e where r: "run ?d1 = (d2, e)" by fastforce
  obtain w2 where w2: "get_job d2 i = Some w2" using keeps_job [OF r d1(1)] by auto
  have l2: "lease_held worker now2 d2" using keeps_lock [OF r] d1(2) by (simp add: lease_held_def lease_ok_cong [of d2 ?d1])
  have fin: "settled (status_of (fst (finish_work worker now2 i d2)) i)" by (rule finish_work_settles [OF l2 w2])
  have exc: "settled (status_of (fst (settle_exception worker now2 i x d2)) i)" if "e = Some x" for x
    using that assms(5) r w2 pause_is_paused cancel_is_cancelled
    by (intro settle_exception_settles [OF l2 w2]) fastforce+
  have unk: "settled (status_of (fst (unknown_kind worker now2 i (wj_kind w) ?d1)) i)"
    using d1 fail_work_status [of ?d1 i] by (auto simp: unknown_kind_def settled_def)
  consider (c) "wj_status w = CANCEL_REQUESTED" | (t) "is_terminal (wj_status w) \<or> wj_status w = PAUSED"
    | (go) "wj_status w \<noteq> CANCEL_REQUESTED" "\<not> (is_terminal (wj_status w) \<or> wj_status w = PAUSED)" by blast
  then show ?thesis
  proof cases
    case c
    with assms(1,3,4) cancel_work_status [OF assms(3), of now1 False] show ?thesis
      by (auto simp: process_work_job_def settled_def)
  next
    case t
    with assms(1,3,4) show ?thesis by (auto simp: process_work_job_def settled_def status_of_def)
  next
    case go
    then have "process_work_job run worker now1 now2 i d =
        (if \<not> has_handler (wj_kind w) then unknown_kind worker now2 i (wj_kind w) ?d1
         else case e of None \<Rightarrow> finish_work worker now2 i d2
           | Some x \<Rightarrow> settle_exception worker now2 i x d2)"
      using assms(1,3) r by (simp add: process_work_job_def Let_def)
    with assms(4) fin exc unk show ?thesis by (cases e; simp split: if_splits; metis fst_conv)
  qed
qed

end

subsection \<open>Handlers as scripts\<close>

text \<open>
  Every handler of the program reaches its job through the context only: a run is a sequence of
  checkpoints, with the requests users make in between, ended by returning or by an error.
\<close>

datatype user_op = UPause | UResume | UCancel

datatype handler_step = Check checkpoint_args time | User user_op int time

definition user_act :: "user_op \<Rightarrow> int \<Rightarrow> time \<Rightarrow> db \<Rightarrow> db" where
  "user_act op i now d =
     (case (case op of UPause \<Rightarrow> pause_task now i d | UResume \<Rightarrow> resume_task now i d
              | UCancel \<Rightarrow> cancel_task now i d) of
        Inl _ \<Rightarrow> d | Inr (d', _) \<Rightarrow> d')"

fun run_script ::
  "(context_error \<Rightarrow> string) \<Rightarrow> (work_job \<Rightarrow> bool) \<Rightarrow> string option \<Rightarrow> int \<Rightarrow> handler_step list \<Rightarrow>
   (string \<times> string) option \<Rightarrow> db \<Rightarrow> db \<times> run_exception option" where
  "run_script errtext log_due worker i [] ending d = (d, map_option (\<lambda>(e, c). ExecError e c) ending)"
| "run_script errtext log_due worker i (Check a now # steps) ending d =
     (case checkpoint log_due worker i now a d of
        Inl e \<Rightarrow> (d, Some (case e of ContextLease _ \<Rightarrow> LeaseGone | _ \<Rightarrow> ExecError (errtext e) ''EXECUTION_ERROR''))
      | Inr (d', r) \<Rightarrow> (case r of
            Proceed \<Rightarrow> run_script errtext log_due worker i steps ending d'
          | Paused \<Rightarrow> (d', Some PauseRequested)
          | Cancelled \<Rightarrow> (d', Some CancelRequested)))"
| "run_script errtext log_due worker i (User op k now # steps) ending d =
     run_script errtext log_due worker i steps ending (user_act op k now d)"

lemma user_act_write:
  "user_act op i now d = d \<or> (\<exists>j r. job_write i j r d (user_act op i now d))"
  by (cases op) (auto simp: user_act_def split: sum.splits dest: pause_effect resume_effect cancel_effect)

lemma user_act_job: "get_job d k \<noteq> None \<Longrightarrow> get_job (user_act op i now d) k \<noteq> None"
  using user_act_write [of op i now d] job_write_get by fastforce

lemma pause_lock: "pause_task now i d = Inr (d', r) \<Longrightarrow> db_lock d' = db_lock d"
  by (auto simp: pause_task_def atomic_Inr bind_res_Inr Let_def simp del: is_terminal_iff split: if_splits)

lemma resume_lock: "resume_task now i d = Inr (d', r) \<Longrightarrow> db_lock d' = db_lock d"
  by (auto simp: resume_task_def atomic_Inr bind_res_Inr Let_def split: if_splits)

lemma cancel_lock: "cancel_task now i d = Inr (d', r) \<Longrightarrow> db_lock d' = db_lock d"
  by (auto simp: cancel_task_def atomic_Inr bind_res_Inr Let_def simp del: is_terminal_iff split: if_splits)

lemma user_act_lock [simp]: "db_lock (user_act op i now d) = db_lock d"
  by (cases op) (auto simp: user_act_def split: sum.splits dest: pause_lock resume_lock cancel_lock)

lemma checkpoint_lock: "checkpoint log_due worker i now a d = Inr (d', r) \<Longrightarrow> db_lock d' = db_lock d"
  by (cases "get_job d i")
    (auto simp: checkpoint_def cancel_at_checkpoint_def pause_at_checkpoint_def continue_at_checkpoint_def
      bind_res_Inr Let_def split: if_splits)

lemma checkpoint_job:
  assumes "checkpoint log_due worker i now a d = Inr (d', r)"
  shows "\<exists>j. get_job d' i = Some j \<and> (r = Paused \<longrightarrow> wj_status j = PAUSED) \<and> (r = Cancelled \<longrightarrow> wj_status j = CANCELLED)"
proof -
  from checkpoint_effect [OF assms] obtain j j' where g: "get_job d i = Some j" and row: "checkpoint_row j r j' d d'"
    by blast
  then have "get_job d' i = Some j'"
    using get_job_id [OF g] by (simp add: checkpoint_row_def get_job_def jobs.get_put)
  with row show ?thesis by (auto simp: checkpoint_row_def checkpoint_status_def)
qed

lemma run_script_ok:
  assumes "run_script errtext log_due worker i steps ending d = (d', e)"
  shows "(e = Some PauseRequested \<longrightarrow> (\<exists>j. get_job d' i = Some j \<and> wj_status j = PAUSED)) \<and>
    (e = Some CancelRequested \<longrightarrow> (\<exists>j. get_job d' i = Some j \<and> wj_status j = CANCELLED)) \<and>
    (get_job d i \<noteq> None \<longrightarrow> get_job d' i \<noteq> None) \<and> db_lock d' = db_lock d"
  using assms
proof (induction steps arbitrary: d)
  case Nil
  then show ?case by auto
next
  case (Cons s steps)
  show ?case
  proof (cases s)
    case (Check a now)
    show ?thesis
    proof (cases "checkpoint log_due worker i now a d")
      case (Inl er)
      with Cons.prems Check show ?thesis by (auto split: context_error.splits)
    next
      case (Inr out)
      obtain d1 r where o: "checkpoint log_due worker i now a d = Inr (d1, r)" using Inr by (cases out) auto
      show ?thesis
        using Cons.prems Check o checkpoint_job [OF o] checkpoint_lock [OF o] Cons.IH [of d1]
        by (cases r) auto
    qed
  next
    case (User op k now)
    with Cons.prems Cons.IH [of "user_act op k now d"] user_act_job [of d i op k now] show ?thesis by simp
  qed
qed

interpretation script: checkpointed_handler "run_script errtext log_due worker i steps ending" i
  for errtext log_due worker i steps ending
  by unfold_locales (use run_script_ok in blast)+

subsection \<open>Properties\<close>

text \<open>
  C14: A job that was run is never left behind. Whatever a handler reports at its checkpoints, whatever
  users request meanwhile and however the handler ends, when the worker held its lease throughout,
  the job is not running and not waiting for its cancellation after \<open>process_work_job\<close>: it is
  terminal, or paused or queued to be resumed.
\<close>

theorem processed_job_is_settled:
  assumes "lease_held worker now1 d" "lease_held worker now2 d" "get_job d i = Some w"
    and "process_work_job (run_script errtext log_due worker i steps ending) worker now1 now2 i d = (d', b)"
    and "snd (run_script errtext log_due worker i steps ending (start_work now1 w d)) \<noteq> Some LeaseGone"
  shows "settled (status_of d' i)"
  using assms by (rule script.run_settles)

theorem processed_job_is_settled_witness:
  "settled (status_of (fst (process_work_job
     (run_script (\<lambda>_. []) (\<lambda>_. True) None 5 [User UPause 5 8, Check step_args 9] None) None 5 9 5
     (ex_db\<lparr>db_jobs := [ex_plan_job\<lparr>wj_status := QUEUED, wj_cancel_requested_at := None\<rparr>]\<rparr>))) 5)"
proof -
  let ?d = "ex_db\<lparr>db_jobs := [ex_plan_job\<lparr>wj_status := QUEUED, wj_cancel_requested_at := None\<rparr>]\<rparr>"
  let ?w = "ex_plan_job\<lparr>wj_status := QUEUED, wj_cancel_requested_at := None\<rparr>"
  let ?run = "run_script (\<lambda>_. []) (\<lambda>_. True) None 5 [User UPause 5 8, Check step_args 9] None"
  have l: "lease_held None n ?d" for n by (simp add: lease_held_def lease_ok_def)
  have g: "get_job ?d 5 = Some ?w" by (simp add: get_job_def tbl_get_def ex_plan_job_def)
  have "snd (?run (start_work 5 ?w ?d)) = Some PauseRequested" by code_simp
  then have x: "snd (?run (start_work 5 ?w ?d)) \<noteq> Some LeaseGone" by simp
  obtain d' b where p: "process_work_job ?run None 5 9 5 ?d = (d', b)" by fastforce
  from processed_job_is_settled [OF l l g p x] p show ?thesis by simp
qed

text \<open>
  A clean return is believed only as far as the plan confirms it. When the handler of a running
  job returns, the job becomes completed exactly when every item of its linked plan is completed
  (or it has no plan); otherwise it fails with \<open>BATCH_PLAN_NOT_COMPLETED\<close>.
\<close>

theorem finish_completes_only_finished_plans:
  assumes "finish_work worker now i d = (d', True)" "get_job d i = Some w" "wj_status w = RUNNING"
  shows "\<exists>w'. get_job d' i = Some w' \<and>
    (wj_status w' = COMPLETED \<longleftrightarrow> (\<forall>p. linked_plan d w = Some p \<longrightarrow> all_completed (plan_item_states d p))) \<and>
    (wj_status w' \<noteq> COMPLETED \<longrightarrow> wj_status w' = FAILED \<and> wj_error_code w' = Some ''BATCH_PLAN_NOT_COMPLETED'')"
proof -
  have d': "d' = complete_work now w d"
    using assms by (auto simp: finish_work_def split: if_splits)
  let ?d1 = "sync_scan_job_status w ''completed'' None (Some now) None False now d"
  have lp: "linked_plan ?d1 w = linked_plan d w" by (simp add: linked_plan_def split: option.splits)
  have st: "plan_item_states ?d1 p = plan_item_states d p" for p by (simp add: plan_item_states_def)
  have ends: "ended_plan_status ''completed'' ss = ''completed'' \<longleftrightarrow> all_completed ss" for ss
    by (auto simp: ended_plan_status_def all_completed_def list_all_iff list_ex_iff)
  have "snd (sync_batch_plan_status w ''completed'' ?d1) =
      map_option (\<lambda>p. p\<lparr>bp_status := ended_plan_status ''completed'' (plan_item_states d p)\<rparr>) (linked_plan d w)"
    by (simp add: sync_batch_plan_status_def lp st synced_plan_def split: option.splits)
  with complete_work_row [OF assms(2), of now] show ?thesis
    by (cases "linked_plan d w") (auto simp: d' ends split: if_splits)
qed

theorem finish_completes_only_finished_plans_witness:
  "\<exists>w'. get_job (fst (finish_work None 9 5 (ex_db\<lparr>db_jobs := [ex_plan_job\<lparr>wj_status := RUNNING\<rparr>]\<rparr>))) 5 = Some w' \<and>
     wj_status w' = COMPLETED"
proof -
  let ?d = "ex_db\<lparr>db_jobs := [ex_plan_job\<lparr>wj_status := RUNNING\<rparr>]\<rparr>"
  let ?w = "ex_plan_job\<lparr>wj_status := RUNNING\<rparr>"
  have g: "get_job ?d 5 = Some ?w" by (simp add: get_job_def tbl_get_def ex_plan_job_def)
  have "snd (finish_work None 9 5 ?d)"
    using g by (simp add: finish_work_def lease_held_def lease_ok_def)
  then obtain d' where f: "finish_work None 9 5 ?d = (d', True)" by (metis prod.collapse)
  have lp: "map_option bp_id (linked_plan ?d ?w) = Some 9" by code_simp
  have "plan_item_states ?d p = [''completed'']" if "bp_id p = 9" for p
    using that by (simp add: plan_item_states_def ex_db_def)
  with lp have "\<forall>p. linked_plan ?d ?w = Some p \<longrightarrow> all_completed (plan_item_states ?d p)"
    by (auto simp: all_completed_def)
  with finish_completes_only_finished_plans [OF f g] f show ?thesis by auto
qed

end
