(* ===== verification/ResourceControl.thy ===== *)
theory ResourceControl
  imports Records
begin

section \<open>Resource policy\<close>

text \<open>
  Models app/resource_control.py: validation of a policy snapshot, its evaluation at an instant
  (the profile, whether resource-controlled jobs are admitted, the thread cap), and the thread
  ceilings of a fclones run. The timezone database is a parameter: \<open>zone_known\<close> says which names
  \<open>zoneinfo.ZoneInfo\<close> accepts and \<open>local_clock\<close> gives the local time of day, in microseconds since
  midnight, of an instant in a zone.
\<close>

datatype policy_error = BadScanThreads int | BadHashThreads int | BadIoLimit string
  | BadPriority string | BadOutsideMode string | WindowIncomplete | WindowEmpty
  | BadTime string | BadTimezone string

record effective_policy =
  ep_profile :: string
  ep_inside_active_window :: "bool option"
  ep_resource_jobs_admitted :: bool
  ep_effective_thread_cap :: int
  ep_revision :: int

definition resource_policy_row_fingerprint ::
  "resource_policy option \<Rightarrow> (int \<times> int \<times> int \<times> string \<times> string \<times> bool \<times> string option \<times>
     string option \<times> string option \<times> string) option" where
  "resource_policy_row_fingerprint row = (case row of
      None \<Rightarrow> None
    | Some r \<Rightarrow> Some (rp_revision r, rp_scan_threads r, rp_hash_threads r, rp_io_limit r,
        rp_job_priority r, rp_active_window_enabled r, rp_active_window_start r,
        rp_active_window_end r, rp_active_window_timezone r, rp_outside_window_mode r))"

definition resolve_timezone :: "(string \<Rightarrow> bool) \<Rightarrow> string \<Rightarrow> policy_error + string" where
  "resolve_timezone zone_known name =
     (if py_strip name = [] \<or> \<not> zone_known name then Inl (BadTimezone name) else Inr name)"

text \<open>\<open>^([01]\d|2[0-3]):([0-5]\d)$\<close>; the dollar also matches before one final newline.\<close>

definition time_re :: "string \<Rightarrow> (int \<times> int) option" where
  "time_re s = (case s of
      h1 # h2 # c # m1 # m2 # rest \<Rightarrow>
        if c = CHR '':'' \<and> (rest = [] \<or> rest = [CHR 0x0A]) \<and>
           is_digit h2 \<and> is_digit m2 \<and> CHR ''0'' \<le> m1 \<and> m1 \<le> CHR ''5'' \<and>
           (h1 = CHR ''0'' \<or> h1 = CHR ''1'' \<or> h1 = CHR ''2'' \<and> h2 \<le> CHR ''3'')
        then Some (10 * digit_val h1 + digit_val h2, 10 * digit_val m1 + digit_val m2)
        else None
    | _ \<Rightarrow> None)"

definition parse_time :: "string \<Rightarrow> policy_error + int" where
  "parse_time s = (case time_re s of
      None \<Rightarrow> Inl (BadTime s)
    | Some (h, m) \<Rightarrow> Inr ((h * 60 + m) * 60000000))"

definition given :: "string option \<Rightarrow> bool" where
  "given s = (case s of None \<Rightarrow> False | Some t \<Rightarrow> t \<noteq> [])"

definition when_given :: "('a \<Rightarrow> 'e + 'b) \<Rightarrow> 'a option \<Rightarrow> 'e + unit" where
  "when_given f s = (case s of None \<Rightarrow> Inr () | Some t \<Rightarrow> bind_res (f t) (\<lambda>_. Inr ()))"

definition validate_resource_policy_snapshot ::
  "(string \<Rightarrow> bool) \<Rightarrow> resource_policy \<Rightarrow> policy_error + unit" where
  "validate_resource_policy_snapshot zone_known s =
     bind_res (ensure (1 \<le> rp_scan_threads s \<and> rp_scan_threads s \<le> 32)
       (BadScanThreads (rp_scan_threads s))) (\<lambda>_.
     bind_res (ensure (1 \<le> rp_hash_threads s \<and> rp_hash_threads s \<le> 32)
       (BadHashThreads (rp_hash_threads s))) (\<lambda>_.
     bind_res (ensure (rp_io_limit s \<in> {''low'', ''normal'', ''unlimited''})
       (BadIoLimit (rp_io_limit s))) (\<lambda>_.
     bind_res (ensure (rp_job_priority s \<in> {''normal'', ''background''})
       (BadPriority (rp_job_priority s))) (\<lambda>_.
     bind_res (ensure (rp_outside_window_mode s \<in> {''limited'', ''pause''})
       (BadOutsideMode (rp_outside_window_mode s))) (\<lambda>_.
     if rp_active_window_enabled s then
       bind_res (ensure (given (rp_active_window_start s) \<and> given (rp_active_window_end s) \<and>
         given (rp_active_window_timezone s)) WindowIncomplete) (\<lambda>_.
       bind_res (parse_time (the (rp_active_window_start s))) (\<lambda>t_start.
       bind_res (parse_time (the (rp_active_window_end s))) (\<lambda>t_end.
       bind_res (ensure (t_start \<noteq> t_end) WindowEmpty) (\<lambda>_.
       bind_res (resolve_timezone zone_known (the (rp_active_window_timezone s))) (\<lambda>_. Inr ())))))
     else
       bind_res (when_given parse_time (rp_active_window_start s)) (\<lambda>_.
       bind_res (when_given parse_time (rp_active_window_end s)) (\<lambda>_.
       when_given (resolve_timezone zone_known) (rp_active_window_timezone s))))))))"

definition io_cap :: "string \<Rightarrow> int" where
  "io_cap io_limit = (if io_limit = ''low'' then 1 else if io_limit = ''normal'' then 2
     else if io_limit = ''unlimited'' then 32 else 2)"

definition text_or_default :: "string option \<Rightarrow> string \<Rightarrow> string" where
  "text_or_default s dflt = (if given s then the s else dflt)"

definition inside_window :: "int \<Rightarrow> int \<Rightarrow> int \<Rightarrow> bool" where
  "inside_window t_start t_end cur =
     (if t_start < t_end then t_start \<le> cur \<and> cur < t_end else t_start \<le> cur \<or> cur < t_end)"

definition evaluate_resource_policy ::
  "(string \<Rightarrow> bool) \<Rightarrow> (string \<Rightarrow> time \<Rightarrow> int) \<Rightarrow> resource_policy \<Rightarrow> time \<Rightarrow> string option
   \<Rightarrow> policy_error + effective_policy" where
  "evaluate_resource_policy zone_known local_clock s now resolved =
     (let normal_cap = min (min (rp_scan_threads s) (rp_hash_threads s)) (io_cap (rp_io_limit s));
          full = (\<lambda>inside. \<lparr>ep_profile = ''full'', ep_inside_active_window = inside,
                     ep_resource_jobs_admitted = True, ep_effective_thread_cap = normal_cap,
                     ep_revision = rp_revision s\<rparr>)
      in if \<not> rp_active_window_enabled s then Inr (full None)
         else
           bind_res (case resolved of Some z \<Rightarrow> Inr z
             | None \<Rightarrow> resolve_timezone zone_known
                         (text_or_default (rp_active_window_timezone s) ''UTC'')) (\<lambda>tz.
           bind_res (parse_time (text_or_default (rp_active_window_start s) ''00:00'')) (\<lambda>t_start.
           bind_res (parse_time (text_or_default (rp_active_window_end s) ''00:00'')) (\<lambda>t_end.
           Inr (if inside_window t_start t_end (local_clock tz now) then full (Some True)
                else \<lparr>ep_profile = if rp_outside_window_mode s = ''limited'' then ''limited'' else ''pause'',
                      ep_inside_active_window = Some False,
                      ep_resource_jobs_admitted = (rp_outside_window_mode s = ''limited''),
                      ep_effective_thread_cap = min normal_cap 1,
                      ep_revision = rp_revision s\<rparr>)))))"

text \<open>A thread ceiling comes from a JSON payload or the configuration.\<close>

datatype ceiling_error = CeilingBoolean | CeilingNotPositive | CeilingInvalid string | CeilingType

definition parse_positive_thread_ceiling :: "json \<Rightarrow> ceiling_error + int option" where
  "parse_positive_thread_ceiling v = (case v of
      JNull \<Rightarrow> Inr None
    | JBool _ \<Rightarrow> Inl CeilingBoolean
    | JInt n \<Rightarrow> if n \<le> 0 then Inl CeilingNotPositive else Inr (Some n)
    | JStr s \<Rightarrow> (case int_of_text s of
          None \<Rightarrow> Inl (CeilingInvalid s)
        | Some n \<Rightarrow> if n \<le> 0 then Inl CeilingNotPositive else Inr (Some n))
    | _ \<Rightarrow> Inl CeilingType)"

definition compose_fclones_thread_cap :: "int \<Rightarrow> json \<Rightarrow> json \<Rightarrow> ceiling_error + int" where
  "compose_fclones_thread_cap policy_cap legacy requested =
     bind_res (parse_positive_thread_ceiling legacy) (\<lambda>l.
     bind_res (parse_positive_thread_ceiling requested) (\<lambda>t.
     Inr (fold min (case l of None \<Rightarrow> [] | Some n \<Rightarrow> [n])
       (fold min (case t of None \<Rightarrow> [] | Some n \<Rightarrow> [n]) policy_cap))))"

definition is_resource_controlled_job :: "string \<Rightarrow> bool" where
  "is_resource_controlled_job kind = (kind \<in> {''index-root'', ''fclones-scan''})"

subsection \<open>Evaluation of valid policies\<close>

abbreviation day :: int where "day \<equiv> 86400000000"

lemma char_le_int: "c \<le> d \<longleftrightarrow> (of_char c :: int) \<le> of_char d"
proof -
  have "(of_char x :: int) = int (of_char x)" for x :: char
    by (cases x) simp
  then show ?thesis by (simp add: less_eq_char_def)
qed

lemma is_digit_val: "is_digit c \<longleftrightarrow> 0 \<le> digit_val c \<and> digit_val c \<le> 9"
  by (auto simp: is_digit_def digit_val_def char_le_int)

lemma digit_val_le: "c \<le> CHR ''3'' \<longleftrightarrow> digit_val c \<le> 3" "c \<le> CHR ''5'' \<longleftrightarrow> digit_val c \<le> 5"
    "CHR ''0'' \<le> c \<longleftrightarrow> 0 \<le> digit_val c"
  by (auto simp: digit_val_def char_le_int)

lemma time_re_bounds:
  assumes "time_re s = Some (h, m)"
  shows "0 \<le> h \<and> h \<le> 23 \<and> 0 \<le> m \<and> m \<le> 59"
proof -
  have dv: "digit_val CHR ''0'' = 0" "digit_val CHR ''1'' = 1" "digit_val CHR ''2'' = 2"
    by (simp_all add: digit_val_def)
  show ?thesis
    using assms unfolding time_re_def is_digit_val digit_val_le
    by (auto split: list.splits if_splits simp: dv)
qed

lemma parse_time_bounds: "parse_time s = Inr t \<Longrightarrow> 0 \<le> t \<and> t < day"
  by (auto simp: parse_time_def split: option.splits dest!: time_re_bounds)

lemmas validate_simps = validate_resource_policy_snapshot_def bind_res_Inr

lemma valid_thresholds:
  assumes "validate_resource_policy_snapshot zk s = Inr ()"
  shows "1 \<le> rp_scan_threads s \<and> rp_scan_threads s \<le> 32 \<and> 1 \<le> rp_hash_threads s \<and>
    rp_hash_threads s \<le> 32 \<and> rp_outside_window_mode s \<in> {''limited'', ''pause''}"
  using assms by (auto simp: validate_simps split: if_splits)

lemma valid_window:
  assumes "validate_resource_policy_snapshot zk s = Inr ()" "rp_active_window_enabled s"
  obtains ws we tz t_start t_end where
    "rp_active_window_start s = Some ws" "rp_active_window_end s = Some we"
    "rp_active_window_timezone s = Some tz" "ws \<noteq> []" "we \<noteq> []" "tz \<noteq> []"
    "parse_time ws = Inr t_start" "parse_time we = Inr t_end" "t_start \<noteq> t_end"
    "resolve_timezone zk tz = Inr tz"
proof -
  from assms have g: "given (rp_active_window_start s)" "given (rp_active_window_end s)"
    "given (rp_active_window_timezone s)"
    by (auto simp: validate_simps split: if_splits)
  then obtain ws we tz where
    sm: "rp_active_window_start s = Some ws" "rp_active_window_end s = Some we"
      "rp_active_window_timezone s = Some tz" "ws \<noteq> []" "we \<noteq> []" "tz \<noteq> []"
    by (auto simp: given_def split: option.splits)
  from assms sm obtain t_start t_end u where
    "parse_time ws = Inr t_start" "parse_time we = Inr t_end" "t_start \<noteq> t_end"
    "resolve_timezone zk tz = Inr u"
    by (auto simp: validate_simps split: if_splits)
  with sm that show thesis by (auto simp: resolve_timezone_def split: if_splits)
qed

lemma io_cap_bounds: "1 \<le> io_cap l \<and> io_cap l \<le> 32"
  by (simp add: io_cap_def)

text \<open>A window that wraps past midnight is the same circular interval as one that does not.\<close>

lemma inside_window_circular:
  assumes "0 \<le> t_start" "t_start < day" "0 \<le> t_end" "t_end < day" "t_start \<noteq> t_end"
    and "0 \<le> cur" "cur < day"
  shows "inside_window t_start t_end cur \<longleftrightarrow> (cur - t_start) mod day < (t_end - t_start) mod day"
proof -
  have m: "(x - y) mod day = (if y \<le> x then x - y else x - y + day)"
    if "0 \<le> x" "x < day" "0 \<le> y" "y < day" for x y
  proof (cases "y \<le> x")
    case False
    then have "(x - y) mod day = (x - y + day) mod day" by simp
    also have "\<dots> = x - y + day" using that False by (intro mod_pos_pos_trivial) auto
    finally show ?thesis using False by simp
  qed (use that in auto)
  show ?thesis using assms by (auto simp: m inside_window_def)
qed

definition window_admits :: "resource_policy \<Rightarrow> int \<Rightarrow> bool" where
  "window_admits s cur \<longleftrightarrow>
     (\<exists>t_start t_end. parse_time (the (rp_active_window_start s)) = Inr t_start \<and>
        parse_time (the (rp_active_window_end s)) = Inr t_end \<and>
        (cur - t_start) mod day < (t_end - t_start) mod day)"

text \<open>
  C8: A policy that passes validation evaluates without an error at every instant, and the result is
  fail-safe: the thread cap is between 1 and both configured thread counts, it is 1 outside the
  active window, and resource-controlled jobs are refused exactly when the window is on, the
  local time is outside the circular interval from its start to its end (windows over midnight
  included), and the mode outside the window is pause.
\<close>

theorem valid_policy_evaluates:
  assumes v: "validate_resource_policy_snapshot zone_known s = Inr ()"
    and clock: "\<forall>z t. 0 \<le> local_clock z t \<and> local_clock z t < day"
    and z: "resolved \<in> {None, rp_active_window_timezone s}"
  shows "\<exists>e. evaluate_resource_policy zone_known local_clock s now resolved = Inr e \<and>
     1 \<le> ep_effective_thread_cap e \<and> ep_effective_thread_cap e \<le> rp_scan_threads s \<and>
     ep_effective_thread_cap e \<le> rp_hash_threads s \<and> ep_revision e = rp_revision s \<and>
     (ep_profile e \<noteq> ''full'' \<longrightarrow> ep_effective_thread_cap e = 1) \<and>
     (\<not> ep_resource_jobs_admitted e \<longleftrightarrow>
        rp_active_window_enabled s \<and> rp_outside_window_mode s = ''pause'' \<and>
        \<not> window_admits s (local_clock (the (rp_active_window_timezone s)) now))"
proof (cases "rp_active_window_enabled s")
  case False
  with valid_thresholds [OF v] io_cap_bounds [of "rp_io_limit s"] show ?thesis
    by (auto simp: evaluate_resource_policy_def Let_def)
next
  case True
  from valid_window [OF v True] obtain ws we tz t_start t_end where
    w: "rp_active_window_start s = Some ws" "rp_active_window_end s = Some we"
      "rp_active_window_timezone s = Some tz" "ws \<noteq> []" "we \<noteq> []" "tz \<noteq> []"
      "parse_time ws = Inr t_start" "parse_time we = Inr t_end" "t_start \<noteq> t_end"
      "resolve_timezone zone_known tz = Inr tz" by blast
  have "inside_window t_start t_end (local_clock tz now) = window_admits s (local_clock tz now)"
    using inside_window_circular [of t_start t_end "local_clock tz now"] w
      parse_time_bounds [OF w(7)] parse_time_bounds [OF w(8)] clock
    by (simp add: window_admits_def)
  moreover have "(case resolved of Some z \<Rightarrow> Inr z
      | None \<Rightarrow> resolve_timezone zone_known (text_or_default (rp_active_window_timezone s) ''UTC'')) = Inr tz"
    using z w by (auto simp: text_or_default_def given_def)
  ultimately show ?thesis
    using True w valid_thresholds [OF v] io_cap_bounds [of "rp_io_limit s"]
    by (auto simp: evaluate_resource_policy_def Let_def text_or_default_def given_def)
qed

definition night_policy :: resource_policy where
  "night_policy = \<lparr>rp_scan_threads = 4, rp_hash_threads = 2, rp_io_limit = ''unlimited'',
     rp_job_priority = ''normal'', rp_active_window_enabled = True,
     rp_active_window_start = Some ''22:00'', rp_active_window_end = Some ''06:00'',
     rp_active_window_timezone = Some ''UTC'', rp_outside_window_mode = ''pause'',
     rp_revision = 3\<rparr>"

lemma night_policy_valid: "validate_resource_policy_snapshot (\<lambda>z. z = ''UTC'') night_policy = Inr ()"
  by code_simp

lemma night_policy_hours: "parse_time ''22:00'' = Inr 79200000000" "parse_time ''06:00'' = Inr 21600000000"
  by code_simp+

theorem valid_policy_evaluates_witness:
  "\<exists>e. evaluate_resource_policy (\<lambda>z. z = ''UTC'') (\<lambda>z t. t mod day) night_policy 43200000000 None = Inr e \<and>
       \<not> ep_resource_jobs_admitted e \<and> ep_effective_thread_cap e \<le> 2"
  using valid_policy_evaluates [OF night_policy_valid, of "\<lambda>z t. t mod day" None 43200000000]
  by (auto simp: night_policy_def window_admits_def night_policy_hours)

text \<open>
  C9: The thread count of a fclones run never exceeds the policy's cap nor either ceiling given, is
  at least one, and equals one of the three; a ceiling that is a boolean, not positive or not a
  number is an error, not a default.
\<close>

theorem fclones_thread_cap_bounds:
  assumes "compose_fclones_thread_cap cap legacy requested = Inr n" "1 \<le> cap"
  shows "1 \<le> n \<and> n \<le> cap \<and>
    (\<forall>v \<in> {legacy, requested}. v = JNull \<or> (\<exists>m. int_of_json v = Some m \<and> 1 \<le> m \<and> n \<le> m \<and> (\<forall>b. v \<noteq> JBool b))) \<and>
    (n = cap \<or> int_of_json legacy = Some n \<or> int_of_json requested = Some n)"
proof -
  have p: "v = JNull \<and> r = None \<or> (\<exists>m. r = Some m \<and> int_of_json v = Some m \<and> 1 \<le> m \<and> (\<forall>b. v \<noteq> JBool b))"
    if "parse_positive_thread_ceiling v = Inr r" for v r
    using that
    by (cases v) (auto simp: parse_positive_thread_ceiling_def int_of_json_def split: option.splits if_splits)
  from assms(1) obtain l t where lt: "parse_positive_thread_ceiling legacy = Inr l"
    "parse_positive_thread_ceiling requested = Inr t"
    and n: "n = fold min (case l of None \<Rightarrow> [] | Some n \<Rightarrow> [n])
       (fold min (case t of None \<Rightarrow> [] | Some n \<Rightarrow> [n]) cap)"
    by (auto simp: compose_fclones_thread_cap_def bind_res_Inr)
  show ?thesis using p [OF lt(1)] p [OF lt(2)] n assms(2)
    by (auto simp: min_def split: if_splits)
qed

theorem fclones_thread_cap_bounds_witness:
  "compose_fclones_thread_cap 8 (JStr ''4'') (JInt 6) = Inr 4 \<and> (4::int) \<le> 8"
proof -
  have e: "compose_fclones_thread_cap 8 (JStr ''4'') (JInt 6) = Inr 4" by code_simp
  show ?thesis using fclones_thread_cap_bounds [OF e] e by simp
qed

end
