(* ===== verification/ClaimJob.thy ===== *)
theory ClaimJob
  imports JobState WorkerLease ResourceControl
begin

section \<open>Claiming the next job\<close>

text \<open>
  Models \<open>claim_next_job\<close> of app/tasks/recovery.py. The policy is read in one transaction and the
  job claimed in another, so other clients may write in between: an attempt is given by the policy
  row the first transaction read, the database the second one starts from, and its clock. Three
  attempts are made, then a fallback that leaves resource-controlled jobs alone.
\<close>

definition RESOURCE_CONTROLLED_JOB_KINDS :: "string list" where
  "RESOURCE_CONTROLLED_JOB_KINDS =
     [''index-root'', ''fclones-scan'', ''workflow-scheduled'', ''download-verify-webdav'']"

datatype claim_error = ClaimLease lease_lost | ClaimPolicy policy_error

definition lease_fence :: "db \<Rightarrow> string \<Rightarrow> time \<Rightarrow> time \<Rightarrow> claim_error + unit" where
  "lease_fence d w now timeout =
     (case assert_active_worker_lease d w now timeout of Inl e \<Rightarrow> Inl (ClaimLease e) | Inr _ \<Rightarrow> Inr ())"

text \<open>Phase A: the snapshot, when the row exists and is valid.\<close>

definition read_policy :: "(string \<Rightarrow> bool) \<Rightarrow> resource_policy option \<Rightarrow> resource_policy option" where
  "read_policy zk row = (case row of
      None \<Rightarrow> None
    | Some s \<Rightarrow> (case validate_resource_policy_snapshot zk s of Inl _ \<Rightarrow> None | Inr _ \<Rightarrow> Some s))"

definition prepared_timezone :: "resource_policy \<Rightarrow> string option" where
  "prepared_timezone s =
     (if rp_active_window_enabled s \<and> given (rp_active_window_timezone s)
      then rp_active_window_timezone s else None)"

text \<open>Phase B: which jobs the policy admits, and in which order.\<close>

definition admission :: "(string \<Rightarrow> bool) \<Rightarrow> (string \<Rightarrow> time \<Rightarrow> int) \<Rightarrow> resource_policy option \<Rightarrow> time
   \<Rightarrow> claim_error + (bool \<times> string)" where
  "admission zk clock snapshot now = (case snapshot of
      None \<Rightarrow> Inr (False, ''normal'')
    | Some s \<Rightarrow> (case evaluate_resource_policy zk clock s now (prepared_timezone s) of
          Inl e \<Rightarrow> Inl (ClaimPolicy e)
        | Inr e \<Rightarrow> Inr (ep_resource_jobs_admitted e, rp_job_priority s)))"

definition first_queued :: "(string \<Rightarrow> bool) \<Rightarrow> db \<Rightarrow> int option" where
  "first_queued kinds d =
     map_option wj_id (min_by wj_id (filter (\<lambda>j. wj_status j = QUEUED \<and> kinds (wj_kind j)) (db_jobs d)))"

definition controlled :: "string \<Rightarrow> bool" where
  "controlled k = (k \<in> set RESOURCE_CONTROLLED_JOB_KINDS)"

definition claim_candidate :: "bool \<Rightarrow> string \<Rightarrow> db \<Rightarrow> int option" where
  "claim_candidate admitted job_priority d =
     (if \<not> admitted then first_queued (\<lambda>k. \<not> controlled k) d
      else if job_priority = ''background'' then
        (case first_queued (\<lambda>k. \<not> controlled k) d of
           Some i \<Rightarrow> Some i
         | None \<Rightarrow> first_queued controlled d)
      else first_queued (\<lambda>_. True) d)"

definition claimed :: "time \<Rightarrow> work_job \<Rightarrow> work_job" where
  "claimed now j = j\<lparr>wj_status := RUNNING, wj_started_at := Some now, wj_heartbeat_at := Some now,
                     wj_error_code := None, wj_error_text := None\<rparr>"

text \<open>The guarded UPDATE, its row count, and the identifier returned when it hit one row.\<close>

definition claim_update :: "time \<Rightarrow> int option \<Rightarrow> db \<Rightarrow> db \<times> int option" where
  "claim_update now candidate d = (case candidate of
      None \<Rightarrow> (d, None)
    | Some i \<Rightarrow>
        let hit = (\<lambda>j. wj_id j = i \<and> wj_status j = QUEUED)
        in (d\<lparr>db_jobs := map (\<lambda>j. if hit j then claimed now j else j) (db_jobs d)\<rparr>,
            if length (filter hit (db_jobs d)) = 1 then Some i else None))"

text \<open>One attempt: \<open>Inr None\<close> when the policy changed between the two transactions.\<close>

definition claim_attempt ::
  "(string \<Rightarrow> bool) \<Rightarrow> (string \<Rightarrow> time \<Rightarrow> int) \<Rightarrow> string \<Rightarrow> time \<Rightarrow>
   resource_policy option \<times> db \<times> time \<Rightarrow> claim_error + (db \<times> int option) option" where
  "claim_attempt zk clock w timeout att = (case att of (row, d, now) \<Rightarrow>
     bind_res (lease_fence d w now timeout) (\<lambda>_.
     if resource_policy_row_fingerprint (db_policy d) \<noteq> resource_policy_row_fingerprint row
     then Inr None
     else bind_res (admission zk clock (read_policy zk row) now) (\<lambda>(admitted, prio).
            Inr (Some (claim_update now (claim_candidate admitted prio d) d)))))"

definition claim_fallback :: "string \<Rightarrow> time \<Rightarrow> db \<times> time \<Rightarrow> claim_error + db \<times> int option" where
  "claim_fallback w timeout att = (case att of (d, now) \<Rightarrow>
     bind_res (lease_fence d w now timeout) (\<lambda>_.
     Inr (claim_update now (first_queued (\<lambda>k. \<not> controlled k) d) d)))"

fun claim_next_job ::
  "(string \<Rightarrow> bool) \<Rightarrow> (string \<Rightarrow> time \<Rightarrow> int) \<Rightarrow> string \<Rightarrow> time \<Rightarrow>
   (resource_policy option \<times> db \<times> time) list \<Rightarrow> db \<times> time \<Rightarrow> claim_error + db \<times> int option" where
  "claim_next_job zk clock w timeout [] final = claim_fallback w timeout final"
| "claim_next_job zk clock w timeout (att # atts) final =
     bind_res (claim_attempt zk clock w timeout att) (\<lambda>r. case r of
         None \<Rightarrow> claim_next_job zk clock w timeout atts final
       | Some out \<Rightarrow> Inr out)"

subsection \<open>What a claim does\<close>

lemma fingerprint_eq: "resource_policy_row_fingerprint r = resource_policy_row_fingerprint r' \<longleftrightarrow> r = r'"
  by (cases r; cases r'; cases "the r"; cases "the r'")
    (auto simp: resource_policy_row_fingerprint_def)

lemma lease_fence_Inr: "lease_fence d w now timeout = Inr u \<longleftrightarrow>
    (\<exists>lock. assert_active_worker_lease d w now timeout = Inr lock)"
  by (auto simp: lease_fence_def split: sum.splits)

lemma first_queued_Some:
  assumes "first_queued P d = Some i"
  shows "(\<exists>j \<in> set (db_jobs d). wj_id j = i \<and> wj_status j = QUEUED \<and> P (wj_kind j)) \<and>
    (\<forall>j \<in> set (db_jobs d). wj_status j = QUEUED \<and> P (wj_kind j) \<longrightarrow> i \<le> wj_id j)"
  using assms by (fastforce simp: first_queued_def dest: min_by_mem min_by_le)

lemma first_queued_None:
  "first_queued P d = None \<longleftrightarrow> (\<forall>j \<in> set (db_jobs d). \<not> (wj_status j = QUEUED \<and> P (wj_kind j)))"
  by (auto simp: first_queued_def filter_empty_conv)

text \<open>A queued job is eligible when the policy admits its kind; background runs other kinds first.\<close>

definition eligible :: "bool \<Rightarrow> work_job \<Rightarrow> bool" where
  "eligible admitted j \<longleftrightarrow> wj_status j = QUEUED \<and> (admitted \<or> \<not> controlled (wj_kind j))"

definition claim_before :: "string \<Rightarrow> work_job \<Rightarrow> work_job \<Rightarrow> bool" where
  "claim_before prio j j' \<longleftrightarrow>
     (if prio = ''background'' \<and> controlled (wj_kind j) \<noteq> controlled (wj_kind j')
      then controlled (wj_kind j') else wj_id j \<le> wj_id j')"

lemma claim_candidate_Some:
  assumes "claim_candidate adm prio d = Some i"
  shows "\<exists>j \<in> set (db_jobs d). wj_id j = i \<and> eligible adm j \<and>
           (\<forall>j' \<in> set (db_jobs d). eligible adm j' \<longrightarrow> claim_before (if adm then prio else ''normal'') j j')"
  using assms
  by (auto simp: claim_candidate_def eligible_def claim_before_def first_queued_None
      split: if_splits option.splits dest!: first_queued_Some)

lemma claim_candidate_None:
  "claim_candidate adm prio d = None \<longleftrightarrow> (\<forall>j \<in> set (db_jobs d). \<not> eligible adm j)"
  by (auto simp: claim_candidate_def eligible_def first_queued_None split: option.splits
      dest: first_queued_Some)

lemma claim_update_Some:
  assumes "claim_update now c d = (d', Some i)"
  shows "c = Some i \<and> db_jobs d' = map (\<lambda>j. if wj_id j = i \<and> wj_status j = QUEUED then claimed now j else j) (db_jobs d) \<and>
    db_events d' = db_events d \<and> db_policy d' = db_policy d \<and> db_lock d' = db_lock d"
  using assms by (auto simp: claim_update_def Let_def split: option.splits if_splits)

lemma claim_update_hit:
  assumes "distinct (map wj_id (db_jobs d))" "j \<in> set (db_jobs d)" "wj_id j = i" "wj_status j = QUEUED"
  shows "snd (claim_update now (Some i) d) = Some i"
proof -
  have "filter (\<lambda>x. wj_id x = i \<and> wj_status x = QUEUED) (db_jobs d) = [j]" if "distinct (map wj_id js)" "js = db_jobs d" for js
    using assms that
  proof -
    have "j \<in> set js \<Longrightarrow> distinct (map wj_id js) \<Longrightarrow>
        filter (\<lambda>x. wj_id x = wj_id j \<and> wj_status x = wj_status j) js = [j]" for js
      by (induction js) (auto simp: filter_empty_conv image_iff)
    from this [of js] assms that show ?thesis by simp
  qed
  from this [OF assms(1) refl] show ?thesis by (simp add: claim_update_def)
qed

definition admits_controlled ::
  "(string \<Rightarrow> bool) \<Rightarrow> (string \<Rightarrow> time \<Rightarrow> int) \<Rightarrow> db \<Rightarrow> time \<Rightarrow> bool" where
  "admits_controlled zk clock d now \<longleftrightarrow>
     (\<exists>s e. db_policy d = Some s \<and> validate_resource_policy_snapshot zk s = Inr () \<and>
        evaluate_resource_policy zk clock s now (prepared_timezone s) = Inr e \<and> ep_resource_jobs_admitted e)"

lemma admission_current:
  assumes "admission zk clock (read_policy zk (db_policy d)) now = Inr (adm, prio)"
  shows "(adm \<longleftrightarrow> admits_controlled zk clock d now) \<and> (adm \<longrightarrow> prio = rp_job_priority (the (db_policy d)))"
  using assms
  by (auto simp: admission_def read_policy_def admits_controlled_def split: option.splits sum.splits)

text \<open>Each way a transaction of the claim can end.\<close>

lemma claim_attempt_cases:
  assumes "claim_attempt zk clock w timeout (row, d, now) = Inr (Some out)"
  obtains adm prio where "\<exists>lock. assert_active_worker_lease d w now timeout = Inr lock"
    "adm \<longleftrightarrow> admits_controlled zk clock d now"
    "adm \<longrightarrow> prio = rp_job_priority (the (db_policy d))"
    "out = claim_update now (claim_candidate adm prio d) d"
proof -
  from assms obtain adm prio where row: "row = db_policy d"
    and h: "\<exists>lock. assert_active_worker_lease d w now timeout = Inr lock"
    and a: "admission zk clock (read_policy zk (db_policy d)) now = Inr (adm, prio)"
    and o: "out = claim_update now (claim_candidate adm prio d) d"
    by (auto simp: claim_attempt_def bind_res_Inr lease_fence_Inr fingerprint_eq split: if_splits)
  show thesis using admission_current [OF a] h o by (intro that [of adm prio]) auto
qed

lemma claim_next_cases:
  assumes "claim_next_job zk clock w timeout atts final = Inr out"
  obtains (attempt) row d now where "(row, d, now) \<in> set atts"
      "claim_attempt zk clock w timeout (row, d, now) = Inr (Some out)"
  | (fallback) "claim_fallback w timeout final = Inr out"
  using assms
proof (induction atts arbitrary: thesis)
  case (Cons att atts)
  obtain row d now where a: "att = (row, d, now)" by (cases att)
  from Cons.prems(3) obtain r where r: "claim_attempt zk clock w timeout att = Inr r"
    by (auto simp: bind_res_Inr)
  show ?case
  proof (cases r)
    case None
    with Cons.prems r have n: "claim_next_job zk clock w timeout atts final = Inr out" by simp
    show ?thesis
    proof (rule Cons.IH [OF _ _ n])
      fix row d now
      assume "(row, d, now) \<in> set atts" "claim_attempt zk clock w timeout (row, d, now) = Inr (Some out)"
      then show thesis by (intro Cons.prems(1) [of row d now]) auto
    qed (rule Cons.prems(2))
  next
    case (Some o')
    with Cons.prems r a show ?thesis by (intro Cons.prems(1)) auto
  qed
qed simp

lemma claim_fallback_is_candidate:
  "claim_fallback w timeout (d, now) = Inr out \<longleftrightarrow>
     (\<exists>lock. assert_active_worker_lease d w now timeout = Inr lock) \<and>
     out = claim_update now (claim_candidate False ''normal'' d) d"
  by (auto simp: claim_fallback_def bind_res_Inr lease_fence_Inr claim_candidate_def)

text \<open>Every completed call is one transaction, on a database where the worker holds its lease.\<close>

lemma claim_next_transaction:
  assumes "claim_next_job zk clock w timeout atts final = Inr out"
  obtains d now adm prio where "(d, now) \<in> snd ` set atts \<union> {final}"
    "\<exists>lock. assert_active_worker_lease d w now timeout = Inr lock"
    "adm \<longrightarrow> admits_controlled zk clock d now"
    "(d, now) \<noteq> final \<longrightarrow> (adm \<longleftrightarrow> admits_controlled zk clock d now)"
    "adm \<longrightarrow> prio = rp_job_priority (the (db_policy d))"
    "out = claim_update now (claim_candidate adm prio d) d"
  using assms
proof (cases rule: claim_next_cases)
  case (attempt row d now)
  from claim_attempt_cases [OF attempt(2)] obtain adm prio where
    "\<exists>lock. assert_active_worker_lease d w now timeout = Inr lock"
    "adm \<longleftrightarrow> admits_controlled zk clock d now"
    "adm \<longrightarrow> prio = rp_job_priority (the (db_policy d))"
    "out = claim_update now (claim_candidate adm prio d) d" by blast
  with attempt(1) show ?thesis by (intro that [of d now adm prio]) force+
next
  case fallback
  obtain d now where "final = (d, now)" by (cases final)
  with fallback show ?thesis
    by (intro that [of d now False "''normal''"]) (auto simp: claim_fallback_is_candidate)
qed

subsection \<open>Properties\<close>

text \<open>
  C7: A claim that returns a job happened in one transaction in which the worker held its lease. It
  took a queued job and moved that job alone to running, with its error cleared and its start and
  heartbeat set. A resource-controlled job is taken only when the policy then in the database was
  valid and admitted it at that instant, however the policy changed before; and no eligible job
  comes before the one taken, in the order of ids or, for a background policy, ordinary kinds first.
\<close>

theorem claim_takes_first_admitted:
  assumes "claim_next_job zk clock w timeout atts final = Inr (d', Some i)"
  shows "\<exists>d now adm. (d, now) \<in> snd ` set atts \<union> {final} \<and>
    (\<exists>lock. assert_active_worker_lease d w now timeout = Inr lock) \<and>
    (adm \<longrightarrow> admits_controlled zk clock d now) \<and>
    ((d, now) \<noteq> final \<longrightarrow> (adm \<longleftrightarrow> admits_controlled zk clock d now)) \<and>
    (\<exists>j \<in> set (db_jobs d). wj_id j = i \<and> wj_status j = QUEUED \<and>
       (controlled (wj_kind j) \<longrightarrow> admits_controlled zk clock d now) \<and>
       (\<forall>j' \<in> set (db_jobs d). eligible adm j' \<longrightarrow>
          claim_before (if adm then rp_job_priority (the (db_policy d)) else ''normal'') j j')) \<and>
    db_jobs d' = map (\<lambda>j. if wj_id j = i \<and> wj_status j = QUEUED then claimed now j else j) (db_jobs d)"
proof -
  from claim_next_transaction [OF assms] obtain d now adm prio where
    m: "(d, now) \<in> snd ` set atts \<union> {final}"
      "\<exists>lock. assert_active_worker_lease d w now timeout = Inr lock"
      "adm \<longrightarrow> admits_controlled zk clock d now"
      "(d, now) \<noteq> final \<longrightarrow> (adm \<longleftrightarrow> admits_controlled zk clock d now)"
      "adm \<longrightarrow> prio = rp_job_priority (the (db_policy d))" and
    o: "claim_update now (claim_candidate adm prio d) d = (d', Some i)" by (metis (no_types, lifting))
  from claim_update_Some [OF o] have c: "claim_candidate adm prio d = Some i" by simp
  have p: "(if adm then rp_job_priority (the (db_policy d)) else ''normal'') = (if adm then prio else ''normal'')"
    using m(5) by simp
  from claim_candidate_Some [OF c] obtain j where
    "j \<in> set (db_jobs d)" "wj_id j = i" "eligible adm j"
    "\<forall>j' \<in> set (db_jobs d). eligible adm j' \<longrightarrow>
       claim_before (if adm then prio else ''normal'') j j'" by blast
  moreover from this(3) m(3) have "wj_status j = QUEUED" "controlled (wj_kind j) \<longrightarrow> admits_controlled zk clock d now"
    by (auto simp: eligible_def)
  moreover have "db_jobs d' = map (\<lambda>j. if wj_id j = i \<and> wj_status j = QUEUED then claimed now j else j) (db_jobs d)"
    using claim_update_Some [OF o] by simp
  ultimately show ?thesis using m(1,2,3,4) p by (intro exI [of _ d] exI [of _ now] exI [of _ adm]) auto
qed

definition claim_db :: db where
  "claim_db = (fst (acquire_worker_ownership ''w1'' 100 30 empty_db))
     \<lparr>db_policy := Some night_policy,
      db_jobs := [(new_job empty_db ''index-root'' QUEUED NoText 1),
                  (new_job empty_db ''media-analysis'' QUEUED NoText 2)\<lparr>wj_id := 2\<rparr>]\<rparr>"

lemma claim_db_claims:
  "map_sum id snd (claim_next_job (\<lambda>z. z = ''UTC'') (\<lambda>z t. t mod day) ''w1'' 30
     [(Some (night_policy\<lparr>rp_revision := 2\<rparr>), claim_db, 100)] (claim_db, 110)) = Inr (Some 2)"
  by code_simp

theorem claim_takes_first_admitted_witness:
  "\<exists>d now. \<exists>j \<in> set (db_jobs d). wj_id j = 2 \<and> wj_status j = QUEUED \<and>
     (controlled (wj_kind j) \<longrightarrow> admits_controlled (\<lambda>z. z = ''UTC'') (\<lambda>z t. t mod day) d now)"
proof -
  from claim_db_claims obtain d' where
    "claim_next_job (\<lambda>z. z = ''UTC'') (\<lambda>z t. t mod day) ''w1'' 30
     [(Some (night_policy\<lparr>rp_revision := 2\<rparr>), claim_db, 100)] (claim_db, 110) = Inr (d', Some 2)"
    by (cases "claim_next_job (\<lambda>z. z = ''UTC'') (\<lambda>z t. t mod day) ''w1'' 30
     [(Some (night_policy\<lparr>rp_revision := 2\<rparr>), claim_db, 100)] (claim_db, 110)") auto
  from claim_takes_first_admitted [OF this] show ?thesis by blast
qed

text \<open>
  A claim that returns nothing changes nothing and missed nothing. With distinct ids, the
  transaction it ended with saw no queued job outside the resource-controlled kinds, and unless it
  was the fallback for an unstable policy, no queued job the policy admitted either.
\<close>

theorem claim_none_is_idle:
  assumes "claim_next_job zk clock w timeout atts final = Inr (d', None)"
    and "\<forall>(d, now) \<in> snd ` set atts \<union> {final}. distinct (map wj_id (db_jobs d))"
  shows "\<exists>now. (d', now) \<in> snd ` set atts \<union> {final} \<and>
    (\<forall>j \<in> set (db_jobs d'). wj_status j = QUEUED \<longrightarrow> controlled (wj_kind j) \<and>
       ((d', now) \<noteq> final \<longrightarrow> \<not> admits_controlled zk clock d' now))"
proof -
  from claim_next_transaction [OF assms(1)] obtain d now adm prio where
    m: "(d, now) \<in> snd ` set atts \<union> {final}"
      "(d, now) \<noteq> final \<longrightarrow> (adm \<longleftrightarrow> admits_controlled zk clock d now)" and
    o: "claim_update now (claim_candidate adm prio d) d = (d', None)" by (metis (no_types, lifting))
  have c: "claim_candidate adm prio d = None"
  proof (cases "claim_candidate adm prio d")
    case (Some i)
    from claim_candidate_Some [OF Some] obtain j where
      j: "j \<in> set (db_jobs d)" "wj_id j = i" "wj_status j = QUEUED" by (auto simp: eligible_def)
    have "distinct (map wj_id (db_jobs d))" using assms(2) m(1) by fastforce
    from claim_update_hit [OF this j, of now] Some o show ?thesis by simp
  qed
  with o have "d' = d" by (simp add: claim_update_def)
  with m c show ?thesis by (auto simp: claim_candidate_None eligible_def)
qed

lemma claim_none_example:
  "claim_next_job (\<lambda>z. z = ''UTC'') (\<lambda>z t. 43200000000) ''w1'' 30
     [(Some night_policy, claim_db\<lparr>db_jobs := [new_job empty_db ''index-root'' QUEUED NoText 1]\<rparr>, 100)]
     (claim_db, 110)
   = Inr (claim_db\<lparr>db_jobs := [new_job empty_db ''index-root'' QUEUED NoText 1]\<rparr>, None)"
  by code_simp

theorem claim_none_is_idle_witness:
  "\<exists>now. \<not> admits_controlled (\<lambda>z. z = ''UTC'') (\<lambda>z t. 43200000000)
     (claim_db\<lparr>db_jobs := [new_job empty_db ''index-root'' QUEUED NoText 1]\<rparr>) now"
proof -
  let ?d = "claim_db\<lparr>db_jobs := [new_job empty_db ''index-root'' QUEUED NoText 1]\<rparr>"
  have "length (db_jobs ?d) \<noteq> length (db_jobs claim_db)" by code_simp
  then have "?d \<noteq> claim_db" by metis
  moreover have "distinct (map wj_id (db_jobs claim_db))" "distinct (map wj_id (db_jobs ?d))" by code_simp+
  ultimately show ?thesis using claim_none_is_idle [OF claim_none_example]
    by (auto simp: new_job_def)
qed

end
