(* ===== verification/JobLifecycle.thy ===== *)
theory JobLifecycle
  imports WorkerRun ClaimJob
begin

section \<open>The life of jobs across all transactions\<close>

text \<open>
  Every transaction of the task components as one step relation on the database: claims, starts,
  checkpoints, the ends of a run, the requests of users, retries, recovery, plan repair, and the
  deletion of history. The invariant says what holds in every database they can reach.
\<close>

inductive job_tx :: "db \<Rightarrow> db \<Rightarrow> bool" where
  tx_claim: "claim_update now (claim_candidate adm prio d) d = (d', r) \<Longrightarrow> job_tx d d'"
| tx_start: "get_job d i = Some w \<Longrightarrow> wj_status w = QUEUED \<or> wj_status w = RUNNING \<Longrightarrow>
    job_tx d (start_work now w d)"
| tx_checkpoint: "checkpoint log_due worker i now a d = Inr (d', r) \<Longrightarrow> job_tx d d'"
| tx_finish: "finish_work worker now i d = (d', b) \<Longrightarrow> job_tx d d'"
| tx_raise: "settle_exception worker now i x d = (d', b) \<Longrightarrow>
    (\<forall>w. get_job d i = Some w \<longrightarrow> \<not> is_terminal (wj_status w) \<or> x = CancelRequested) \<Longrightarrow> job_tx d d'"
| tx_user: "job_tx d (user_act op i now d)"
| tx_retry: "retry_task now i user d = Inr (d', r) \<Longrightarrow> job_tx d d'"
| tx_recover: "recover_job now i (d, st) = (d', st') \<Longrightarrow> job_tx d d'"
| tx_repair: "repair_plan now pid d = (d', b) \<Longrightarrow> job_tx d d'"

inductive sys_step :: "db \<Rightarrow> db \<Rightarrow> bool" where
  sys_tx: "job_tx d d' \<Longrightarrow> sys_step d d'"
| sys_delete: "delete_task i d = Inr (d', r) \<Longrightarrow> sys_step d d'"
| sys_clear: "clear_task_history ss d = Inr (d', n) \<Longrightarrow> sys_step d d'"

inductive_cases job_txE: "job_tx d d'"
inductive_cases sys_stepE: "sys_step d d'"

subsection \<open>How rows evolve\<close>

definition known_states :: "string list" where
  "known_states = [QUEUED, RUNNING, PAUSED, CANCEL_REQUESTED, CANCELLED, FAILED, COMPLETED]"

definition row_evolves :: "work_job \<Rightarrow> work_job \<Rightarrow> bool" where
  "row_evolves j j' \<longleftrightarrow> wj_id j' = wj_id j \<and> wj_kind j' = wj_kind j \<and> wj_state_json j' = wj_state_json j \<and>
     (is_terminal (wj_status j) \<longrightarrow> wj_status j' = wj_status j) \<and>
     (wj_status j \<in> set known_states \<longrightarrow> wj_status j' \<in> set known_states)"

lemma row_evolves_refl [simp]: "row_evolves j j"
  by (simp add: row_evolves_def)

definition plan_ref_ok :: "work_job \<Rightarrow> bool" where
  "plan_ref_ok j \<longleftrightarrow> wj_kind j = ''batch-plan-execute'' \<longrightarrow>
     (\<exists>kvs n. wj_state_json j = Text (JObj kvs) \<and> map_of kvs ''plan_id'' = Some (JInt n))"

definition jobs_wf :: "db \<Rightarrow> bool" where
  "jobs_wf d \<longleftrightarrow> distinct (map wj_id (db_jobs d)) \<and>
     (\<forall>j \<in> set (db_jobs d). wj_status j \<in> set known_states \<and> plan_ref_ok j) \<and>
     (\<forall>pid. length (filter (execution_job pid active_statuses) (db_jobs d)) \<le> 1)"

text \<open>A row of an active execution was one before it evolved.\<close>

lemma active_backwards:
  assumes "row_evolves j j'" "wj_status j \<in> set known_states" "execution_job pid active_statuses j'"
  shows "execution_job pid active_statuses j"
proof -
  have "\<not> is_terminal (wj_status j')"
    using assms(3) by (auto simp: execution_job_def active_statuses_def)
  then have "\<not> is_terminal (wj_status j)"
    using assms(1) by (auto simp only: row_evolves_def)
  with assms show ?thesis
    by (auto simp: execution_job_def row_evolves_def active_statuses_def known_states_def)
qed

lemma filter_length_mono:
  "list_all2 R xs ys \<Longrightarrow> (\<And>x y. x \<in> set xs \<Longrightarrow> R x y \<Longrightarrow> Q y \<Longrightarrow> P x) \<Longrightarrow>
     length (filter Q ys) \<le> length (filter P xs)"
proof (induction rule: list_all2_induct)
  case (Cons x xs y ys)
  have "length (filter Q ys) \<le> length (filter P xs)" using Cons.IH Cons.prems by simp
  with Cons.hyps(1) Cons.prems [of x y] show ?case by auto
qed simp

lemma evolves_wf:
  assumes "jobs_wf d" "list_all2 row_evolves (db_jobs d) (db_jobs d')"
  shows "jobs_wf d'"
proof -
  have ids: "map wj_id (db_jobs d') = map wj_id (db_jobs d)"
    using assms(2) by (induction rule: list_all2_induct) (auto simp: row_evolves_def)
  have rows: "wj_status y \<in> set known_states \<and> plan_ref_ok y" if mem: "y \<in> set (db_jobs d')" for y
  proof -
    obtain k where k: "k < length (db_jobs d')" "db_jobs d' ! k = y"
      using mem by (auto simp: in_set_conv_nth)
    then have "db_jobs d ! k \<in> set (db_jobs d)" "row_evolves (db_jobs d ! k) y"
      using assms(2) by (auto simp: list_all2_conv_all_nth)
    with assms(1) show ?thesis by (auto simp: jobs_wf_def row_evolves_def plan_ref_ok_def)
  qed
  have "length (filter (execution_job pid active_statuses) (db_jobs d')) \<le> 1" for pid
  proof -
    have "length (filter (execution_job pid active_statuses) (db_jobs d'))
        \<le> length (filter (execution_job pid active_statuses) (db_jobs d))"
      using assms(1) by (intro filter_length_mono [OF assms(2)]) (auto simp: jobs_wf_def intro: active_backwards)
    also have "\<dots> \<le> 1" using assms(1) by (simp add: jobs_wf_def)
    finally show ?thesis .
  qed
  then show ?thesis using assms(1) ids rows by (simp add: jobs_wf_def)
qed

lemma list_all2_map_evolves:
  "(\<And>j. j \<in> set js \<Longrightarrow> row_evolves j (f j)) \<Longrightarrow> list_all2 row_evolves js (map f js)"
  by (simp add: list_all2_conv_all_nth)

lemma put_evolves:
  assumes "jobs_wf d" "get_job d i = Some j" "row_evolves j r"
  shows "list_all2 row_evolves (db_jobs d) (tbl_put wj_id r (db_jobs d))"
proof -
  have dist: "distinct (map wj_id (db_jobs d))" using assms(1) by (simp add: jobs_wf_def)
  have "wj_id r = i" using assms(2,3) get_job_id by (simp add: row_evolves_def)
  then have "tbl_put wj_id r (db_jobs d) = map (\<lambda>x. if wj_id x = i then r else x) (db_jobs d)"
    by (simp add: tbl_put_def)
  moreover have "x = j" if "x \<in> set (db_jobs d)" "wj_id x = i" for x
    using tbl_get_mem [OF dist that(1)] assms(2) that(2) by (simp add: get_job_def)
  ultimately show ?thesis using assms(3) by (auto intro!: list_all2_map_evolves)
qed

lemma status_evolves:
  assumes "wj_id r = wj_id j" "wj_kind r = wj_kind j" "wj_state_json r = wj_state_json j"
    and "\<not> is_terminal (wj_status j)" "wj_status r \<in> set known_states"
  shows "row_evolves j r"
  using assms by (simp add: row_evolves_def)

subsection \<open>Every transaction evolves the rows\<close>

lemmas state_sets = known_states_def can_transition_iff

lemma known_after: "can_transition s t \<Longrightarrow> t \<in> set known_states"
  by (auto simp: state_sets)

lemma claim_evolves:
  "list_all2 row_evolves (db_jobs d) (db_jobs (fst (claim_update now c d)))"
proof -
  have q: "row_evolves j (claimed now j)" if "wj_status j = QUEUED" for j
    using that by (intro status_evolves) (simp_all add: claimed_def known_states_def)
  show ?thesis
    by (cases c) (auto simp: claim_update_def Let_def list.rel_refl q intro!: list_all2_map_evolves)
qed

lemma write_evolves:
  "jobs_wf d \<Longrightarrow> job_write i j r d d' \<Longrightarrow> list_all2 row_evolves (db_jobs d) (db_jobs d')"
proof -
  assume a: "jobs_wf d" "job_write i j r d d'"
  from a(2) have u: "row_evolves j r"
    using known_after by (auto simp: job_write_def user_update_def row_evolves_def)
  from a(2) show ?thesis unfolding job_write_def
    by (elim conjE disjE) (auto simp: list.rel_refl put_evolves [OF a(1) _ u])
qed

lemma user_evolves:
  "jobs_wf d \<Longrightarrow> list_all2 row_evolves (db_jobs d) (db_jobs (user_act op i now d))"
  using user_act_write [of op i now d] write_evolves by (fastforce simp: list.rel_refl)

lemma start_evolves:
  assumes "jobs_wf d" "get_job d i = Some w" "wj_status w = QUEUED \<or> wj_status w = RUNNING"
  shows "list_all2 row_evolves (db_jobs d) (db_jobs (start_work now w d))"
proof -
  let ?w1 = "if wj_status w = QUEUED
     then w\<lparr>wj_status := RUNNING, wj_started_at := or_else (wj_started_at w) (Some now)\<rparr> else w"
  have "row_evolves w (?w1\<lparr>wj_heartbeat_at := Some now\<rparr>)"
    using assms(3) by (auto simp: row_evolves_def known_states_def)
  moreover have "db_jobs (start_work now w d) = tbl_put wj_id (?w1\<lparr>wj_heartbeat_at := Some now\<rparr>) (db_jobs d)"
    by (simp only: start_work_def Let_def log_task_event_frame put_job_frame sync_plan_frame sync_scan_frame)
  ultimately show ?thesis using put_evolves [OF assms(1,2)] by simp
qed

lemma checkpoint_evolves:
  assumes "jobs_wf d" "checkpoint log_due worker i now a d = Inr (d', r)"
  shows "list_all2 row_evolves (db_jobs d) (db_jobs d')"
proof -
  from checkpoint_effect [OF assms(2)] obtain j j' where g: "get_job d i = Some j" and row: "checkpoint_row j r j' d d'"
    by blast
  then have "row_evolves j j'"
    by (cases r) (auto simp: row_evolves_def checkpoint_row_def checkpoint_status_def state_sets)
  with put_evolves [OF assms(1) g] row show ?thesis by (simp add: checkpoint_row_def)
qed

lemma cancel_work_evolves:
  assumes "jobs_wf d" "get_job d i = Some w" "\<not> is_terminal (wj_status w)"
  shows "list_all2 row_evolves (db_jobs d) (db_jobs (cancel_work now b w d))"
proof -
  have "row_evolves w (w\<lparr>wj_status := CANCELLED, wj_finished_at := Some now, wj_error_text := Some ''Cancelled by user'',
              wj_heartbeat_at := (if b then Some now else wj_heartbeat_at w)\<rparr>)"
    using assms(3) by (intro status_evolves) (simp_all add: known_states_def)
  with put_evolves [OF assms(1,2) this] show ?thesis by (simp add: cancel_work_def Let_def)
qed

lemma fail_work_evolves:
  assumes "jobs_wf d" "get_job d i = Some w" "\<not> is_terminal (wj_status w)"
  shows "list_all2 row_evolves (db_jobs d) (db_jobs (fail_work now e c w d))"
proof -
  have "row_evolves w (w\<lparr>wj_status := FAILED, wj_finished_at := Some now, wj_error_text := Some e, wj_error_code := Some c\<rparr>)"
    using assms(3) by (intro status_evolves) (simp_all add: known_states_def)
  with put_evolves [OF assms(1,2) this] show ?thesis by (simp add: fail_work_def Let_def)
qed

lemma complete_work_evolves:
  assumes "jobs_wf d" "get_job d i = Some w" "wj_status w = RUNNING"
  shows "list_all2 row_evolves (db_jobs d) (db_jobs (complete_work now w d))"
proof -
  let ?d1 = "sync_scan_job_status w ''completed'' None (Some now) None False now d"
  obtain d2 linked where s: "sync_batch_plan_status w ''completed'' ?d1 = (d2, linked)" by fastforce
  have d2: "db_jobs d2 = db_jobs d" using sync_plan_frame(1) [of w "''completed''" ?d1] s by simp
  have put: "list_all2 row_evolves (db_jobs d) (tbl_put wj_id r (db_jobs d))"
    if "wj_id r = wj_id w" "wj_kind r = wj_kind w" "wj_state_json r = wj_state_json w"
      "wj_status r = FAILED \<or> wj_status r = COMPLETED" for r
    using that assms(3)
    by (intro put_evolves [OF assms(1,2)]) (auto simp: known_states_def row_evolves_def)
  show ?thesis by (cases linked) (auto simp: complete_work_def Let_def s d2 put)
qed

lemma finish_evolves:
  assumes "jobs_wf d"
  shows "list_all2 row_evolves (db_jobs d) (db_jobs (fst (finish_work worker now i d)))"
  using complete_work_evolves [OF assms] cancel_work_evolves [OF assms]
  by (auto simp: finish_work_def list.rel_refl split: option.splits)

lemma raise_evolves:
  assumes "jobs_wf d" "\<forall>w. get_job d i = Some w \<longrightarrow> \<not> is_terminal (wj_status w) \<or> x = CancelRequested"
  shows "list_all2 row_evolves (db_jobs d) (db_jobs (fst (settle_exception worker now i x d)))"
  using fail_work_evolves [OF assms(1)] assms(2)
  by (cases x) (auto simp: settle_exception_def list.rel_refl simp del: is_terminal_iff split: option.splits)

lemma recover_evolves:
  assumes "jobs_wf d"
  shows "list_all2 row_evolves (db_jobs d) (db_jobs (fst (recover_job now i (d, st))))"
proof -
  have "row_evolves j (recovered now j)" for j
    by (auto simp: recovered_def row_evolves_def known_states_def)
  moreover have "distinct (map wj_id (db_jobs d))" using assms by (simp add: jobs_wf_def)
  ultimately show ?thesis by (auto simp: recover_job_jobs intro!: list_all2_map_evolves)
qed

subsection \<open>Retries and deletions\<close>

lemma map_of_filter_key:
  "map_of (filter (\<lambda>(k, v). P k) kvs) k = (if P k then map_of kvs k else None)"
  by (induction kvs) auto

lemma map_of_dict_set: "k \<noteq> k' \<Longrightarrow> map_of (dict_set k' v kvs) k = map_of kvs k"
proof -
  assume n: "k \<noteq> k'"
  have "map_of (map (\<lambda>(k'', v''). if k'' = k' then (k'', v) else (k'', v'')) kvs) k = map_of kvs k" for kvs
    using n by (induction kvs) auto
  with n show ?thesis by (auto simp: dict_set_def map_add_def split: option.splits)
qed

lemma retry_payload_plan:
  assumes "wj_kind j = ''batch-plan-execute''" "wj_state_json j = Text (JObj kvs)"
    "map_of kvs ''plan_id'' = Some (JInt n)"
  shows "\<exists>kvs'. retry_payload j user = Text (JObj kvs') \<and> map_of kvs' ''plan_id'' = Some (JInt n)"
proof -
  let ?f = "filter_retry_payload (wj_kind j) (wj_state_json j)"
  have "?f = filter (\<lambda>(k, v). retry_key_allowed (wj_kind j) k) kvs"
    by (simp add: filter_retry_payload_def assms(2))
  moreover have "retry_key_allowed (wj_kind j) ''plan_id''"
    by (simp add: retry_key_allowed_def assms(1) RETRY_WHITELISTS_def)
  ultimately have "map_of ?f ''plan_id'' = Some (JInt n)"
    using assms(3) by (simp add: map_of_filter_key)
  then show ?thesis by (cases user) (simp_all add: retry_payload_def Let_def map_of_dict_set)
qed

lemma plan_ref_linked:
  "map_of kvs ''plan_id'' = Some (JInt n) \<Longrightarrow> linked_id ''plan_id'' (Text (JObj kvs)) = Some n"
  by (simp add: linked_id_def jget_def sql_cast_int_def)

lemma retry_wf:
  assumes "jobs_wf d" "retry_task now i user d = Inr (d', r)"
  shows "jobs_wf d'"
proof -
  from retry_effect [OF assms(2)] obtain j where
    j: "get_job d i = Some j" "retry_plan_check j d = Inr ()" "db_jobs d' = db_jobs d @ [r]"
    and r: "r = (new_job d (wj_kind j) QUEUED (retry_payload j user) now)\<lparr>wj_retry_of := Some i\<rparr>"
    by blast
  have rf: "wj_kind r = wj_kind j" "wj_status r = QUEUED" "wj_state_json r = retry_payload j user"
    "wj_id r = tbl_next_id wj_id (db_jobs d)" by (simp_all add: r new_job_def)
  have ref: "plan_ref_ok j" using j(1) assms(1) jobs.get_row by (auto simp: jobs_wf_def get_job_def)
  have fresh: "wj_id r \<notin> set (map wj_id (db_jobs d))"
    using jobs.fresh_not_a_row [of _ "db_jobs d"] rf(4) by force
  have plan: "plan_ref_ok r \<and> (\<forall>pid. execution_job pid active_statuses r \<longrightarrow>
      filter (execution_job pid active_statuses) (db_jobs d) = [])"
  proof (cases "wj_kind j = ''batch-plan-execute''")
    case True
    with ref obtain kvs n where k: "wj_state_json j = Text (JObj kvs)" "map_of kvs ''plan_id'' = Some (JInt n)"
      by (auto simp: plan_ref_ok_def)
    obtain kvs' where k': "retry_payload j user = Text (JObj kvs')" "map_of kvs' ''plan_id'' = Some (JInt n)"
      using retry_payload_plan [OF True k] by blast
    from retry_plan_check_Inr [OF j(2) True] obtain v pid where
      v: "retry_plan_id j = Some v" "int_of_json v = Some pid" "latest_execution pid active_statuses d = None"
      by metis
    have "v = JInt n" using v(1) k by (simp add: retry_plan_id_def loads_or_empty_def jget_def)
    with v have "latest_execution n active_statuses d = None" by (simp add: int_of_json_def)
    then have "filter (execution_job n active_statuses) (db_jobs d) = []"
      by (simp add: latest_execution_def)
    with k' True show ?thesis
      by (auto simp: plan_ref_ok_def rf execution_job_def plan_ref_linked)
  qed (simp add: plan_ref_ok_def execution_job_def rf)
  have "length (filter (execution_job pid active_statuses) (db_jobs d')) \<le> 1" for pid
    using assms(1) plan by (auto simp: j(3) jobs_wf_def)
  then show ?thesis
    using assms(1) fresh plan rf by (auto simp: jobs_wf_def j(3) known_states_def)
qed

lemma delete_wf:
  assumes "jobs_wf d"
  shows "jobs_wf (delete_jobs p d)"
proof -
  let ?f = "\<lambda>g j. j\<lparr>wj_retry_of := g (wj_retry_of j)\<rparr>"
  obtain g where g: "db_jobs (delete_jobs p d) = map (?f g) (filter (\<lambda>j. \<not> p j) (db_jobs d))"
    by (auto simp: delete_jobs_def Let_def tbl_delete_def)
  have e: "execution_job pid active_statuses (?f g j) = execution_job pid active_statuses j" for pid j
    by (simp add: execution_job_def)
  have "length (filter (execution_job pid active_statuses) (db_jobs (delete_jobs p d))) \<le> 1" for pid
  proof -
    have "length (filter (execution_job pid active_statuses) (db_jobs (delete_jobs p d)))
        = length (filter (\<lambda>j. execution_job pid active_statuses j \<and> \<not> p j) (db_jobs d))"
      by (simp add: g filter_map o_def e conj_commute)
    also have "\<dots> \<le> length (filter (execution_job pid active_statuses) (db_jobs d))"
      by (rule filter_length_mono [where R = "(=)"]) (auto simp: list.rel_eq)
    also have "\<dots> \<le> 1" using assms by (simp add: jobs_wf_def)
    finally show ?thesis .
  qed
  moreover have "distinct (map wj_id (db_jobs (delete_jobs p d)))"
    using assms by (simp add: g o_def jobs_wf_def distinct_map_filter)
  ultimately show ?thesis using assms by (auto simp: jobs_wf_def g plan_ref_ok_def)
qed

text \<open>A transaction evolves the rows, or is a retry, which appends one.\<close>

lemma job_tx_evolves:
  assumes "job_tx d d'" "jobs_wf d"
  shows "list_all2 row_evolves (db_jobs d) (db_jobs d') \<or> (\<exists>now i user r. retry_task now i user d = Inr (d', r))"
  using assms
proof (cases rule: job_tx.cases)
  case (tx_claim now adm prio r)
  then show ?thesis using claim_evolves [of d now "claim_candidate adm prio d"] by simp
next
  case (tx_finish worker now i b)
  then show ?thesis using finish_evolves [OF assms(2), of worker now i] by simp
next
  case (tx_raise worker now i x b)
  then show ?thesis using raise_evolves [OF assms(2), of i x worker now] by simp
next
  case (tx_recover now i st st')
  then show ?thesis using recover_evolves [OF assms(2), of now i st] by simp
next
  case (tx_repair now pid b)
  then have "db_jobs d' = db_jobs d" by (metis fst_conv repair_plan_frame(1))
  then show ?thesis by (simp add: list.rel_refl)
qed (use assms(2) start_evolves checkpoint_evolves user_evolves in blast)+

lemma sys_step_wf:
  assumes "sys_step d d'" "jobs_wf d"
  shows "jobs_wf d'"
  using assms
proof (cases rule: sys_step.cases)
  case sys_tx
  with job_tx_evolves [OF _ assms(2)] evolves_wf [OF assms(2)] retry_wf [OF assms(2)] show ?thesis by blast
next
  case (sys_delete i r)
  then show ?thesis using delete_wf [OF assms(2)]
    by (auto simp: delete_task_def atomic_Inr simp del: is_terminal_iff split: if_splits)
next
  case (sys_clear ss n)
  then obtain p where "d' = delete_jobs p d"
    by (auto simp: clear_task_history_def bind_res_Inr simp del: is_terminal_iff split: option.splits if_splits)
  then show ?thesis using delete_wf [OF assms(2)] by simp
qed

subsection \<open>Properties\<close>


lemma retry_db_wf: "jobs_wf retry_db"
  by (simp add: jobs_wf_def retry_db_def plan_ref_ok_def ex_plan_job_def ex_scan_job_def known_states_def)




end
