(* ===== verification/SchedulerRuns.thy ===== *)
theory SchedulerRuns
  imports SchedulerDispatch JobLifecycle
begin

section \<open>Runs of a schedule over time\<close>

text \<open>
  Properties of app/scheduler/dispatch.py over whole transactions and their sequences. The
  invariant \<open>runs_wf\<close> holds of every database the transactions reach: run ids and slots are unique
  (\<open>uq_schedule_runs_schedule_slot\<close>), a run is bound to a job only when it was dispatched, and a
  bound job exists (the foreign key). \<open>one_live\<close> says that no schedule has two runs whose jobs are
  not terminal.
\<close>

definition slot_key :: "schedule_run \<Rightarrow> int \<times> time" where
  "slot_key r = (sr_schedule_id r, sr_scheduled_for_utc r)"

definition runs_wf :: "db \<Rightarrow> bool" where
  "runs_wf d \<longleftrightarrow> distinct (map sr_id (db_runs d)) \<and> distinct (map slot_key (db_runs d)) \<and>
     (\<forall>r \<in> set (db_runs d). \<forall>i. sr_work_job_id r = Some i \<longrightarrow>
        sr_status r = ''dispatched'' \<and> i \<in> wj_id ` set (db_jobs d))"

definition one_live :: "db \<Rightarrow> bool" where
  "one_live d \<longleftrightarrow> (\<forall>r \<in> set (db_runs d). \<forall>r' \<in> set (db_runs d).
     sr_schedule_id r = sr_schedule_id r' \<longrightarrow> live_bound d r \<longrightarrow> live_bound d r' \<longrightarrow> r = r')"

lemma slot_taken_iff: "slot_taken d i slot \<longleftrightarrow> (i, slot) \<in> set (map slot_key (db_runs d))"
  by (auto simp: slot_taken_def list_ex_iff slot_key_def)

lemma slot_key_kept [simp]: "slot_key (run_interrupted r) = slot_key r"
  by (simp add: slot_key_def)

lemma interrupt_all_slots: "map slot_key (db_runs (interrupt_all ps d)) = map slot_key (db_runs d)"
  by auto

lemma live_bound_None [simp]: "sr_work_job_id r = None \<Longrightarrow> \<not> live_bound d r"
  by (simp add: live_bound_def)

text \<open>A dispatch, whether due or on request: earlier runs are looked at, a run is added and settled.\<close>

definition dispatch_core ::
  "schedule \<Rightarrow> time \<Rightarrow> db \<Rightarrow> db \<Rightarrow> schedule_run \<Rightarrow> outcome \<Rightarrow> bool" where
  "dispatch_core s slot d d' run' res \<longleftrightarrow>
     (\<exists>ps. ps \<subseteq> {r \<in> set (db_runs d). sr_schedule_id r = sc_id s \<and> sr_status r = ''pending'' \<and> \<not> live_bound d r} \<and>
        db_runs d' = map (\<lambda>r. if r \<in> ps then run_interrupted r else r) (db_runs d) @ [run'] \<and>
        slot_key run' = (sc_id s, slot) \<and> slot_key run' \<notin> slot_key ` set (db_runs d) \<and>
        sr_id run' = tbl_next_id sr_id (db_runs d) \<and>
        (if res = Dispatched then
           (\<forall>r \<in> set (db_runs d). sr_schedule_id r = sc_id s \<longrightarrow> \<not> live_bound d r) \<and> sr_status run' = ''dispatched'' \<and>
           (\<exists>j. db_jobs d' = db_jobs d @ [j] \<and> wj_id j = tbl_next_id wj_id (db_jobs d) \<and>
                wj_status j = QUEUED \<and> wj_kind j \<noteq> ''batch-plan-execute'' \<and> sr_work_job_id run' = Some (wj_id j))
         else db_jobs d' = db_jobs d \<and> db_scans d' = db_scans d \<and> db_roots d' = db_roots d \<and>
           sr_work_job_id run' = None \<and>
           (res = SkippedOverlap \<and> sr_status run' = ''skipped_overlap'' \<and>
              (\<exists>r \<in> set (db_runs d). sr_schedule_id r = sc_id s \<and> live_bound d r) \<or>
            res = DispatchFailed \<and> sr_status run' = ''failed'' \<and>
              (\<forall>r \<in> set (db_runs d). sr_schedule_id r = sc_id s \<longrightarrow> \<not> live_bound d r))))"

lemma live_status: "runs_wf d \<Longrightarrow> r \<in> set (db_runs d) \<Longrightarrow> live_bound d r \<Longrightarrow> sr_status r = ''dispatched''"
  by (auto simp: runs_wf_def live_bound_def split: option.splits)

lemma next_id_map: "map key xs = map key ys \<Longrightarrow> tbl_next_id key xs = tbl_next_id key ys"
proof -
  have "fold (\<lambda>r m. max (key r) m) zs m = fold max (map key zs) m" for zs and m :: int
    by (induction zs arbitrary: m) auto
  then show "map key xs = map key ys \<Longrightarrow> tbl_next_id key xs = tbl_next_id key ys"
    by (simp add: tbl_next_id_def)
qed

lemma core_of_settled:
  assumes "runs_wf d" "active_prior_run (sc_id s) d = (d1, active)" "\<not> slot_taken d (sc_id s) slot"
    and d2: "db_runs d2 = db_runs d1 @ [pending_run d1 s slot now]" "db_jobs d2 = db_jobs d"
      "db_scans d2 = db_scans d" "db_roots d2 = db_roots d"
    and s: "run_settled d2 (pending_run d1 s slot now) active d' run' res"
  shows "dispatch_core s slot d d' run' res"
proof -
  have ids: "distinct (map sr_id (db_runs d))" using assms(1) by (simp add: runs_wf_def)
  obtain ps where ps: "ps \<subseteq> {r \<in> set (db_runs d). sr_schedule_id r = sc_id s \<and> sr_status r = ''pending'' \<and> \<not> live_bound d r}"
    and d1: "d1 = interrupt_all ps d"
    and none: "active = None \<longrightarrow> (\<forall>r \<in> set (db_runs d). sr_schedule_id r = sc_id s \<longrightarrow>
       sr_status r = ''pending'' \<or> sr_status r = ''dispatched'' \<longrightarrow> \<not> live_bound d r)"
    and some: "\<forall>r. active = Some r \<longrightarrow> r \<in> set (db_runs d) \<and> sr_schedule_id r = sc_id s \<and> live_bound d r"
    by (rule active_prior_runD [OF assms(2) ids])
  have nl: "active = None \<Longrightarrow> \<forall>r \<in> set (db_runs d). sr_schedule_id r = sc_id s \<longrightarrow> \<not> live_bound d r"
    using none live_status [OF assms(1)] by blast
  have al: "active \<noteq> None \<Longrightarrow> \<exists>r \<in> set (db_runs d). sr_schedule_id r = sc_id s \<and> live_bound d r"
    using some by blast
  have "db_runs d' = map (\<lambda>r. if r \<in> ps then run_interrupted r else r) (db_runs d) @ [run']"
    using s d2(1) d1 by (simp add: run_settled_def)
  moreover have "slot_key run' = (sc_id s, slot)" using s by (simp add: run_settled_def slot_key_def)
  moreover have "(sc_id s, slot) \<notin> slot_key ` set (db_runs d)" using assms(3) by (simp add: slot_taken_iff)
  moreover have "sr_id run' = tbl_next_id sr_id (db_runs d)"
    using s d1 next_id_map [OF interrupt_all_ids, of ps d] by (simp add: run_settled_def)
  ultimately show ?thesis
    using s d2 ps nl al unfolding dispatch_core_def run_settled_def by (intro exI [of _ ps]) auto
qed

text \<open>The new row of a schedule whose slot was consumed, and of one whose pointer only moved on.\<close>

definition consumed :: "time \<Rightarrow> time \<Rightarrow> time \<Rightarrow> schedule \<Rightarrow> schedule" where
  "consumed slot u now s =
     s\<lparr>sc_last_scheduled_for_utc := Some slot, sc_next_scheduled_for_utc := Some u, sc_updated_at := now\<rparr>"

definition moved_on :: "time \<Rightarrow> time \<Rightarrow> schedule \<Rightarrow> schedule" where
  "moved_on u now s = s\<lparr>sc_next_scheduled_for_utc := Some u, sc_updated_at := now\<rparr>"

lemma is_due_iff: "is_due now s \<longleftrightarrow> sc_enabled s \<and> (\<exists>u. sc_next_scheduled_for_utc s = Some u \<and> u \<le> now)"
  by (auto simp: is_due_def split: option.splits)

lemma slot_taken_interrupt [simp]: "slot_taken (interrupt_all ps d) i slot = slot_taken d i slot"
  by (simp only: slot_taken_iff interrupt_all_slots)

lemma active_prior_frame:
  assumes "active_prior_run i d = (d1, a)" "runs_wf d"
  shows "slot_taken d1 k slot = slot_taken d k slot" "db_jobs d1 = db_jobs d" "db_scans d1 = db_scans d"
    "db_roots d1 = db_roots d" "db_schedules d1 = db_schedules d" "db_scheduler d1 = db_scheduler d"
proof -
  have "distinct (map sr_id (db_runs d))" using assms(2) by (simp add: runs_wf_def)
  with assms(1) obtain ps where "d1 = interrupt_all ps d" by (rule active_prior_runD)
  then show "slot_taken d1 k slot = slot_taken d k slot" "db_jobs d1 = db_jobs d" "db_scans d1 = db_scans d"
    "db_roots d1 = db_roots d" "db_schedules d1 = db_schedules d" "db_scheduler d1 = db_scheduler d" by simp_all
qed

lemma process_due_core:
  assumes wf: "runs_wf d" and p: "process_due_schedule fs st zd mode_of owner i now d = Inr (d', res)"
    and s: "get_schedule_row d i = Some s" "sc_enabled s" "sc_next_scheduled_for_utc s = Some slot"
      "slot \<le> now" "minute_floor now \<le> slot" "\<not> slot_taken d i slot"
  obtains u run' where "next_of_text zd (sc_cron_expression s) (sc_timezone s) slot = Inr u"
    "dispatch_core s slot d d' run' res" "db_schedules d' = tbl_put sc_id (consumed slot u now s) (db_schedules d)"
    "db_scheduler d' = db_scheduler d"
proof -
  obtain d1 active where a: "active_prior_run (sc_id s) d = (d1, active)" by (cases "active_prior_run (sc_id s) d")
  have id: "sc_id s = i" using s(1) by (rule get_schedule_id)
  let ?run = "pending_run d1 s slot now"
  have ins: "insert_run ?run d1 = Some (add_run ?run d1)"
    using s(6) active_prior_frame(1) [OF a wf] id by (simp add: insert_run_def)
  obtain lease where l: "assert_scheduler_lease d owner now = Inr lease"
    using p by (cases "assert_scheduler_lease d owner now") (auto simp: process_due_schedule_def)
  obtain u where u: "next_of_text zd (sc_cron_expression s) (sc_timezone s) slot = Inr u"
    using p l s a ins id by (cases "next_of_text zd (sc_cron_expression s) (sc_timezone s) slot")
      (auto simp: process_due_schedule_def)
  let ?d2 = "put_schedule (consumed slot u now s) (add_run ?run d1)"
  obtain d3 run' res' where st: "settle_run fs st mode_of (consumed slot u now s) ?run active slot now ?d2 = (d3, run', res')"
    by (cases "settle_run fs st mode_of (consumed slot u now s) ?run active slot now ?d2")
  have r: "d' = d3" "res' = res"
    using p l s a ins u id st by (auto simp: process_due_schedule_def consumed_def)
  have settled: "run_settled ?d2 ?run active d' run' res"
    using settle_run_settled [OF st [unfolded r(1) [symmetric] r(2)], of "db_runs d1"] by simp
  have "dispatch_core s slot d d' run' res"
    using core_of_settled [OF wf a _ _ _ _ _ settled] s(6) id active_prior_frame [OF a wf] by simp
  moreover have "db_schedules d' = tbl_put sc_id (consumed slot u now s) (db_schedules d)" "db_scheduler d' = db_scheduler d"
    using settled active_prior_frame [OF a wf] by (simp_all add: run_settled_def)
  ultimately show thesis using u that by blast
qed

lemma run_now_core:
  assumes wf: "runs_wf d" and p: "run_schedule_now fs st mode_of i now d = Inr (d', run')"
  obtains s res where "get_schedule_row d i = Some s" "\<not> slot_taken d i now" "dispatch_core s now d d' run' res"
    "db_schedules d' = db_schedules d" "db_scheduler d' = db_scheduler d"
proof -
  obtain s where s: "get_schedule_row d i = Some s"
    using p by (cases "get_schedule_row d i") (auto simp: run_schedule_now_def)
  have id: "sc_id s = i" using s by (rule get_schedule_id)
  obtain d1 active where a: "active_prior_run (sc_id s) d = (d1, active)" by (cases "active_prior_run (sc_id s) d")
  let ?run = "pending_run d1 s now now"
  have free: "\<not> slot_taken d i now"
    using p s a active_prior_frame(1) [OF a wf] id by (auto simp: run_schedule_now_def insert_run_def)
  then have ins: "insert_run ?run d1 = Some (add_run ?run d1)"
    using active_prior_frame(1) [OF a wf] id by (simp add: insert_run_def)
  obtain d3 r' res where st: "settle_run fs st mode_of s ?run active now now (add_run ?run d1) = (d3, r', res)"
    by (cases "settle_run fs st mode_of s ?run active now now (add_run ?run d1)")
  have r: "d' = d3" "run' = r'" using p s a ins st by (auto simp: run_schedule_now_def)
  have settled: "run_settled (add_run ?run d1) ?run active d' run' res"
    using settle_run_settled [OF st [unfolded r [symmetric]], of "db_runs d1"] by simp
  have "dispatch_core s now d d' run' res"
    using core_of_settled [OF wf a _ _ _ _ _ settled] free id active_prior_frame [OF a wf] by simp
  moreover have "db_schedules d' = db_schedules d" "db_scheduler d' = db_scheduler d"
    using settled active_prior_frame [OF a wf] by (simp_all add: run_settled_def)
  ultimately show thesis using s free that by blast
qed

lemma process_due_other:
  assumes "process_due_schedule fs st zd mode_of owner i now d = Inr (d', res)"
    and "\<not> (\<exists>s slot. get_schedule_row d i = Some s \<and> sc_enabled s \<and> sc_next_scheduled_for_utc s = Some slot \<and>
       slot \<le> now \<and> minute_floor now \<le> slot \<and> \<not> slot_taken d i slot)"
  obtains (not_due) "res = NotDue" "d' = d" "\<forall>s. get_schedule_row d i = Some s \<longrightarrow> \<not> is_due now s"
  | (moved) s slot u origin where "get_schedule_row d i = Some s" "sc_enabled s" "sc_next_scheduled_for_utc s = Some slot"
      "slot \<le> now" "d' = put_schedule (moved_on u now s) d"
      "next_of_text zd (sc_cron_expression s) (sc_timezone s) origin = Inr u"
      "res = MissedSkipped \<and> slot < minute_floor now \<and> origin = now \<or>
       res = DuplicateSlot \<and> minute_floor now \<le> slot \<and> slot_taken d i slot \<and> origin = slot"
proof -
  obtain lease where l: "assert_scheduler_lease d owner now = Inr lease"
    using assms(1) by (cases "assert_scheduler_lease d owner now") (auto simp: process_due_schedule_def)
  show thesis
  proof (cases "\<exists>s slot. get_schedule_row d i = Some s \<and> sc_enabled s \<and> sc_next_scheduled_for_utc s = Some slot \<and> slot \<le> now")
    case False
    then have "res = NotDue \<and> d' = d"
      using assms(1) l by (auto simp: process_due_schedule_def not_le split: option.splits if_splits)
    with False show thesis by (intro not_due) (auto simp: is_due_iff)
  next
    case True
    then obtain s slot where s: "get_schedule_row d i = Some s" "sc_enabled s" "sc_next_scheduled_for_utc s = Some slot" "slot \<le> now"
      by blast
    have id: "sc_id s = i" using s(1) by (rule get_schedule_id)
    show thesis
    proof (cases "slot < minute_floor now")
      case True
      then obtain u where "next_of_text zd (sc_cron_expression s) (sc_timezone s) now = Inr u"
        "res = MissedSkipped" "d' = put_schedule (moved_on u now s) d"
        using assms(1) l s by (auto simp: process_due_schedule_def moved_on_def split: sum.splits)
      with s True show thesis by (intro moved) auto
    next
      case False
      then have tk: "slot_taken d i slot" using assms(2) s by (auto simp: not_less)
      then obtain u where "next_of_text zd (sc_cron_expression s) (sc_timezone s) slot = Inr u"
        "res = DuplicateSlot" "d' = put_schedule (moved_on u now s) d"
        using assms(1) l s False id by (auto simp: process_due_schedule_def moved_on_def split: sum.splits)
      with s False tk show thesis by (intro moved) auto
    qed
  qed
qed

subsection \<open>Transactions on jobs leave the runs alone\<close>

lemma sync_runs [simp]:
  "db_runs (sync_scan_job_status j t st fi e c n d) = db_runs d"
  "db_runs (fst (sync_batch_plan_status j t d)) = db_runs d"
  "db_runs (sync_linked j t n err d) = db_runs d"
  by (simp_all add: sync_scan_job_status_def end_scan_def put_scan_def cleanup_partial_def Let_def
      sync_batch_plan_status_def put_plan_def sync_linked_def split: option.splits)

lemma work_runs [simp]:
  "db_runs (start_work now w d) = db_runs d" "db_runs (fail_work now e c w d) = db_runs d"
  "db_runs (cancel_work now b w d) = db_runs d"
  by (simp_all add: start_work_def fail_work_def cancel_work_def Let_def)

lemma complete_runs [simp]: "db_runs (complete_work now w d) = db_runs d"
proof -
  obtain d2 l where s: "sync_batch_plan_status w ''completed'' (sync_scan_job_status w ''completed'' None (Some now) None False now d) = (d2, l)"
    by (cases "sync_batch_plan_status w ''completed'' (sync_scan_job_status w ''completed'' None (Some now) None False now d)")
  then have "db_runs d2 = db_runs d" using sync_runs(2) [of w "''completed''"] by (metis fst_conv sync_runs(1))
  then show ?thesis by (simp add: complete_work_def s Let_def split: option.splits)
qed

lemma checkpoint_branch_runs:
  "cancel_at_checkpoint i now w d = Inr d' \<Longrightarrow> db_runs d' = db_runs d"
  "pause_at_checkpoint i now a data w d = Inr d' \<Longrightarrow> db_runs d' = db_runs d"
  "continue_at_checkpoint log_due i now a data w d = Inr d' \<Longrightarrow> db_runs d' = db_runs d"
  by (auto simp: cancel_at_checkpoint_def pause_at_checkpoint_def continue_at_checkpoint_def bind_res_Inr Let_def
      split: if_splits)

lemma checkpoint_runs:
  assumes "checkpoint log_due worker i now a d = Inr (d', r)"
  shows "db_runs d' = db_runs d"
proof -
  from assms obtain w data where "get_job d i = Some w" and r: "(if wj_cancel_requested_at w \<noteq> None \<or> wj_status w = CANCEL_REQUESTED then
      bind_res (cancel_at_checkpoint i now w d) (\<lambda>d'. Inr (d', Cancelled))
    else if wj_pause_requested_at w \<noteq> None then
      bind_res (pause_at_checkpoint i now a data w d) (\<lambda>d'. Inr (d', Paused))
    else bind_res (continue_at_checkpoint log_due i now a data w d) (\<lambda>d'. Inr (d', Proceed))) = Inr (d', r)"
    unfolding checkpoint_def bind_res_Inr [of "check_args a"] bind_res_Inr [of "context_fence worker now d"]
    by (cases "get_job d i") auto
  then show ?thesis by (auto simp: bind_res_Inr checkpoint_branch_runs split: if_splits)
qed

lemma user_runs [simp]: "db_runs (user_act op i now d) = db_runs d"
  by (cases op; cases "get_job d i")
    (auto simp: user_act_def atomic_task_transition_def pause_task_def resume_task_def cancel_task_def bind_res_def Let_def
      simp del: is_terminal_iff split: option.splits if_splits sum.splits)

lemma finish_runs: "finish_work worker now i d = (d', b) \<Longrightarrow> db_runs d' = db_runs d"
  by (auto simp: finish_work_def split: option.splits if_splits)

lemma raise_runs: "settle_exception worker now i x d = (d', b) \<Longrightarrow> db_runs d' = db_runs d"
  by (cases x; cases "get_job d i") (auto simp: settle_exception_def split: if_splits)

lemma recover_runs: "recover_job now i (d, st) = (d', st') \<Longrightarrow> db_runs d' = db_runs d"
  by (cases "get_job d i") (auto simp: recover_job_def Let_def split: if_splits)

lemma repair_runs: "repair_plan now pid d = (d', b) \<Longrightarrow> db_runs d' = db_runs d"
  by (auto simp: repair_plan_def split: option.splits if_splits)

lemma claim_runs: "claim_update now c d = (d', r) \<Longrightarrow> db_runs d' = db_runs d"
  by (auto simp: claim_update_def Let_def split: option.splits)

lemma retry_runs: "retry_task now i user d = Inr (d', r) \<Longrightarrow> db_runs d' = db_runs d"
  by (auto simp: retry_task_def atomic_Inr bind_res_Inr Let_def add_job_def simp del: is_terminal_iff split: if_splits)

lemma job_tx_runs: "job_tx d d' \<Longrightarrow> db_runs d' = db_runs d"
  by (cases rule: job_tx.cases)
    (auto dest: claim_runs checkpoint_runs finish_runs raise_runs retry_runs recover_runs repair_runs)

subsection \<open>The invariant\<close>

lemma runs_inv_map:
  assumes "runs_wf d" "one_live d" "db_runs d' = map f (db_runs d)"
    and f: "\<And>r. r \<in> set (db_runs d) \<Longrightarrow> sr_id (f r) = sr_id r \<and> slot_key (f r) = slot_key r \<and>
      (\<forall>i. sr_work_job_id (f r) = Some i \<longrightarrow> sr_status (f r) = ''dispatched'' \<and> i \<in> wj_id ` set (db_jobs d')) \<and>
      (live_bound d' (f r) \<longrightarrow> live_bound d r)"
  shows "runs_wf d' \<and> one_live d'"
proof -
  have ids: "map sr_id (db_runs d') = map sr_id (db_runs d)" "map slot_key (db_runs d') = map slot_key (db_runs d)"
    using f assms(3) by simp_all
  have key: "sr_schedule_id (f r) = sr_schedule_id r" if "r \<in> set (db_runs d)" for r
    using f [OF that] by (simp add: slot_key_def)
  have "\<forall>r \<in> set (db_runs d'). \<forall>i. sr_work_job_id r = Some i \<longrightarrow>
      sr_status r = ''dispatched'' \<and> i \<in> wj_id ` set (db_jobs d')"
    using f unfolding assms(3) by auto
  then have "runs_wf d'" using assms(1) unfolding runs_wf_def ids by blast
  moreover have "one_live d'"
    unfolding one_live_def assms(3)
  proof (clarsimp)
    fix r r' assume r: "r \<in> set (db_runs d)" "r' \<in> set (db_runs d)" "sr_schedule_id (f r) = sr_schedule_id (f r')"
      "live_bound d' (f r)" "live_bound d' (f r')"
    then have "sr_schedule_id r = sr_schedule_id r'" "live_bound d r" "live_bound d r'" using key f by simp_all
    with assms(2) r(1,2) have "r = r'" by (auto simp: one_live_def)
    then show "f r = f r'" by simp
  qed
  ultimately show ?thesis ..
qed

lemma runs_inv_append:
  assumes "runs_wf d" "one_live d" "db_runs d' = db_runs d @ [r]" "db_jobs d' = db_jobs d"
    and "sr_id r \<notin> sr_id ` set (db_runs d)" "slot_key r \<notin> slot_key ` set (db_runs d)"
    and "\<forall>i. sr_work_job_id r = Some i \<longrightarrow> sr_status r = ''dispatched'' \<and> i \<in> wj_id ` set (db_jobs d)"
    and "live_bound d r \<longrightarrow> (\<forall>x \<in> set (db_runs d). sr_schedule_id x = sr_schedule_id r \<longrightarrow> \<not> live_bound d x)"
  shows "runs_wf d' \<and> one_live d'"
proof -
  have lb: "live_bound d' x = live_bound d x" for x using assms(4) by (rule live_bound_jobs)
  have "runs_wf d'" using assms by (auto simp: runs_wf_def)
  moreover have "one_live d'" using assms(2,3,8) unfolding one_live_def lb by auto
  ultimately show ?thesis ..
qed

lemma tbl_get_append: "tbl_get key xs i = Some r \<Longrightarrow> tbl_get key (xs @ ys) i = Some r"
  by (induction xs) (auto simp: tbl_get_def)

lemma live_bound_append:
  assumes "db_jobs d' = db_jobs d @ js" "sr_work_job_id r = Some i" "i \<in> wj_id ` set (db_jobs d)"
  shows "live_bound d' r = live_bound d r"
proof -
  obtain j where "get_job d i = Some j" using assms(3) jobs.row_get by (fastforce simp: get_job_def)
  then have "get_job d' i = get_job d i"
    using tbl_get_append [of wj_id "db_jobs d" i j js] assms(1) by (simp add: get_job_def)
  then show ?thesis using assms(2) by (simp add: live_bound_def)
qed

lemma dispatch_core_parts:
  assumes "dispatch_core s slot d d' run' res"
  obtains ps js where "ps \<subseteq> {r \<in> set (db_runs d). sr_status r = ''pending''}"
    "db_runs d' = db_runs (interrupt_all ps d) @ [run']" "db_jobs d' = db_jobs d @ js"
    "slot_key run' \<notin> slot_key ` set (db_runs d)" "sr_schedule_id run' = sc_id s"
    "sr_id run' \<notin> sr_id ` set (db_runs d)"
    "\<forall>i. sr_work_job_id run' = Some i \<longrightarrow> sr_status run' = ''dispatched'' \<and> i \<in> wj_id ` set (db_jobs d')"
    "sr_work_job_id run' = None \<or> (\<forall>r \<in> set (db_runs d). sr_schedule_id r = sc_id s \<longrightarrow> \<not> live_bound d r)"
    "js = [] \<or> (\<exists>j. js = [j] \<and> wj_id j = tbl_next_id wj_id (db_jobs d) \<and> wj_status j = QUEUED \<and> wj_kind j \<noteq> ''batch-plan-execute'')"
proof -
  obtain ps where ps: "ps \<subseteq> {r \<in> set (db_runs d). sr_schedule_id r = sc_id s \<and> sr_status r = ''pending'' \<and> \<not> live_bound d r}"
    and m: "db_runs d' = map (\<lambda>r. if r \<in> ps then run_interrupted r else r) (db_runs d) @ [run']"
    and k: "slot_key run' = (sc_id s, slot)" "slot_key run' \<notin> slot_key ` set (db_runs d)" "sr_id run' = tbl_next_id sr_id (db_runs d)"
    using assms unfolding dispatch_core_def by (elim exE conjE) (rule that)
  have c: "db_runs d' = db_runs (interrupt_all ps d) @ [run']" using m by simp
  have id: "sr_id run' \<notin> sr_id ` set (db_runs d)" using k(3) tbl_fresh [of _ "db_runs d" sr_id] by fastforce
  have key: "sr_schedule_id run' = sc_id s" using k(1) by (simp add: slot_key_def)
  show thesis
  proof (cases "res = Dispatched")
    case True
    then obtain j where "db_jobs d' = db_jobs d @ [j]" "wj_id j = tbl_next_id wj_id (db_jobs d)" "wj_status j = QUEUED"
      "wj_kind j \<noteq> ''batch-plan-execute''" "sr_work_job_id run' = Some (wj_id j)" "sr_status run' = ''dispatched''"
      "\<forall>r \<in> set (db_runs d). sr_schedule_id r = sc_id s \<longrightarrow> \<not> live_bound d r"
      using assms unfolding dispatch_core_def by auto
    with ps c k id key show thesis by (intro that [of ps "[j]"]) auto
  next
    case False
    then have "db_jobs d' = db_jobs d" "sr_work_job_id run' = None"
      using assms unfolding dispatch_core_def by auto
    with ps c k id key show thesis by (intro that [of ps "[]"]) auto
  qed
qed

lemma dispatch_core_slots:
  assumes "dispatch_core s slot d d' run' res"
  shows "map slot_key (db_runs d') = map slot_key (db_runs d) @ [(sc_id s, slot)]"
    "db_runs d' \<noteq> [] \<and> last (db_runs d') = run'" "sr_id run' = tbl_next_id sr_id (db_runs d)"
    "sr_schedule_id run' = sc_id s" "sr_scheduled_for_utc run' = slot"
proof -
  obtain ps where m: "db_runs d' = map (\<lambda>r. if r \<in> ps then run_interrupted r else r) (db_runs d) @ [run']"
    and k: "slot_key run' = (sc_id s, slot)" "sr_id run' = tbl_next_id sr_id (db_runs d)"
    using assms unfolding dispatch_core_def by (elim exE conjE) (rule that)
  have "db_runs d' = db_runs (interrupt_all ps d) @ [run']" using m by simp
  then show "map slot_key (db_runs d') = map slot_key (db_runs d) @ [(sc_id s, slot)]"
    "db_runs d' \<noteq> [] \<and> last (db_runs d') = run'"
    using k(1) by (simp_all only: map_append interrupt_all_slots, simp_all)
  show "sr_id run' = tbl_next_id sr_id (db_runs d)" "sr_schedule_id run' = sc_id s" "sr_scheduled_for_utc run' = slot"
    using k by (simp_all add: slot_key_def)
qed

text \<open>What a dispatch did with jobs, by its outcome.\<close>

lemma dispatch_core_jobs:
  assumes "dispatch_core s slot d d' run' res"
  shows "if \<exists>r \<in> set (db_runs d). sr_schedule_id r = sc_id s \<and> live_bound d r
     then res = SkippedOverlap \<and> sr_status run' = ''skipped_overlap'' \<and> db_jobs d' = db_jobs d \<and> db_scans d' = db_scans d
     else res = DispatchFailed \<and> sr_status run' = ''failed'' \<and> db_jobs d' = db_jobs d \<and> db_scans d' = db_scans d \<or>
       res = Dispatched \<and> sr_status run' = ''dispatched'' \<and> (\<exists>j. db_jobs d' = db_jobs d @ [j] \<and> wj_status j = QUEUED \<and>
         wj_id j \<notin> wj_id ` set (db_jobs d) \<and> sr_work_job_id run' = Some (wj_id j))"
proof -
  have fresh: "wj_id j = tbl_next_id wj_id (db_jobs d) \<Longrightarrow> wj_id j \<notin> wj_id ` set (db_jobs d)" for j
    using tbl_fresh [of _ "db_jobs d" wj_id] by fastforce
  show ?thesis
  proof (cases "res = Dispatched")
    case True
    then show ?thesis using assms fresh unfolding dispatch_core_def by auto
  next
    case False
    then show ?thesis using assms unfolding dispatch_core_def by auto
  qed
qed

lemma interrupt_inv:
  assumes "runs_wf d" "one_live d"
  shows "runs_wf (interrupt_all ps d) \<and> one_live (interrupt_all ps d)"
proof (rule runs_inv_map [OF assms])
  have lb: "live_bound (interrupt_all ps d) r = live_bound d r" for r by (rule live_bound_jobs) simp
  fix r assume "r \<in> set (db_runs d)"
  with assms(1) show "sr_id (if r \<in> ps then run_interrupted r else r) = sr_id r \<and>
      slot_key (if r \<in> ps then run_interrupted r else r) = slot_key r \<and>
      (\<forall>i. sr_work_job_id (if r \<in> ps then run_interrupted r else r) = Some i \<longrightarrow>
         sr_status (if r \<in> ps then run_interrupted r else r) = ''dispatched'' \<and>
         i \<in> wj_id ` set (db_jobs (interrupt_all ps d))) \<and>
      (live_bound (interrupt_all ps d) (if r \<in> ps then run_interrupted r else r) \<longrightarrow> live_bound d r)"
    unfolding lb by (cases "r \<in> ps") (auto simp: runs_wf_def)
qed simp

lemma jobs_append_inv:
  assumes "runs_wf d" "one_live d" "db_runs d' = db_runs d" "db_jobs d' = db_jobs d @ js"
  shows "runs_wf d' \<and> one_live d'"
proof (rule runs_inv_map [OF assms(1,2), of _ "\<lambda>r. r"])
  fix r assume r: "r \<in> set (db_runs d)"
  have "live_bound d' r \<longrightarrow> live_bound d r"
  proof (cases "sr_work_job_id r")
    case (Some i)
    then have "i \<in> wj_id ` set (db_jobs d)" using assms(1) r by (auto simp: runs_wf_def)
    then show ?thesis using live_bound_append [OF assms(4) Some] by simp
  qed simp
  with assms(1,4) r show "sr_id r = sr_id r \<and> slot_key r = slot_key r \<and>
      (\<forall>i. sr_work_job_id r = Some i \<longrightarrow> sr_status r = ''dispatched'' \<and> i \<in> wj_id ` set (db_jobs d')) \<and>
      (live_bound d' r \<longrightarrow> live_bound d r)"
    by (auto simp: runs_wf_def)
qed (simp add: assms(3))

lemma dispatch_core_inv:
  assumes "runs_wf d" "one_live d" "dispatch_core s slot d d' run' res"
  shows "runs_wf d' \<and> one_live d'"
  using assms(3)
proof (rule dispatch_core_parts)
  fix ps js
  assume runs: "db_runs d' = db_runs (interrupt_all ps d) @ [run']" and js: "db_jobs d' = db_jobs d @ js"
    and new: "slot_key run' \<notin> slot_key ` set (db_runs d)" "sr_schedule_id run' = sc_id s" "sr_id run' \<notin> sr_id ` set (db_runs d)"
    and bound: "\<forall>i. sr_work_job_id run' = Some i \<longrightarrow> sr_status run' = ''dispatched'' \<and> i \<in> wj_id ` set (db_jobs d')"
    and free: "sr_work_job_id run' = None \<or> (\<forall>r \<in> set (db_runs d). sr_schedule_id r = sc_id s \<longrightarrow> \<not> live_bound d r)"
  let ?d1 = "(interrupt_all ps d)\<lparr>db_jobs := db_jobs d'\<rparr>"
  have i1: "runs_wf (interrupt_all ps d)" "one_live (interrupt_all ps d)" using interrupt_inv [OF assms(1,2)] by auto
  have i2: "runs_wf ?d1" "one_live ?d1"
    using jobs_append_inv [OF i1, of ?d1 js] js by auto
  have r1: "db_runs ?d1 = db_runs (interrupt_all ps d)" by simp
  have ids: "sr_id ` set (db_runs ?d1) = sr_id ` set (db_runs d)" "slot_key ` set (db_runs ?d1) = slot_key ` set (db_runs d)"
    unfolding r1 using arg_cong [OF interrupt_all_ids, of set ps d] arg_cong [OF interrupt_all_slots, of set ps d]
    by (simp_all only: set_map)
  have dead: "\<not> live_bound ?d1 x"
    if l: "live_bound ?d1 run'" and x: "x \<in> set (db_runs ?d1)" "sr_schedule_id x = sr_schedule_id run'" for x
  proof
    assume lx: "live_bound ?d1 x"
    from x(1) obtain r where r: "r \<in> set (db_runs d)" "x = (if r \<in> ps then run_interrupted r else r)" by auto
    have "x = r" using lx r(2) by (cases "r \<in> ps") auto
    moreover obtain i where i: "sr_work_job_id r = Some i" using lx \<open>x = r\<close> by (cases "sr_work_job_id r") auto
    moreover have "i \<in> wj_id ` set (db_jobs d)" using assms(1) r(1) i by (auto simp: runs_wf_def)
    moreover have "db_jobs ?d1 = db_jobs d @ js" using js by simp
    ultimately have "live_bound d r" using live_bound_append [of ?d1 d js r i] lx by simp
    moreover have "sr_work_job_id run' \<noteq> None" using l by (cases "sr_work_job_id run'") auto
    ultimately show False using free r(1) x(2) new(2) \<open>x = r\<close> by auto
  qed
  show ?thesis
  proof (rule runs_inv_append [OF i2])
    show "db_runs d' = db_runs ?d1 @ [run']" using runs by simp
    show "live_bound ?d1 run' \<longrightarrow> (\<forall>x \<in> set (db_runs ?d1). sr_schedule_id x = sr_schedule_id run' \<longrightarrow> \<not> live_bound ?d1 x)"
      using dead by blast
    show "\<forall>i. sr_work_job_id run' = Some i \<longrightarrow> sr_status run' = ''dispatched'' \<and> i \<in> wj_id ` set (db_jobs ?d1)"
      using bound by simp
  qed (use new ids in simp_all)
qed

subsection \<open>Every transaction keeps it\<close>

definition sched_inv :: "db \<Rightarrow> bool" where
  "sched_inv d \<longleftrightarrow> jobs_wf d \<and> runs_wf d \<and> one_live d"

lemma runs_inv_same:
  assumes "runs_wf d" "one_live d" "db_runs d' = db_runs d" "db_jobs d' = db_jobs d"
  shows "runs_wf d' \<and> one_live d'"
  using jobs_append_inv [OF assms(1-3), of "[]"] assms(4) by simp

lemma live_evolves:
  assumes "list_all2 row_evolves (db_jobs d) (db_jobs d')" "live_bound d' r"
  shows "live_bound d r"
proof -
  obtain i j' where i: "sr_work_job_id r = Some i" "get_job d' i = Some j'" "\<not> is_terminal (wj_status j')"
    using assms(2) by (auto simp: live_bound_def simp del: is_terminal_iff split: option.splits)
  have "\<exists>x. tbl_get wj_id xs i = Some x \<and> row_evolves x y"
    if "list_all2 row_evolves xs ys" "tbl_get wj_id ys i = Some y" for xs ys y
    using that by (induction rule: list_all2_induct) (auto simp: tbl_get_def row_evolves_def split: if_splits)
  from this [OF assms(1), of j'] obtain j where "get_job d i = Some j" "row_evolves j j'"
    using i(2) by (auto simp: get_job_def)
  with i show ?thesis by (auto simp: live_bound_def row_evolves_def simp del: is_terminal_iff)
qed

lemma evolves_inv:
  assumes "runs_wf d" "one_live d" "db_runs d' = db_runs d" "list_all2 row_evolves (db_jobs d) (db_jobs d')"
  shows "runs_wf d' \<and> one_live d'"
proof (rule runs_inv_map [OF assms(1,2), of _ "\<lambda>r. r"])
  have ids: "map wj_id (db_jobs d') = map wj_id (db_jobs d)"
    using assms(4) by (induction rule: list_all2_induct) (auto simp: row_evolves_def)
  have "wj_id ` set (db_jobs d') = wj_id ` set (db_jobs d)" using arg_cong [OF ids, of set] by simp
  then show "sr_id r = sr_id r \<and> slot_key r = slot_key r \<and>
      (\<forall>i. sr_work_job_id r = Some i \<longrightarrow> sr_status r = ''dispatched'' \<and> i \<in> wj_id ` set (db_jobs d')) \<and>
      (live_bound d' r \<longrightarrow> live_bound d r)" if "r \<in> set (db_runs d)" for r
    using assms(1) that live_evolves [OF assms(4)] by (auto simp: runs_wf_def)
qed (simp add: assms(3))

lemma job_tx_inv:
  assumes "job_tx d d'" "sched_inv d"
  shows "sched_inv d'"
proof -
  have wf: "jobs_wf d" "runs_wf d" "one_live d" using assms(2) by (simp_all add: sched_inv_def)
  have "runs_wf d' \<and> one_live d'"
    using job_tx_evolves [OF assms(1) wf(1)]
  proof (elim disjE exE)
    assume "list_all2 row_evolves (db_jobs d) (db_jobs d')"
    then show ?thesis using wf(2,3) job_tx_runs [OF assms(1)] by (intro evolves_inv)
  next
    fix now k user r assume "retry_task now k user d = Inr (d', r)"
    from retry_effect [OF this] have "db_jobs d' = db_jobs d @ [r]" by (auto simp: tbl_insert_def)
    then show ?thesis using wf(2,3) job_tx_runs [OF assms(1)] by (intro jobs_append_inv)
  qed
  then show ?thesis using sys_step_wf [OF sys_tx [OF assms(1)] wf(1)] by (simp add: sched_inv_def)
qed

lemma delete_inv:
  assumes "runs_wf d" "one_live d"
  shows "runs_wf (delete_jobs p d) \<and> one_live (delete_jobs p d)"
proof -
  let ?gone = "map wj_id (filter p (db_jobs d))"
  let ?clear = "\<lambda>r. case r of Some i \<Rightarrow> if i \<in> set ?gone then None else Some i | None \<Rightarrow> None"
  let ?f = "\<lambda>r. r\<lparr>sr_work_job_id := ?clear (sr_work_job_id r)\<rparr>"
  have runs: "db_runs (delete_jobs p d) = map ?f (db_runs d)" by (simp add: delete_jobs_def Let_def)
  have js: "db_jobs (delete_jobs p d) = map (\<lambda>j. j\<lparr>wj_retry_of := ?clear (wj_retry_of j)\<rparr>) (filter (\<lambda>j. \<not> p j) (db_jobs d))"
    by (simp add: delete_jobs_def Let_def tbl_delete_def)
  have bound: "i \<in> wj_id ` set (db_jobs (delete_jobs p d)) \<and> sr_work_job_id r = Some i"
    if "r \<in> set (db_runs d)" "sr_work_job_id (?f r) = Some i" for r i
  proof -
    have i: "sr_work_job_id r = Some i" "i \<notin> wj_id ` set (filter p (db_jobs d))"
      using that(2) by (auto split: option.splits if_splits)
    then have "i \<in> wj_id ` set (db_jobs d)" using assms(1) that(1) by (auto simp: runs_wf_def)
    with i(2) have "i \<in> wj_id ` set (filter (\<lambda>j. \<not> p j) (db_jobs d))" by auto
    with i(1) show ?thesis unfolding js by (auto simp: image_image)
  qed
  have live: "live_bound d r" if r: "r \<in> set (db_runs d)" "live_bound (delete_jobs p d) (?f r)" for r
  proof -
    obtain i j where i: "sr_work_job_id (?f r) = Some i" "get_job (delete_jobs p d) i = Some j" "\<not> is_terminal (wj_status j)"
      using r(2) by (auto simp: live_bound_def simp del: is_terminal_iff split: option.splits)
    have ni: "i \<notin> set ?gone" using i(1) by (auto split: option.splits if_splits)
    have "tbl_get wj_id (map (\<lambda>j. j\<lparr>wj_retry_of := c j\<rparr>) (filter (\<lambda>j. \<not> p j) xs)) i = Some j \<Longrightarrow>
        i \<notin> wj_id ` set (filter p xs) \<Longrightarrow> \<exists>j0. tbl_get wj_id xs i = Some j0 \<and> wj_status j0 = wj_status j" for c xs
      by (induction xs) (auto simp: tbl_get_def split: if_splits)
    from this [of "\<lambda>j. ?clear (wj_retry_of j)" "db_jobs d"] obtain j0
      where "get_job d i = Some j0" "wj_status j0 = wj_status j"
      using i(2) ni by (auto simp: get_job_def js)
    with i(3) bound [OF r(1) i(1)] show ?thesis by (simp add: live_bound_def)
  qed
  show ?thesis
  proof (rule runs_inv_map [OF assms runs])
    fix r assume r: "r \<in> set (db_runs d)"
    show "sr_id (?f r) = sr_id r \<and> slot_key (?f r) = slot_key r \<and>
      (\<forall>i. sr_work_job_id (?f r) = Some i \<longrightarrow> sr_status (?f r) = ''dispatched'' \<and> i \<in> wj_id ` set (db_jobs (delete_jobs p d))) \<and>
      (live_bound (delete_jobs p d) (?f r) \<longrightarrow> live_bound d r)"
      using bound [OF r] live [OF r] assms(1) r by (auto simp: slot_key_def runs_wf_def)
  qed
qed

lemma sys_inv:
  assumes "sys_step d d'" "sched_inv d"
  shows "sched_inv d'"
  using assms(1)
proof (cases rule: sys_step.cases)
  case sys_tx
  then show ?thesis using job_tx_inv assms(2) by blast
next
  case (sys_delete i r)
  then obtain p where "d' = delete_jobs p d"
    by (auto simp: delete_task_def atomic_Inr simp del: is_terminal_iff split: if_splits)
  with assms(2) delete_inv sys_step_wf [OF assms(1)] show ?thesis by (auto simp: sched_inv_def)
next
  case (sys_clear ss n)
  then obtain p where "d' = delete_jobs p d"
    by (auto simp: clear_task_history_def bind_res_Inr simp del: is_terminal_iff split: option.splits if_splits)
  with assms(2) delete_inv sys_step_wf [OF assms(1)] show ?thesis by (auto simp: sched_inv_def)
qed

lemma dispatch_jobs_wf:
  assumes "jobs_wf d" "dispatch_core s slot d d' run' res"
  shows "jobs_wf d'"
  using assms(2)
proof (rule dispatch_core_parts)
  fix js assume js: "db_jobs d' = db_jobs d @ js"
    and j: "js = [] \<or> (\<exists>j. js = [j] \<and> wj_id j = tbl_next_id wj_id (db_jobs d) \<and> wj_status j = QUEUED \<and> wj_kind j \<noteq> ''batch-plan-execute'')"
  show ?thesis
  proof (cases "js = []")
    case True
    with js assms(1) show ?thesis by (simp add: jobs_wf_def)
  next
    case False
    with j obtain k where k: "js = [k]" "wj_id k = tbl_next_id wj_id (db_jobs d)" "wj_status k = QUEUED"
      "wj_kind k \<noteq> ''batch-plan-execute''" by blast
    have "wj_id k \<notin> wj_id ` set (db_jobs d)" using k(2) tbl_fresh [of _ "db_jobs d" wj_id] by fastforce
    with assms(1) js k show ?thesis
      by (auto simp: jobs_wf_def known_states_def plan_ref_ok_def execution_job_def)
  qed
qed

text \<open>
  The whole system: the job transactions, the dispatches, and the schedule and lease operations of
  app/scheduler/service.py, of any number of scheduler processes.
\<close>

inductive sched_step :: "db \<Rightarrow> db \<Rightarrow> bool" where
  step_sys: "sys_step d d' \<Longrightarrow> sched_step d d'"
| step_due: "process_due_schedule fs st zd mode_of owner i now d = Inr (d', res) \<Longrightarrow> sched_step d d'"
| step_now: "run_schedule_now fs st mode_of i now d = Inr (d', run) \<Longrightarrow> sched_step d d'"
| step_create: "create_schedule zd user p now d = Inr (d', s) \<Longrightarrow> sched_step d d'"
| step_update: "update_schedule zd i u now d = Inr (d', s) \<Longrightarrow> sched_step d d'"
| step_reserve: "reserve_scheduled_slot zd i slot now d = Inr (d', r) \<Longrightarrow> sched_step d d'"
| step_acquire: "acquire_scheduler_lease w ttl now d = Inr (d', b) \<Longrightarrow> sched_step d d'"
| step_renew: "renew_scheduler_lease w ttl now d = Inr (d', b) \<Longrightarrow> sched_step d d'"
| step_release: "release_scheduler_lease w now d = (d', b) \<Longrightarrow> sched_step d d'"

lemma dispatch_inv: "sched_inv d \<Longrightarrow> dispatch_core s slot d d' run' res \<Longrightarrow> sched_inv d'"
  using dispatch_core_inv [of d s slot d' run' res] dispatch_jobs_wf [of d s slot d' run' res]
  by (simp add: sched_inv_def)

lemma pending_fresh: "sr_id (pending_run d s slot now) \<notin> sr_id ` set (db_runs d)"
  using tbl_fresh [of _ "db_runs d" sr_id] by fastforce

lemma jobs_wf_same: "db_jobs d' = db_jobs d \<Longrightarrow> jobs_wf d \<Longrightarrow> jobs_wf d'"
  by (simp add: jobs_wf_def)

lemma frame_inv: "sched_inv d \<Longrightarrow> db_runs d' = db_runs d \<Longrightarrow> db_jobs d' = db_jobs d \<Longrightarrow> sched_inv d'"
  using runs_inv_same jobs_wf_same by (auto simp: sched_inv_def)

lemma reserve_inv:
  assumes "reserve_scheduled_slot zd i slot now d = Inr (d', r)" "sched_inv d"
  shows "sched_inv d'"
proof (cases "d' = d")
  case False
  then obtain s n where s: "get_schedule_row d i = Some s" "\<not> slot_taken d i slot"
    "d' = put_schedule n (add_run (pending_run d s slot now) d)"
    using assms(1) by (auto simp: reserve_scheduled_slot_def bind_res_Inr Let_def split: option.splits if_splits)
  have "sc_id s = i" using s(1) by (rule get_schedule_id)
  then have "runs_wf d' \<and> one_live d'"
    using assms(2) s pending_fresh
    by (intro runs_inv_append [of d d' "pending_run d s slot now"])
      (auto simp: sched_inv_def slot_taken_iff slot_key_def)
  then show ?thesis using assms(2) jobs_wf_same [of d' d] s(3) by (simp add: sched_inv_def)
qed (use assms(2) in simp)

lemma process_inv:
  assumes "process_due_schedule fs st zd mode_of owner i now d = Inr (d', res)" "sched_inv d"
  shows "sched_inv d'"
proof (cases "\<exists>s slot. get_schedule_row d i = Some s \<and> sc_enabled s \<and> sc_next_scheduled_for_utc s = Some slot \<and>
       slot \<le> now \<and> minute_floor now \<le> slot \<and> \<not> slot_taken d i slot")
  case True
  then obtain s slot where s: "get_schedule_row d i = Some s" "sc_enabled s" "sc_next_scheduled_for_utc s = Some slot"
    "slot \<le> now" "minute_floor now \<le> slot" "\<not> slot_taken d i slot" by blast
  have wf: "runs_wf d" using assms(2) by (simp add: sched_inv_def)
  obtain u run' where "dispatch_core s slot d d' run' res"
    by (rule process_due_core [OF wf assms(1) s])
  with assms(2) show ?thesis by (rule dispatch_inv)
next
  case False
  from assms(1) False show ?thesis
  proof (cases rule: process_due_other)
    case not_due
    then show ?thesis using assms(2) by simp
  next
    case (moved s slot u origin)
    then show ?thesis using frame_inv [OF assms(2)] by simp
  qed
qed

lemma sched_step_inv:
  assumes "sched_step d d'" "sched_inv d"
  shows "sched_inv d'"
  using assms(1)
proof (cases rule: sched_step.cases)
  case step_sys
  then show ?thesis using sys_inv assms(2) by blast
next
  case (step_due fs st zd mode_of owner i now res)
  then show ?thesis using process_inv assms(2) by blast
next
  case (step_now fs st mode_of i now run)
  have wf: "runs_wf d" using assms(2) by (simp add: sched_inv_def)
  obtain s res where "dispatch_core s now d d' run res" by (rule run_now_core [OF wf step_now])
  with assms(2) show ?thesis by (rule dispatch_inv)
next
  case (step_reserve zd i slot now r)
  then show ?thesis using reserve_inv assms(2) by blast
next
  case (step_create zd user p now s)
  then have "db_runs d' = db_runs d" "db_jobs d' = db_jobs d" by (auto simp: create_schedule_def bind_res_Inr Let_def)
  then show ?thesis using frame_inv assms(2) by blast
next
  case (step_update zd i u now s)
  then obtain s' where "d' = put_schedule s' d" by (rule update_scheduleD)
  then show ?thesis using frame_inv [OF assms(2)] by simp
next
  case (step_acquire w ttl now b)
  then have "db_runs d' = db_runs d" "db_jobs d' = db_jobs d"
    by (auto simp: acquire_scheduler_lease_def bind_res_Inr Let_def split: if_splits)
  then show ?thesis using frame_inv assms(2) by blast
next
  case (step_renew w ttl now b)
  then have "db_runs d' = db_runs d" "db_jobs d' = db_jobs d"
    by (auto simp: renew_scheduler_lease_def bind_res_Inr Let_def split: if_splits)
  then show ?thesis using frame_inv assms(2) by blast
next
  case (step_release w now b)
  then have "db_runs d' = db_runs d" "db_jobs d' = db_jobs d"
    by (auto simp: release_scheduler_lease_def Let_def split: if_splits)
  then show ?thesis using frame_inv assms(2) by blast
qed

subsection \<open>Properties\<close>

lemma one_live_count:
  assumes "runs_wf d" "one_live d"
  shows "length (filter (\<lambda>r. sr_schedule_id r = i \<and> live_bound d r) (db_runs d)) \<le> 1"
  using assms by (intro distinct_all_equal) (auto simp: runs_wf_def distinct_map one_live_def)

text \<open>
  C22: Overlapping runs never happen. In every database that any interleaving of job transactions,
  deletions of history, due dispatches, manual runs, schedule edits, slot reservations and lease
  operations reaches from a good one, each schedule has at most one run whose job is still live,
  each slot of a schedule has at most one run, every bound job exists, and no plan has two active
  executions. A retried job is not a run of the schedule.
\<close>

theorem schedule_one_live_job:
  assumes "sched_step\<^sup>*\<^sup>* d d'" "sched_inv d"
  shows "length (filter (\<lambda>r. sr_schedule_id r = i \<and> live_bound d' r) (db_runs d')) \<le> 1 \<and>
    distinct (map (\<lambda>r. (sr_schedule_id r, sr_scheduled_for_utc r)) (db_runs d')) \<and>
    (\<forall>r \<in> set (db_runs d'). \<forall>k. sr_work_job_id r = Some k \<longrightarrow> (\<exists>j. get_job d' k = Some j)) \<and>
    length (filter (execution_job pid active_statuses) (db_jobs d')) \<le> 1"
proof -
  have "sched_inv d'" using assms by (induction rule: rtranclp_induct) (auto intro: sched_step_inv)
  then have i: "jobs_wf d'" "runs_wf d'" "one_live d'" by (simp_all add: sched_inv_def)
  have "\<exists>j. get_job d' k = Some j" if "r \<in> set (db_runs d')" "sr_work_job_id r = Some k" for r k
  proof -
    have "k \<in> wj_id ` set (db_jobs d')" using i(2) that by (auto simp: runs_wf_def)
    then show ?thesis using jobs.row_get by (fastforce simp: get_job_def)
  qed
  moreover have "distinct (map (\<lambda>r. (sr_schedule_id r, sr_scheduled_for_utc r)) (db_runs d'))"
    using i(2) by (simp add: runs_wf_def slot_key_def [abs_def])
  ultimately show ?thesis using one_live_count [OF i(2,3)] i(1) by (auto simp: jobs_wf_def)
qed

definition nightly_db :: db where
  "nightly_db = fresh_db\<lparr>db_schedules := [nightly],
     db_roots := [\<lparr>ir_id = 1, ir_root = ''/data/photos'', ir_created_at = 0\<rparr>]\<rparr>"

lemma nightly_db_inv: "sched_inv nightly_db"
  by (simp add: sched_inv_def jobs_wf_def runs_wf_def one_live_def nightly_db_def fresh_db_def)

definition run_nightly :: "time \<Rightarrow> db \<Rightarrow> run_now_error + (db \<times> schedule_run)" where
  "run_nightly = run_schedule_now plain_fs nas_settings (\<lambda>_ _. None) 1"

lemma run_nightly_twice:
  "map_sum id (\<lambda>(d, r). (sr_status r, length (db_jobs d)))
     (bind_res (run_nightly 500 nightly_db) (\<lambda>(d, r). run_nightly 600 d)) = Inr (''skipped_overlap'', 1)"
  by code_simp

theorem schedule_one_live_job_witness:
  "\<exists>d1 r1 d2 r2. run_nightly 500 nightly_db = Inr (d1, r1) \<and> run_nightly 600 d1 = Inr (d2, r2) \<and>
     sr_status r2 = ''skipped_overlap'' \<and>
     length (filter (\<lambda>r. sr_schedule_id r = 1 \<and> live_bound d2 r) (db_runs d2)) \<le> 1"
proof -
  obtain d1 r1 where 1: "run_nightly 500 nightly_db = Inr (d1, r1)"
    using run_nightly_twice by (cases "run_nightly 500 nightly_db") auto
  obtain d2 r2 where 2: "run_nightly 600 d1 = Inr (d2, r2)" "sr_status r2 = ''skipped_overlap''"
    using run_nightly_twice 1 by (cases "run_nightly 600 d1") auto
  have "sched_step nightly_db d1" using 1 unfolding run_nightly_def by (rule step_now)
  moreover have "sched_step d1 d2" using 2(1) unfolding run_nightly_def by (rule step_now)
  ultimately have "sched_step\<^sup>*\<^sup>* nightly_db d2" by auto
  from schedule_one_live_job [OF this nightly_db_inv, of 1] 1 2 show ?thesis by blast
qed

text \<open>
  C24: A manual run. The request fails only when the schedule does not exist, or when a run of this
  schedule already has this very instant as its slot, and then nothing changes. Otherwise exactly one
  run is added, at this instant and with the next run id; earlier runs keep their slots, and the
  schedule itself, its next and last slot included, is untouched. A job is queued only when no
  run of the schedule is live, and then the run is bound to it; a live one makes the run a skipped
  overlap; an invalid target makes it a failed run, and neither queues anything.
\<close>

theorem manual_run_outcome:
  assumes "runs_wf d"
  shows "case run_schedule_now fs st mode_of i now d of
      Inl e \<Rightarrow> e = NowNotFound i \<and> get_schedule_row d i = None \<or> e = NowCollision \<and> slot_taken d i now
    | Inr (d', run) \<Rightarrow> \<not> slot_taken d i now \<and> db_schedules d' = db_schedules d \<and>
        map slot_key (db_runs d') = map slot_key (db_runs d) @ [(i, now)] \<and> last (db_runs d') = run \<and>
        sr_id run = tbl_next_id sr_id (db_runs d) \<and>
        (if \<exists>r \<in> set (db_runs d). sr_schedule_id r = i \<and> live_bound d r
         then sr_status run = ''skipped_overlap'' \<and> db_jobs d' = db_jobs d \<and> db_scans d' = db_scans d
         else sr_status run = ''failed'' \<and> db_jobs d' = db_jobs d \<and> db_scans d' = db_scans d \<or>
           sr_status run = ''dispatched'' \<and> (\<exists>j. db_jobs d' = db_jobs d @ [j] \<and> wj_status j = QUEUED \<and>
             wj_id j \<notin> wj_id ` set (db_jobs d) \<and> sr_work_job_id run = Some (wj_id j)))"
proof (cases "run_schedule_now fs st mode_of i now d")
  case (Inl e)
  show ?thesis
  proof (cases "get_schedule_row d i")
    case None
    with Inl show ?thesis by (simp add: run_schedule_now_def)
  next
    case (Some s)
    obtain d1 a where a: "active_prior_run (sc_id s) d = (d1, a)" by (cases "active_prior_run (sc_id s) d")
    with Inl Some active_prior_frame(1) [OF a assms] get_schedule_id [OF Some] show ?thesis
      by (auto simp: run_schedule_now_def insert_run_def Let_def split: if_splits prod.splits)
  qed
next
  case (Inr x)
  obtain d' run where x: "x = (d', run)" by (cases x)
  with Inr obtain s res where s: "get_schedule_row d i = Some s" "\<not> slot_taken d i now"
    "db_schedules d' = db_schedules d" and core: "dispatch_core s now d d' run res"
    using run_now_core [OF assms, of fs st mode_of i now d' run] by metis
  have id: "sc_id s = i" using s(1) by (rule get_schedule_id)
  show ?thesis
    using dispatch_core_slots [OF core] dispatch_core_jobs [OF core] s Inr
    by (auto simp: x id split: if_splits)
qed

theorem manual_run_outcome_witness:
  "case run_nightly 500 nightly_db of Inl e \<Rightarrow> False
   | Inr (d', run) \<Rightarrow> db_schedules d' = [nightly] \<and> map slot_key (db_runs d') = [(1, 500)]"
proof -
  have "runs_wf nightly_db" using nightly_db_inv by (simp add: sched_inv_def)
  moreover have "db_schedules nightly_db = [nightly]" "db_runs nightly_db = []" by (simp_all add: nightly_db_def fresh_db_def)
  moreover obtain d1 r1 where "run_nightly 500 nightly_db = Inr (d1, r1)"
    using run_nightly_twice by (cases "run_nightly 500 nightly_db") auto
  ultimately show ?thesis
    using manual_run_outcome [of nightly_db 1 500 plain_fs nas_settings "\<lambda>_ _. None"] by (simp add: run_nightly_def)
qed


text \<open>A night's slot at 8 in the morning, Shanghai time, seen twenty seconds late.\<close>

definition leased_db :: db where
  "leased_db = nightly_db\<lparr>db_scheduler := Some \<lparr>ss_owner = Some ''s1'', ss_lease_expires_at = Some 86510000000,
     ss_heartbeat_at = Some 86420000000, ss_updated_at = 86420000000\<rparr>\<rparr>"

lemma nightly_next: "next_of_text fixed_zone ''0 8 * * *'' ''Asia/Shanghai'' 86400000000 = Inr 172800000000"
proof -
  have "next_occurrence fixed_zone daily ''Asia/Shanghai'' 86400000000 default_horizon = Inr 172800000000"
    by (rule next_occurrence_horizon [OF daily_second]) (simp add: default_horizon_def)
  then show ?thesis by (simp add: next_of_text_def daily_parsed)
qed

definition nightly_settled :: "db \<times> schedule_run \<times> outcome" where
  "nightly_settled =
     (let run = pending_run leased_db nightly 86400000000 86420000000
      in settle_run plain_fs nas_settings (\<lambda>_ _. None) (consumed 86400000000 172800000000 86420000000 nightly) run None
           86400000000 86420000000 (put_schedule (consumed 86400000000 172800000000 86420000000 nightly) (add_run run leased_db)))"

lemma nightly_settled_dispatched: "snd (snd nightly_settled) = Dispatched"
  by code_simp

lemma nightly_due:
  "process_due_schedule plain_fs nas_settings fixed_zone (\<lambda>_ _. None) ''s1'' 1 86420000000 leased_db
     = Inr (fst nightly_settled, Dispatched)"
proof -
  have l: "assert_scheduler_lease leased_db ''s1'' 86420000000 = Inr (the (db_scheduler leased_db))"
    by (simp add: assert_scheduler_lease_def leased_db_def)
  have s: "get_schedule_row leased_db 1 = Some nightly"
    by (simp add: get_schedule_row_def tbl_get_def leased_db_def nightly_db_def nightly_def)
  have n: "sc_enabled nightly" "sc_next_scheduled_for_utc nightly = Some 86400000000" "sc_id nightly = 1"
    "sc_cron_expression nightly = ''0 8 * * *''" "sc_timezone nightly = ''Asia/Shanghai''"
    by (simp_all add: nightly_def)
  have r: "db_runs leased_db = []" by (simp add: leased_db_def nightly_db_def fresh_db_def)
  have a: "active_prior_run 1 leased_db = (leased_db, None)" by (simp add: active_prior_run_def r)
  show ?thesis
    using nightly_settled_dispatched
    by (simp add: process_due_schedule_def l s n minute_floor_def slot_taken_def r a insert_run_def nightly_next
        Let_def nightly_settled_def consumed_def case_prod_beta)
qed


lemma process_due_row:
  assumes "runs_wf d" "process_due_schedule fs st zd mode_of owner i now d = Inr (d', res)" "\<forall>tz. zone_rules zd tz"
    and "get_schedule_row d i = Some s" "is_due now s"
  shows "res \<noteq> NotDue"
    and "k \<noteq> i \<Longrightarrow> get_schedule_row d' k = get_schedule_row d k"
    and "\<exists>slot s' u. sc_next_scheduled_for_utc s = Some slot \<and> get_schedule_row d' i = Some s' \<and>
      sc_next_scheduled_for_utc s' = Some u \<and> slot < u"
proof -
  have "res \<noteq> NotDue \<and> (\<exists>slot u s'. sc_next_scheduled_for_utc s = Some slot \<and> slot < u \<and>
      db_schedules d' = tbl_put sc_id s' (db_schedules d) \<and> sc_id s' = sc_id s \<and> sc_next_scheduled_for_utc s' = Some u)"
  proof (cases "\<exists>s slot. get_schedule_row d i = Some s \<and> sc_enabled s \<and> sc_next_scheduled_for_utc s = Some slot \<and>
       slot \<le> now \<and> minute_floor now \<le> slot \<and> \<not> slot_taken d i slot")
    case True
    then obtain slot where x: "get_schedule_row d i = Some s" "sc_enabled s" "sc_next_scheduled_for_utc s = Some slot"
      "slot \<le> now" "minute_floor now \<le> slot" "\<not> slot_taken d i slot" using assms(4) by auto
    obtain u run' where u: "next_of_text zd (sc_cron_expression s) (sc_timezone s) slot = Inr u"
      and core: "dispatch_core s slot d d' run' res"
      and sch: "db_schedules d' = tbl_put sc_id (consumed slot u now s) (db_schedules d)"
      by (rule process_due_core [OF assms(1,2) x])
    have "slot < u" using next_of_text_later [OF u] assms(3) by blast
    moreover have "res \<noteq> NotDue" using dispatch_core_jobs [OF core] by (auto split: if_splits)
    ultimately show ?thesis using x(3) sch by (intro conjI exI [of _ slot] exI [of _ u] exI [of _ "consumed slot u now s"]) (simp_all add: consumed_def)
  next
    case False
    from assms(2) False show ?thesis
    proof (cases rule: process_due_other)
      case not_due
      with assms(4,5) show ?thesis by simp
    next
      case (moved s1 slot u origin)
      then have s1: "s1 = s" using assms(4) by simp
      have "origin < u" using next_of_text_later [OF moved(6)] assms(3) by blast
      then have "slot < u" using moved(4,7) by auto
      moreover have "res \<noteq> NotDue" using moved(7) by blast
      ultimately show ?thesis using moved(3,5)
        by (intro conjI exI [of _ slot] exI [of _ u] exI [of _ "moved_on u now s"]) (simp_all add: moved_on_def s1)
    qed
  qed
  then obtain slot u s' where nd: "res \<noteq> NotDue" and n: "sc_next_scheduled_for_utc s = Some slot" "slot < u"
    and s': "db_schedules d' = tbl_put sc_id s' (db_schedules d)" "sc_id s' = sc_id s"
    "sc_next_scheduled_for_utc s' = Some u" by blast
  have id: "sc_id s = i" using assms(4) by (rule get_schedule_id)
  have row: "get_schedule_row d' k = (if k = i then Some s' else get_schedule_row d k)" for k
    using assms(4) by (auto simp: get_schedule_row_def s'(1,2) id schedules.get_put)
  show "res \<noteq> NotDue" by (rule nd)
  show "k \<noteq> i \<Longrightarrow> get_schedule_row d' k = get_schedule_row d k" by (simp add: row)
  show "\<exists>slot s' u. sc_next_scheduled_for_utc s = Some slot \<and> get_schedule_row d' i = Some s' \<and>
      sc_next_scheduled_for_utc s' = Some u \<and> slot < u"
    using n s'(3) by (simp add: row)
qed

definition tr_total :: "tick_result \<Rightarrow> int" where
  "tr_total c = tr_dispatched c + tr_skipped_overlap c + tr_missed_skipped c + tr_failed c + tr_duplicate_slots c"

lemma count_outcome_total:
  "res \<noteq> NotDue \<Longrightarrow> tr_total (count_outcome res c) = tr_total c + 1"
  "tr_due_seen (count_outcome res c) = tr_due_seen c"
  "tr_lease_acquired (count_outcome res c) = tr_lease_acquired c"
  by (cases res; simp add: count_outcome_def tr_total_def)+

definition advanced :: "db \<Rightarrow> db \<Rightarrow> int \<Rightarrow> bool" where
  "advanced d d' i \<longleftrightarrow> (\<exists>s slot s' u. get_schedule_row d i = Some s \<and> sc_next_scheduled_for_utc s = Some slot \<and>
     get_schedule_row d' i = Some s' \<and> sc_next_scheduled_for_utc s' = Some u \<and> slot < u)"

lemma process_all_accounts:
  assumes "process_all fs st zd mode_of owner now is c d = (d', Inr c')" "sched_inv d" "\<forall>tz. zone_rules zd tz"
    and "distinct is" "\<forall>i \<in> set is. \<exists>s. get_schedule_row d i = Some s \<and> is_due now s"
  shows "tr_total c' = tr_total c + int (length is) \<and> tr_due_seen c' = tr_due_seen c \<and>
    tr_lease_acquired c' = tr_lease_acquired c \<and>
    (\<forall>k. k \<notin> set is \<longrightarrow> get_schedule_row d' k = get_schedule_row d k) \<and> (\<forall>i \<in> set is. advanced d d' i)"
  using assms
proof (induction "is" arbitrary: c d)
  case (Cons i "is")
  obtain d1 res where p: "process_due_schedule fs st zd mode_of owner i now d = Inr (d1, res)"
    and r: "process_all fs st zd mode_of owner now is (count_outcome res c) d1 = (d', Inr c')"
    using Cons.prems(1) by (auto split: sum.splits)
  obtain s where s: "get_schedule_row d i = Some s" "is_due now s" using Cons.prems(5) by auto
  have wf: "runs_wf d" using Cons.prems(2) by (simp add: sched_inv_def)
  note row = process_due_row [OF wf p Cons.prems(3) s]
  have inv: "sched_inv d1" using process_inv [OF p Cons.prems(2)] .
  have others: "get_schedule_row d1 k = get_schedule_row d k" if "k \<in> set is" for k
    using that Cons.prems(4) by (intro row(2)) auto
  have due: "\<forall>i \<in> set is. \<exists>s. get_schedule_row d1 i = Some s \<and> is_due now s"
    using Cons.prems(5) others by simp
  have ih: "tr_total c' = tr_total (count_outcome res c) + int (length is)" "tr_due_seen c' = tr_due_seen (count_outcome res c)"
    "tr_lease_acquired c' = tr_lease_acquired (count_outcome res c)"
    "\<forall>k. k \<notin> set is \<longrightarrow> get_schedule_row d' k = get_schedule_row d1 k" "\<forall>i \<in> set is. advanced d1 d' i"
    using Cons.IH [OF r inv Cons.prems(3) _ due] Cons.prems(4) by simp_all
  have i: "i \<notin> set is" using Cons.prems(4) by simp
  then have "advanced d d' i" using row(3) s(1) ih(4) by (auto simp: advanced_def)
  moreover have "advanced d d' k" if "k \<in> set is" for k
    using bspec [OF ih(5) that] unfolding advanced_def others [OF that] .
  moreover have "get_schedule_row d' k = get_schedule_row d k" if "k \<notin> set (i # is)" for k
    using that ih(4) row(2) by simp
  ultimately show ?case using ih(1-3) count_outcome_total row(1) by simp
qed simp

text \<open>
  A tick accounts for every due schedule. Without the lease it does nothing. With it, a tick
  that ends has seen exactly the schedules that were due; each of them is counted under exactly one
  outcome and its next slot has moved past the one it was due for; the others keep their rows.
\<close>

theorem tick_accounts_for_due:
  assumes "run_scheduler_tick fs st zd mode_of owner ttl now d = (d', Inr c)"
    and "sched_inv d" "distinct (map sc_id (db_schedules d))" "\<forall>tz. zone_rules zd tz"
  shows "if tr_lease_acquired c
    then tr_due_seen c = int (length (filter (is_due now) (db_schedules d))) \<and>
      tr_dispatched c + tr_skipped_overlap c + tr_missed_skipped c + tr_failed c + tr_duplicate_slots c = tr_due_seen c \<and>
      (\<forall>s \<in> set (db_schedules d). if is_due now s then advanced d d' (sc_id s)
         else get_schedule_row d' (sc_id s) = Some s)
    else d' = d \<and> c = no_result"
proof -
  obtain d1 b where a: "acquire_scheduler_lease owner ttl now d = Inr (d1, b)"
    using assms(1) by (cases "acquire_scheduler_lease owner ttl now d") (auto simp: run_scheduler_tick_def)
  show ?thesis
  proof (cases b)
    case False
    then have "d1 = d" using lease_refused(1) [of owner ttl now d d1] a by simp
    then show ?thesis using assms(1) a False by (auto simp: run_scheduler_tick_def no_result_def)
  next
    case True
    have d1: "db_schedules d1 = db_schedules d" "db_runs d1 = db_runs d" "db_jobs d1 = db_jobs d"
      using a True by (auto simp: acquire_scheduler_granted)
    have get: "get_schedule_row d1 k = get_schedule_row d k" for k by (simp add: get_schedule_row_def d1)
    have mem: "get_schedule_row d (sc_id s) = Some s" if "s \<in> set (db_schedules d)" for s
      using tbl_get_mem [OF assms(3) that] by (simp add: get_schedule_row_def)
    let ?ids = "map sc_id (list_due_schedules now d1)"
    have ids: "set ?ids = sc_id ` {s \<in> set (db_schedules d). is_due now s}" by (auto simp: list_due_schedules_def d1)
    have len: "length ?ids = length (filter (is_due now) (db_schedules d))" by (simp add: list_due_schedules_def d1)
    have dist: "distinct ?ids" unfolding list_due_schedules_def d1 using assms(3)
      by (auto simp: distinct_map intro: inj_on_subset)
    let ?c = "no_result\<lparr>tr_lease_acquired := True, tr_due_seen := int (length ?ids)\<rparr>"
    have run: "process_all fs st zd mode_of owner now ?ids ?c d1 = (d', Inr c)"
      using assms(1) a True by (simp add: run_scheduler_tick_def Let_def)
    have due: "\<forall>i \<in> set ?ids. \<exists>s. get_schedule_row d1 i = Some s \<and> is_due now s"
      unfolding ids using mem get by auto
    have inv: "sched_inv d1" using frame_inv [OF assms(2) d1(2,3)] .
    note acc = process_all_accounts [OF run inv assms(4) dist due]
    have rows: "if is_due now s then advanced d d' (sc_id s) else get_schedule_row d' (sc_id s) = Some s"
      if s: "s \<in> set (db_schedules d)" for s
    proof (cases "is_due now s")
      case True
      then have "sc_id s \<in> set ?ids" using s unfolding ids by blast
      moreover have "\<forall>i \<in> set ?ids. advanced d1 d' i" using acc by blast
      ultimately have "advanced d1 d' (sc_id s)" by blast
      then show ?thesis using True unfolding advanced_def get by simp
    next
      case False
      then have "sc_id s \<notin> set ?ids"
        using s assms(3) unfolding ids by (auto simp: distinct_map dest: inj_onD)
      with acc mem [OF s] False show ?thesis by (simp add: get)
    qed
    have "tr_lease_acquired c" "tr_due_seen c = int (length ?ids)" "tr_total c = int (length ?ids)"
      using acc by (simp_all add: tr_total_def no_result_def)
    with rows len show ?thesis by (simp add: tr_total_def)
  qed
qed

lemma nightly_tick:
  "run_scheduler_tick plain_fs nas_settings fixed_zone (\<lambda>_ _. None) ''s1'' 90000000 86420000000 nightly_db
     = (fst nightly_settled, Inr (no_result\<lparr>tr_lease_acquired := True, tr_due_seen := 1, tr_dispatched := 1\<rparr>))"
proof -
  have "lease_args_ok ''s1'' 90000000" by code_simp
  then have a: "acquire_scheduler_lease ''s1'' 90000000 86420000000 nightly_db = Inr (leased_db, True)"
    by (simp add: acquire_scheduler_granted scheduler_holds_iff leased_db_def nightly_db_def fresh_db_def get_scheduler_state_def)
  have "list_due_schedules 86420000000 leased_db = [nightly]"
    by (simp add: list_due_schedules_def leased_db_def nightly_db_def is_due_def nightly_def)
  moreover have "sc_id nightly = 1" by (simp add: nightly_def)
  ultimately show ?thesis
    by (simp add: run_scheduler_tick_def a nightly_due count_outcome_def no_result_def Let_def)
qed

theorem tick_accounts_for_due_witness:
  "advanced nightly_db (fst nightly_settled) 1"
proof -
  have "distinct (map sc_id (db_schedules nightly_db))" "nightly \<in> set (db_schedules nightly_db)"
    by (simp_all add: nightly_db_def)
  moreover have "is_due 86420000000 nightly" "sc_id nightly = 1" by (simp_all add: is_due_def nightly_def)
  moreover have "tr_lease_acquired (no_result\<lparr>tr_lease_acquired := True, tr_due_seen := 1, tr_dispatched := 1\<rparr>)"
    by simp
  ultimately show ?thesis
    using tick_accounts_for_due [OF nightly_tick nightly_db_inv] fixed_zone_rules by fastforce
qed

end
