(* ===== verification/WorkflowSteps.thy ===== *)
theory WorkflowSteps
  imports Records
begin

section \<open>The steps of a workflow\<close>

text \<open>
  The action steps of app/workflows/schema.py, and the string methods their execution uses.
\<close>

record rename_step =
  rn_id :: string
  rn_pattern :: string
  rn_replacement :: string

record move_step =
  mv_id :: string
  mv_destination_root_id :: int
  mv_destination_subpath :: string

record touch_step =
  to_id :: string
  to_mtime_ns :: "int option"
  to_touch_now :: bool

record quarantine_step =
  qu_id :: string
  qu_reason :: string

subsection \<open>String methods\<close>

text \<open>\<open>s.replace(old, new)\<close>: every occurrence from the left, without overlaps; an empty \<open>old\<close> occurs
  before every character and at the end.\<close>

function py_replace :: "string \<Rightarrow> string \<Rightarrow> string \<Rightarrow> string" where
  "py_replace old new s =
     (if old = [] then new @ concat (map (\<lambda>c. c # new) s)
      else case s of [] \<Rightarrow> []
        | c # cs \<Rightarrow> if prefix old s then new @ py_replace old new (drop (length old) s)
                    else c # py_replace old new cs)"
  by pat_completeness auto

termination
  by (relation "measure (\<lambda>(old, new, s). length s)") (auto simp: prefix_def)

declare py_replace.simps [simp del]

definition strip_slashes :: "string \<Rightarrow> string" where
  "strip_slashes s = dropWhile (\<lambda>c. c = CHR ''/'' \<or> c = CHR 0x5C) s"

end
