(* ===== verification/TopoSort.thy ===== *)
theory TopoSort
  imports Prelude
begin

section \<open>The ordering of dependent operations\<close>

text \<open>
  Models the scheduling loop of \<open>resolve_ordered_operations\<close> in app/workflows/graph.py: Kahn's
  algorithm on the nodes 0 to n-1 with a binary heap, keyed by a tuple. An edge \<open>(u, v)\<close> puts u
  before v; edges may repeat. The heap of heapq is a list sorted by the key: what \<open>heappop\<close>
  returns is its head. The lemmas say that the loop ends, that it orders every node exactly if
  the edges have no cycle, and that its order is the least one that respects the edges.
\<close>

subsection \<open>The loop\<close>

type_synonym edges = "(nat \<times> nat) list"

definition adj :: "edges \<Rightarrow> nat \<Rightarrow> nat list" where
  "adj es u = map snd (filter (\<lambda>e. fst e = u) es)"

definition in_degree :: "nat \<Rightarrow> edges \<Rightarrow> int list" where
  "in_degree n es = map (\<lambda>v. int (length (filter (\<lambda>e. snd e = v) es))) [0..<n]"

text \<open>The inner loop: one decrement per edge, a push when the count reaches zero. Every edge ends
  at a node, so the list is never read beyond its end.\<close>

fun relax :: "(nat \<Rightarrow> 'k::linorder) \<Rightarrow> nat list \<Rightarrow> int list \<times> nat list \<Rightarrow> int list \<times> nat list" where
  "relax key [] (deg, heap) = (deg, heap)"
| "relax key (v # vs) (deg, heap) =
     (if v < length deg
      then relax key vs (deg[v := deg ! v - 1], if deg ! v - 1 = 0 then insort_key key v heap else heap)
      else relax key vs (deg, heap))"

definition waiting :: "int list \<Rightarrow> nat" where
  "waiting deg = length (filter (\<lambda>d. d > 0) deg)"

lemma waiting_upd: "v < length deg \<Longrightarrow>
  waiting (deg[v := x]) + (if deg ! v > 0 then 1 else 0) = waiting deg + (if x > 0 then 1 else 0)"
proof -
  assume v: "v < length deg"
  have "deg = take v deg @ deg ! v # drop (Suc v) deg" by (rule id_take_nth_drop [OF v])
  then have "waiting deg = waiting (take v deg @ deg ! v # drop (Suc v) deg)" by simp
  moreover have "deg[v := x] = take v deg @ x # drop (Suc v) deg" by (rule upd_conv_take_nth_drop [OF v])
  ultimately show ?thesis by (simp add: waiting_def)
qed

lemma relax_measure:
  "relax key vs (deg, heap) = (deg', heap') \<Longrightarrow> length heap' + waiting deg' \<le> length heap + waiting deg"
proof (induction vs arbitrary: deg heap)
  case (Cons v vs)
  show ?case
  proof (cases "v < length deg")
    case True
    let ?d = "deg[v := deg ! v - 1]" let ?h = "if deg ! v - 1 = 0 then insort_key key v heap else heap"
    have "length heap' + waiting deg' \<le> length ?h + waiting ?d"
      using Cons.prems True by (intro Cons.IH) simp
    also have "\<dots> \<le> length heap + waiting deg"
      using waiting_upd [OF True, of "deg ! v - 1"] by (cases "deg ! v - 1 = 0"; cases "deg ! v > 0") simp_all
    finally show ?thesis .
  qed (use Cons in auto)
qed simp

function kahn :: "(nat \<Rightarrow> 'k::linorder) \<Rightarrow> (nat \<Rightarrow> nat list) \<Rightarrow> nat list \<Rightarrow> int list \<Rightarrow> nat list \<Rightarrow> nat list \<times> int list" where
  "kahn key nexts [] deg ordered = (ordered, deg)"
| "kahn key nexts (u # heap) deg ordered =
     (let r = relax key (nexts u) (deg, heap) in kahn key nexts (snd r) (fst r) (ordered @ [u]))"
  by pat_completeness auto

termination
proof (relation "measure (\<lambda>(key, nexts, heap, deg, ordered). length heap + waiting deg)")
  fix key :: "nat \<Rightarrow> 'k::linorder" and nexts and u :: nat and heap deg and ordered :: "nat list" and r
  assume r: "r = relax key (nexts u) (deg, heap)"
  then have "length (snd r) + waiting (fst r) \<le> length heap + waiting deg"
    by (intro relax_measure) simp
  then show "((key, nexts, snd r, fst r, ordered @ [u]), key, nexts, u # heap, deg, ordered)
      \<in> measure (\<lambda>(key, nexts, heap, deg, ordered). length heap + waiting deg)" by simp
qed simp

definition initial_heap :: "(nat \<Rightarrow> 'k::linorder) \<Rightarrow> int list \<Rightarrow> nat list" where
  "initial_heap key deg = sort_key key (filter (\<lambda>i. deg ! i = 0) [0..<length deg])"

definition topological :: "(nat \<Rightarrow> 'k::linorder) \<Rightarrow> nat \<Rightarrow> edges \<Rightarrow> nat list \<times> int list" where
  "topological key n es = kahn key (adj es) (initial_heap key (in_degree n es)) (in_degree n es) []"

subsection \<open>Orders that respect the edges\<close>

definition obeys :: "edges \<Rightarrow> nat list \<Rightarrow> bool" where
  "obeys es xs \<longleftrightarrow> (\<forall>k < length xs. \<forall>u. (u, xs ! k) \<in> set es \<longrightarrow> u \<in> set (take k xs))"

definition linear_order_of :: "nat \<Rightarrow> edges \<Rightarrow> nat list \<Rightarrow> bool" where
  "linear_order_of n es xs \<longleftrightarrow> distinct xs \<and> set xs = {..<n} \<and> obeys es xs"

definition edges_in :: "nat \<Rightarrow> edges \<Rightarrow> bool" where
  "edges_in n es \<longleftrightarrow> (\<forall>(u, v) \<in> set es. u < n \<and> v < n)"

lemma obeys_Nil [simp]: "obeys es []"
  by (simp add: obeys_def)

lemma obeys_append:
  "obeys es (xs @ [u]) \<longleftrightarrow> obeys es xs \<and> (\<forall>w. (w, u) \<in> set es \<longrightarrow> w \<in> set xs)"
  by (auto simp: obeys_def nth_append less_Suc_eq)

lemma obeys_prefix: "obeys es (xs @ ys) \<Longrightarrow> obeys es xs"
proof (induction ys rule: rev_induct)
  case (snoc y ys)
  have "obeys es ((xs @ ys) @ [y])" using snoc.prems by simp
  then show ?case using snoc.IH by (simp only: obeys_append)
qed simp

lemma obeys_before: "obeys es xs \<Longrightarrow> v \<in> set xs \<Longrightarrow> (w, v) \<in> set es \<Longrightarrow> w \<in> set xs"
proof -
  assume o: "obeys es xs" "(w, v) \<in> set es" and "v \<in> set xs"
  then obtain k where "k < length xs" "xs ! k = v" by (auto simp: in_set_conv_nth)
  then have "w \<in> set (take k xs)" using o by (auto simp: obeys_def)
  then show ?thesis by (rule in_set_takeD)
qed

text \<open>How many edges lead to v from nodes that are not ordered yet.\<close>

definition pending :: "edges \<Rightarrow> nat list \<Rightarrow> nat \<Rightarrow> nat" where
  "pending es xs v = length (filter (\<lambda>e. snd e = v \<and> fst e \<notin> set xs) es)"

lemma pending_0: "pending es xs v = 0 \<longleftrightarrow> (\<forall>w. (w, v) \<in> set es \<longrightarrow> w \<in> set xs)"
  by (auto simp: pending_def filter_empty_conv)

lemma pending_step:
  assumes "u \<notin> set xs"
  shows "pending es xs v = pending es (xs @ [u]) v + count_list (adj es u) v"
  using assms by (induction es) (auto simp: pending_def adj_def)

definition kahn_inv :: "(nat \<Rightarrow> 'k::linorder) \<Rightarrow> nat \<Rightarrow> edges \<Rightarrow> nat list \<Rightarrow> int list \<Rightarrow> nat list \<Rightarrow> bool" where
  "kahn_inv key n es heap deg xs \<longleftrightarrow>
     distinct (xs @ heap) \<and> set xs \<subseteq> {..<n} \<and> sorted (map key heap) \<and> length deg = n \<and>
     (\<forall>v < n. deg ! v = int (pending es xs v)) \<and>
     (\<forall>v. v \<in> set heap \<longleftrightarrow> v < n \<and> v \<notin> set xs \<and> pending es xs v = 0) \<and> obeys es xs"

text \<open>The inner loop takes the edges of one node away and pushes what they were the last for.\<close>

lemma relax_effect:
  assumes "\<forall>v < length deg. int (count_list vs v) \<le> deg ! v" "\<forall>v \<in> set vs. v < length deg"
    and "distinct heap" "\<forall>v \<in> set heap. v \<notin> set vs" "sorted (map key heap)"
    and "relax key vs (deg, heap) = (deg', heap')"
  shows "length deg' = length deg \<and> (\<forall>v < length deg. deg' ! v = deg ! v - int (count_list vs v)) \<and>
    distinct heap' \<and> sorted (map key heap') \<and>
    set heap' = set heap \<union> {v \<in> set vs. deg ! v = int (count_list vs v)}"
  using assms
proof (induction vs arbitrary: deg heap)
  case (Cons v vs)
  let ?d = "deg[v := deg ! v - 1]"
  let ?h = "if deg ! v - 1 = 0 then insort_key key v heap else heap"
  have v: "v < length deg" and le: "int (count_list (v # vs) v) \<le> deg ! v" using Cons.prems by auto
  have le_w: "int (count_list vs w) \<le> ?d ! w" if "w < length ?d" for w
    using Cons.prems(1) that v by (cases "w = v") auto
  have zero: "deg ! v - 1 = 0 \<Longrightarrow> v \<notin> set vs"
    using le by (auto simp: count_list_0_iff)
  have IH: "length deg' = length ?d \<and> (\<forall>w < length ?d. deg' ! w = ?d ! w - int (count_list vs w)) \<and>
    distinct heap' \<and> sorted (map key heap') \<and>
    set heap' = set ?h \<union> {w \<in> set vs. ?d ! w = int (count_list vs w)}"
    using Cons.prems v le_w zero
    by (intro Cons.IH) (auto simp: set_insort_key distinct_insort sorted_insort_key)
  have "set ?h \<union> {w \<in> set vs. ?d ! w = int (count_list vs w)}
      = set heap \<union> {w \<in> set (v # vs). deg ! w = int (count_list (v # vs) w)}"
    using v zero le by (auto simp: set_insort_key nth_list_update count_list_0_iff)
  with IH v show ?case by (auto simp: nth_list_update)
qed auto

lemma adj_set: "v \<in> set (adj es u) \<longleftrightarrow> (u, v) \<in> set es"
  by (force simp: adj_def)

lemma kahn_inv_step:
  assumes inv: "kahn_inv key n es (u # heap) deg xs" and es: "edges_in n es"
    and r: "relax key (adj es u) (deg, heap) = (deg', heap')"
  shows "kahn_inv key n es heap' deg' (xs @ [u])"
proof -
  have u: "u < n" "u \<notin> set xs" "pending es xs u = 0" using inv by (auto simp: kahn_inv_def)
  have len: "length deg = n" and deg: "v < n \<Longrightarrow> deg ! v = int (pending es xs v)" for v
    using inv by (auto simp: kahn_inv_def)
  have range: "v \<in> set (adj es u) \<Longrightarrow> v < n" for v using es by (auto simp: edges_in_def adj_set)
  have step: "pending es xs v = pending es (xs @ [u]) v + count_list (adj es u) v" for v
    by (rule pending_step [OF u(2)])
  have notin: "v \<notin> set (adj es u)" if "v \<in> set heap" for v
  proof -
    have "pending es xs v = 0" using inv that by (auto simp: kahn_inv_def)
    then show ?thesis using step [of v] by (simp add: count_list_0_iff)
  qed
  have "length deg' = length deg \<and> (\<forall>v < length deg. deg' ! v = deg ! v - int (count_list (adj es u) v)) \<and>
    distinct heap' \<and> sorted (map key heap') \<and>
    set heap' = set heap \<union> {v \<in> set (adj es u). deg ! v = int (count_list (adj es u) v)}"
    by (rule relax_effect [OF _ _ _ _ _ r]) (use inv deg step range notin len in \<open>auto simp: kahn_inv_def\<close>)
  then have eff: "length deg' = n" "v < n \<Longrightarrow> deg' ! v = int (pending es (xs @ [u]) v)" "distinct heap'" "sorted (map key heap')"
    and set_heap: "set heap' = set heap \<union> {v \<in> set (adj es u). deg ! v = int (count_list (adj es u) v)}" for v
    using len deg step by auto
  have heap_iff: "v \<in> set heap' \<longleftrightarrow> v < n \<and> v \<notin> set (xs @ [u]) \<and> pending es (xs @ [u]) v = 0" for v
  proof -
    have old: "v \<in> set heap \<longleftrightarrow> v < n \<and> v \<notin> set (xs @ [u]) \<and> pending es xs v = 0"
      using inv by (auto simp: kahn_inv_def)
    have past: "v \<in> set (xs @ [u]) \<Longrightarrow> v \<notin> set (adj es u)"
      using inv u(2,3) obeys_before [of es xs v u] by (auto simp: kahn_inv_def adj_set pending_0)
    have "v \<in> set (adj es u) \<and> deg ! v = int (count_list (adj es u) v) \<longleftrightarrow>
        v \<in> set (adj es u) \<and> v < n \<and> v \<notin> set (xs @ [u]) \<and> pending es (xs @ [u]) v = 0"
      using range deg step [of v] past by auto
    moreover have "v \<notin> set (adj es u) \<longrightarrow> pending es xs v = pending es (xs @ [u]) v"
      using step [of v] by (simp add: count_list_0_iff)
    moreover have "v \<in> set (adj es u) \<longrightarrow> pending es xs v \<noteq> 0"
      using step [of v] by (auto simp: count_list_0_iff)
    ultimately show ?thesis unfolding set_heap
      by (cases "v \<in> set (adj es u)") (use old in \<open>auto simp del: set_append\<close>)
  qed
  have res: "obeys es (xs @ [u])"
    using inv u(3) by (auto simp: kahn_inv_def obeys_append pending_0)
  have dist: "distinct ((xs @ [u]) @ heap')"
    using eff(3) heap_iff u inv by (auto simp: kahn_inv_def)
  show ?thesis unfolding kahn_inv_def using eff heap_iff res dist inv u by (auto simp: kahn_inv_def)
qed

lemma kahn_inv_init:
  "kahn_inv key n es (initial_heap key (in_degree n es)) (in_degree n es) []"
  by (auto simp: kahn_inv_def initial_heap_def in_degree_def pending_def)

text \<open>What is left over when the heap is empty has no beginning.\<close>

lemma leftover_cyclic:
  assumes "S \<noteq> {}" "finite S" "\<And>v. v \<in> S \<Longrightarrow> \<exists>u \<in> S. (u, v) \<in> E"
  shows "\<not> acyclic E"
proof
  assume a: "acyclic E"
  let ?E = "E \<inter> S \<times> S"
  have "acyclic ?E" using a by (rule acyclic_subset) auto
  moreover have "finite ?E" using assms(2) by auto
  ultimately have "wf ?E" by (rule finite_acyclic_wf [rotated])
  then obtain z where "z \<in> S" "\<forall>y. (y, z) \<in> ?E \<longrightarrow> y \<notin> S" using assms(1) by (meson ex_in_conv wfE_min)
  with assms(3) show False by blast
qed

lemma obeys_acyclic:
  assumes "distinct xs" "obeys es xs" "\<forall>(u, v) \<in> set es. v \<in> set xs"
  shows "acyclic (set es)"
proof -
  define pos where "pos v = (LEAST k. k < length xs \<and> xs ! k = v)" for v
  have pos: "k < length xs \<Longrightarrow> pos (xs ! k) = k" for k
    unfolding pos_def by (rule Least_equality) (use assms(1) in \<open>auto simp: nth_eq_iff_index_eq\<close>)
  have "(u, v) \<in> set es \<Longrightarrow> pos u < pos v" for u v
  proof -
    assume e: "(u, v) \<in> set es"
    then have "v \<in> set xs" using assms(3) by blast
    then obtain k where k: "k < length xs" "xs ! k = v" by (auto simp: in_set_conv_nth)
    then have "u \<in> set (take k xs)" using assms(2) e by (auto simp: obeys_def)
    then obtain j where "j < k" "xs ! j = u" using k by (auto simp: in_set_conv_nth)
    then show ?thesis using pos [of j] pos [of k] k by simp
  qed
  then have "set es \<subseteq> measure pos" by auto
  then have "wf (set es)" by (rule wf_subset [OF wf_measure])
  then show ?thesis by (rule wf_acyclic)
qed

lemma kahn_result:
  assumes "kahn_inv key n es heap deg xs" "edges_in n es" "kahn key (adj es) heap deg xs = (ys, deg')"
  shows "kahn_inv key n es [] deg' ys \<and> prefix xs ys"
  using assms
proof (induction key "adj es" heap deg xs arbitrary: ys deg' rule: kahn.induct)
  case (2 key u heap deg ordered)
  obtain dg hp where r: "relax key (adj es u) (deg, heap) = (dg, hp)" by (cases "relax key (adj es u) (deg, heap)")
  have "kahn_inv key n es hp dg (ordered @ [u])" by (rule kahn_inv_step [OF 2(2,3) r])
  then have "kahn_inv key n es [] deg' ys \<and> prefix (ordered @ [u]) ys"
    using 2(1) [OF refl] 2(3,4) r by simp
  then show ?case by (auto simp: prefix_def)
qed simp

lemma kahn_inv_end:
  assumes "kahn_inv key n es [] deg xs" "edges_in n es"
  shows "length xs = n \<longleftrightarrow> acyclic (set es)" "length xs \<le> n" "length xs = n \<Longrightarrow> linear_order_of n es xs"
proof -
  have d: "distinct xs" "set xs \<subseteq> {..<n}" "obeys es xs" using assms(1) by (auto simp: kahn_inv_def)
  have card: "card (set xs) = length xs" using d(1) by (rule distinct_card)
  then show "length xs \<le> n" using card_mono [OF _ d(2)] by simp
  have full: "length xs = n \<longleftrightarrow> set xs = {..<n}"
    using d card by (metis card_lessThan card_subset_eq finite_lessThan)
  show "length xs = n \<Longrightarrow> linear_order_of n es xs" using full d by (simp add: linear_order_of_def)
  have "acyclic (set es)" if "set xs = {..<n}"
    by (rule obeys_acyclic [OF d(1,3)]) (use assms(2) that in \<open>auto simp: edges_in_def\<close>)
  moreover have "\<not> acyclic (set es)" if "set xs \<noteq> {..<n}"
  proof (rule leftover_cyclic)
    show "{..<n} - set xs \<noteq> {}" using that d(2) by blast
    show "\<exists>u \<in> {..<n} - set xs. (u, v) \<in> set es" if "v \<in> {..<n} - set xs" for v
    proof -
      have "pending es xs v \<noteq> 0" using that assms(1) by (auto simp: kahn_inv_def)
      then show ?thesis using assms(2) by (auto simp: pending_0 edges_in_def)
    qed
  qed simp
  ultimately show "length xs = n \<longleftrightarrow> acyclic (set es)" using full by blast
qed

text \<open>The loop orders every node, in an order that respects the edges, exactly if they have no cycle.\<close>

lemma topological_complete:
  assumes "edges_in n es" "topological key n es = (xs, deg)"
  shows "length xs = n \<longleftrightarrow> acyclic (set es)" "length xs \<le> n" "length xs = n \<Longrightarrow> linear_order_of n es xs"
    and "length xs < n \<Longrightarrow> {v. v < n \<and> deg ! v > 0} = {..<n} - set xs" "set xs \<subseteq> {..<n}"
proof -
  have i: "kahn_inv key n es [] deg xs"
    using kahn_result [OF kahn_inv_init assms(1)] assms(2) by (simp add: topological_def)
  show "length xs = n \<longleftrightarrow> acyclic (set es)" "length xs \<le> n" "length xs = n \<Longrightarrow> linear_order_of n es xs"
    by (rule kahn_inv_end [OF i assms(1)])+
  show "set xs \<subseteq> {..<n}" using i by (simp add: kahn_inv_def)
  have "deg ! v > 0 \<longleftrightarrow> v \<notin> set xs" if v: "v < n" for v
  proof
    assume "v \<notin> set xs"
    then show "deg ! v > 0" using i v by (auto simp: kahn_inv_def)
  next
    assume p: "deg ! v > 0"
    show "v \<notin> set xs"
    proof
      assume "v \<in> set xs"
      then have "pending es xs v = 0"
        using i obeys_before [of es xs v] by (auto simp: pending_0 kahn_inv_def)
      then show False using p i v by (simp add: kahn_inv_def)
    qed
  qed
  then show "{v. v < n \<and> deg ! v > 0} = {..<n} - set xs" by auto
qed

subsection \<open>The least order\<close>

lemma kahn_least:
  assumes "kahn_inv key n es heap deg xs" "edges_in n es" "inj_on key {..<n}"
    and "kahn key (adj es) heap deg xs = (xs @ rest, deg')"
    and "linear_order_of n es (xs @ zs)"
  shows "map key rest \<le> map key zs"
  using assms
proof (induction key "adj es" heap deg xs arbitrary: rest zs deg' rule: kahn.induct)
  case (2 key u heap deg ordered)
  obtain dg hp where r: "relax key (adj es u) (deg, heap) = (dg, hp)" by (cases "relax key (adj es u) (deg, heap)")
  have inv: "kahn_inv key n es hp dg (ordered @ [u])" by (rule kahn_inv_step [OF 2(2,3) r])
  have run: "kahn key (adj es) hp dg (ordered @ [u]) = (ordered @ rest, deg')" using 2(5) r by simp
  then have "prefix (ordered @ [u]) (ordered @ rest)" using kahn_result [OF inv 2(3)] by blast
  then obtain rest' where rest: "rest = u # rest'" by (auto simp: prefix_def)
  have u: "u < n" "u \<notin> set ordered" using 2(2) by (auto simp: kahn_inv_def)
  then obtain z zs' where zs: "zs = z # zs'" using 2(6) by (cases zs) (auto simp: linear_order_of_def)
  have "obeys es (ordered @ [z])" using 2(6) obeys_prefix [of es "ordered @ [z]" zs'] by (simp add: linear_order_of_def zs)
  then have "z \<in> set (u # heap)"
    using 2(2,6) by (auto simp: kahn_inv_def zs obeys_append pending_0 linear_order_of_def)
  then have le: "key u \<le> key z" using 2(2) by (auto simp: kahn_inv_def)
  show ?case
  proof (cases "key u = key z")
    case True
    have "z < n" using 2(6) by (auto simp: linear_order_of_def zs)
    then have eq: "z = u" using True 2(4) u by (auto simp: inj_on_def)
    have "map key rest' \<le> map key zs'"
      using 2(1) [OF refl, unfolded r, simplified, OF inv 2(3,4), of rest' deg' zs'] run 2(6)
      by (simp add: rest zs eq)
    then show ?thesis by (simp add: rest zs eq)
  qed (use le in \<open>simp add: rest zs\<close>)
qed simp

lemma topological_least:
  assumes "edges_in n es" "topological key n es = (xs, deg)" "inj_on key {..<n}" "linear_order_of n es ys"
  shows "map key xs \<le> map key ys"
  using kahn_least [OF kahn_inv_init assms(1,3), of xs deg ys] assms(2,4) by (simp add: topological_def)

end
