(* ===== verification/VirtualGraph.thy ===== *)
theory VirtualGraph
  imports WorkflowSteps PathSafety TopoSort "HOL-Library.AList"
begin

section \<open>The virtual path graph\<close>

text \<open>
  Models app/workflows/graph.py: a workflow is simulated on the indexed paths of its candidates,
  each step appends an operation to every candidate it changes, and at the end the operations of
  all candidates are checked for collisions and put in an order in which they can run. The dict
  of candidates is an association list in insertion order. Operations are objects: the branch for
  operations given as dictionaries, which no step makes, is left out, and of the metadata the step
  id is kept.
\<close>

record virtual_operation =
  vo_candidate_id :: int
  vo_workflow_step_index :: nat
  vo_candidate_operation_index :: nat
  vo_operation :: string
  vo_source :: string
  vo_target :: "string option"
  vo_mtime_ns :: "int option"
  vo_reason :: "string option"
  vo_sequence :: nat
  vo_step_id :: string

record virtual_candidate =
  vc_id :: int
  vc_original_path :: string
  vc_original_root_id :: int
  vc_current_path :: string
  vc_current_root_id :: int
  vc_size :: int
  vc_mtime_ns :: int
  vc_is_quarantined :: bool
  vc_operations :: "virtual_operation list"

record virtual_graph =
  vg_allowed_roots :: "string list"
  vg_quarantine_root :: "string option"
  vg_candidates :: "(int \<times> virtual_candidate) list"

datatype graph_error =
    BoundaryError string path_error
  | SameTarget string int int
  | SharedTarget string "int list"
  | TargetExists string int
  | OccupantStays string int int
  | DependencyCycle "string list"

definition new_graph :: "string list \<Rightarrow> string option \<Rightarrow> virtual_graph" where
  "new_graph roots quarantine =
     \<lparr>vg_allowed_roots = roots, vg_quarantine_root = quarantine, vg_candidates = []\<rparr>"

definition add_candidate :: "virtual_candidate \<Rightarrow> virtual_graph \<Rightarrow> virtual_graph" where
  "add_candidate c g = g\<lparr>vg_candidates := AList.update (vc_id c) c (vg_candidates g)\<rparr>"

subsection \<open>The steps\<close>

definition append_op :: "string \<Rightarrow> string option \<Rightarrow> int option \<Rightarrow> string option \<Rightarrow> string \<Rightarrow> nat \<Rightarrow>
    virtual_candidate \<Rightarrow> virtual_candidate" where
  "append_op name target mtime reason step_id step_index c =
     c\<lparr>vc_operations := vc_operations c @
       [\<lparr>vo_candidate_id = vc_id c, vo_workflow_step_index = step_index,
         vo_candidate_operation_index = length (vc_operations c), vo_operation = name,
         vo_source = vc_current_path c, vo_target = target, vo_mtime_ns = mtime, vo_reason = reason,
         vo_sequence = 0, vo_step_id = step_id\<rparr>]\<rparr>"

text \<open>The target of a rename and of a move for a file at a path, nothing when it stays.\<close>

definition rename_target :: "rename_step \<Rightarrow> string \<Rightarrow> string option" where
  "rename_target st current =
     (let p = pure_path current; new_name = py_replace (rn_pattern st) (rn_replacement st) (pure_name p) in
      if new_name = pure_name p then None else Some (pure_str (pure_join (pure_parent p) new_name)))"

definition move_dir :: "move_step \<Rightarrow> string \<Rightarrow> pure_path" where
  "move_dir st root =
     (if mv_destination_subpath st = [] then pure_path root
      else pure_join (pure_path root) (strip_slashes (py_strip (mv_destination_subpath st))))"

definition move_target :: "move_step \<Rightarrow> string \<Rightarrow> string \<Rightarrow> string option" where
  "move_target st root current =
     (let target = pure_str (pure_join (move_dir st root) (pure_name (pure_path current))) in
      if target = current then None else Some target)"

text \<open>
  The loop both steps share, over the candidates by id: a file that moves needs a valid
  destination no other file of the step has taken.
\<close>

fun relocate_each :: "mutation_fs \<Rightarrow> string list \<Rightarrow> string option \<Rightarrow> (string \<Rightarrow> string option) \<Rightarrow>
    (string \<Rightarrow> virtual_candidate \<Rightarrow> virtual_candidate) \<Rightarrow> int list \<Rightarrow> (string \<times> int) list \<Rightarrow>
    (int \<times> virtual_candidate) list \<Rightarrow> graph_error + (int \<times> virtual_candidate) list" where
  "relocate_each fs roots quarantine goal place [] targets cands = Inr cands"
| "relocate_each fs roots quarantine goal place (cid # cids) targets cands =
     (case map_of cands cid of
        None \<Rightarrow> relocate_each fs roots quarantine goal place cids targets cands
      | Some c \<Rightarrow>
         if vc_is_quarantined c then relocate_each fs roots quarantine goal place cids targets cands
         else case goal (vc_current_path c) of
           None \<Rightarrow> relocate_each fs roots quarantine goal place cids targets cands
         | Some raw \<Rightarrow>
            (case validate_mutation_destination fs roots quarantine raw of
               Inl e \<Rightarrow> Inl (BoundaryError raw e)
             | Inr dest \<Rightarrow>
                (case map_of targets (path_str dest) of
                   Some other \<Rightarrow> Inl (SameTarget (path_str dest) other cid)
                 | None \<Rightarrow> relocate_each fs roots quarantine goal place cids
                     ((path_str dest, cid) # targets) (AList.update cid (place (path_str dest) c) cands))))"

definition relocate :: "mutation_fs \<Rightarrow> (string \<Rightarrow> string option) \<Rightarrow>
    (string \<Rightarrow> virtual_candidate \<Rightarrow> virtual_candidate) \<Rightarrow> virtual_graph \<Rightarrow> graph_error + virtual_graph" where
  "relocate fs goal place g =
     bind_res (relocate_each fs (vg_allowed_roots g) (vg_quarantine_root g) goal place
        (sort (map fst (vg_candidates g))) [] (vg_candidates g))
       (\<lambda>cands. Inr (g\<lparr>vg_candidates := cands\<rparr>))"

definition place_renamed :: "rename_step \<Rightarrow> nat \<Rightarrow> string \<Rightarrow> virtual_candidate \<Rightarrow> virtual_candidate" where
  "place_renamed st step_index target c =
     (append_op ''rename'' (Some target) None None (rn_id st) step_index c)\<lparr>vc_current_path := target\<rparr>"

definition apply_rename :: "mutation_fs \<Rightarrow> rename_step \<Rightarrow> nat \<Rightarrow> virtual_graph \<Rightarrow> graph_error + virtual_graph" where
  "apply_rename fs st step_index = relocate fs (rename_target st) (place_renamed st step_index)"

definition place_moved :: "move_step \<Rightarrow> nat \<Rightarrow> string \<Rightarrow> virtual_candidate \<Rightarrow> virtual_candidate" where
  "place_moved st step_index target c =
     (append_op ''move'' (Some target) None None (mv_id st) step_index c)
       \<lparr>vc_current_path := target, vc_current_root_id := mv_destination_root_id st\<rparr>"

definition apply_move :: "mutation_fs \<Rightarrow> move_step \<Rightarrow> string \<Rightarrow> nat \<Rightarrow> virtual_graph \<Rightarrow> graph_error + virtual_graph" where
  "apply_move fs st root step_index = relocate fs (move_target st root) (place_moved st step_index)"

definition on_present :: "(virtual_candidate \<Rightarrow> virtual_candidate) \<Rightarrow> virtual_graph \<Rightarrow> virtual_graph" where
  "on_present f g = g\<lparr>vg_candidates :=
     map (\<lambda>(cid, c). (cid, if vc_is_quarantined c then c else f c)) (vg_candidates g)\<rparr>"

definition apply_touch :: "touch_step \<Rightarrow> nat \<Rightarrow> virtual_graph \<Rightarrow> virtual_graph" where
  "apply_touch st step_index =
     on_present (append_op ''touch'' None (to_mtime_ns st) None (to_id st) step_index)"

definition apply_quarantine :: "quarantine_step \<Rightarrow> nat \<Rightarrow> virtual_graph \<Rightarrow> virtual_graph" where
  "apply_quarantine st step_index = on_present (\<lambda>c.
     (append_op ''quarantine'' None None (Some (qu_reason st)) (qu_id st) step_index c)\<lparr>vc_is_quarantined := True\<rparr>)"

subsection \<open>Collecting the operations\<close>

definition ordered_candidates :: "virtual_graph \<Rightarrow> virtual_candidate list" where
  "ordered_candidates g = sort_key (\<lambda>c. (vc_original_path c, vc_id c)) (map snd (vg_candidates g))"

definition all_ops :: "virtual_candidate list \<Rightarrow> virtual_operation list" where
  "all_ops cs = concat (map vc_operations cs)"

text \<open>The identity of an operation object: whose it is and where in its list; its index among all.\<close>

definition op_slots :: "virtual_candidate list \<Rightarrow> (int \<times> nat) list" where
  "op_slots cs = concat (map (\<lambda>c. map (\<lambda>k. (vc_id c, k)) [0..<length (vc_operations c)]) cs)"

definition op_index :: "virtual_candidate list \<Rightarrow> int \<times> nat \<Rightarrow> nat" where
  "op_index cs s = length (takeWhile (\<lambda>t. t \<noteq> s) (op_slots cs))"

definition relocates :: "virtual_operation \<Rightarrow> bool" where
  "relocates op \<longleftrightarrow> vo_target op \<noteq> None \<and> vo_target op \<noteq> Some (vo_source op)"

definition vacating :: "virtual_operation list \<Rightarrow> string \<Rightarrow> nat list" where
  "vacating ops p = filter (\<lambda>i. relocates (ops ! i) \<and> vo_source (ops ! i) = p) [0..<length ops]"

definition candidates_to :: "virtual_operation list \<Rightarrow> string \<Rightarrow> int list" where
  "candidates_to ops t = remdups (map vo_candidate_id (filter (\<lambda>op. relocates op \<and> vo_target op = Some t) ops))"

definition final_candidates :: "virtual_graph \<Rightarrow> virtual_operation list \<Rightarrow> string \<Rightarrow> int list" where
  "final_candidates g ops t =
     filter (\<lambda>cid. map_option vc_current_path (map_of (vg_candidates g) cid) = Some t) (candidates_to ops t)"

definition check_shared_targets :: "virtual_graph \<Rightarrow> virtual_operation list \<Rightarrow> graph_error + unit" where
  "check_shared_targets g ops =
     (case find (\<lambda>op. relocates op \<and> length (candidates_to ops (the (vo_target op))) > 1 \<and>
                  length (final_candidates g ops (the (vo_target op))) > 1) ops of
        None \<Rightarrow> Inr ()
      | Some op \<Rightarrow> Inl (SharedTarget (the (vo_target op)) (sort (final_candidates g ops (the (vo_target op))))))"

definition original_path_to_cand :: "virtual_graph \<Rightarrow> string \<rightharpoonup> virtual_candidate" where
  "original_path_to_cand g = map_of (rev (map (\<lambda>(cid, c). (vc_original_path c, c)) (vg_candidates g)))"

definition check_target :: "mutation_fs \<Rightarrow> virtual_graph \<Rightarrow> virtual_operation list \<Rightarrow> virtual_operation \<Rightarrow> graph_error + unit" where
  "check_target fs g ops op =
     (if relocates op \<and> fs_exists fs (the (vo_target op)) then
        (case original_path_to_cand g (the (vo_target op)) of
           None \<Rightarrow> Inl (TargetExists (the (vo_target op)) (vo_candidate_id op))
         | Some occupant \<Rightarrow>
            if vacating ops (the (vo_target op)) = []
            then Inl (OccupantStays (the (vo_target op)) (vo_candidate_id op) (vc_id occupant)) else Inr ())
      else Inr ())"

fun check_targets :: "mutation_fs \<Rightarrow> virtual_graph \<Rightarrow> virtual_operation list \<Rightarrow> virtual_operation list \<Rightarrow> graph_error + unit" where
  "check_targets fs g ops [] = Inr ()"
| "check_targets fs g ops (op # rest) = bind_res (check_target fs g ops op) (\<lambda>_. check_targets fs g ops rest)"

subsection \<open>Dependencies and the order\<close>

definition same_entity_edges :: "virtual_graph \<Rightarrow> edges" where
  "same_entity_edges g = (let cs = ordered_candidates g in
     concat (map (\<lambda>(cid, c). map (\<lambda>k. (op_index cs (vc_id c, k), op_index cs (vc_id c, Suc k)))
                                [0..<length (vc_operations c) - 1]) (vg_candidates g)))"

definition cross_entity_edges :: "virtual_operation list \<Rightarrow> edges" where
  "cross_entity_edges ops = concat (map (\<lambda>i.
     if relocates (ops ! i)
     then map (\<lambda>j. (j, i)) (filter (\<lambda>j. vo_candidate_id (ops ! j) \<noteq> vo_candidate_id (ops ! i))
                             (vacating ops (the (vo_target (ops ! i)))))
     else []) [0..<length ops])"

definition dependencies :: "virtual_graph \<Rightarrow> edges" where
  "dependencies g = same_entity_edges g @ cross_entity_edges (all_ops (ordered_candidates g))"

definition heap_item :: "virtual_operation list \<Rightarrow> nat \<Rightarrow> nat \<times> nat \<times> int \<times> string \<times> nat" where
  "heap_item ops i = (let op = ops ! i in
     (vo_workflow_step_index op, vo_candidate_operation_index op, vo_candidate_id op, vo_source op, i))"

definition number_ops :: "virtual_operation list \<Rightarrow> nat list \<Rightarrow> virtual_operation list" where
  "number_ops ops order = map (\<lambda>(seq, i). (ops ! i)\<lparr>vo_sequence := seq\<rparr>) (enumerate 1 order)"

definition resolve_ordered_operations :: "mutation_fs \<Rightarrow> virtual_graph \<Rightarrow> graph_error + virtual_operation list" where
  "resolve_ordered_operations fs g =
     (let ops = all_ops (ordered_candidates g); n = length ops in
      if ops = [] then Inr []
      else bind_res (check_shared_targets g ops) (\<lambda>_.
           bind_res (check_targets fs g ops ops) (\<lambda>_.
             case topological (heap_item ops) n (dependencies g) of (order, deg) \<Rightarrow>
               if length order < n
               then Inl (DependencyCycle (sort (remdups (map (\<lambda>i. vo_source (ops ! i)) (filter (\<lambda>i. deg ! i > 0) [0..<n])))))
               else Inr (number_ops ops order))))"

subsection \<open>A whole simulation\<close>

text \<open>The loop over the action steps of a file workflow, each with its index in the definition; the
  root of a move is what its id stands for.\<close>

datatype graph_step = RenameAt rename_step nat | MoveTo move_step string nat
  | TouchAt touch_step nat | QuarantineAt quarantine_step nat

fun apply_step :: "mutation_fs \<Rightarrow> graph_step \<Rightarrow> virtual_graph \<Rightarrow> graph_error + virtual_graph" where
  "apply_step fs (RenameAt st i) g = apply_rename fs st i g"
| "apply_step fs (MoveTo st root i) g = apply_move fs st root i g"
| "apply_step fs (TouchAt st i) g = Inr (apply_touch st i g)"
| "apply_step fs (QuarantineAt st i) g = Inr (apply_quarantine st i g)"

fun apply_steps :: "mutation_fs \<Rightarrow> graph_step list \<Rightarrow> virtual_graph \<Rightarrow> graph_error + virtual_graph" where
  "apply_steps fs [] g = Inr g"
| "apply_steps fs (st # sts) g = bind_res (apply_step fs st g) (apply_steps fs sts)"

definition fresh_candidate :: "int \<Rightarrow> string \<Rightarrow> int \<Rightarrow> int \<Rightarrow> int \<Rightarrow> virtual_candidate" where
  "fresh_candidate cid path root_id sz mtime =
     \<lparr>vc_id = cid, vc_original_path = path, vc_original_root_id = root_id, vc_current_path = path,
      vc_current_root_id = root_id, vc_size = sz, vc_mtime_ns = mtime, vc_is_quarantined = False,
      vc_operations = []\<rparr>"

end
