(* ===== verification/VirtualGraphRun.thy ===== *)
theory VirtualGraphRun
  imports VirtualGraph
begin

section \<open>Running ordered operations\<close>

text \<open>
  What running the operations of a plan does to the files of a storage, and why an order that
  puts every departure from a place before another candidate's arrival there never overwrites a
  file. The candidates are given by their ids, the place each starts at and its operations.
\<close>

subsection \<open>Files\<close>

definition run_op :: "virtual_operation \<Rightarrow> (string \<Rightarrow> bool) \<Rightarrow> (string \<Rightarrow> bool) option" where
  "run_op op files =
     (if \<not> files (vo_source op) then None
      else if vo_operation op = ''quarantine'' then Some (files(vo_source op := False))
      else if \<not> relocates op then Some files
      else if files (the (vo_target op)) then None
      else Some (files(vo_source op := False, the (vo_target op) := True)))"

fun run_ops :: "virtual_operation list \<Rightarrow> (string \<Rightarrow> bool) \<Rightarrow> (string \<Rightarrow> bool) option" where
  "run_ops [] files = Some files"
| "run_ops (op # ops) files = (case run_op op files of None \<Rightarrow> None | Some files' \<Rightarrow> run_ops ops files')"

lemma run_ops_append:
  "run_ops (xs @ ys) files = (case run_ops xs files of None \<Rightarrow> None | Some files' \<Rightarrow> run_ops ys files')"
  by (induction xs arbitrary: files) (auto split: option.splits)

subsection \<open>Where a candidate is\<close>

definition arrival :: "virtual_operation \<Rightarrow> string" where
  "arrival op = (case vo_target op of None \<Rightarrow> vo_source op | Some t \<Rightarrow> t)"

definition position :: "string \<Rightarrow> virtual_operation list \<Rightarrow> string" where
  "position start ops = (if ops = [] then start else arrival (last ops))"

fun chained :: "string \<Rightarrow> virtual_operation list \<Rightarrow> bool" where
  "chained start [] = True"
| "chained start (op # ops) = (vo_source op = start \<and> chained (arrival op) ops)"

definition departs :: "virtual_operation \<Rightarrow> string \<Rightarrow> bool" where
  "departs op p \<longleftrightarrow> relocates op \<and> vo_source op = p"

definition arrives :: "virtual_operation \<Rightarrow> string \<Rightarrow> bool" where
  "arrives op p \<longleftrightarrow> relocates op \<and> vo_target op = Some p"

lemma stays: "\<not> relocates op \<Longrightarrow> arrival op = vo_source op"
  by (auto simp: relocates_def arrival_def split: option.splits)

lemma position_Nil [simp]: "position p [] = p"
  by (simp add: position_def)

lemma position_snoc [simp]: "position p (ops @ [op]) = arrival op"
  by (simp add: position_def)

lemma position_Cons: "position p (op # ops) = position (arrival op) ops"
  by (simp add: position_def)

lemma chained_append: "chained p (xs @ ys) \<longleftrightarrow> chained p xs \<and> chained (position p xs) ys"
  by (induction xs arbitrary: p) (auto simp: position_Cons)

lemma chained_nth:
  assumes "chained p ops" "k < length ops"
  shows "vo_source (ops ! k) = position p (take k ops)"
proof -
  have "chained p (take k ops @ ops ! k # drop (Suc k) ops)"
    using assms by (simp add: id_take_nth_drop [symmetric])
  then show ?thesis by (simp add: chained_append)
qed

lemma position_take_Suc: "k < length ops \<Longrightarrow> position p (take (Suc k) ops) = arrival (ops ! k)"
  by (simp add: take_Suc_conv_app_nth)

text \<open>Who is somewhere started there and never moved, or arrived there.\<close>

lemma came_from:
  assumes "chained p ops"
  shows "position p ops = p \<and> (\<forall>op \<in> set ops. \<not> relocates op) \<or> (\<exists>op \<in> set ops. arrives op (position p ops))"
  using assms
proof (induction ops rule: rev_induct)
  case (snoc op ops)
  then have c: "chained p ops" "vo_source op = position p ops" by (auto simp: chained_append)
  show ?case
  proof (cases "relocates op")
    case True
    then have "arrives op (arrival op)" by (auto simp: arrives_def relocates_def arrival_def)
    then show ?thesis by auto
  next
    case False
    then show ?thesis using snoc.IH [OF c(1)] c(2) stays [OF False] by auto
  qed
qed simp

text \<open>Who is somewhere at a time departs from there later, or is there in the end.\<close>

lemma goes_to:
  assumes "chained p ops" "m \<le> length ops"
  shows "(\<exists>j < length ops. m \<le> j \<and> departs (ops ! j) (position p (take m ops))) \<or> position p ops = position p (take m ops)"
  using assms
proof (induction ops rule: rev_induct)
  case (snoc op ops)
  show ?case
  proof (cases "m \<le> length ops")
    case True
    have c: "chained p ops" "vo_source op = position p ops" using snoc.prems by (auto simp: chained_append)
    from snoc.IH [OF c(1) True] show ?thesis
    proof
      assume "\<exists>j < length ops. m \<le> j \<and> departs (ops ! j) (position p (take m ops))"
      then obtain j where "j < length ops" "m \<le> j" "departs (ops ! j) (position p (take m ops))" by blast
      then have "j < length (ops @ [op]) \<and> m \<le> j \<and> departs ((ops @ [op]) ! j) (position p (take m (ops @ [op])))"
        using True by (simp add: nth_append)
      then show ?thesis by blast
    next
      assume e: "position p ops = position p (take m ops)"
      show ?thesis
      proof (cases "relocates op")
        case True' : True
        then have "departs ((ops @ [op]) ! length ops) (position p (take m (ops @ [op])))"
          using e c(2) True by (simp add: departs_def)
        then show ?thesis using True by auto
      next
        case False
        then show ?thesis using stays [OF False] c(2) e True by simp
      qed
    qed
  qed (use snoc.prems in auto)
qed simp

text \<open>A departure from the start comes before any other place.\<close>

lemma left_start:
  assumes "chained p ops" "position p ops \<noteq> p"
  shows "\<exists>op \<in> set ops. departs op p"
  using goes_to [OF assms(1), of 0] assms(2) nth_mem by fastforce

subsection \<open>Orders of the operations of several candidates\<close>

text \<open>The operations are named by their candidate and their place in its list.\<close>

type_synonym slot = "int \<times> nat"

definition op_at :: "(int \<Rightarrow> virtual_operation list) \<Rightarrow> slot \<Rightarrow> virtual_operation" where
  "op_at ops s = ops (fst s) ! snd s"

definition slots_of :: "int set \<Rightarrow> (int \<Rightarrow> virtual_operation list) \<Rightarrow> slot set" where
  "slots_of C ops = {(c, k). c \<in> C \<and> k < length (ops c)}"

definition before :: "(int \<Rightarrow> virtual_operation list) \<Rightarrow> slot \<Rightarrow> slot \<Rightarrow> bool" where
  "before ops s t \<longleftrightarrow> fst s = fst t \<and> snd t = Suc (snd s) \<or>
     fst s \<noteq> fst t \<and> (\<exists>p. departs (op_at ops s) p \<and> arrives (op_at ops t) p)"

definition executable :: "int set \<Rightarrow> (int \<Rightarrow> virtual_operation list) \<Rightarrow> slot list \<Rightarrow> bool" where
  "executable C ops order \<longleftrightarrow> distinct order \<and> set order \<subseteq> slots_of C ops \<and>
     (\<forall>ys t zs. order = ys @ t # zs \<longrightarrow> (\<forall>s \<in> slots_of C ops. before ops s t \<longrightarrow> s \<in> set ys))"

lemma executable_before:
  "executable C ops (ys @ t # zs) \<Longrightarrow> s \<in> slots_of C ops \<Longrightarrow> before ops s t \<Longrightarrow> s \<in> set ys"
  unfolding executable_def by blast

lemma executable_prefix: "executable C ops (xs @ zs) \<Longrightarrow> executable C ops xs"
  unfolding executable_def by (metis Un_subset_iff append_assoc append_Cons distinct_append set_append)

lemma executable_snoc:
  assumes "executable C ops (xs @ [t])"
  shows "executable C ops xs" "t \<notin> set xs" "t \<in> slots_of C ops"
    "s \<in> slots_of C ops \<Longrightarrow> before ops s t \<Longrightarrow> s \<in> set xs"
proof -
  show "executable C ops xs" by (rule executable_prefix [OF assms])
  show "t \<notin> set xs" "t \<in> slots_of C ops" using assms unfolding executable_def by auto
  show "s \<in> slots_of C ops \<Longrightarrow> before ops s t \<Longrightarrow> s \<in> set xs" by (rule executable_before [OF assms])
qed

lemma executable_closed:
  assumes "executable C ops xs" "t \<in> set xs" "s \<in> slots_of C ops" "before ops s t"
  shows "s \<in> set xs"
proof -
  obtain ys zs where "xs = ys @ t # zs" using split_list [OF assms(2)] by blast
  then have "s \<in> set ys" using assms executable_before by metis
  then show ?thesis using \<open>xs = _\<close> by simp
qed

text \<open>How many operations of a candidate have run; they are its first ones.\<close>

definition ran :: "slot list \<Rightarrow> int \<Rightarrow> nat" where
  "ran xs c = length (filter (\<lambda>s. fst s = c) xs)"

lemma ran_snoc: "ran (xs @ [t]) c = ran xs c + (if fst t = c then 1 else 0)"
  by (simp add: ran_def)

lemma ran_prefix:
  assumes "executable C ops xs" "c \<in> C" "k < length (ops c)"
  shows "(c, k) \<in> set xs \<longleftrightarrow> k < ran xs c"
  using assms
proof (induction xs arbitrary: c k rule: rev_induct)
  case (snoc t xs)
  note e = executable_snoc [OF snoc.prems(1)]
  obtain x m where t: "t = (x, m)" by (cases t)
  have x: "x \<in> C" "m < length (ops x)" using e(3) by (auto simp: slots_of_def t)
  have "\<not> m < ran xs x" using snoc.IH [OF e(1) x] e(2) t by simp
  moreover have "m \<le> ran xs x"
  proof (cases m)
    case (Suc j)
    have "(x, j) \<in> set xs" by (rule e(4)) (use x Suc in \<open>auto simp: slots_of_def before_def t\<close>)
    moreover have "j < length (ops x)" using x(2) Suc by simp
    ultimately have "j < ran xs x" using snoc.IH [OF e(1) x(1)] by blast
    then show ?thesis using Suc by simp
  qed simp
  ultimately have m: "m = ran xs x" by simp
  show ?case using snoc.IH [OF e(1) snoc.prems(2,3)] t m by (auto simp: ran_snoc)
qed (simp add: ran_def)

lemma ran_next:
  assumes "executable C ops (xs @ [(x, k)])"
  shows "ran xs x = k" "x \<in> C" "k < length (ops x)" "ran (xs @ [(x, k)]) = (ran xs)(x := Suc k)"
proof -
  note e = executable_snoc [OF assms]
  show x: "x \<in> C" "k < length (ops x)" using e(3) by (auto simp: slots_of_def)
  have "\<not> k < ran xs x" using ran_prefix [OF e(1) x] e(2) by simp
  moreover have "k < ran (xs @ [(x, k)]) x" using ran_prefix [OF assms x] by simp
  ultimately show k: "ran xs x = k" by (simp add: ran_snoc)
  show "ran (xs @ [(x, k)]) = (ran xs)(x := Suc k)" using k by (auto simp: ran_snoc)
qed

lemma ran_le: "executable C ops xs \<Longrightarrow> ran xs c \<le> length (ops c)"
proof (induction xs rule: rev_induct)
  case (snoc t xs)
  obtain x k where t: "t = (x, k)" by (cases t)
  note n = ran_next [OF snoc.prems [unfolded t]]
  show ?case using snoc.IH [OF executable_prefix [OF snoc.prems]] n by (auto simp: t)
qed (simp add: ran_def)

subsection \<open>No file is overwritten\<close>

definition place :: "(int \<Rightarrow> string) \<Rightarrow> (int \<Rightarrow> virtual_operation list) \<Rightarrow> int \<Rightarrow> nat \<Rightarrow> string" where
  "place orig ops c m = position (orig c) (take m (ops c))"

definition gone :: "(int \<Rightarrow> virtual_operation list) \<Rightarrow> int \<Rightarrow> nat \<Rightarrow> bool" where
  "gone ops c m \<longleftrightarrow> (\<exists>op \<in> set (take m (ops c)). vo_operation op = ''quarantine'')"

definition well_planned :: "int set \<Rightarrow> (int \<Rightarrow> string) \<Rightarrow> (int \<Rightarrow> virtual_operation list) \<Rightarrow> bool" where
  "well_planned C orig ops \<longleftrightarrow>
     (\<forall>c \<in> C. chained (orig c) (ops c) \<and>
       (\<forall>k < length (ops c). vo_operation (ops c ! k) = ''quarantine'' \<longrightarrow>
          Suc k = length (ops c) \<and> \<not> relocates (ops c ! k)))"

text \<open>
  What the checks of the code establish: no target is the place of a file that is no candidate,
  a candidate whose starting place another one moves to leaves it, and of two candidates that move
  to a place at most one is there in the end.
\<close>

definition targets_checked :: "(string \<Rightarrow> bool) \<Rightarrow> int set \<Rightarrow> (int \<Rightarrow> string) \<Rightarrow> (int \<Rightarrow> virtual_operation list) \<Rightarrow> bool" where
  "targets_checked static C orig ops \<longleftrightarrow>
     (\<forall>x \<in> C. \<forall>op \<in> set (ops x). \<forall>p. arrives op p \<longrightarrow> \<not> static p \<and>
        (\<forall>y \<in> C. y \<noteq> x \<longrightarrow> orig y = p \<longrightarrow> (\<exists>op' \<in> set (ops y). departs op' p)) \<and>
        (\<forall>y \<in> C. y \<noteq> x \<longrightarrow> (\<exists>op' \<in> set (ops y). arrives op' p) \<longrightarrow>
           position (orig x) (ops x) \<noteq> p \<or> position (orig y) (ops y) \<noteq> p))"

definition files_are :: "(string \<Rightarrow> bool) \<Rightarrow> int set \<Rightarrow> (int \<Rightarrow> string) \<Rightarrow> (int \<Rightarrow> bool) \<Rightarrow> (string \<Rightarrow> bool) \<Rightarrow> bool" where
  "files_are static C at away files \<longleftrightarrow>
     (\<forall>p. files p \<longleftrightarrow> static p \<or> (\<exists>c \<in> C. \<not> away c \<and> at c = p)) \<and> (\<forall>c \<in> C. \<not> static (at c)) \<and>
     (\<forall>c \<in> C. \<forall>d \<in> C. c \<noteq> d \<longrightarrow> \<not> away c \<longrightarrow> \<not> away d \<longrightarrow> at c \<noteq> at d)"

lemma files_are_removed:
  assumes "files_are static C at away files" "x \<in> C" "\<not> away x"
  shows "files_are static C at (away(x := True)) (files(at x := False))"
proof -
  have "(files(at x := False)) p \<longleftrightarrow> static p \<or> (\<exists>c \<in> C. \<not> (away(x := True)) c \<and> at c = p)" for p
    using assms unfolding files_are_def by (metis fun_upd_apply)
  then show ?thesis using assms(1) unfolding files_are_def by simp
qed

lemma files_are_moved:
  assumes "files_are static C at away files" "x \<in> C" "\<not> away x" "\<not> static t" "\<forall>y \<in> C. at y \<noteq> t"
  shows "files_are static C (at(x := t)) away (files(at x := False, t := True))"
proof -
  have "(files(at x := False, t := True)) p \<longleftrightarrow> static p \<or> (\<exists>c \<in> C. \<not> away c \<and> (at(x := t)) c = p)" for p
    using assms unfolding files_are_def by (metis fun_upd_apply)
  then show ?thesis using assms(1,4,5) unfolding files_are_def by simp metis
qed

definition present :: "(string \<Rightarrow> bool) \<Rightarrow> int set \<Rightarrow> (int \<Rightarrow> string) \<Rightarrow> (int \<Rightarrow> virtual_operation list) \<Rightarrow> (int \<Rightarrow> nat) \<Rightarrow> (string \<Rightarrow> bool) \<Rightarrow> bool" where
  "present static C orig ops e files \<longleftrightarrow>
     files_are static C (\<lambda>c. place orig ops c (e c)) (\<lambda>c. gone ops c (e c)) files"

text \<open>When a candidate is to arrive somewhere, no other one is there.\<close>

lemma target_free:
  assumes wp: "well_planned C orig ops" and tc: "targets_checked static C orig ops"
    and ex: "executable C ops (xs @ [(x, k)])" and arr: "arrives (ops x ! k) p"
    and y: "y \<in> C" "y \<noteq> x"
  shows "place orig ops y (ran xs y) \<noteq> p"
proof
  assume here: "place orig ops y (ran xs y) = p"
  note e = executable_snoc [OF ex] and n = ran_next [OF ex]
  have ch: "chained (orig y) (ops y)" "chained (orig x) (ops x)" using wp y n by (auto simp: well_planned_def)
  have opx: "ops x ! k \<in> set (ops x)" using n(3) by simp
  have departed: "j < ran xs y" if "j < length (ops y)" "departs (ops y ! j) p" for j
  proof -
    have "(y, j) \<in> set xs"
      by (rule e(4)) (use that y arr in \<open>auto simp: slots_of_def before_def op_at_def\<close>)
    then show ?thesis using ran_prefix [OF e(1) y(1) that(1)] by simp
  qed
  then have final: "position (orig y) (ops y) = p"
    using goes_to [OF ch(1) ran_le [OF e(1)]] here by (auto simp: place_def not_less [symmetric])
  have "chained (orig y) (take (ran xs y) (ops y))"
    using ch(1) chained_append [of "orig y" "take (ran xs y) (ops y)" "drop (ran xs y) (ops y)"] by simp
  from came_from [OF this] consider
      (start) "orig y = p" "\<forall>op \<in> set (take (ran xs y) (ops y)). \<not> relocates op"
    | (came) op where "op \<in> set (take (ran xs y) (ops y))" "arrives op p"
    using here unfolding place_def by auto
  then show False
  proof cases
    case start
    then obtain op where "op \<in> set (ops y)" "departs op p"
      using tc n(2) opx arr y unfolding targets_checked_def by blast
    then obtain j where j: "j < length (ops y)" "departs (ops y ! j) p" by (auto simp: in_set_conv_nth)
    then have "ops y ! j \<in> set (take (ran xs y) (ops y))"
      using departed [OF j] by (auto simp: in_set_conv_nth intro!: exI)
    then show False using start(2) j(2) by (auto simp: departs_def)
  next
    case came
    then obtain l where l: "l < ran xs y" "l < length (ops y)" "arrives (ops y ! l) p"
      by (auto simp: in_set_conv_nth)
    have "position (orig x) (ops x) \<noteq> p"
      using tc n(2) opx arr y came final unfolding targets_checked_def by (blast dest: in_set_takeD)
    moreover have "position (orig x) (take (Suc k) (ops x)) = p"
      using arr n(3) by (auto simp: position_take_Suc arrives_def arrival_def)
    ultimately obtain j where j: "j < length (ops x)" "Suc k \<le> j" "departs (ops x ! j) p"
      using goes_to [OF ch(2), of "Suc k"] n(3) by auto
    have "(y, l) \<in> set xs" using ran_prefix [OF e(1) y(1) l(2)] l(1) by simp
    then have "(x, j) \<in> set xs"
      by (rule executable_closed [OF e(1)]) (use l j y n(2) in \<open>auto simp: slots_of_def before_def op_at_def\<close>)
    then have "j < k" using ran_prefix [OF e(1) n(2) j(1)] n(1) by simp
    then show False using j(2) by simp
  qed
qed

lemma place_Suc: "k < length (ops x) \<Longrightarrow> place orig ops x (Suc k) = arrival (ops x ! k)"
  by (simp add: place_def position_take_Suc)

lemma gone_Suc: "k < length (ops x) \<Longrightarrow>
  gone ops x (Suc k) \<longleftrightarrow> gone ops x k \<or> vo_operation (ops x ! k) = ''quarantine''"
  by (auto simp: gone_def take_Suc_conv_app_nth)

text \<open>The next operation of a candidate finds its file and a free target.\<close>

lemma present_step:
  assumes wp: "well_planned C orig ops" and tc: "targets_checked static C orig ops"
    and ex: "executable C ops (xs @ [(x, k)])" and pr: "present static C orig ops (ran xs) files"
  shows "\<exists>files'. run_op (ops x ! k) files = Some files' \<and> present static C orig ops (ran (xs @ [(x, k)])) files'"
proof -
  note n = ran_next [OF ex]
  let ?op = "ops x ! k" and ?at = "\<lambda>c. place orig ops c (ran xs c)" and ?gone = "\<lambda>c. gone ops c (ran xs c)"
  have src: "vo_source ?op = ?at x"
    using wp n chained_nth [of "orig x" "ops x" k] by (simp add: well_planned_def place_def)
  have quar: "\<And>j. j < length (ops x) \<Longrightarrow> vo_operation (ops x ! j) = ''quarantine'' \<Longrightarrow> Suc j = length (ops x) \<and> \<not> relocates (ops x ! j)"
    using wp n(2) by (auto simp: well_planned_def)
  have "vo_operation (ops x ! i) \<noteq> ''quarantine''" if "i < k" for i
    using quar [of i] n(3) that by auto
  then have "\<not> ?gone x" by (auto simp: gone_def n(1) in_set_conv_nth)
  have fa: "files_are static C ?at ?gone files" using pr by (simp add: present_def)
  then have here: "files (vo_source ?op)" using n(2) src \<open>\<not> ?gone x\<close> unfolding files_are_def by metis
  have at': "(\<lambda>c. place orig ops c (ran (xs @ [(x, k)]) c)) = ?at(x := arrival ?op)"
    using n(3,4) place_Suc by (simp add: fun_eq_iff)
  have gone': "(\<lambda>c. gone ops c (ran (xs @ [(x, k)]) c)) = ?gone(x := vo_operation ?op = ''quarantine'')"
    using n(1,3,4) gone_Suc [of k ops x] \<open>\<not> ?gone x\<close> by (simp add: fun_eq_iff)
  consider (quarantine) "vo_operation ?op = ''quarantine''" "\<not> relocates ?op"
    | (keep) "vo_operation ?op \<noteq> ''quarantine''" "\<not> relocates ?op"
    | (move) t where "vo_operation ?op \<noteq> ''quarantine''" "relocates ?op" "vo_target ?op = Some t"
  proof (cases "relocates ?op")
    case True
    then obtain t where "vo_target ?op = Some t" by (auto simp: relocates_def)
    then show ?thesis using quar [OF n(3)] True that(3) by blast
  qed (use that in blast)
  then show ?thesis
  proof cases
    case quarantine
    have a: "arrival ?op = ?at x" using stays [OF quarantine(2)] src by simp
    have "files_are static C ?at (?gone(x := True)) (files(vo_source ?op := False))"
      unfolding src by (rule files_are_removed [OF fa n(2) \<open>\<not> ?gone x\<close>])
    then have "present static C orig ops (ran (xs @ [(x, k)])) (files(vo_source ?op := False))"
      unfolding present_def at' gone' using a quarantine(1) by (simp add: fun_upd_idem)
    then show ?thesis using here quarantine(1) by (simp add: run_op_def)
  next
    case keep
    have a: "arrival ?op = ?at x" using stays [OF keep(2)] src by simp
    have "present static C orig ops (ran (xs @ [(x, k)])) files"
      unfolding present_def at' gone' using fa a keep(1) \<open>\<not> ?gone x\<close> by (simp add: fun_upd_idem)
    then show ?thesis using here keep by (simp add: run_op_def)
  next
    case move
    have arr: "arrives ?op t" using move by (simp add: arrives_def)
    have opx: "?op \<in> set (ops x)" using n(3) by simp
    have ns: "\<not> static t" using tc n(2) opx arr unfolding targets_checked_def by blast
    have ne: "?at x \<noteq> t" using move src by (auto simp: relocates_def)
    have free: "\<forall>y \<in> C. ?at y \<noteq> t"
      using target_free [OF wp tc ex arr] ne by metis
    have nf: "\<not> files t" using fa ns free unfolding files_are_def by blast
    have a: "arrival ?op = t" using move(3) by (simp add: arrival_def)
    have "files_are static C (?at(x := t)) ?gone (files(vo_source ?op := False, t := True))"
      unfolding src by (rule files_are_moved [OF fa n(2) \<open>\<not> ?gone x\<close> ns free])
    then have "present static C orig ops (ran (xs @ [(x, k)])) (files(vo_source ?op := False, t := True))"
      unfolding present_def at' gone' using a move(1) \<open>\<not> ?gone x\<close> by (simp add: fun_upd_idem)
    then show ?thesis using here move nf by (auto simp: run_op_def)
  qed
qed

lemma orders_run:
  assumes wp: "well_planned C orig ops" and tc: "targets_checked static C orig ops"
    and ex: "executable C ops order" and pr: "present static C orig ops (\<lambda>c. 0) files"
  shows "\<exists>files'. run_ops (map (op_at ops) order) files = Some files' \<and>
    present static C orig ops (ran order) files'"
  using ex
proof (induction order rule: rev_induct)
  case (snoc t order)
  obtain x k where t: "t = (x, k)" by (cases t)
  obtain files' where "run_ops (map (op_at ops) order) files = Some files'" "present static C orig ops (ran order) files'"
    using snoc.IH [OF executable_prefix [OF snoc.prems]] by blast
  moreover obtain files'' where "run_op (ops x ! k) files' = Some files''"
      "present static C orig ops (ran (order @ [(x, k)])) files''"
    using present_step [OF wp tc snoc.prems [unfolded t] calculation(2)] by blast
  ultimately show ?case by (simp add: run_ops_append t) (simp add: op_at_def)
qed (use pr in \<open>simp add: ran_def [abs_def]\<close>)

lemma present_initially:
  assumes "inj_on orig C" "\<forall>c \<in> C. files (orig c)"
  shows "present (\<lambda>p. files p \<and> p \<notin> orig ` C) C orig ops (\<lambda>c. 0) files"
  using assms by (auto simp: present_def files_are_def gone_def place_def inj_on_def)

end
