(* ===== verification/VirtualGraphSafety.thy ===== *)
theory VirtualGraphSafety
  imports VirtualGraphRun
begin

section \<open>What a simulation keeps, and the safety of its plan\<close>

text \<open>
  The invariant of a graph through the steps of a workflow, and the facts that the checks of
  \<open>resolve_ordered_operations\<close> add to it. Together they satisfy the conditions under which running
  the operations overwrites nothing.
\<close>

subsection \<open>The invariant\<close>

definition cand :: "virtual_graph \<Rightarrow> int \<Rightarrow> virtual_candidate" where
  "cand g cid = the (map_of (vg_candidates g) cid)"

definition cand_ids :: "virtual_graph \<Rightarrow> int set" where
  "cand_ids g = fst ` set (vg_candidates g)"

definition cand_ok :: "int \<Rightarrow> virtual_candidate \<Rightarrow> bool" where
  "cand_ok cid c \<longleftrightarrow> vc_id c = cid \<and> chained (vc_original_path c) (vc_operations c) \<and>
     vc_current_path c = position (vc_original_path c) (vc_operations c) \<and>
     (\<forall>k < length (vc_operations c). vo_candidate_id (vc_operations c ! k) = cid \<and>
        vo_candidate_operation_index (vc_operations c ! k) = k \<and>
        (vo_operation (vc_operations c ! k) = ''quarantine'' \<longrightarrow>
           Suc k = length (vc_operations c) \<and> \<not> relocates (vc_operations c ! k) \<and> vc_is_quarantined c))"

definition left_by_owner :: "virtual_graph \<Rightarrow> bool" where
  "left_by_owner g \<longleftrightarrow> (\<forall>x \<in> cand_ids g. \<forall>y \<in> cand_ids g. \<forall>op \<in> set (vc_operations (cand g x)).
     x \<noteq> y \<longrightarrow> departs op (vc_original_path (cand g y)) \<longrightarrow>
       (\<exists>op' \<in> set (vc_operations (cand g y)). departs op' (vc_original_path (cand g y))))"

definition graph_ok :: "virtual_graph \<Rightarrow> bool" where
  "graph_ok g \<longleftrightarrow> distinct (map fst (vg_candidates g)) \<and> (\<forall>x \<in> cand_ids g. cand_ok x (cand g x)) \<and>
     (\<forall>x \<in> cand_ids g. \<forall>y \<in> cand_ids g. vc_is_quarantined (cand g x) = vc_is_quarantined (cand g y)) \<and>
     left_by_owner g"

subsection \<open>One step\<close>

definition extends :: "virtual_candidate \<Rightarrow> virtual_operation \<Rightarrow> virtual_candidate \<Rightarrow> bool" where
  "extends c op c' \<longleftrightarrow> vc_id c' = vc_id c \<and> vc_original_path c' = vc_original_path c \<and>
     vc_operations c' = vc_operations c @ [op] \<and> vo_source op = vc_current_path c \<and>
     vo_candidate_id op = vc_id c \<and> vo_candidate_operation_index op = length (vc_operations c) \<and>
     vc_current_path c' = arrival op \<and> (vc_is_quarantined c' \<longleftrightarrow> vo_operation op = ''quarantine'') \<and>
     (vo_operation op = ''quarantine'' \<longrightarrow> \<not> relocates op)"

definition grown :: "virtual_candidate \<Rightarrow> virtual_candidate \<Rightarrow> bool" where
  "grown c c' \<longleftrightarrow> c' = c \<or> \<not> vc_is_quarantined c \<and> (\<exists>op. extends c op c')"

text \<open>A step grows the candidates, moves none of two at the same put, and quarantines all or none.\<close>

definition step_effect :: "virtual_graph \<Rightarrow> virtual_graph \<Rightarrow> bool" where
  "step_effect g g' \<longleftrightarrow> map fst (vg_candidates g') = map fst (vg_candidates g) \<and>
     (\<forall>x \<in> cand_ids g. grown (cand g x) (cand g' x)) \<and>
     (\<forall>x \<in> cand_ids g. \<forall>y \<in> cand_ids g. x \<noteq> y \<longrightarrow> vc_current_path (cand g x) = vc_current_path (cand g y) \<longrightarrow>
        (\<forall>op. extends (cand g x) op (cand g' x) \<longrightarrow> \<not> relocates op)) \<and>
     (\<forall>x \<in> cand_ids g. \<forall>y \<in> cand_ids g. vc_is_quarantined (cand g' x) = vc_is_quarantined (cand g' y))"

lemma cand_ok_grown:
  assumes "cand_ok cid c" "grown c c'"
  shows "cand_ok cid c'"
proof (cases "c' = c")
  case False
  then obtain op where "\<not> vc_is_quarantined c" and e: "extends c op c'" using assms(2) by (auto simp: grown_def)
  moreover have "vo_operation (vc_operations c ! k) \<noteq> ''quarantine''" if "k < length (vc_operations c)" for k
    using assms(1) calculation(1) that by (auto simp: cand_ok_def)
  ultimately show ?thesis
    using assms(1) by (auto simp: cand_ok_def extends_def chained_append nth_append less_Suc_eq)
qed (use assms in simp)

lemma left_by_owner_step:
  assumes ok: "graph_ok g" and eff: "step_effect g g'"
  shows "left_by_owner g'"
  unfolding left_by_owner_def
proof (intro ballI impI)
  fix x y op
  assume x: "x \<in> cand_ids g'" and y: "y \<in> cand_ids g'" and op: "op \<in> set (vc_operations (cand g' x))"
    and ne: "x \<noteq> y" and d: "departs op (vc_original_path (cand g' y))"
  let ?p = "vc_original_path (cand g y)"
  have ids: "cand_ids g' = cand_ids g" using eff unfolding step_effect_def cand_ids_def by (metis list.set_map)
  have gx: "grown (cand g x) (cand g' x)" and gy: "grown (cand g y) (cand g' y)"
    using eff x y unfolding ids step_effect_def by blast+
  have orig: "vc_original_path (cand g' y) = ?p" and sub: "set (vc_operations (cand g y)) \<subseteq> set (vc_operations (cand g' y))"
    using gy by (auto simp: grown_def extends_def)
  have "\<exists>op' \<in> set (vc_operations (cand g y)). departs op' ?p"
  proof (cases "op \<in> set (vc_operations (cand g x))")
    case True
    then show ?thesis using ok x y ne d orig unfolding ids graph_ok_def left_by_owner_def by metis
  next
    case False
    then obtain op' where e: "extends (cand g x) op' (cand g' x)" using gx op by (auto simp: grown_def)
    then have "op' = op" using False op by (auto simp: extends_def)
    then have e: "extends (cand g x) op (cand g' x)" and r: "relocates op" and src: "vc_current_path (cand g x) = ?p"
      using e d orig by (auto simp: departs_def extends_def)
    have "vc_current_path (cand g y) \<noteq> ?p"
      using eff x y ne e r src unfolding ids step_effect_def by metis
    then show ?thesis
      using ok y left_start [of ?p "vc_operations (cand g y)"] unfolding ids by (auto simp: graph_ok_def cand_ok_def)
  qed
  then show "\<exists>op' \<in> set (vc_operations (cand g' y)). departs op' (vc_original_path (cand g' y))"
    using sub orig by auto
qed

lemma graph_ok_step:
  assumes "graph_ok g" "step_effect g g'"
  shows "graph_ok g'"
proof -
  have ids: "cand_ids g' = cand_ids g" using assms(2) unfolding step_effect_def cand_ids_def by (metis list.set_map)
  have "cand_ok x (cand g' x)" if "x \<in> cand_ids g" for x
    by (rule cand_ok_grown [of x "cand g x"]) (use assms that in \<open>simp_all only: graph_ok_def step_effect_def\<close>)
  moreover have "distinct (map fst (vg_candidates g'))"
    using assms by (simp only: graph_ok_def step_effect_def)
  moreover have "\<forall>x \<in> cand_ids g. \<forall>y \<in> cand_ids g. vc_is_quarantined (cand g' x) = vc_is_quarantined (cand g' y)"
    using assms(2) unfolding step_effect_def by blast
  ultimately show ?thesis
    using left_by_owner_step [OF assms] unfolding graph_ok_def ids by blast
qed

subsection \<open>The steps of the code\<close>

definition destination :: "mutation_fs \<Rightarrow> string list \<Rightarrow> string option \<Rightarrow> (string \<Rightarrow> string option) \<Rightarrow> virtual_candidate \<Rightarrow> string option" where
  "destination fs roots quarantine goal c =
     (if vc_is_quarantined c then None
      else case goal (vc_current_path c) of None \<Rightarrow> None
        | Some raw \<Rightarrow> (case validate_mutation_destination fs roots quarantine raw of
            Inl e \<Rightarrow> None | Inr dest \<Rightarrow> Some (path_str dest)))"

definition placed :: "(string \<Rightarrow> virtual_candidate \<Rightarrow> virtual_candidate) \<Rightarrow> string option \<Rightarrow> virtual_candidate \<Rightarrow> virtual_candidate" where
  "placed put t c = (case t of None \<Rightarrow> c | Some t \<Rightarrow> put t c)"

lemma relocate_each_stay:
  assumes "relocate_each fs roots q goal put (cid # cids) targets cands = Inr cands'"
    and "map_of cands cid = Some c" "destination fs roots q goal c = None"
  shows "relocate_each fs roots q goal put cids targets cands = Inr cands'"
  using assms by (simp add: destination_def split: if_splits option.splits sum.splits)

lemma relocate_each_go:
  assumes "relocate_each fs roots q goal put (cid # cids) targets cands = Inr cands'"
    and "map_of cands cid = Some c" "destination fs roots q goal c = Some t"
  shows "map_of targets t = None"
    "relocate_each fs roots q goal put cids ((t, cid) # targets) (AList.update cid (put t c) cands) = Inr cands'"
  using assms by (simp_all add: destination_def split: if_splits option.splits sum.splits)

lemma relocate_each_effect:
  assumes "relocate_each fs roots q goal put cids targets cands = Inr cands'" "distinct cids"
    and "set cids \<subseteq> set (map fst cands)"
  shows "map fst cands' = map fst cands"
    and "map_of cands' x = (if x \<in> set cids then map_option (\<lambda>c. placed put (destination fs roots q goal c) c) (map_of cands x)
                          else map_of cands x)"
    and "\<lbrakk>x \<in> set cids; destination fs roots q goal (the (map_of cands x)) = Some t\<rbrakk> \<Longrightarrow> map_of targets t = None \<and>
       (\<forall>y \<in> set cids. x \<noteq> y \<longrightarrow> destination fs roots q goal (the (map_of cands y)) \<noteq> Some t)"
proof -
  let ?dest = "destination fs roots q goal"
  have "map fst cands' = map fst cands \<and>
    (\<forall>x. map_of cands' x = (if x \<in> set cids then map_option (\<lambda>c. placed put (?dest c) c) (map_of cands x) else map_of cands x)) \<and>
    (\<forall>x \<in> set cids. \<forall>t. ?dest (the (map_of cands x)) = Some t \<longrightarrow> map_of targets t = None \<and>
       (\<forall>y \<in> set cids. x \<noteq> y \<longrightarrow> ?dest (the (map_of cands y)) \<noteq> Some t))"
    using assms
  proof (induction cids arbitrary: targets cands)
    case (Cons cid cids)
    have d: "distinct cids" "cid \<notin> set cids" "set cids \<subseteq> set (map fst cands)" "cid \<in> set (map fst cands)"
      using Cons.prems by auto
    obtain c where c: "map_of cands cid = Some c"
      using d(4) by (cases "map_of cands cid") (auto simp: map_of_eq_None_iff)
    show ?case
    proof (cases "?dest c")
      case None
      note IH = Cons.IH [OF relocate_each_stay [OF Cons.prems(1) c None] d(1,3)]
      then show ?thesis using c None d(2) by (simp add: placed_def)
    next
      case (Some t)
      note go = relocate_each_go [OF Cons.prems(1) c Some]
      have keys: "map fst (AList.update cid (put t c) cands) = map fst cands"
        using d(4) by (simp add: update_keys)
      have same: "map_of (AList.update cid (put t c) cands) x = map_of cands x" if "x \<in> set cids" for x
        using that d(2) by (auto simp: update_conv')
      note IH = Cons.IH [OF go(2) d(1), unfolded keys, OF d(3)]
      have 1: "map_of cands' x = (if x \<in> set (cid # cids) then map_option (\<lambda>c. placed put (?dest c) c) (map_of cands x) else map_of cands x)" for x
        using IH c d(2) Some same by (cases "x = cid") (auto simp: update_conv' placed_def)
      have 2: "t' \<noteq> t \<and> map_of targets t' = None \<and> (\<forall>y \<in> set cids. x \<noteq> y \<longrightarrow> ?dest (the (map_of cands y)) \<noteq> Some t')"
        if "x \<in> set cids" "?dest (the (map_of cands x)) = Some t'" for x t'
        using IH that same by (auto split: if_splits)
      show ?thesis using IH 1 2 go(1) c Some by auto
    qed
  qed simp
  then show "map fst cands' = map fst cands"
    and "map_of cands' x = (if x \<in> set cids then map_option (\<lambda>c. placed put (destination fs roots q goal c) c) (map_of cands x)
                          else map_of cands x)"
    and "\<lbrakk>x \<in> set cids; destination fs roots q goal (the (map_of cands x)) = Some t\<rbrakk> \<Longrightarrow> map_of targets t = None \<and>
       (\<forall>y \<in> set cids. x \<noteq> y \<longrightarrow> destination fs roots q goal (the (map_of cands y)) \<noteq> Some t)"
    by blast+
qed

lemma cand_mem:
  assumes "distinct (map fst (vg_candidates g))"
  shows "x \<in> cand_ids g \<longleftrightarrow> map_of (vg_candidates g) x = Some (cand g x)"
    and "(x, c) \<in> set (vg_candidates g) \<longleftrightarrow> x \<in> cand_ids g \<and> c = cand g x"
proof -
  show 1: "x \<in> cand_ids g \<longleftrightarrow> map_of (vg_candidates g) x = Some (cand g x)"
    unfolding cand_ids_def cand_def by (metis map_of_eq_None_iff option.collapse option.distinct(1))
  show "(x, c) \<in> set (vg_candidates g) \<longleftrightarrow> x \<in> cand_ids g \<and> c = cand g x"
    using 1 assms unfolding cand_ids_def by (metis fst_conv imageI map_of_is_SomeI map_of_SomeD option.inject)
qed

lemma relocate_effect:
  assumes ok: "graph_ok g" and run: "relocate fs goal put g = Inr g'"
    and put: "\<And>t c. \<exists>op. vo_operation op \<noteq> ''quarantine'' \<and> (\<not> vc_is_quarantined c \<longrightarrow> extends c op (put t c))"
  shows "step_effect g g' \<and> vg_allowed_roots g' = vg_allowed_roots g \<and> vg_quarantine_root g' = vg_quarantine_root g"
proof -
  let ?cands = "vg_candidates g" and ?ids = "sort (map fst (vg_candidates g))"
  let ?dest = "destination fs (vg_allowed_roots g) (vg_quarantine_root g) goal"
  obtain cands' where r: "relocate_each fs (vg_allowed_roots g) (vg_quarantine_root g) goal put ?ids [] ?cands = Inr cands'"
      and g': "g' = g\<lparr>vg_candidates := cands'\<rparr>"
    using run by (auto simp: relocate_def bind_res_Inr)
  have dist: "distinct (map fst ?cands)" using ok by (simp add: graph_ok_def)
  have ids: "distinct ?ids" "set ?ids \<subseteq> set (map fst ?cands)" using dist by auto
  note eff = relocate_each_effect [OF r ids]
  have cand': "cand g' x = placed put (?dest (cand g x)) (cand g x)" if "x \<in> cand_ids g" for x
  proof -
    have m: "map_of ?cands x = Some (cand g x)" and i: "x \<in> set ?ids"
      using cand_mem(1) [OF dist] that by (simp_all add: cand_ids_def)
    have "map_of cands' x = Some (placed put (?dest (cand g x)) (cand g x))"
      using eff(2) [of x] i unfolding m by simp
    then show ?thesis by (simp add: g' cand_def)
  qed
  have flag: "vc_is_quarantined (cand g x) = vc_is_quarantined (cand g y)" if "x \<in> cand_ids g" "y \<in> cand_ids g" for x y
    using ok that unfolding graph_ok_def by blast
  have dest_ne: "\<not> vc_is_quarantined c" if "?dest c = Some t" for c t
    using that by (auto simp: destination_def split: if_splits)
  have grow: "(?dest (cand g x) = None \<longrightarrow> cand g' x = cand g x) \<and>
      (\<forall>t. ?dest (cand g x) = Some t \<longrightarrow> (\<exists>op. vo_operation op \<noteq> ''quarantine'' \<and> extends (cand g x) op (cand g' x)))"
    if "x \<in> cand_ids g" for x
  proof (cases "?dest (cand g x)")
    case (Some t)
    obtain op where "vo_operation op \<noteq> ''quarantine''" "extends (cand g x) op (put t (cand g x))"
      using put dest_ne [OF Some] by blast
    then show ?thesis using cand' [OF that] Some by (auto simp: placed_def)
  qed (use cand' [OF that] in \<open>simp add: placed_def\<close>)
  have grown: "grown (cand g x) (cand g' x)" if "x \<in> cand_ids g" for x
    using grow [OF that] dest_ne by (cases "?dest (cand g x)") (auto simp: grown_def)
  have apart: "\<not> relocates op"
    if x: "x \<in> cand_ids g" and y: "y \<in> cand_ids g" and ne: "x \<noteq> y"
      and same: "vc_current_path (cand g x) = vc_current_path (cand g y)" and e: "extends (cand g x) op (cand g' x)" for x y op
  proof (cases "?dest (cand g x)")
    case None
    then show ?thesis using grow [OF x] e by (auto simp: extends_def)
  next
    case (Some t)
    have "?dest (cand g x) = ?dest (cand g y)" by (simp only: destination_def same flag [OF x y])
    then have "?dest (cand g y) = Some t" using Some by simp
    moreover have "x \<in> set ?ids" "y \<in> set ?ids" using x y by (simp_all add: cand_ids_def)
    then have "?dest (cand g y) \<noteq> Some t"
      using eff(3) [of x t] Some ne unfolding cand_def by blast
    ultimately show ?thesis by simp
  qed
  have keep: "vc_is_quarantined (cand g' x) = vc_is_quarantined (cand g x)" if x: "x \<in> cand_ids g" for x
  proof (cases "?dest (cand g x)")
    case (Some t)
    then have "\<not> vc_is_quarantined (cand g' x)" using grow [OF x] by (auto simp: extends_def)
    then show ?thesis using dest_ne [OF Some] by simp
  qed (use grow [OF x] in simp)
  have keys: "map fst (vg_candidates g') = map fst (vg_candidates g)" using eff(1) by (simp add: g')
  have flag': "vc_is_quarantined (cand g' x) = vc_is_quarantined (cand g' y)" if "x \<in> cand_ids g" "y \<in> cand_ids g" for x y
    using keep that flag [OF that] by simp
  have "step_effect g g'" unfolding step_effect_def using keys grown apart flag' by blast
  then show ?thesis by (simp add: g')
qed

lemma map_of_map_values: "map_of (map (\<lambda>p. (fst p, f (snd p))) xs) x = map_option f (map_of xs x)"
  by (induction xs) auto

lemma on_present_effect:
  assumes ok: "graph_ok g"
    and f: "\<And>c. \<not> vc_is_quarantined c \<Longrightarrow> \<exists>op. extends c op (f c) \<and> \<not> relocates op \<and> (vo_operation op = ''quarantine'' \<longleftrightarrow> quar)"
  shows "step_effect g (on_present f g)"
proof -
  let ?g' = "on_present f g"
  have keys: "map fst (vg_candidates ?g') = map fst (vg_candidates g)"
    by (simp add: on_present_def case_prod_unfold comp_def)
  have m: "map_of (vg_candidates ?g') x = map_option (\<lambda>c. if vc_is_quarantined c then c else f c) (map_of (vg_candidates g) x)" for x
    using map_of_map_values [of "\<lambda>c. if vc_is_quarantined c then c else f c" "vg_candidates g" x]
    by (simp add: on_present_def case_prod_unfold)
  have dist: "distinct (map fst (vg_candidates g))" using ok by (simp add: graph_ok_def)
  have cand': "cand ?g' x = (if vc_is_quarantined (cand g x) then cand g x else f (cand g x))" if "x \<in> cand_ids g" for x
  proof -
    have "map_of (vg_candidates g) x = Some (cand g x)" using cand_mem(1) [OF dist] that by simp
    then have "map_of (vg_candidates ?g') x = Some (if vc_is_quarantined (cand g x) then cand g x else f (cand g x))"
      using m [of x] by simp
    then show ?thesis by (subst cand_def) simp
  qed
  have flag: "vc_is_quarantined (cand g x) = vc_is_quarantined (cand g y)" if "x \<in> cand_ids g" "y \<in> cand_ids g" for x y
    using ok that unfolding graph_ok_def by blast
  have "grown (cand g x) (cand ?g' x) \<and> (\<forall>op. extends (cand g x) op (cand ?g' x) \<longrightarrow> \<not> relocates op) \<and>
      (vc_is_quarantined (cand ?g' x) \<longleftrightarrow> vc_is_quarantined (cand g x) \<or> quar)" if x: "x \<in> cand_ids g" for x
  proof (cases "vc_is_quarantined (cand g x)")
    case True
    then show ?thesis using cand' [OF x] by (simp add: grown_def extends_def)
  next
    case False
    then obtain op where op: "extends (cand g x) op (f (cand g x))" "\<not> relocates op" "vo_operation op = ''quarantine'' \<longleftrightarrow> quar"
      using f by blast
    have c: "cand ?g' x = f (cand g x)" using cand' [OF x] False by simp
    have "op' = op" if "extends (cand g x) op' (f (cand g x))" for op'
      using that op(1) by (simp add: extends_def)
    moreover have "vc_is_quarantined (f (cand g x)) \<longleftrightarrow> quar" using op(1,3) by (simp add: extends_def)
    ultimately show ?thesis unfolding c using False op(1,2) grown_def by blast
  qed
  then show ?thesis unfolding step_effect_def using keys flag by (metis (no_types, lifting))
qed

lemma append_op_extends:
  "\<not> vc_is_quarantined c \<Longrightarrow> name \<noteq> ''quarantine'' \<Longrightarrow> extends c
     \<lparr>vo_candidate_id = vc_id c, vo_workflow_step_index = i, vo_candidate_operation_index = length (vc_operations c),
       vo_operation = name, vo_source = vc_current_path c, vo_target = None, vo_mtime_ns = mtime, vo_reason = reason,
       vo_sequence = 0, vo_step_id = sid\<rparr> (append_op name None mtime reason sid i c)"
  by (simp add: extends_def append_op_def arrival_def)

lemma apply_step_effect:
  assumes ok: "graph_ok g" and run: "apply_step fs st g = Inr g'"
  shows "step_effect g g'"
proof (cases st)
  case (RenameAt s i)
  have "\<exists>op. vo_operation op \<noteq> ''quarantine'' \<and> (\<not> vc_is_quarantined c \<longrightarrow> extends c op (place_renamed s i t c))" for t c
    by (rule exI [of _ "last (vc_operations (place_renamed s i t c))"])
      (simp add: extends_def place_renamed_def append_op_def arrival_def)
  then show ?thesis using relocate_effect [OF ok] run RenameAt by (auto simp: apply_rename_def)
next
  case (MoveTo s root i)
  have "\<exists>op. vo_operation op \<noteq> ''quarantine'' \<and> (\<not> vc_is_quarantined c \<longrightarrow> extends c op (place_moved s i t c))" for t c
    by (rule exI [of _ "last (vc_operations (place_moved s i t c))"])
      (simp add: extends_def place_moved_def append_op_def arrival_def)
  then show ?thesis using relocate_effect [OF ok] run MoveTo by (auto simp: apply_move_def)
next
  case (TouchAt s i)
  let ?f = "append_op ''touch'' None (to_mtime_ns s) None (to_id s) i"
  have "step_effect g (on_present ?f g)"
    by (rule on_present_effect [OF ok, of _ False], rule exI, rule conjI, rule append_op_extends)
      (simp_all add: relocates_def)
  then show ?thesis using run TouchAt by (simp add: apply_touch_def)
next
  case (QuarantineAt s i)
  let ?f = "\<lambda>c. (append_op ''quarantine'' None None (Some (qu_reason s)) (qu_id s) i c)\<lparr>vc_is_quarantined := True\<rparr>"
  have "\<exists>op. extends c op (?f c) \<and> \<not> relocates op \<and> (vo_operation op = ''quarantine'' \<longleftrightarrow> True)" for c
    by (rule exI [of _ "last (vc_operations (?f c))"]) (simp add: extends_def append_op_def arrival_def relocates_def)
  then have "step_effect g (on_present ?f g)" by (rule on_present_effect [OF ok])
  then show ?thesis using run QuarantineAt by (simp add: apply_quarantine_def)
qed

lemma apply_step_ok: "graph_ok g \<Longrightarrow> apply_step fs st g = Inr g' \<Longrightarrow> graph_ok g'"
  by (rule graph_ok_step [OF _ apply_step_effect])

lemma apply_steps_ok: "graph_ok g \<Longrightarrow> apply_steps fs sts g = Inr g' \<Longrightarrow> graph_ok g'"
  by (induction sts arbitrary: g) (auto simp: bind_res_Inr intro: apply_step_ok)

text \<open>The candidates and where they came from stay.\<close>

lemma step_effect_keeps:
  assumes "step_effect g g'"
  shows "cand_ids g' = cand_ids g" "x \<in> cand_ids g \<Longrightarrow> vc_original_path (cand g' x) = vc_original_path (cand g x)"
proof -
  have "map fst (vg_candidates g') = map fst (vg_candidates g)" using assms unfolding step_effect_def by blast
  from arg_cong [OF this, of set] show "cand_ids g' = cand_ids g" by (simp add: cand_ids_def)
  assume "x \<in> cand_ids g"
  then have "grown (cand g x) (cand g' x)" using assms unfolding step_effect_def by blast
  then show "vc_original_path (cand g' x) = vc_original_path (cand g x)"
    unfolding grown_def extends_def by auto
qed

lemma apply_steps_keep:
  assumes "graph_ok g" "apply_steps fs sts g = Inr g'"
  shows "cand_ids g' = cand_ids g \<and> (\<forall>x \<in> cand_ids g. vc_original_path (cand g' x) = vc_original_path (cand g x))"
  using assms
proof (induction sts arbitrary: g)
  case (Cons st sts)
  then obtain g1 where g1: "apply_step fs st g = Inr g1" "apply_steps fs sts g1 = Inr g'" by (auto simp: bind_res_Inr)
  note e = apply_step_effect [OF Cons.prems(1) g1(1)]
  from Cons.IH [OF graph_ok_step [OF Cons.prems(1) e] g1(2)] step_effect_keeps [OF e] show ?case by auto
qed simp

text \<open>A graph of candidates without operations.\<close>

definition fresh_graph :: "virtual_graph \<Rightarrow> bool" where
  "fresh_graph g \<longleftrightarrow> distinct (map fst (vg_candidates g)) \<and>
     (\<forall>(x, c) \<in> set (vg_candidates g). vc_id c = x \<and> vc_operations c = [] \<and> vc_current_path c = vc_original_path c \<and> \<not> vc_is_quarantined c)"

lemma fresh_graph_ok:
  assumes "fresh_graph g"
  shows "graph_ok g"
proof -
  have "distinct (map fst (vg_candidates g))" using assms by (simp add: fresh_graph_def)
  note mem = cand_mem [OF this]
  have "x \<in> cand_ids g \<Longrightarrow> vc_id (cand g x) = x \<and> vc_operations (cand g x) = [] \<and>
      vc_current_path (cand g x) = vc_original_path (cand g x) \<and> \<not> vc_is_quarantined (cand g x)" for x
    using assms mem(2) [of x "cand g x"] by (auto simp: fresh_graph_def)
  then show ?thesis
    using assms by (auto simp: graph_ok_def fresh_graph_def cand_ok_def left_by_owner_def)
qed

lemma new_graph_fresh: "fresh_graph (new_graph roots q)"
  by (simp add: fresh_graph_def new_graph_def)

lemma add_candidate_fresh:
  assumes "fresh_graph g"
  shows "fresh_graph (add_candidate (fresh_candidate cid path root_id sz mtime) g)"
proof -
  have "(x, c) \<in> set (AList.update k v al) \<Longrightarrow> (x, c) \<in> set al \<or> x = k \<and> c = v" for x k :: int and c v :: virtual_candidate and al
    by (induction al) (auto split: if_splits)
  moreover have "distinct (map fst (AList.update k v al))" if "distinct (map fst al)" for k :: int and v :: virtual_candidate and al
    using that by (simp add: distinct_update)
  ultimately show ?thesis
    using assms by (fastforce simp: fresh_graph_def add_candidate_def fresh_candidate_def)
qed

end
