(* ===== verification/VirtualGraphPlan.thy ===== *)
theory VirtualGraphPlan
  imports VirtualGraphSafety
begin

section \<open>The plan of a virtual path graph\<close>

text \<open>
  The operations of a graph and their dependencies in terms of candidates and places, the facts
  the collision checks establish, and the theorems about \<open>resolve_ordered_operations\<close>.
\<close>

subsection \<open>The operations and their names\<close>

lemma ordered_candidates_set:
  assumes "graph_ok g"
  shows "set (ordered_candidates g) = cand g ` cand_ids g" "distinct (map vc_id (ordered_candidates g))"
proof -
  have d: "distinct (map fst (vg_candidates g))" using assms by (simp add: graph_ok_def)
  have id: "x \<in> cand_ids g \<Longrightarrow> vc_id (cand g x) = x" for x using assms by (auto simp: graph_ok_def cand_ok_def)
  have snd: "map snd (vg_candidates g) = map (cand g) (map fst (vg_candidates g))"
    using cand_mem(2) [OF d] by (auto simp: comp_def)
  show "set (ordered_candidates g) = cand g ` cand_ids g"
    using snd by (metis cand_ids_def list.set_map ordered_candidates_def set_sort)
  have "distinct (map vc_id (map snd (vg_candidates g)))"
    using d id by (simp add: snd comp_def cand_ids_def distinct_map inj_on_def)
  then have "distinct (map snd (vg_candidates g))" "inj_on vc_id (set (map snd (vg_candidates g)))"
    unfolding distinct_map by blast+
  then show "distinct (map vc_id (ordered_candidates g))"
    by (simp add: ordered_candidates_def distinct_map distinct_sort)
qed

lemma op_slots_length: "length (op_slots cs) = length (all_ops cs)"
  by (induction cs) (auto simp: op_slots_def all_ops_def)

lemma op_slots_set: "set (op_slots cs) = {(vc_id c, k) | c k. c \<in> set cs \<and> k < length (vc_operations c)}"
  by (auto simp: op_slots_def)

lemma op_slots_distinct: "distinct (map vc_id cs) \<Longrightarrow> distinct (op_slots cs)"
proof (induction cs)
  case (Cons c cs)
  have "op_slots (c # cs) = map (\<lambda>k. (vc_id c, k)) [0..<length (vc_operations c)] @ op_slots cs"
    by (simp add: op_slots_def)
  then show ?case using Cons by (auto simp: distinct_map inj_on_def op_slots_set)
qed (simp add: op_slots_def)

lemma op_slots_nth:
  "i < length (all_ops cs) \<Longrightarrow>
     \<exists>c \<in> set cs. \<exists>k < length (vc_operations c). op_slots cs ! i = (vc_id c, k) \<and> all_ops cs ! i = vc_operations c ! k"
proof (induction cs arbitrary: i)
  case (Cons c cs)
  have e: "op_slots (c # cs) = map (\<lambda>k. (vc_id c, k)) [0..<length (vc_operations c)] @ op_slots cs"
    "all_ops (c # cs) = vc_operations c @ all_ops cs" by (simp_all add: op_slots_def all_ops_def)
  show ?case
  proof (cases "i < length (vc_operations c)")
    case True then show ?thesis by (auto simp: e nth_append)
  next
    case False
    then have "i - length (vc_operations c) < length (all_ops cs)" using Cons.prems by (simp add: e)
    from Cons.IH [OF this] False show ?thesis by (auto simp: e nth_append)
  qed
qed (simp add: all_ops_def)

lemma index_first: "s \<in> set xs \<Longrightarrow>
  length (takeWhile (\<lambda>t. t \<noteq> s) xs) < length xs \<and> xs ! length (takeWhile (\<lambda>t. t \<noteq> s) xs) = s"
  by (induction xs) auto

lemma op_index_lt: "s \<in> set (op_slots cs) \<Longrightarrow> op_index cs s < length (op_slots cs) \<and> op_slots cs ! op_index cs s = s"
  unfolding op_index_def by (rule index_first)

definition ops_by_id :: "virtual_graph \<Rightarrow> int \<Rightarrow> virtual_operation list" where
  "ops_by_id g c = vc_operations (cand g c)"

definition origins :: "virtual_graph \<Rightarrow> int \<Rightarrow> string" where
  "origins g c = vc_original_path (cand g c)"

lemma slots_are:
  assumes "graph_ok g"
  shows "set (op_slots (ordered_candidates g)) = slots_of (cand_ids g) (ops_by_id g)"
    and "distinct (op_slots (ordered_candidates g))"
    and "i < length (all_ops (ordered_candidates g)) \<Longrightarrow>
      all_ops (ordered_candidates g) ! i = op_at (ops_by_id g) (op_slots (ordered_candidates g) ! i) \<and>
      vo_candidate_id (all_ops (ordered_candidates g) ! i) = fst (op_slots (ordered_candidates g) ! i)"
proof -
  note oc = ordered_candidates_set [OF assms]
  have id: "x \<in> cand_ids g \<Longrightarrow> vc_id (cand g x) = x" for x using assms by (auto simp: graph_ok_def cand_ok_def)
  show "distinct (op_slots (ordered_candidates g))" by (rule op_slots_distinct [OF oc(2)])
  show "set (op_slots (ordered_candidates g)) = slots_of (cand_ids g) (ops_by_id g)"
  proof -
    have "{(vc_id c, k) |c k. c \<in> cand g ` cand_ids g \<and> k < length (vc_operations c)}
        = {(x, k) |x k. x \<in> cand_ids g \<and> k < length (vc_operations (cand g x))}"
      using id by force
    then show ?thesis by (simp add: op_slots_set oc(1) slots_of_def ops_by_id_def)
  qed
  assume "i < length (all_ops (ordered_candidates g))"
  then obtain c k where c: "c \<in> set (ordered_candidates g)" "k < length (vc_operations c)"
      "op_slots (ordered_candidates g) ! i = (vc_id c, k)" "all_ops (ordered_candidates g) ! i = vc_operations c ! k"
    using op_slots_nth by blast
  then obtain x where x: "x \<in> cand_ids g" "c = cand g x" using oc(1) by auto
  have "vo_candidate_id (vc_operations c ! k) = x"
    using assms x c(2) by (auto simp: graph_ok_def cand_ok_def)
  then show "all_ops (ordered_candidates g) ! i = op_at (ops_by_id g) (op_slots (ordered_candidates g) ! i) \<and>
      vo_candidate_id (all_ops (ordered_candidates g) ! i) = fst (op_slots (ordered_candidates g) ! i)"
    using c x id by (simp add: op_at_def ops_by_id_def)
qed

lemma all_ops_set:
  assumes "graph_ok g"
  shows "op \<in> set (all_ops (ordered_candidates g)) \<longleftrightarrow> (\<exists>x \<in> cand_ids g. op \<in> set (ops_by_id g x))"
  by (auto simp: all_ops_def ordered_candidates_set [OF assms] ops_by_id_def)

text \<open>The id of an operation says whose it is.\<close>

lemma op_owner:
  assumes "graph_ok g" "x \<in> cand_ids g" "op \<in> set (ops_by_id g x)"
  shows "vo_candidate_id op = x"
  using assms by (auto simp: graph_ok_def cand_ok_def ops_by_id_def in_set_conv_nth)

subsection \<open>The dependencies\<close>

lemma cross_edge_iff: "(i, j) \<in> set (cross_entity_edges ops) \<longleftrightarrow> j < length ops \<and> relocates (ops ! j) \<and>
  i \<in> set (vacating ops (the (vo_target (ops ! j)))) \<and> vo_candidate_id (ops ! i) \<noteq> vo_candidate_id (ops ! j)"
  by (auto simp: cross_entity_edges_def split: if_splits)

lemma dependencies_in:
  assumes "graph_ok g"
  shows "edges_in (length (all_ops (ordered_candidates g))) (dependencies g)"
proof -
  let ?cs = "ordered_candidates g"
  have d: "distinct (map fst (vg_candidates g))" using assms by (simp add: graph_ok_def)
  have idx: "op_index ?cs (vc_id c, k) < length (all_ops ?cs)"
    if "(x, c) \<in> set (vg_candidates g)" "k < length (vc_operations c)" for x c k
  proof -
    have "c \<in> set ?cs" using that(1) cand_mem(2) [OF d] ordered_candidates_set(1) [OF assms] by auto
    then have "(vc_id c, k) \<in> set (op_slots ?cs)" using that(2) by (auto simp: op_slots_set)
    then show ?thesis using op_index_lt op_slots_length by metis
  qed
  have "u < length (all_ops ?cs) \<and> v < length (all_ops ?cs)" if "(u, v) \<in> set (same_entity_edges g)" for u v
    using that idx by (auto simp: same_entity_edges_def Let_def)
  moreover have "u < length (all_ops ?cs) \<and> v < length (all_ops ?cs)" if "(u, v) \<in> set (cross_entity_edges (all_ops ?cs))" for u v
    using that by (auto simp: cross_edge_iff vacating_def)
  ultimately show ?thesis by (auto simp: edges_in_def dependencies_def)
qed

lemma before_edge:
  assumes ok: "graph_ok g" and s: "s \<in> slots_of (cand_ids g) (ops_by_id g)" and t: "t \<in> slots_of (cand_ids g) (ops_by_id g)"
    and b: "before (ops_by_id g) s t"
  shows "(op_index (ordered_candidates g) s, op_index (ordered_candidates g) t) \<in> set (dependencies g)"
proof -
  let ?cs = "ordered_candidates g" and ?ops = "all_ops (ordered_candidates g)"
  let ?i = "op_index ?cs s" and ?j = "op_index ?cs t"
  have d: "distinct (map fst (vg_candidates g))" using ok by (simp add: graph_ok_def)
  have idx: "?i < length ?ops \<and> op_slots ?cs ! ?i = s" "?j < length ?ops \<and> op_slots ?cs ! ?j = t"
    using op_index_lt s t slots_are(1) [OF ok] op_slots_length by metis+
  have at: "?ops ! ?i = op_at (ops_by_id g) s" "vo_candidate_id (?ops ! ?i) = fst s"
    "?ops ! ?j = op_at (ops_by_id g) t" "vo_candidate_id (?ops ! ?j) = fst t"
    using slots_are(3) [OF ok, of ?i] slots_are(3) [OF ok, of ?j] idx by auto
  from b consider "fst s = fst t" "snd t = Suc (snd s)"
    | p where "fst s \<noteq> fst t" "departs (op_at (ops_by_id g) s) p" "arrives (op_at (ops_by_id g) t) p"
    by (auto simp: before_def)
  then show ?thesis
  proof cases
    case 1
    obtain x k where sx: "s = (x, k)" by (cases s)
    then have t': "t = (x, Suc k)" using 1 by (cases t) simp
    have x: "x \<in> cand_ids g" "Suc k < length (vc_operations (cand g x))" using t t' by (auto simp: slots_of_def ops_by_id_def)
    then have mem: "(x, cand g x) \<in> set (vg_candidates g)" using cand_mem(2) [OF d] by blast
    have id: "vc_id (cand g x) = x" using ok x(1) by (auto simp: graph_ok_def cand_ok_def)
    have "k \<in> set [0..<length (vc_operations (cand g x)) - 1]" using x(2) by auto
    then have "(?i, ?j) \<in> set (same_entity_edges g)"
      unfolding same_entity_edges_def Let_def set_concat set_map sx t' using mem id by force
    then show ?thesis by (simp add: dependencies_def)
  next
    case 2
    have rel: "relocates (?ops ! ?j)" "vo_target (?ops ! ?j) = Some p" "relocates (?ops ! ?i)" "vo_source (?ops ! ?i) = p"
      using 2 at by (auto simp: departs_def arrives_def)
    then have "?i \<in> set (vacating ?ops p)" using idx by (simp add: vacating_def)
    then have "(?i, ?j) \<in> set (cross_entity_edges ?ops)"
      using rel idx 2(1) at by (simp add: cross_edge_iff)
    then show ?thesis by (simp add: dependencies_def)
  qed
qed

text \<open>An order of the nodes along the edges is an order of the operations that can run.\<close>

lemma order_executable:
  assumes ok: "graph_ok g" and lin: "linear_order_of (length (all_ops (ordered_candidates g))) (dependencies g) order"
  shows "executable (cand_ids g) (ops_by_id g) (map ((!) (op_slots (ordered_candidates g))) order)"
proof -
  let ?cs = "ordered_candidates g" let ?slots = "op_slots ?cs" let ?n = "length (all_ops ?cs)"
  have o: "distinct order" "set order = {..<?n}" "obeys (dependencies g) order" using lin by (auto simp: linear_order_of_def)
  note sl = slots_are [OF ok]
  have inj: "i < ?n \<Longrightarrow> j < ?n \<Longrightarrow> ?slots ! i = ?slots ! j \<Longrightarrow> i = j" for i j
    using sl(2) by (simp add: nth_eq_iff_index_eq op_slots_length)
  have "distinct (map ((!) ?slots) order)" using o inj by (auto simp: distinct_map inj_on_def)
  moreover have "set (map ((!) ?slots) order) \<subseteq> slots_of (cand_ids g) (ops_by_id g)"
    using o(2) sl(1) op_slots_length [of ?cs] nth_mem by fastforce
  moreover have "s \<in> set ys"
    if split: "map ((!) ?slots) order = ys @ t # zs" and s: "s \<in> slots_of (cand_ids g) (ops_by_id g)" and b: "before (ops_by_id g) s t" for ys t zs s
  proof -
    obtain os i os' where parts: "order = os @ i # os'" "ys = map ((!) ?slots) os" "t = ?slots ! i"
      using split by (auto simp: map_eq_append_conv)
    have i: "i < ?n" using o(2) parts by auto
    then have "?slots ! i \<in> set ?slots" by (simp add: op_slots_length)
    then have t: "t \<in> slots_of (cand_ids g) (ops_by_id g)" using sl(1) parts(3) by simp
    have idx: "op_index ?cs t < ?n" "?slots ! op_index ?cs t = t" "op_index ?cs s < ?n" "?slots ! op_index ?cs s = s"
      using op_index_lt s t sl(1) op_slots_length by metis+
    then have "op_index ?cs t = i" using inj i parts(3) by simp
    then have "(op_index ?cs s, i) \<in> set (dependencies g)" using before_edge [OF ok s t b] by simp
    moreover have "obeys (dependencies g) (os @ [i])" using o(3) obeys_prefix [of _ "os @ [i]" os'] parts(1) by simp
    ultimately have "op_index ?cs s \<in> set os" by (simp add: obeys_append)
    then show ?thesis using idx(4) parts(2) by force
  qed
  ultimately show ?thesis unfolding executable_def by blast
qed

subsection \<open>What the checks establish\<close>

lemma well_planned_graph: "graph_ok g \<Longrightarrow> well_planned (cand_ids g) (origins g) (ops_by_id g)"
  unfolding well_planned_def graph_ok_def cand_ok_def origins_def ops_by_id_def by blast

lemma one_final_candidate:
  assumes ok: "graph_ok g" and chk: "check_shared_targets g (all_ops (ordered_candidates g)) = Inr ()"
    and x: "x \<in> cand_ids g" "op \<in> set (ops_by_id g x)" "arrives op p" "position (origins g x) (ops_by_id g x) = p"
    and y: "y \<in> cand_ids g" "op' \<in> set (ops_by_id g y)" "arrives op' p" "position (origins g y) (ops_by_id g y) = p"
  shows "x = y"
proof (rule ccontr)
  assume ne: "x \<noteq> y"
  let ?ops = "all_ops (ordered_candidates g)"
  have d: "distinct (map fst (vg_candidates g))" using ok by (simp add: graph_ok_def)
  have mem: "z \<in> set (candidates_to ?ops p) \<and> z \<in> set (final_candidates g ?ops p)"
    if "z \<in> cand_ids g" "act \<in> set (ops_by_id g z)" "arrives act p" "position (origins g z) (ops_by_id g z) = p" for z act
  proof -
    have "act \<in> set ?ops" using all_ops_set [OF ok] that(1,2) by blast
    moreover have "vo_candidate_id act = z" by (rule op_owner [OF ok that(1,2)])
    ultimately have c: "z \<in> set (candidates_to ?ops p)"
      using that(3) by (force simp: candidates_to_def arrives_def)
    have "map_of (vg_candidates g) z = Some (cand g z)" using cand_mem(1) [OF d] that(1) by blast
    moreover have "vc_current_path (cand g z) = p"
      using ok that(1,4) by (simp add: graph_ok_def cand_ok_def origins_def ops_by_id_def)
    ultimately show ?thesis using c by (simp add: final_candidates_def)
  qed
  have two: "length xs > 1" if "x \<in> set xs" "y \<in> set xs" for xs :: "int list"
    using that ne by (cases xs; cases "tl xs") auto
  have "op \<in> set ?ops" using all_ops_set [OF ok] x(1,2) by blast
  moreover have "relocates op" "the (vo_target op) = p" using x(3) by (auto simp: arrives_def)
  moreover have "length (candidates_to ?ops p) > 1" "length (final_candidates g ?ops p) > 1"
    using mem [OF x] mem [OF y] two by blast+
  ultimately show False
    using chk by (auto simp: check_shared_targets_def find_None_iff split: option.splits)
qed

lemma check_targets_all: "check_targets fs g ops rest = Inr () \<Longrightarrow> op \<in> set rest \<Longrightarrow> check_target fs g ops op = Inr ()"
  by (induction rest) (auto simp: bind_res_Inr)

lemma checked_target:
  assumes ok: "graph_ok g" and chk: "check_targets fs g (all_ops (ordered_candidates g)) (all_ops (ordered_candidates g)) = Inr ()"
    and x: "x \<in> cand_ids g" "op \<in> set (ops_by_id g x)" "arrives op p" and ex: "fs_exists fs p"
  shows "p \<in> origins g ` cand_ids g" "\<exists>z \<in> cand_ids g. \<exists>op' \<in> set (ops_by_id g z). departs op' p"
proof -
  let ?ops = "all_ops (ordered_candidates g)"
  have d: "distinct (map fst (vg_candidates g))" using ok by (simp add: graph_ok_def)
  have "op \<in> set ?ops" using all_ops_set [OF ok] x(1,2) by blast
  then have c: "check_target fs g ?ops op = Inr ()" by (rule check_targets_all [OF chk])
  have r: "relocates op" "the (vo_target op) = p" using x(3) by (auto simp: arrives_def)
  then obtain occ where occ: "original_path_to_cand g p = Some occ" and v: "vacating ?ops p \<noteq> []"
    using c ex by (auto simp: check_target_def split: option.splits if_splits)
  from occ obtain z c where "(z, c) \<in> set (vg_candidates g)" "vc_original_path c = p"
    by (auto simp: original_path_to_cand_def dest!: map_of_SomeD)
  then show "p \<in> origins g ` cand_ids g" using cand_mem(2) [OF d] by (auto simp: origins_def)
  from v obtain i where "i < length ?ops" "departs (?ops ! i) p"
    by (auto simp: vacating_def filter_empty_conv departs_def)
  then show "\<exists>z \<in> cand_ids g. \<exists>op' \<in> set (ops_by_id g z). departs op' p"
    using all_ops_set [OF ok] nth_mem by blast
qed

lemma graph_targets_checked:
  assumes ok: "graph_ok g"
    and sh: "check_shared_targets g (all_ops (ordered_candidates g)) = Inr ()"
    and ct: "check_targets fs g (all_ops (ordered_candidates g)) (all_ops (ordered_candidates g)) = Inr ()"
    and ex: "\<forall>c \<in> cand_ids g. fs_exists fs (origins g c)"
  shows "targets_checked (\<lambda>p. fs_exists fs p \<and> p \<notin> origins g ` cand_ids g) (cand_ids g) (origins g) (ops_by_id g)"
  unfolding targets_checked_def
proof (intro ballI allI impI conjI)
  fix x op p
  assume x: "x \<in> cand_ids g" "op \<in> set (ops_by_id g x)" "arrives op p"
  show "\<not> (fs_exists fs p \<and> p \<notin> origins g ` cand_ids g)"
    using checked_target(1) [OF ok ct x] by blast
  fix y
  assume y: "y \<in> cand_ids g" "y \<noteq> x"
  show "\<exists>op' \<in> set (ops_by_id g y). departs op' p" if o: "origins g y = p"
  proof -
    have "fs_exists fs p" using ex y(1) o by blast
    from checked_target(2) [OF ok ct x this] obtain z op' where z: "z \<in> cand_ids g" "op' \<in> set (ops_by_id g z)" "departs op' p"
      by blast
    then show ?thesis
      using ok y(1) o unfolding graph_ok_def left_by_owner_def ops_by_id_def origins_def by metis
  qed
  show "position (origins g x) (ops_by_id g x) \<noteq> p \<or> position (origins g y) (ops_by_id g y) \<noteq> p"
    if a: "\<exists>op' \<in> set (ops_by_id g y). arrives op' p"
    using one_final_candidate [OF ok sh x _ y(1)] a y(2) by blast
qed

subsection \<open>The result\<close>

lemma resolve_Inr:
  assumes "resolve_ordered_operations fs g = Inr res" "all_ops (ordered_candidates g) \<noteq> []"
  obtains order deg where "check_shared_targets g (all_ops (ordered_candidates g)) = Inr ()"
    "check_targets fs g (all_ops (ordered_candidates g)) (all_ops (ordered_candidates g)) = Inr ()"
    "topological (heap_item (all_ops (ordered_candidates g))) (length (all_ops (ordered_candidates g))) (dependencies g) = (order, deg)"
    "\<not> length order < length (all_ops (ordered_candidates g))" "res = number_ops (all_ops (ordered_candidates g)) order"
  using assms by (auto simp: resolve_ordered_operations_def Let_def bind_res_Inr split: prod.splits if_splits)

lemma heap_item_inj: "inj_on (heap_item ops) A"
  by (auto simp: inj_on_def heap_item_def Let_def)

lemma run_op_sequence [simp]: "run_op (op\<lparr>vo_sequence := k\<rparr>) files = run_op op files"
  by (simp add: run_op_def relocates_def)

lemma run_number_ops: "run_ops (number_ops ops order) files = run_ops (map ((!) ops) order) files"
proof -
  have "run_ops (map (\<lambda>(seq, i). (ops ! i)\<lparr>vo_sequence := seq\<rparr>) (enumerate n order)) files = run_ops (map ((!) ops) order) files" for n files
    by (induction order arbitrary: n files) (auto split: option.splits)
  then show ?thesis by (simp add: number_ops_def)
qed

lemma resolve_order:
  assumes ok: "graph_ok g" and res: "resolve_ordered_operations fs g = Inr res"
  shows "\<exists>order. linear_order_of (length (all_ops (ordered_candidates g))) (dependencies g) order \<and>
    res = number_ops (all_ops (ordered_candidates g)) order \<and>
    (\<forall>other. linear_order_of (length (all_ops (ordered_candidates g))) (dependencies g) other \<longrightarrow>
       map (heap_item (all_ops (ordered_candidates g))) order \<le> map (heap_item (all_ops (ordered_candidates g))) other)"
proof (cases "all_ops (ordered_candidates g) = []")
  case True
  then have "res = []" using res by (simp add: resolve_ordered_operations_def)
  then show ?thesis using True by (intro exI [of _ "[]"]) (simp add: linear_order_of_def number_ops_def)
next
  case False
  note di = dependencies_in [OF ok]
  obtain order deg where t: "topological (heap_item (all_ops (ordered_candidates g))) (length (all_ops (ordered_candidates g))) (dependencies g) = (order, deg)"
      "\<not> length order < length (all_ops (ordered_candidates g))" "res = number_ops (all_ops (ordered_candidates g)) order"
    using resolve_Inr [OF res False] by metis
  then have "length order = length (all_ops (ordered_candidates g))"
    using topological_complete(2) [OF di t(1)] by simp
  then show ?thesis
    using topological_complete(3) [OF di t(1)] topological_least [OF di t(1) heap_item_inj] t(3) by blast
qed

lemma present_at: "present static C orig ops e files \<Longrightarrow> c \<in> C \<Longrightarrow> \<not> gone ops c (e c) \<Longrightarrow> files (place orig ops c (e c))"
  unfolding present_def files_are_def by blast

lemma plan_runs:
  assumes ok: "graph_ok g" and res: "resolve_ordered_operations fs g = Inr res"
    and ex: "\<forall>c \<in> cand_ids g. fs_exists fs (origins g c)" and inj: "inj_on (origins g) (cand_ids g)"
  shows "\<exists>files. run_ops res (fs_exists fs) = Some files \<and>
    (\<forall>c \<in> cand_ids g. vc_is_quarantined (cand g c) \<or> files (vc_current_path (cand g c)))"
proof -
  let ?ops = "all_ops (ordered_candidates g)" and ?slots = "op_slots (ordered_candidates g)" and ?C = "cand_ids g"
  obtain order where order: "linear_order_of (length ?ops) (dependencies g) order" "res = number_ops ?ops order"
    using resolve_order [OF ok res] by blast
  have exec: "executable ?C (ops_by_id g) (map ((!) ?slots) order)" by (rule order_executable [OF ok order(1)])
  have tc: "targets_checked (\<lambda>p. fs_exists fs p \<and> p \<notin> origins g ` ?C) ?C (origins g) (ops_by_id g)"
  proof (cases "?ops = []")
    case True
    then show ?thesis using all_ops_set [OF ok] by (auto simp: targets_checked_def)
  next
    case False
    then show ?thesis using resolve_Inr [OF res False] graph_targets_checked [OF ok _ _ ex] by metis
  qed
  obtain files where run: "run_ops (map (op_at (ops_by_id g)) (map ((!) ?slots) order)) (fs_exists fs) = Some files"
      and pr: "present (\<lambda>p. fs_exists fs p \<and> p \<notin> origins g ` ?C) ?C (origins g) (ops_by_id g) (ran (map ((!) ?slots) order)) files"
    using orders_run [OF well_planned_graph [OF ok] tc exec present_initially [OF inj ex]] by blast
  have "map (op_at (ops_by_id g)) (map ((!) ?slots) order) = map ((!) ?ops) order"
    using order(1) slots_are(3) [OF ok] by (auto simp: linear_order_of_def)
  then have "run_ops res (fs_exists fs) = Some files" using run by (simp only: order(2) run_number_ops)
  moreover have "vc_is_quarantined (cand g c) \<or> files (vc_current_path (cand g c))" if c: "c \<in> ?C" for c
  proof (cases "vc_is_quarantined (cand g c)")
    case False
    let ?m = "ran (map ((!) ?slots) order) c" and ?o = "ops_by_id g c"
    have "set (map ((!) ?slots) order) = set ?slots"
    proof -
      have "set order = {..<length ?slots}" using order(1) op_slots_length by (simp add: linear_order_of_def)
      then have "set (map ((!) ?slots) order) = (!) ?slots ` {..<length ?slots}" by simp
      then show ?thesis by (auto simp: set_conv_nth)
    qed
    then have "k < length ?o \<Longrightarrow> k < ?m" for k
      using ran_prefix [OF exec c] slots_are(1) [OF ok] c by (auto simp: slots_of_def)
    then have "length ?o \<le> ?m" by (meson not_le less_irrefl)
    then have m: "take ?m ?o = ?o" by simp
    have "\<not> gone (ops_by_id g) c ?m"
    proof -
      have "cand_ok c (cand g c)" using ok c by (simp add: graph_ok_def)
      then show ?thesis using False unfolding gone_def m by (auto simp: cand_ok_def ops_by_id_def in_set_conv_nth)
    qed
    moreover have "vc_current_path (cand g c) = place (origins g) (ops_by_id g) c ?m"
    proof -
      have "cand_ok c (cand g c)" using ok c by (simp add: graph_ok_def)
      then show ?thesis unfolding place_def m by (simp add: cand_ok_def ops_by_id_def origins_def)
    qed
    ultimately show ?thesis using present_at [OF pr c] by simp
  qed simp
  ultimately show ?thesis by blast
qed

lemma sort_remdups_Nil: "sort (remdups xs) = [] \<longleftrightarrow> xs = []"
  by (metis remdups_eq_nil_iff set_empty set_sort)

lemma filter_range_Nil: "v < n \<Longrightarrow> P v \<Longrightarrow> filter P [0..<n] \<noteq> []"
  by (auto simp: filter_empty_conv)

subsection \<open>Theorems\<close>

text \<open>
  C25: the plan of a simulated workflow is the least order of its operations that respects their
  dependencies: it has every operation once, numbered from 1, and compared by workflow step, place
  in the candidate, candidate and path no other such order is smaller.
\<close>

theorem plan_is_least_dependency_order:
  assumes "fresh_graph g0" "apply_steps fs steps g0 = Inr g"
    and "resolve_ordered_operations fs g = Inr res"
  shows "\<exists>order. linear_order_of (length (all_ops (ordered_candidates g))) (dependencies g) order \<and>
    res = number_ops (all_ops (ordered_candidates g)) order \<and>
    (\<forall>other. linear_order_of (length (all_ops (ordered_candidates g))) (dependencies g) other \<longrightarrow>
       map (heap_item (all_ops (ordered_candidates g))) order \<le> map (heap_item (all_ops (ordered_candidates g))) other)"
  by (rule resolve_order [OF apply_steps_ok [OF fresh_graph_ok [OF assms(1)] assms(2)] assms(3)])


subsection \<open>An example\<close>

text \<open>Two files of /r: b is renamed to c, then a to b, which has to wait for it, on a storage
  without links where a path is what it says.\<close>

definition plain_storage :: "string list \<Rightarrow> mutation_fs" where
  "plain_storage files = \<lparr>fs_resolve = pure_parts, fs_is_dir = (\<lambda>p. False), fs_expanduser = (\<lambda>p. p),
     fs_symlink = (\<lambda>p. NoSymlink), fs_name_max = (\<lambda>p. None), fs_exists = (\<lambda>p. p \<in> set files)\<rparr>"

definition two_files :: virtual_graph where
  "two_files = add_candidate (fresh_candidate 2 ''/r/b'' 1 10 0)
     (add_candidate (fresh_candidate 1 ''/r/a'' 1 10 0) (new_graph [''/r''] None))"

definition shift_names :: "graph_step list" where
  "shift_names = [RenameAt \<lparr>rn_id = ''s1'', rn_pattern = ''b'', rn_replacement = ''c''\<rparr> 1,
     RenameAt \<lparr>rn_id = ''s2'', rn_pattern = ''a'', rn_replacement = ''b''\<rparr> 2]"

definition shifted :: virtual_graph where
  "shifted = (case apply_steps (plain_storage [''/r/a'', ''/r/b'']) shift_names two_files of Inr g \<Rightarrow> g | Inl e \<Rightarrow> two_files)"

lemma two_files_fresh: "fresh_graph two_files"
  by (simp add: two_files_def add_candidate_fresh new_graph_fresh)

lemma shifted_run: "apply_steps (plain_storage [''/r/a'', ''/r/b'']) shift_names two_files = Inr shifted"
  by code_simp

lemma shifted_checks:
  "check_shared_targets shifted (all_ops (ordered_candidates shifted)) = Inr ()"
  "check_targets (plain_storage [''/r/a'', ''/r/b'']) shifted (all_ops (ordered_candidates shifted)) (all_ops (ordered_candidates shifted)) = Inr ()"
  by code_simp+

lemma shifted_deps: "dependencies shifted = [(1, 0)]"
  by code_simp

lemma shifted_acyclic: "acyclic (set (dependencies shifted))"
  by (simp add: shifted_deps acyclic_insert) (simp add: acyclic_def)

lemma shifted_resolved: "(case resolve_ordered_operations (plain_storage [''/r/a'', ''/r/b'']) shifted of
    Inl e \<Rightarrow> None | Inr res \<Rightarrow> Some (map (\<lambda>op. (vo_source op, vo_target op)) res)) =
    Some [(''/r/b'', Some ''/r/c''), (''/r/a'', Some ''/r/b'')]"
  by code_simp

lemma shifted_plan: "\<exists>res. resolve_ordered_operations (plain_storage [''/r/a'', ''/r/b'']) shifted = Inr res"
  using shifted_resolved by (simp split: sum.splits)

text \<open>The shifted names are planned in the order that frees b first, and it is the least one.\<close>

theorem plan_is_least_dependency_order_witness:
  "\<exists>res order. resolve_ordered_operations (plain_storage [''/r/a'', ''/r/b'']) shifted = Inr res \<and>
     linear_order_of (length (all_ops (ordered_candidates shifted))) (dependencies shifted) order \<and>
     res = number_ops (all_ops (ordered_candidates shifted)) order"
  using shifted_plan plan_is_least_dependency_order [OF two_files_fresh shifted_run] by blast


end
