(* ===== verification/IsoDatetime.thy ===== *)
theory IsoDatetime
  imports Records
begin

section \<open>ISO dates and times\<close>

text \<open>
  \<open>datetime.fromisoformat\<close> of the standard library (Python 3.12), as far as the code uses it: the
  wall-clock time in microseconds since 1970-01-01T00:00, and the offset from UTC in microseconds
  when the text has one. A date is written with its month and day or with its ISO week.
\<close>

subsection \<open>The calendar\<close>

definition is_leap :: "int \<Rightarrow> bool" where
  "is_leap y \<longleftrightarrow> y mod 4 = 0 \<and> (y mod 100 \<noteq> 0 \<or> y mod 400 = 0)"

definition days_in_month :: "int \<Rightarrow> int \<Rightarrow> int" where
  "days_in_month y m = (if m = 2 then (if is_leap y then 29 else 28)
     else if m \<in> {4, 6, 9, 11} then 30 else 31)"

definition ymd_ordinal :: "int \<Rightarrow> int \<Rightarrow> int \<Rightarrow> int" where
  "ymd_ordinal y m d = (y - 1) * 365 + (y - 1) div 4 - (y - 1) div 100 + (y - 1) div 400 +
     sum_list (map (days_in_month y) [1..m - 1]) + d"

definition ymd_valid :: "int \<Rightarrow> int \<Rightarrow> int \<Rightarrow> bool" where
  "ymd_valid y m d \<longleftrightarrow> 1 \<le> y \<and> y \<le> 9999 \<and> 1 \<le> m \<and> m \<le> 12 \<and> 1 \<le> d \<and> d \<le> days_in_month y m"

definition week1_monday :: "int \<Rightarrow> int" where
  "week1_monday y = (let first = ymd_ordinal y 1 1; wd = (first + 6) mod 7; monday = first - wd in
     if wd > 3 then monday + 7 else monday)"

definition week_ordinal :: "int \<Rightarrow> int \<Rightarrow> int \<Rightarrow> int option" where
  "week_ordinal y w d =
     (let first = ymd_ordinal y 1 1 mod 7; n = week1_monday y + (w - 1) * 7 + (d - 1) in
      if 1 \<le> y \<and> y \<le> 9999 \<and> 1 \<le> d \<and> d \<le> 7 \<and> n \<le> ymd_ordinal 9999 12 31 \<and>
         (1 \<le> w \<and> w \<le> 52 \<or> w = 53 \<and> (first = 4 \<or> first = 3 \<and> is_leap y))
      then Some n else None)"

subsection \<open>Parsing\<close>

text \<open>A number of exactly n digits at the front, and what follows.\<close>

definition take_digits :: "nat \<Rightarrow> string \<Rightarrow> (int \<times> string) option" where
  "take_digits n s = (if n \<le> length s \<and> list_all is_digit (take n s)
     then Some (fold (\<lambda>c v. 10 * v + digit_val c) (take n s) 0, drop n s) else None)"

definition iso_separator :: "string \<Rightarrow> nat" where
  "iso_separator s =
     (if length s = 7 then 7
      else if s ! 4 = CHR ''-'' then
        (if s ! 5 = CHR ''W'' then
           (if length s > 8 \<and> s ! 8 = CHR ''-'' \<and> \<not> (length s > 10 \<and> is_digit (s ! 10)) then 10 else 8)
         else 10)
      else if s ! 4 = CHR ''W'' then
        (let i = 7 + length (takeWhile is_digit (drop 7 s)) in
         if i < 9 then i else if even i then 7 else 8)
      else 8)"

definition parse_iso_date :: "string \<Rightarrow> int option" where
  "parse_iso_date s = (case take_digits 4 s of None \<Rightarrow> None | Some (y, r) \<Rightarrow>
     (let sep = (r \<noteq> [] \<and> hd r = CHR ''-''); r = (if sep then tl r else r) in
      if r \<noteq> [] \<and> hd r = CHR ''W'' then
        (case take_digits 2 (tl r) of None \<Rightarrow> None | Some (w, r) \<Rightarrow>
          if r = [] then week_ordinal y w 1
          else if sep \<and> hd r \<noteq> CHR ''-'' then None
          else (case take_digits 1 (if sep then tl r else r) of
                  Some (d, []) \<Rightarrow> week_ordinal y w d | _ \<Rightarrow> None))
      else
        (case take_digits 2 r of None \<Rightarrow> None | Some (m, r) \<Rightarrow>
          if sep \<and> (r = [] \<or> hd r \<noteq> CHR ''-'') then None
          else (case take_digits 2 (if sep then tl r else r) of
                  Some (d, []) \<Rightarrow> if ymd_valid y m d then Some (ymd_ordinal y m d) else None
                | _ \<Rightarrow> None))))"

text \<open>\<open>[HH[:?MM[:?SS[.fff[fff]]]]]\<close>, the digits after the sixth are ignored.\<close>

definition parse_fraction :: "string \<Rightarrow> int option" where
  "parse_fraction s = (if s = [] then Some 0
     else if hd s \<noteq> CHR ''.'' \<and> hd s \<noteq> CHR '','' then None
     else (let ds = tl s; n = min 6 (length ds) in
       case take_digits n ds of None \<Rightarrow> None
       | Some (v, r) \<Rightarrow> if ds = [] \<or> \<not> list_all is_digit r then None else Some (v * 10 ^ (6 - n))))"

fun parse_clock :: "bool \<Rightarrow> int list \<Rightarrow> string \<Rightarrow> (int list \<times> string) option" where
  "parse_clock sep [] s = Some ([], s)"
| "parse_clock sep (u # us) s = (case take_digits 2 s of None \<Rightarrow> None | Some (v, r) \<Rightarrow>
     if r = [] \<or> us = [] \<or> hd r = CHR ''.'' \<or> hd r = CHR '','' then Some ([v], r)
     else if sep \<and> hd r \<noteq> CHR '':'' then None
     else map_option (\<lambda>(vs, r). (v # vs, r)) (parse_clock sep us (if sep then tl r else r)))"

definition parse_hms :: "string \<Rightarrow> (int \<times> int \<times> int \<times> int) option" where
  "parse_hms s = (case parse_clock (length s > 2 \<and> s ! 2 = CHR '':'') [0, 1, 2] s of
     None \<Rightarrow> None
   | Some (vs, r) \<Rightarrow> (let v = (\<lambda>i. if i < length vs then vs ! i else 0) in
       map_option (\<lambda>us. (v 0, v 1, v 2, us)) (parse_fraction r)))"

definition clock_micros :: "int \<times> int \<times> int \<times> int \<Rightarrow> int" where
  "clock_micros t = (case t of (h, m, s, us) \<Rightarrow> ((h * 60 + m) * 60 + s) * 1000000 + us)"

definition clock_valid :: "int \<times> int \<times> int \<times> int \<Rightarrow> bool" where
  "clock_valid t \<longleftrightarrow> (case t of (h, m, s, us) \<Rightarrow> h \<le> 23 \<and> m \<le> 59 \<and> s \<le> 59)"

definition day_micros :: int where "day_micros = 86400000000"

definition parse_iso_time :: "string \<Rightarrow> (int \<times> int option) option" where
  "parse_iso_time s =
     (let wall = takeWhile (\<lambda>c. c \<noteq> CHR ''+'' \<and> c \<noteq> CHR ''-'' \<and> c \<noteq> CHR ''Z'') s; zone = drop (length wall) s in
      case parse_hms wall of None \<Rightarrow> None
      | Some t \<Rightarrow>
         if \<not> clock_valid t then None
         else if zone = [] then Some (clock_micros t, None)
         else if hd zone = CHR ''Z'' then (if tl zone = [] then Some (clock_micros t, Some 0) else None)
         else (case parse_hms (tl zone) of None \<Rightarrow> None
               | Some z \<Rightarrow> if clock_micros z \<ge> day_micros then None
                   else Some (clock_micros t, Some (if hd zone = CHR ''-'' then - clock_micros z else clock_micros z))))"

definition fromisoformat :: "string \<Rightarrow> (int \<times> int option) option" where
  "fromisoformat s =
     (if length s < 7 then None
      else (let n = iso_separator s in
        case parse_iso_date (take n s) of None \<Rightarrow> None
        | Some day \<Rightarrow>
           (let midnight = (day - ymd_ordinal 1970 1 1) * day_micros in
            if length s - n \<le> 1 then Some (midnight, None)
            else map_option (\<lambda>(t, z). (midnight + t, z)) (parse_iso_time (drop (Suc n) s)))))"

text \<open>Texts of both kinds of date, with and without an offset.\<close>

lemma fromisoformat_examples:
  "fromisoformat ''1970-01-01'' = Some (0, None)"
  "fromisoformat ''2024-02-29T12:30:15.5+02:00'' = Some (1709209815500000, Some 7200000000)"
  "fromisoformat ''20240229T123015Z'' = Some (1709209815000000, Some 0)"
  "fromisoformat ''2024-W09-4'' = fromisoformat ''2024-02-29''"
  "fromisoformat ''2023-02-29'' = None"
  "fromisoformat ''2024-02-29T24:00'' = None"
  by code_simp+

end
