(* ===== verification/FilterAst.thy ===== *)
theory FilterAst
  imports IsoDatetime
begin

section \<open>Filter expressions and their validation\<close>

text \<open>
  Models app/filters/schema.py, media_types.py and validation.py. A value is a JSON value; the
  counter of leaves, a one-element list in the code, is passed through. The messages of a
  \<open>FilterValidationError\<close> are constructors.
\<close>

subsection \<open>Expressions\<close>

datatype filter_node =
    LeafNode string string json bool
  | LogicalNode string "filter_node list option" "filter_node option"

datatype filter_error =
    DepthExceeded | LeavesExceeded | RegexUnsupported | UnsupportedField string
  | UnsupportedOperator string string | BadSize | BadMtimeType | MtimeOutOfRange int
  | BadMtimeFormat | NaiveMtime | BadTextList | BadText | BadMediaType string
  | UnsupportedLogical string | ChildOfList | NoChildren | ChildrenExceeded | ChildrenOfNot | NoChild

definition MAX_DEPTH :: nat where "MAX_DEPTH = 5"
definition MAX_CHILDREN :: nat where "MAX_CHILDREN = 50"
definition MAX_TOTAL_LEAVES :: nat where "MAX_TOTAL_LEAVES = 200"
definition INT64_MAX :: int where "INT64_MAX = 9223372036854775807"
definition MAX_EPOCH_SECONDS :: int where "MAX_EPOCH_SECONDS = INT64_MAX div 1000000000"

definition ALLOWED_FIELDS :: "string list" where
  "ALLOWED_FIELDS = [''path'', ''name'', ''extension'', ''size'', ''mtime'', ''media_type'']"

definition allowed_operators :: "string \<Rightarrow> string list" where
  "allowed_operators field =
     (if field \<in> {''path'', ''name''} then [''eq'', ''neq'', ''contains'', ''startswith'', ''endswith'', ''in'', ''nin'']
      else if field \<in> {''extension'', ''media_type''} then [''eq'', ''neq'', ''in'', ''nin'']
      else if field \<in> {''size'', ''mtime''} then [''eq'', ''neq'', ''gt'', ''gte'', ''lt'', ''lte'']
      else [])"

subsection \<open>Media types\<close>

definition IMAGE_EXTENSIONS :: "string list" where
  "IMAGE_EXTENSIONS = [''jpg'', ''jpeg'', ''png'', ''webp'', ''gif'', ''bmp'', ''heic'', ''avif'', ''tiff'', ''svg'']"

definition VIDEO_EXTENSIONS :: "string list" where
  "VIDEO_EXTENSIONS = [''mp4'', ''mov'', ''mkv'', ''avi'', ''m4v'', ''mts'', ''m2ts'', ''webm'', ''ts'', ''flv'', ''wmv'']"

definition AUDIO_EXTENSIONS :: "string list" where
  "AUDIO_EXTENSIONS = [''mp3'', ''wav'', ''flac'', ''aac'', ''ogg'', ''m4a'', ''wma'', ''ape'', ''opus'']"

definition DOCUMENT_EXTENSIONS :: "string list" where
  "DOCUMENT_EXTENSIONS = [''pdf'', ''doc'', ''docx'', ''txt'', ''md'', ''rtf'', ''odt'', ''xls'', ''xlsx'', ''ppt'', ''pptx'', ''csv'']"

definition ARCHIVE_EXTENSIONS :: "string list" where
  "ARCHIVE_EXTENSIONS = [''zip'', ''tar'', ''gz'', ''tgz'', ''bz2'', ''tbz2'', ''xz'', ''txz'', ''7z'', ''rar'', ''iso'']"

definition MEDIA_TYPES :: "string list" where
  "MEDIA_TYPES = [''image'', ''video'', ''audio'', ''document'', ''archive'', ''other'']"

definition normalize_extension :: "string \<Rightarrow> string" where
  "normalize_extension ext = (let clean = py_lower (py_strip ext) in
     if clean \<noteq> [] \<and> hd clean = CHR ''.'' then tl clean else clean)"

definition get_media_type :: "string \<Rightarrow> string" where
  "get_media_type ext = (let norm = normalize_extension ext in
     if norm \<in> set IMAGE_EXTENSIONS then ''image''
     else if norm \<in> set VIDEO_EXTENSIONS then ''video''
     else if norm \<in> set AUDIO_EXTENSIONS then ''audio''
     else if norm \<in> set DOCUMENT_EXTENSIONS then ''document''
     else if norm \<in> set ARCHIVE_EXTENSIONS then ''archive''
     else ''other'')"

definition get_extensions_for_media_type :: "string \<Rightarrow> string list" where
  "get_extensions_for_media_type media_type = (let mt = py_lower (py_strip media_type) in
     if mt = ''image'' then IMAGE_EXTENSIONS
     else if mt = ''video'' then VIDEO_EXTENSIONS
     else if mt = ''audio'' then AUDIO_EXTENSIONS
     else if mt = ''document'' then DOCUMENT_EXTENSIONS
     else if mt = ''archive'' then ARCHIVE_EXTENSIONS
     else [])"

subsection \<open>Values\<close>

definition mtime_in_range :: "int \<Rightarrow> filter_error + int" where
  "mtime_in_range ns = (if ns < 0 \<or> ns > INT64_MAX then Inl (MtimeOutOfRange ns) else Inr ns)"

definition parse_mtime_to_ns :: "json \<Rightarrow> filter_error + int" where
  "parse_mtime_to_ns val = (case val of
      JInt n \<Rightarrow> if n < 0 \<or> n > MAX_EPOCH_SECONDS then Inl (MtimeOutOfRange n)
                else mtime_in_range (n * 1000000000)
    | JStr s \<Rightarrow>
       (let t = py_strip s;
            clean = (if t \<noteq> [] \<and> last t \<in> {CHR ''Z'', CHR ''z''} then butlast t @ ''+00:00'' else t) in
        case fromisoformat clean of
          None \<Rightarrow> Inl BadMtimeFormat
        | Some (local, None) \<Rightarrow> Inl NaiveMtime
        | Some (local, Some offset) \<Rightarrow> mtime_in_range ((local - offset) * 1000))
    | _ \<Rightarrow> Inl BadMtimeType)"

text \<open>A non-blank text, and a non-empty list of them, each cleaned.\<close>

definition filled_text :: "json \<Rightarrow> string option" where
  "filled_text val = (case val of JStr s \<Rightarrow> if py_strip s = [] then None else Some s | _ \<Rightarrow> None)"

definition clean_list :: "(string \<Rightarrow> filter_error + string) \<Rightarrow> json \<Rightarrow> filter_error + json" where
  "clean_list f val = (case val of
      JList (x # xs) \<Rightarrow>
        bind_res (map_res (\<lambda>v. case filled_text v of None \<Rightarrow> Inl BadTextList | Some s \<Rightarrow> f s) (x # xs))
          (\<lambda>ss. Inr (JList (map JStr ss)))
    | _ \<Rightarrow> Inl BadTextList)"

definition clean_media_type :: "string \<Rightarrow> filter_error + string" where
  "clean_media_type s = (let mt = py_lower (py_strip s) in
     if mt \<in> set MEDIA_TYPES then Inr mt else Inl (BadMediaType s))"

definition clean_one :: "(string \<Rightarrow> filter_error + string) \<Rightarrow> json \<Rightarrow> filter_error + json" where
  "clean_one f val = (case filled_text val of None \<Rightarrow> Inl BadText | Some s \<Rightarrow> bind_res (f s) (\<lambda>t. Inr (JStr t)))"

definition clean_value :: "string \<Rightarrow> string \<Rightarrow> json \<Rightarrow> filter_error + json" where
  "clean_value field operator val =
     (if field = ''size'' then (case val of JInt n \<Rightarrow> if n < 0 then Inl BadSize else Inr val | _ \<Rightarrow> Inl BadSize)
      else if field = ''mtime'' then bind_res (parse_mtime_to_ns val) (\<lambda>n. Inr (JInt n))
      else if field = ''extension'' then
        (if operator \<in> {''in'', ''nin''} then clean_list (\<lambda>s. Inr (normalize_extension s)) val
         else clean_one (\<lambda>s. Inr (normalize_extension s)) val)
      else if field = ''media_type'' then
        (if operator \<in> {''in'', ''nin''} then clean_list clean_media_type val else clean_one clean_media_type val)
      else if operator \<in> {''in'', ''nin''} then clean_list Inr val
      else (case val of JStr s \<Rightarrow> Inr val | _ \<Rightarrow> Inl BadText))"

definition validate_leaf :: "string \<Rightarrow> string \<Rightarrow> json \<Rightarrow> bool \<Rightarrow> filter_error + filter_node" where
  "validate_leaf raw_field raw_operator val cs =
     (let field = py_lower (py_strip raw_field); operator = py_lower (py_strip raw_operator) in
      if field = ''regex'' \<or> operator = ''matches'' then Inl RegexUnsupported
      else if field \<notin> set ALLOWED_FIELDS then Inl (UnsupportedField raw_field)
      else if operator \<notin> set (allowed_operators field) then Inl (UnsupportedOperator raw_operator field)
      else bind_res (clean_value field operator val) (\<lambda>clean. Inr (LeafNode field operator clean cs)))"

subsection \<open>Validation\<close>

fun validate_filter_ast :: "filter_node \<Rightarrow> nat \<Rightarrow> nat \<Rightarrow> filter_error + (filter_node \<times> nat)"
  and validate_children :: "filter_node list \<Rightarrow> nat \<Rightarrow> nat \<Rightarrow> filter_error + (filter_node list \<times> nat)" where
  "validate_filter_ast (LeafNode field operator val cs) depth leaves =
     (if depth > MAX_DEPTH then Inl DepthExceeded
      else if Suc leaves > MAX_TOTAL_LEAVES then Inl LeavesExceeded
      else bind_res (validate_leaf field operator val cs) (\<lambda>leaf. Inr (leaf, Suc leaves)))"
| "validate_filter_ast (LogicalNode raw_op children child) depth leaves =
     (if depth > MAX_DEPTH then Inl DepthExceeded
      else let op = py_lower (py_strip raw_op) in
        if op \<notin> {''and'', ''or'', ''not''} then Inl (UnsupportedLogical raw_op)
        else if op \<noteq> ''not'' then
          (if child \<noteq> None then Inl ChildOfList
           else case children of
             None \<Rightarrow> Inl NoChildren
           | Some cs \<Rightarrow>
              if cs = [] then Inl NoChildren
              else if length cs > MAX_CHILDREN then Inl ChildrenExceeded
              else bind_res (validate_children cs (Suc depth) leaves)
                     (\<lambda>(vs, n). Inr (LogicalNode op (Some vs) None, n)))
        else
          (if children \<noteq> None then Inl ChildrenOfNot
           else case child of
             None \<Rightarrow> Inl NoChild
           | Some c \<Rightarrow> bind_res (validate_filter_ast c (Suc depth) leaves)
                     (\<lambda>(v, n). Inr (LogicalNode ''not'' None (Some v), n))))"
| "validate_children [] depth leaves = Inr ([], leaves)"
| "validate_children (c # cs) depth leaves =
     bind_res (validate_filter_ast c depth leaves) (\<lambda>(v, n).
     bind_res (validate_children cs depth n) (\<lambda>(vs, n). Inr (v # vs, n)))"

definition validate_filter :: "filter_node \<Rightarrow> filter_error + filter_node" where
  "validate_filter node = bind_res (validate_filter_ast node 1 0) (\<lambda>(v, n). Inr v)"

end
