(* ===== verification/FilterSql.thy ===== *)
theory FilterSql
  imports FilterAst
begin

section \<open>From filters to SQL\<close>

text \<open>
  Models app/filters/compiler.py and excludes.py. A compiled filter is the SQL condition as a term,
  with the operators of SQLite the code uses, and \<open>sql_eval\<close> is what SQLite answers for a row of
  indexed_paths: \<open>lower\<close> changes the ASCII letters only, \<open>LIKE\<close> compares them without case, takes
  a character after the escape character as itself, and no column is null.
\<close>

subsection \<open>Rows and conditions\<close>

record indexed_path =
  ip_id :: int
  ip_root_key :: string
  ip_absolute_path :: string
  ip_relative_path :: string
  ip_basename :: string
  ip_suffix :: string
  ip_size :: int
  ip_mtime_ns :: int
  ip_is_dir :: bool

datatype int_col = SizeCol | MtimeCol
datatype text_col = RelativePathCol | BasenameCol | SuffixCol | AbsolutePathCol
datatype sql_text = Column text_col | Lower text_col

datatype sql_pred =
    SqlAnd "sql_pred list" | SqlOr "sql_pred list" | SqlNot sql_pred
  | IntCompare int_col string int
  | TextEq sql_text string | TextNe sql_text string
  | TextIn sql_text "string list" | TextNotIn sql_text "string list"
  | TextLike sql_text string
  | Instr text_col string
  | SubstrFirst text_col nat string | SubstrLast text_col nat string

definition sql_lower_char :: "char \<Rightarrow> char" where
  "sql_lower_char c = (let n = (of_char c :: nat) in if 65 \<le> n \<and> n \<le> 90 then char_of (n + 32) else c)"

definition sql_lower :: "string \<Rightarrow> string" where
  "sql_lower s = map sql_lower_char s"

function sql_like :: "string \<Rightarrow> string \<Rightarrow> bool" where
  "sql_like [] s = (s = [])"
| "sql_like (p # ps) s =
     (if p = CHR ''%'' then sql_like ps s \<or> (case s of [] \<Rightarrow> False | c # cs \<Rightarrow> sql_like (p # ps) cs)
      else if p = CHR ''!'' then
        (case ps of [] \<Rightarrow> False
         | q # qs \<Rightarrow> (case s of [] \<Rightarrow> False
             | c # cs \<Rightarrow> sql_lower_char q = sql_lower_char c \<and> sql_like qs cs))
      else (case s of [] \<Rightarrow> False
         | c # cs \<Rightarrow> (p = CHR ''_'' \<or> sql_lower_char p = sql_lower_char c) \<and> sql_like ps cs))"
  by pat_completeness auto

termination
  by (relation "measure (\<lambda>(p, s). length p + length s)") auto

declare sql_like.simps(2) [simp del]

fun int_value :: "int_col \<Rightarrow> indexed_path \<Rightarrow> int" where
  "int_value SizeCol r = ip_size r"
| "int_value MtimeCol r = ip_mtime_ns r"

fun col_value :: "text_col \<Rightarrow> indexed_path \<Rightarrow> string" where
  "col_value RelativePathCol r = ip_relative_path r"
| "col_value BasenameCol r = ip_basename r"
| "col_value SuffixCol r = ip_suffix r"
| "col_value AbsolutePathCol r = ip_absolute_path r"

fun text_value :: "sql_text \<Rightarrow> indexed_path \<Rightarrow> string" where
  "text_value (Column c) r = col_value c r"
| "text_value (Lower c) r = sql_lower (col_value c r)"

definition compare :: "string \<Rightarrow> int \<Rightarrow> int \<Rightarrow> bool" where
  "compare op a b =
     (if op = ''eq'' then a = b else if op = ''neq'' then a \<noteq> b else if op = ''gt'' then a > b
      else if op = ''gte'' then a \<ge> b else if op = ''lt'' then a < b else a \<le> b)"

text \<open>\<open>substr(x, -n)\<close>: the last n characters, all of them when there are fewer or n is 0.\<close>

definition substr_last :: "nat \<Rightarrow> string \<Rightarrow> string" where
  "substr_last n s = (if n = 0 then s else drop (length s - n) s)"

fun sql_eval :: "sql_pred \<Rightarrow> indexed_path \<Rightarrow> bool" where
  "sql_eval (SqlAnd ps) r = (\<forall>p \<in> set ps. sql_eval p r)"
| "sql_eval (SqlOr ps) r = (\<exists>p \<in> set ps. sql_eval p r)"
| "sql_eval (SqlNot p) r = (\<not> sql_eval p r)"
| "sql_eval (IntCompare c op n) r = compare op (int_value c r) n"
| "sql_eval (TextEq t v) r = (text_value t r = v)"
| "sql_eval (TextNe t v) r = (text_value t r \<noteq> v)"
| "sql_eval (TextIn t vs) r = (text_value t r \<in> set vs)"
| "sql_eval (TextNotIn t vs) r = (text_value t r \<notin> set vs)"
| "sql_eval (TextLike t p) r = sql_like p (text_value t r)"
| "sql_eval (Instr c v) r = sublist v (col_value c r)"
| "sql_eval (SubstrFirst c n v) r = (take n (col_value c r) = v)"
| "sql_eval (SubstrLast c n v) r = (substr_last n (col_value c r) = v)"

subsection \<open>The compiler\<close>

definition escape_like :: "string \<Rightarrow> string" where
  "escape_like v = concat (map (\<lambda>c. if c \<in> {CHR ''!'', CHR ''%'', CHR ''_''} then [CHR ''!'', c] else [c]) v)"

definition ALL_KNOWN_EXTENSIONS :: "string list" where
  "ALL_KNOWN_EXTENSIONS = IMAGE_EXTENSIONS @ VIDEO_EXTENSIONS @ AUDIO_EXTENSIONS @ DOCUMENT_EXTENSIONS @ ARCHIVE_EXTENSIONS"

definition dotted :: "string list \<Rightarrow> string list" where
  "dotted exts = map (\<lambda>x. CHR ''.'' # x) exts @ exts"

definition compile_media_type_single :: "string \<Rightarrow> sql_pred" where
  "compile_media_type_single media_type = (let mt = py_lower (py_strip media_type) in
     if mt = ''other'' then TextNotIn (Lower SuffixCol) (dotted ALL_KNOWN_EXTENSIONS)
     else TextIn (Lower SuffixCol) (dotted (get_extensions_for_media_type mt)))"

text \<open>What the code raises as \<open>ValueError\<close>; a value of a type no validated filter holds is \<open>Uncompilable\<close>.\<close>

datatype compile_error = NotWithoutChild | UnknownLogical string | UnhandledCombination string string | Uncompilable

definition texts_of :: "json \<Rightarrow> compile_error + string list" where
  "texts_of val = (case val of
      JList vs \<Rightarrow> map_res (\<lambda>v. case v of JStr s \<Rightarrow> Inr s | _ \<Rightarrow> Inl Uncompilable) vs
    | _ \<Rightarrow> Inl Uncompilable)"

definition text_of :: "json \<Rightarrow> compile_error + string" where
  "text_of val = (case val of JStr s \<Rightarrow> Inr s | _ \<Rightarrow> Inl Uncompilable)"

definition compile_extension :: "string \<Rightarrow> json \<Rightarrow> compile_error + sql_pred" where
  "compile_extension op val =
     (if op = ''eq'' then bind_res (text_of val) (\<lambda>s. Inr (TextIn (Lower SuffixCol) (dotted [py_lower s])))
      else if op = ''neq'' then bind_res (text_of val) (\<lambda>s. Inr (TextNotIn (Lower SuffixCol) (dotted [py_lower s])))
      else if op = ''in'' then bind_res (texts_of val) (\<lambda>ss. Inr (TextIn (Lower SuffixCol) (dotted (map py_lower ss))))
      else if op = ''nin'' then bind_res (texts_of val) (\<lambda>ss. Inr (TextNotIn (Lower SuffixCol) (dotted (map py_lower ss))))
      else Inl (UnhandledCombination ''extension'' op))"

definition compile_media_type :: "string \<Rightarrow> json \<Rightarrow> compile_error + sql_pred" where
  "compile_media_type op val =
     (if op = ''eq'' then bind_res (text_of val) (\<lambda>s. Inr (compile_media_type_single s))
      else if op = ''neq'' then bind_res (text_of val) (\<lambda>s. Inr (SqlNot (compile_media_type_single s)))
      else if op = ''in'' then bind_res (texts_of val) (\<lambda>ss. Inr (SqlOr (map compile_media_type_single ss)))
      else if op = ''nin'' then bind_res (texts_of val) (\<lambda>ss. Inr (SqlAnd (map (\<lambda>s. SqlNot (compile_media_type_single s)) ss)))
      else Inl (UnhandledCombination ''media_type'' op))"

definition compile_text :: "string \<Rightarrow> text_col \<Rightarrow> string \<Rightarrow> json \<Rightarrow> bool \<Rightarrow> compile_error + sql_pred" where
  "compile_text field col op val cs =
     (if op = ''eq'' then bind_res (text_of val) (\<lambda>v. Inr (if cs then TextEq (Column col) v else TextEq (Lower col) (py_lower v)))
      else if op = ''neq'' then bind_res (text_of val) (\<lambda>v. Inr (if cs then TextNe (Column col) v else TextNe (Lower col) (py_lower v)))
      else if op = ''contains'' then bind_res (text_of val) (\<lambda>v. Inr
        (if cs then Instr col v else TextLike (Lower col) (''%'' @ escape_like (py_lower v) @ ''%'')))
      else if op = ''startswith'' then bind_res (text_of val) (\<lambda>v. Inr
        (if cs then SubstrFirst col (length v) v else TextLike (Lower col) (escape_like (py_lower v) @ ''%'')))
      else if op = ''endswith'' then bind_res (text_of val) (\<lambda>v. Inr
        (if cs then SubstrLast col (length v) v else TextLike (Lower col) (''%'' @ escape_like (py_lower v))))
      else if op = ''in'' then bind_res (texts_of val) (\<lambda>vs. Inr (if cs then TextIn (Column col) vs else TextIn (Lower col) (map py_lower vs)))
      else if op = ''nin'' then bind_res (texts_of val) (\<lambda>vs. Inr (if cs then TextNotIn (Column col) vs else TextNotIn (Lower col) (map py_lower vs)))
      else Inl (UnhandledCombination field op))"

definition compile_leaf :: "string \<Rightarrow> string \<Rightarrow> json \<Rightarrow> bool \<Rightarrow> compile_error + sql_pred" where
  "compile_leaf field op val cs =
     (if field \<in> {''size'', ''mtime''} then
        (if op \<in> {''eq'', ''neq'', ''gt'', ''gte'', ''lt'', ''lte''} then
           (case val of JInt n \<Rightarrow> Inr (IntCompare (if field = ''size'' then SizeCol else MtimeCol) op n)
                      | _ \<Rightarrow> Inl Uncompilable)
         else Inl (UnhandledCombination field op))
      else if field = ''extension'' then compile_extension op val
      else if field = ''media_type'' then compile_media_type op val
      else if field = ''path'' then compile_text field RelativePathCol op val cs
      else if field = ''name'' then compile_text field BasenameCol op val cs
      else Inl (UnhandledCombination field op))"

fun compile_filter_to_sql :: "filter_node \<Rightarrow> compile_error + sql_pred"
  and compile_children :: "filter_node list \<Rightarrow> compile_error + sql_pred list" where
  "compile_filter_to_sql (LeafNode field op val cs) = compile_leaf field op val cs"
| "compile_filter_to_sql (LogicalNode op children child) =
     (if op = ''and'' then bind_res (case children of None \<Rightarrow> Inr [] | Some cs \<Rightarrow> compile_children cs) (\<lambda>ps. Inr (SqlAnd ps))
      else if op = ''or'' then bind_res (case children of None \<Rightarrow> Inr [] | Some cs \<Rightarrow> compile_children cs) (\<lambda>ps. Inr (SqlOr ps))
      else if op = ''not'' then
        (case child of None \<Rightarrow> Inl NotWithoutChild | Some c \<Rightarrow> bind_res (compile_filter_to_sql c) (\<lambda>p. Inr (SqlNot p)))
      else Inl (UnknownLogical op))"
| "compile_children [] = Inr []"
| "compile_children (c # cs) =
     bind_res (compile_filter_to_sql c) (\<lambda>p. bind_res (compile_children cs) (\<lambda>ps. Inr (p # ps)))"

subsection \<open>Exclusions\<close>

definition DEFAULT_EXCLUDE_DIR_NAMES :: "string list" where
  "DEFAULT_EXCLUDE_DIR_NAMES = [''.git'', ''.recycle'', ''@eaDir'', ''.nas-file-center-trash'']"

datatype exclude_error = PaddedRule string | EmptyRule string | RuleWithSeparator string | RuleWithNul
  | RuleTooLong string | TooManyRules nat

definition check_rule :: "string \<Rightarrow> exclude_error + string" where
  "check_rule item =
     (if item \<noteq> py_strip item then Inl (PaddedRule item)
      else if item \<in> {'''', ''.'', ''..''} then Inl (EmptyRule item)
      else if CHR ''/'' \<in> set item \<or> CHR 0x5C \<in> set item then Inl (RuleWithSeparator item)
      else if CHR 0x00 \<in> set item then Inl RuleWithNul
      else if length item > 128 then Inl (RuleTooLong item)
      else Inr item)"

fun keep_rules :: "string list \<Rightarrow> string list \<Rightarrow> exclude_error + string list" where
  "keep_rules [] result = Inr result"
| "keep_rules (item # items) result = bind_res (check_rule item) (\<lambda>item.
     keep_rules items (if item \<in> set result then result else result @ [item]))"

definition validate_exclude_rules :: "string list \<Rightarrow> exclude_error + string list" where
  "validate_exclude_rules rules = bind_res (keep_rules rules []) (\<lambda>result.
     if length result > 64 then Inl (TooManyRules (length result)) else Inr result)"

definition exclude_dir :: "string \<Rightarrow> sql_pred" where
  "exclude_dir d = (let esc = escape_like (py_lower d); col = Lower RelativePathCol in
     SqlOr [TextEq col (py_lower d), TextLike col (esc @ ''/%''), TextLike col (''%/'' @ esc @ ''/%''),
            TextLike col (''%/'' @ esc)])"

definition exclude_quarantine :: "string \<Rightarrow> sql_pred" where
  "exclude_quarantine q = (let esc = escape_like (py_lower q) in
     SqlOr [TextEq (Lower AbsolutePathCol) (py_lower q), TextLike (Lower AbsolutePathCol) (esc @ ''/%'')])"

definition build_exclude_predicates :: "string list \<Rightarrow> string option \<Rightarrow> sql_pred" where
  "build_exclude_predicates names quarantine =
     (let clauses = map exclude_dir names @
        (case quarantine of None \<Rightarrow> [] | Some q \<Rightarrow> if py_strip q = [] then [] else [exclude_quarantine (py_strip q)]) in
      if clauses = [] then SqlAnd [] else SqlNot (SqlOr clauses))"

end
