(* ===== verification/SqlLike.thy ===== *)
theory SqlLike
  imports FilterSql
begin

section \<open>LIKE searches for escaped texts\<close>

text \<open>
  What the LIKE patterns of the compiler and of the exclusions match: an escaped text stands for
  itself up to the case of ASCII letters, whatever wildcards it contains.
\<close>

subsection \<open>LIKE\<close>

lemma like_percent: "sql_like (CHR ''%'' # p) s \<longleftrightarrow> (\<exists>s1 s2. s = s1 @ s2 \<and> sql_like p s2)"
proof (induction s)
  case Nil
  then show ?case by (simp add: sql_like.simps(2))
next
  case (Cons c cs)
  have "sql_like (CHR ''%'' # p) (c # cs) \<longleftrightarrow> sql_like p (c # cs) \<or> sql_like (CHR ''%'' # p) cs"
    by (simp add: sql_like.simps(2))
  also have "\<dots> \<longleftrightarrow> (\<exists>s1 s2. c # cs = s1 @ s2 \<and> sql_like p s2)"
    unfolding Cons.IH by (metis append_Cons append_Nil append_eq_Cons_conv)
  finally show ?case .
qed

lemma like_all [simp]: "sql_like ''%'' s"
  by (metis append_Nil2 like_percent sql_like.simps(1))

lemma like_char:
  "p \<notin> {CHR ''%'', CHR ''!'', CHR ''_''} \<Longrightarrow>
     sql_like (p # ps) s \<longleftrightarrow> (\<exists>c cs. s = c # cs \<and> sql_lower_char p = sql_lower_char c \<and> sql_like ps cs)"
  by (cases s) (auto simp: sql_like.simps(2))

lemma like_escape:
  "sql_like (CHR ''!'' # q # ps) s \<longleftrightarrow> (\<exists>c cs. s = c # cs \<and> sql_lower_char q = sql_lower_char c \<and> sql_like ps cs)"
  by (cases s) (auto simp: sql_like.simps(2))

lemma escape_like_Cons: "escape_like (c # v) =
  (if c \<in> {CHR ''!'', CHR ''%'', CHR ''_''} then [CHR ''!'', c] else [c]) @ escape_like v"
  by (simp add: escape_like_def)

lemma escape_like_Nil [simp]: "escape_like [] = []"
  by (simp add: escape_like_def)

lemma sql_lower_Cons: "sql_lower s = sql_lower (c # v) \<longleftrightarrow>
  (\<exists>d t. s = d # t \<and> sql_lower_char d = sql_lower_char c \<and> sql_lower t = sql_lower v)"
  by (cases s) (auto simp: sql_lower_def)

text \<open>An escaped text matches itself, up to the case of ASCII letters, and nothing else.\<close>

lemma like_escaped:
  "sql_like (escape_like v @ p) s \<longleftrightarrow> (\<exists>s1 s2. s = s1 @ s2 \<and> sql_lower s1 = sql_lower v \<and> sql_like p s2)"
proof (induction v arbitrary: s)
  case Nil
  then show ?case by (simp add: sql_lower_def)
next
  case (Cons c v)
  have "sql_like (escape_like (c # v) @ p) s \<longleftrightarrow>
      (\<exists>d ds. s = d # ds \<and> sql_lower_char c = sql_lower_char d \<and> sql_like (escape_like v @ p) ds)"
  proof (cases "c \<in> {CHR ''!'', CHR ''%'', CHR ''_''}")
    case True
    then have "escape_like (c # v) @ p = CHR ''!'' # c # escape_like v @ p" by (simp add: escape_like_Cons)
    then show ?thesis by (simp only: like_escape)
  next
    case False
    then have "escape_like (c # v) @ p = c # escape_like v @ p" by (simp add: escape_like_Cons)
    moreover have "c \<notin> {CHR ''%'', CHR ''!'', CHR ''_''}" using False by simp
    note like_char [OF this, of "escape_like v @ p" s]
    ultimately show ?thesis by (simp only:)
  qed
  also have "\<dots> \<longleftrightarrow> (\<exists>s1 s2. s = s1 @ s2 \<and> sql_lower s1 = sql_lower (c # v) \<and> sql_like p s2)"
  proof
    assume "\<exists>d ds. s = d # ds \<and> sql_lower_char c = sql_lower_char d \<and> sql_like (escape_like v @ p) ds"
    then obtain d s1 s2 where "s = d # s1 @ s2" "sql_lower_char c = sql_lower_char d" "sql_lower s1 = sql_lower v" "sql_like p s2"
      unfolding Cons.IH by blast
    then have "s = (d # s1) @ s2 \<and> sql_lower (d # s1) = sql_lower (c # v) \<and> sql_like p s2"
      by (simp add: sql_lower_def)
    then show "\<exists>s1 s2. s = s1 @ s2 \<and> sql_lower s1 = sql_lower (c # v) \<and> sql_like p s2" by blast
  next
    assume "\<exists>s1 s2. s = s1 @ s2 \<and> sql_lower s1 = sql_lower (c # v) \<and> sql_like p s2"
    then obtain s1 s2 where s: "s = s1 @ s2" "sql_lower s1 = sql_lower (c # v)" "sql_like p s2" by blast
    then obtain d t where "s1 = d # t" "sql_lower_char d = sql_lower_char c" "sql_lower t = sql_lower v"
      unfolding sql_lower_Cons by blast
    then show "\<exists>d ds. s = d # ds \<and> sql_lower_char c = sql_lower_char d \<and> sql_like (escape_like v @ p) ds"
      unfolding Cons.IH using s by auto
  qed
  finally show ?case .
qed

lemma like_exact: "sql_like (escape_like v) s \<longleftrightarrow> sql_lower s = sql_lower v"
  using like_escaped [of v "[]" s] by auto

lemma sql_lower_idem [simp]: "sql_lower (sql_lower s) = sql_lower s"
proof -
  have "sql_lower_char (sql_lower_char c) = sql_lower_char c" for c
  proof -
    have "(of_char (char_of (of_char c + 32 :: nat)) :: nat) = of_char c + 32" if "of_char c \<le> (90::nat)"
      using that by (simp add: of_char_of)
    then show ?thesis by (auto simp: sql_lower_char_def Let_def)
  qed
  then show ?thesis by (simp add: sql_lower_def)
qed

lemma sql_lower_append: "sql_lower (s @ t) = sql_lower s @ sql_lower t"
  by (simp add: sql_lower_def)

text \<open>The three searches without case, on the lowered column.\<close>

lemma like_contains: "sql_like (''%'' @ escape_like v @ ''%'') (sql_lower s) \<longleftrightarrow> sublist (sql_lower v) (sql_lower s)"
proof -
  have "sql_like (''%'' @ escape_like v @ ''%'') (sql_lower s) \<longleftrightarrow>
      (\<exists>a b c. sql_lower s = a @ b @ c \<and> sql_lower b = sql_lower v)"
    by (simp add: like_percent like_escaped) metis
  also have "\<dots> \<longleftrightarrow> sublist (sql_lower v) (sql_lower s)"
    unfolding sublist_def by (metis sql_lower_append sql_lower_idem append_eq_append_conv sql_lower_def length_map)
  finally show ?thesis .
qed

lemma like_starts: "sql_like (escape_like v @ ''%'') (sql_lower s) \<longleftrightarrow> prefix (sql_lower v) (sql_lower s)"
  unfolding like_escaped prefix_def
  by (metis like_all sql_lower_append sql_lower_idem append_eq_append_conv sql_lower_def length_map)

lemma like_ends: "sql_like (''%'' @ escape_like v) (sql_lower s) \<longleftrightarrow> suffix (sql_lower v) (sql_lower s)"
proof -
  have "sql_like (''%'' @ escape_like v) (sql_lower s) \<longleftrightarrow> (\<exists>a b. sql_lower s = a @ b \<and> sql_lower b = sql_lower v)"
    by (simp add: like_percent like_exact)
  also have "\<dots> \<longleftrightarrow> suffix (sql_lower v) (sql_lower s)"
    unfolding suffix_def by (metis sql_lower_append sql_lower_idem append_eq_append_conv sql_lower_def length_map)
  finally show ?thesis .
qed

end
