(* ===== verification/FilterValid.thy ===== *)
theory FilterValid
  imports FilterSql
begin

section \<open>Validated filters\<close>

text \<open>
  What validation establishes: every leaf has a known field, one of its operators and a value of
  its type, every node its children, and the tree is bounded. Such a filter compiles.
\<close>

subsection \<open>Well-typed filters\<close>

definition text_list_ok :: "(string \<Rightarrow> bool) \<Rightarrow> json \<Rightarrow> bool" where
  "text_list_ok P val = (case val of JList vs \<Rightarrow> vs \<noteq> [] \<and> list_all (\<lambda>v. case v of JStr s \<Rightarrow> P s | _ \<Rightarrow> False) vs | _ \<Rightarrow> False)"

definition text_ok :: "(string \<Rightarrow> bool) \<Rightarrow> json \<Rightarrow> bool" where
  "text_ok P val = (case val of JStr s \<Rightarrow> P s | _ \<Rightarrow> False)"

definition known_text :: "string \<Rightarrow> string \<Rightarrow> bool" where
  "known_text field s \<longleftrightarrow> (field = ''media_type'' \<longrightarrow> s \<in> set MEDIA_TYPES) \<and> (field = ''extension'' \<longrightarrow> py_lower s = s)"

definition value_ok :: "string \<Rightarrow> string \<Rightarrow> json \<Rightarrow> bool" where
  "value_ok field op val =
     (if field \<in> {''size'', ''mtime''}
      then (case val of JInt n \<Rightarrow> 0 \<le> n \<and> (field = ''mtime'' \<longrightarrow> n \<le> INT64_MAX) | _ \<Rightarrow> False)
      else if op \<in> {''in'', ''nin''} then text_list_ok (known_text field) val
      else text_ok (known_text field) val)"

definition leaf_ok :: "string \<Rightarrow> string \<Rightarrow> json \<Rightarrow> bool" where
  "leaf_ok field op val \<longleftrightarrow> field \<in> set ALLOWED_FIELDS \<and> op \<in> set (allowed_operators field) \<and> value_ok field op val"

fun filter_ok :: "filter_node \<Rightarrow> bool" where
  "filter_ok (LeafNode field op val cs) = leaf_ok field op val"
| "filter_ok (LogicalNode op children child) =
     (if op = ''not'' then children = None \<and> (case child of None \<Rightarrow> False | Some c \<Rightarrow> filter_ok c)
      else op \<in> {''and'', ''or''} \<and> child = None \<and>
        (case children of None \<Rightarrow> False | Some cs \<Rightarrow> cs \<noteq> [] \<and> length cs \<le> MAX_CHILDREN \<and> (\<forall>c \<in> set cs. filter_ok c)))"

fun leaf_count :: "filter_node \<Rightarrow> nat" where
  "leaf_count (LeafNode field op val cs) = 1"
| "leaf_count (LogicalNode op children child) =
     (case children of None \<Rightarrow> 0 | Some cs \<Rightarrow> sum_list (map leaf_count cs)) +
     (case child of None \<Rightarrow> 0 | Some c \<Rightarrow> leaf_count c)"

fun depth_within :: "nat \<Rightarrow> filter_node \<Rightarrow> bool" where
  "depth_within 0 node = False"
| "depth_within (Suc d) (LeafNode field op val cs) = True"
| "depth_within (Suc d) (LogicalNode op children child) =
     ((case children of None \<Rightarrow> True | Some cs \<Rightarrow> \<forall>c \<in> set cs. depth_within d c) \<and>
      (case child of None \<Rightarrow> True | Some c \<Rightarrow> depth_within d c))"

subsection \<open>Validation gives well-typed filters\<close>

lemma map_res_texts:
  assumes "map_res f xs = Inr ss" "\<And>x s. x \<in> set xs \<Longrightarrow> f x = Inr s \<Longrightarrow> P s"
  shows "list_all P ss"
  using map_res_set [OF assms(1)] assms(2) by (auto simp: list_all_iff)

lemma clean_list_ok:
  assumes "clean_list f val = Inr v" "\<And>s t. f s = Inr t \<Longrightarrow> P t"
  shows "text_list_ok P v"
proof -
  obtain x xs ss where v: "v = JList (map JStr ss)" "map_res (\<lambda>v. case filled_text v of None \<Rightarrow> Inl BadTextList | Some s \<Rightarrow> f s) (x # xs) = Inr ss"
    using assms(1) by (auto simp: clean_list_def bind_res_Inr simp del: map_res.simps split: json.splits list.splits)
  have "list_all P ss"
    by (rule map_res_texts [OF v(2)]) (auto split: option.splits intro: assms(2))
  moreover have "ss \<noteq> []" using v(2) by (auto simp: map_res_Inr_iff simp del: map_res.simps)
  ultimately show ?thesis by (simp add: v(1) text_list_ok_def list_all_iff)
qed

lemma clean_one_ok:
  assumes "clean_one f val = Inr v" "\<And>s t. f s = Inr t \<Longrightarrow> P t"
  shows "text_ok P v"
  using assms by (auto simp: clean_one_def bind_res_Inr text_ok_def split: option.splits)

lemma py_lower_tl: "py_lower (tl s) = tl (py_lower s)"
  by (simp add: py_lower_def map_tl)

lemma normalize_lower: "py_lower (normalize_extension s) = normalize_extension s"
  by (simp add: normalize_extension_def Let_def py_lower_tl)

lemma clean_media_type_ok: "clean_media_type s = Inr t \<Longrightarrow> known_text ''media_type'' t"
  by (auto simp: clean_media_type_def known_text_def Let_def split: if_splits)

lemma parse_mtime_range: "parse_mtime_to_ns val = Inr n \<Longrightarrow> 0 \<le> n \<and> n \<le> INT64_MAX"
  by (auto simp: parse_mtime_to_ns_def mtime_in_range_def Let_def split: json.splits if_splits option.splits prod.splits)

lemma clean_value_simps:
  "clean_value ''size'' op val = (case val of JInt n \<Rightarrow> if n < 0 then Inl BadSize else Inr val | _ \<Rightarrow> Inl BadSize)"
  "clean_value ''mtime'' op val = bind_res (parse_mtime_to_ns val) (\<lambda>n. Inr (JInt n))"
  "clean_value ''extension'' op val = (if op \<in> {''in'', ''nin''} then clean_list (\<lambda>s. Inr (normalize_extension s)) val
     else clean_one (\<lambda>s. Inr (normalize_extension s)) val)"
  "clean_value ''media_type'' op val = (if op \<in> {''in'', ''nin''} then clean_list clean_media_type val else clean_one clean_media_type val)"
  "clean_value ''path'' op val = (if op \<in> {''in'', ''nin''} then clean_list Inr val else (case val of JStr s \<Rightarrow> Inr val | _ \<Rightarrow> Inl BadText))"
  "clean_value ''name'' op val = (if op \<in> {''in'', ''nin''} then clean_list Inr val else (case val of JStr s \<Rightarrow> Inr val | _ \<Rightarrow> Inl BadText))"
  by (simp_all add: clean_value_def)

lemma known_text_other: "field \<notin> {''media_type'', ''extension''} \<Longrightarrow> known_text field s"
  by (simp add: known_text_def)

lemma clean_texts_ok:
  assumes "(if op \<in> {''in'', ''nin''} then clean_list f val else clean_one f val) = Inr v"
    "\<And>s t. f s = Inr t \<Longrightarrow> known_text field t" "field \<notin> {''size'', ''mtime''}"
  shows "value_ok field op v"
proof (cases "op \<in> {''in'', ''nin''}")
  case True
  then have "text_list_ok (known_text field) v" using clean_list_ok [of f val v] assms(1,2) by simp
  then show ?thesis using True assms(3) by (simp add: value_ok_def)
next
  case False
  then have "text_ok (known_text field) v" using clean_one_ok [of f val v] assms(1,2) by simp
  then show ?thesis using False assms(3) by (simp add: value_ok_def)
qed

lemma clean_plain_ok:
  assumes "(if op \<in> {''in'', ''nin''} then clean_list Inr val else (case val of JStr s \<Rightarrow> Inr val | _ \<Rightarrow> Inl BadText)) = Inr v"
    "field \<notin> {''size'', ''mtime'', ''media_type'', ''extension''}"
  shows "value_ok field op v"
proof (cases "op \<in> {''in'', ''nin''}")
  case True
  then show ?thesis using clean_texts_ok [of op Inr val v field] assms by (simp add: known_text_other)
next
  case False
  then have "\<exists>s. v = JStr s" using assms(1) by (auto split: json.splits)
  then show ?thesis using False assms(2) by (auto simp: value_ok_def text_ok_def known_text_other)
qed

lemma clean_value_ok:
  assumes "clean_value field op val = Inr v" "field \<in> set ALLOWED_FIELDS"
  shows "value_ok field op v"
proof -
  have "field = ''size'' \<or> field = ''mtime'' \<or> field = ''extension'' \<or> field = ''media_type'' \<or> field = ''path'' \<or> field = ''name''"
    using assms(2) by (simp only: ALLOWED_FIELDS_def list.set insert_iff empty_iff) satx
  then show ?thesis
  proof (elim disjE)
    assume f: "field = ''size''"
    then show ?thesis using assms(1) by (auto simp: clean_value_simps value_ok_def split: json.splits if_splits)
  next
    assume f: "field = ''mtime''"
    then obtain n where "v = JInt n" "parse_mtime_to_ns val = Inr n" using assms(1) by (auto simp: clean_value_simps bind_res_Inr)
    then show ?thesis using f parse_mtime_range [of val n] by (simp add: value_ok_def)
  next
    assume f: "field = ''extension''"
    show ?thesis
      by (rule clean_texts_ok [OF assms(1) [unfolded f clean_value_simps]]) (use f in \<open>simp_all add: known_text_def normalize_lower\<close>)
  next
    assume f: "field = ''media_type''"
    show ?thesis
      by (rule clean_texts_ok [OF assms(1) [unfolded f clean_value_simps]]) (simp_all add: f clean_media_type_ok)
  next
    assume f: "field = ''path''"
    show ?thesis by (rule clean_plain_ok [OF assms(1) [unfolded f clean_value_simps]]) (simp add: f)
  next
    assume f: "field = ''name''"
    show ?thesis by (rule clean_plain_ok [OF assms(1) [unfolded f clean_value_simps]]) (simp add: f)
  qed
qed

lemma validate_leaf_ok:
  "validate_leaf f op val cs = Inr v \<Longrightarrow> \<exists>f' op' val'. v = LeafNode f' op' val' cs \<and> leaf_ok f' op' val'"
  by (auto simp: validate_leaf_def Let_def bind_res_Inr leaf_ok_def split: if_splits intro: clean_value_ok)

lemma depth_Suc: "depth_within (Suc d) (LogicalNode op (Some cs) None) \<longleftrightarrow> (\<forall>c \<in> set cs. depth_within d c)"
  by simp

lemma validate_ok:
  "validate_filter_ast node depth leaves = Inr (v, n) \<Longrightarrow>
     filter_ok v \<and> n = leaves + leaf_count v \<and> depth_within (Suc MAX_DEPTH - depth) v \<and> (leaves \<le> MAX_TOTAL_LEAVES \<longrightarrow> n \<le> MAX_TOTAL_LEAVES)"
  "validate_children nodes depth leaves = Inr (vs, n) \<Longrightarrow>
     (\<forall>v \<in> set vs. filter_ok v \<and> depth_within (Suc MAX_DEPTH - depth) v) \<and> n = leaves + sum_list (map leaf_count vs) \<and>
     length vs = length nodes \<and> (leaves \<le> MAX_TOTAL_LEAVES \<longrightarrow> n \<le> MAX_TOTAL_LEAVES)"
proof (induction node depth leaves and nodes depth leaves arbitrary: v n and vs n rule: validate_filter_ast_validate_children.induct)
  case (1 field operator val cs depth leaves)
  then have d: "\<not> depth > MAX_DEPTH" "\<not> Suc leaves > MAX_TOTAL_LEAVES" and l: "validate_leaf field operator val cs = Inr v" "n = Suc leaves"
    by (auto simp: bind_res_Inr split: if_splits)
  obtain e where "Suc MAX_DEPTH - depth = Suc e" using d(1) by (metis Suc_diff_le not_less)
  then show ?case using validate_leaf_ok [OF l(1)] l(2) d(2) by auto
next
  case (2 raw_op children child depth leaves)
  define op where "op = py_lower (py_strip raw_op)"
  from 2(3) have d: "\<not> depth > MAX_DEPTH" and op: "op \<in> {''and'', ''or'', ''not''}"
    by (auto simp: op_def Let_def split: if_splits)
  obtain e where e: "Suc MAX_DEPTH - depth = Suc e" "Suc MAX_DEPTH - Suc depth = e" using d by (metis Suc_diff_Suc Suc_diff_le diff_Suc_Suc not_less)
  show ?case
  proof (cases "op = ''not''")
    case True
    with 2(3) d obtain c w where c: "children = None" "child = Some c" "validate_filter_ast c (Suc depth) leaves = Inr (w, n)"
        "v = LogicalNode ''not'' None (Some w)"
      by (auto simp: op_def [symmetric] Let_def bind_res_Inr split: if_splits option.splits)
    have "filter_ok w \<and> n = leaves + leaf_count w \<and> depth_within (Suc MAX_DEPTH - Suc depth) w \<and>
        (leaves \<le> MAX_TOTAL_LEAVES \<longrightarrow> n \<le> MAX_TOTAL_LEAVES)"
      by (rule 2(2) [OF d op_def]) (use op True c in simp_all)
    then show ?thesis using c(4) e by auto
  next
    case False
    with 2(3) d op obtain cs ws where c: "child = None" "children = Some cs" "cs \<noteq> []" "\<not> length cs > MAX_CHILDREN"
        "validate_children cs (Suc depth) leaves = Inr (ws, n)" "v = LogicalNode op (Some ws) None"
      by (auto simp: op_def [symmetric] Let_def bind_res_Inr split: if_splits option.splits)
    have "(\<forall>v \<in> set ws. filter_ok v \<and> depth_within (Suc MAX_DEPTH - Suc depth) v) \<and> n = leaves + sum_list (map leaf_count ws) \<and>
        length ws = length cs \<and> (leaves \<le> MAX_TOTAL_LEAVES \<longrightarrow> n \<le> MAX_TOTAL_LEAVES)"
      by (rule 2(1) [OF d op_def]) (use op False c in simp_all)
    then show ?thesis using op False c e by auto
  qed
next
  case (3 depth leaves)
  then show ?case by simp
next
  case (4 c cs depth leaves)
  then obtain w m ws where "validate_filter_ast c depth leaves = Inr (w, m)" "validate_children cs depth m = Inr (ws, n)" "vs = w # ws"
    by (auto simp: bind_res_Inr)
  with 4(1,2) show ?case by fastforce
qed

end
