(* ===== verification/FilterMatch.thy ===== *)
theory FilterMatch
  imports SqlLike FilterValid
begin

section \<open>What a compiled filter selects\<close>

text \<open>
  The meaning of a filter on a row in terms of Python's strings, the way the application shows
  names, extensions and media types; and the equivalence with the compiled condition on rows and
  filters whose texts are ASCII.
\<close>

subsection \<open>The reference\<close>

definition fold_case :: "bool \<Rightarrow> string \<Rightarrow> string" where
  "fold_case cs s = (if cs then s else py_lower s)"

definition json_texts :: "json \<Rightarrow> string list" where
  "json_texts val = (case val of JStr s \<Rightarrow> [s] | JList vs \<Rightarrow> concat (map (\<lambda>v. case v of JStr s \<Rightarrow> [s] | _ \<Rightarrow> []) vs) | _ \<Rightarrow> [])"

definition text_matches :: "string \<Rightarrow> bool \<Rightarrow> string \<Rightarrow> json \<Rightarrow> bool" where
  "text_matches op cs t val =
     (let fold = fold_case cs; vs = map fold (json_texts val); t = fold t in
      if op \<in> {''eq'', ''in''} then t \<in> set vs
      else if op \<in> {''neq'', ''nin''} then t \<notin> set vs
      else if op = ''contains'' then \<exists>v \<in> set vs. sublist v t
      else if op = ''startswith'' then \<exists>v \<in> set vs. prefix v t
      else \<exists>v \<in> set vs. suffix v t)"

definition leaf_matches :: "string \<Rightarrow> string \<Rightarrow> json \<Rightarrow> bool \<Rightarrow> indexed_path \<Rightarrow> bool" where
  "leaf_matches field op val cs r =
     (if field = ''size'' then (case val of JInt n \<Rightarrow> compare op (ip_size r) n | _ \<Rightarrow> False)
      else if field = ''mtime'' then (case val of JInt n \<Rightarrow> compare op (ip_mtime_ns r) n | _ \<Rightarrow> False)
      else if field = ''extension'' then text_matches op True (normalize_extension (ip_suffix r)) val
      else if field = ''media_type'' then text_matches op True (get_media_type (ip_suffix r)) val
      else if field = ''path'' then text_matches op cs (ip_relative_path r) val
      else text_matches op cs (ip_basename r) val)"

fun filter_matches :: "filter_node \<Rightarrow> indexed_path \<Rightarrow> bool" where
  "filter_matches (LeafNode field op val cs) r = leaf_matches field op val cs r"
| "filter_matches (LogicalNode op children child) r =
     (if op = ''not'' then (case child of None \<Rightarrow> False | Some c \<Rightarrow> \<not> filter_matches c r)
      else case children of None \<Rightarrow> False
        | Some cs \<Rightarrow> if op = ''and'' then \<forall>c \<in> set cs. filter_matches c r else \<exists>c \<in> set cs. filter_matches c r)"

text \<open>ASCII texts; the suffix of a name; the values the equivalence is about.\<close>

definition ascii :: "string \<Rightarrow> bool" where
  "ascii s \<longleftrightarrow> list_all (\<lambda>c. (of_char c :: nat) < 128) s"

definition tidy_row :: "indexed_path \<Rightarrow> bool" where
  "tidy_row r \<longleftrightarrow> ascii (ip_relative_path r) \<and> ascii (ip_basename r) \<and> ascii (ip_suffix r) \<and>
     (ip_suffix r = [] \<or> hd (ip_suffix r) = CHR ''.'') \<and> py_strip (ip_suffix r) = ip_suffix r"

definition undotted :: "string \<Rightarrow> bool" where
  "undotted s \<longleftrightarrow> s = [] \<or> hd s \<noteq> CHR ''.''"

definition tidy_leaf :: "string \<Rightarrow> string \<Rightarrow> json \<Rightarrow> bool" where
  "tidy_leaf field op val \<longleftrightarrow> list_all ascii (json_texts val) \<and>
     (field = ''extension'' \<longrightarrow> list_all undotted (json_texts val)) \<and>
     (op = ''endswith'' \<longrightarrow> list_all (\<lambda>s. s \<noteq> []) (json_texts val))"

fun tidy_filter :: "filter_node \<Rightarrow> bool" where
  "tidy_filter (LeafNode field op val cs) = tidy_leaf field op val"
| "tidy_filter (LogicalNode op children child) =
     ((case children of None \<Rightarrow> True | Some cs \<Rightarrow> \<forall>c \<in> set cs. tidy_filter c) \<and>
      (case child of None \<Rightarrow> True | Some c \<Rightarrow> tidy_filter c))"

subsection \<open>Texts\<close>

lemma ascii_lower: "ascii s \<Longrightarrow> sql_lower s = py_lower s"
  by (auto simp: ascii_def sql_lower_def py_lower_def list_all_iff sql_lower_char_def lower_char_def Let_def)

lemma lower_char_ascii: "(of_char c :: nat) < 128 \<Longrightarrow> (of_char (lower_char c) :: nat) < 128"
  by (auto simp: lower_char_def Let_def of_char_of)

lemma ascii_py_lower: "ascii s \<Longrightarrow> ascii (py_lower s)"
  by (auto simp: ascii_def py_lower_def list_all_iff lower_char_ascii)

lemma sql_py_lower: "ascii s \<Longrightarrow> sql_lower (py_lower s) = py_lower s"
  using ascii_lower [OF ascii_py_lower] by simp

lemma like_ascii:
  assumes "ascii v" "ascii t"
  shows "sql_like (''%'' @ escape_like (py_lower v) @ ''%'') (py_lower t) \<longleftrightarrow> sublist (py_lower v) (py_lower t)"
    and "sql_like (escape_like (py_lower v) @ ''%'') (py_lower t) \<longleftrightarrow> prefix (py_lower v) (py_lower t)"
    and "sql_like (''%'' @ escape_like (py_lower v)) (py_lower t) \<longleftrightarrow> suffix (py_lower v) (py_lower t)"
  using like_contains [of "py_lower v" t] like_starts [of "py_lower v" t] like_ends [of "py_lower v" t]
  unfolding sql_py_lower [OF assms(1)] ascii_lower [OF assms(2)] by blast+

lemma text_ok_text: "text_ok P val \<Longrightarrow> \<exists>s. val = JStr s \<and> text_of val = Inr s \<and> json_texts val = [s] \<and> P s"
  by (auto simp: text_ok_def text_of_def json_texts_def split: json.splits)

lemma text_list_ok_texts:
  assumes "text_list_ok P val"
  shows "\<exists>ss. texts_of val = Inr ss \<and> json_texts val = ss \<and> list_all P ss"
proof -
  obtain vs where v: "val = JList vs" "list_all (\<lambda>v. case v of JStr s \<Rightarrow> P s | _ \<Rightarrow> False) vs"
    using assms by (auto simp: text_list_ok_def split: json.splits)
  from v(2) have "\<exists>ss. map_res (\<lambda>v. case v of JStr s \<Rightarrow> Inr s | _ \<Rightarrow> Inl Uncompilable) vs = Inr ss \<and>
      concat (map (\<lambda>v. case v of JStr s \<Rightarrow> [s] | _ \<Rightarrow> []) vs) = ss \<and> list_all P ss"
    by (induction vs) (auto split: json.splits)
  then show ?thesis by (simp add: v(1) texts_of_def json_texts_def)
qed

lemma substr_last_suffix: "v \<noteq> [] \<Longrightarrow> substr_last (length v) t = v \<longleftrightarrow> suffix v t"
proof
  assume v: "v \<noteq> []" and e: "substr_last (length v) t = v"
  then have "drop (length t - length v) t = v" by (simp add: substr_last_def)
  then show "suffix v t" by (metis suffix_drop)
next
  assume v: "v \<noteq> []" and "suffix v t"
  then obtain u where "t = u @ v" by (auto simp: suffix_def)
  then show "substr_last (length v) t = v" using v by (simp add: substr_last_def)
qed

lemma take_prefix: "take (length v) t = v \<longleftrightarrow> prefix v t"
  by (metis append_eq_conv_conj prefix_def take_is_prefix)

text \<open>A text leaf on its column.\<close>

lemma compile_text_matches:
  assumes ok: "op \<in> set (allowed_operators ''path'')" "value_ok field op val" "field = ''path'' \<or> field = ''name''"
    and tidy: "tidy_leaf field op val"
  shows "\<exists>p. compile_text field col op val cs = Inr p \<and>
    (\<forall>r. ascii (col_value col r) \<longrightarrow> sql_eval p r = text_matches op cs (col_value col r) val)"
proof -
  have f: "field \<notin> {''size'', ''mtime''}" using ok(3) by auto
  show ?thesis
  proof (cases "op \<in> {''in'', ''nin''}")
    case True
    then have "text_list_ok (known_text field) val" using ok(2) f by (simp add: value_ok_def)
    then obtain ss where ss: "texts_of val = Inr ss" "json_texts val = ss" using text_list_ok_texts by blast
    show ?thesis using True ss
      by (auto simp: compile_text_def text_matches_def fold_case_def ascii_lower)
  next
    case False
    then have "text_ok (known_text field) val" using ok(2) f by (simp add: value_ok_def)
    then obtain v where v: "text_of val = Inr v" "json_texts val = [v]" using text_ok_text by blast
    have a: "ascii v" and ne: "op = ''endswith'' \<Longrightarrow> v \<noteq> []" using tidy v(2) by (auto simp: tidy_leaf_def)
    have ops: "op = ''eq'' \<or> op = ''neq'' \<or> op = ''contains'' \<or> op = ''startswith'' \<or> op = ''endswith''"
      using ok(1) False by (auto simp: allowed_operators_def)
    note likes = like_ascii [OF a]
    from ops show ?thesis
    proof (elim disjE)
      assume "op = ''eq''"
      then show ?thesis using v by (auto simp: compile_text_def text_matches_def fold_case_def ascii_lower)
    next
      assume "op = ''neq''"
      then show ?thesis using v by (auto simp: compile_text_def text_matches_def fold_case_def ascii_lower)
    next
      assume "op = ''contains''"
      then show ?thesis using v likes(1) by (simp add: compile_text_def text_matches_def fold_case_def ascii_lower)
    next
      assume "op = ''startswith''"
      then show ?thesis using v likes(2) by (simp add: compile_text_def text_matches_def fold_case_def take_prefix ascii_lower)
    next
      assume o: "op = ''endswith''"
      then show ?thesis using v likes(3) substr_last_suffix [OF ne [OF o]]
        by (simp add: compile_text_def text_matches_def fold_case_def ascii_lower)
    qed
  qed
qed

subsection \<open>Extensions and media types\<close>

lemma dotted_iff:
  assumes "tidy_row r" "list_all undotted es"
  shows "sql_lower (ip_suffix r) \<in> set (dotted es) \<longleftrightarrow> normalize_extension (ip_suffix r) \<in> set es"
proof -
  have l: "sql_lower (ip_suffix r) = py_lower (ip_suffix r)" using assms(1) by (simp add: tidy_row_def ascii_lower)
  show ?thesis
  proof (cases "ip_suffix r")
    case Nil
    then show ?thesis by (auto simp: l dotted_def normalize_extension_def py_lower_def py_strip_def sql_lower_def)
  next
    case (Cons c s)
    then have c: "c = CHR ''.''" "py_strip (ip_suffix r) = ip_suffix r" using assms(1) by (auto simp: tidy_row_def)
    have low: "py_lower (ip_suffix r) = CHR ''.'' # py_lower s"
      using Cons c(1) by (simp add: py_lower_def lower_char_def)
    then have "normalize_extension (ip_suffix r) = py_lower s" by (simp add: normalize_extension_def c(2))
    moreover have "CHR ''.'' # py_lower s \<notin> set es" using assms(2) by (auto simp: list_all_iff undotted_def)
    ultimately show ?thesis by (auto simp: l low dotted_def)
  qed
qed

lemma compile_extension_matches:
  assumes ok: "op \<in> set (allowed_operators ''extension'')" "value_ok ''extension'' op val" and tidy: "tidy_leaf ''extension'' op val"
  shows "\<exists>p. compile_extension op val = Inr p \<and>
    (\<forall>r. tidy_row r \<longrightarrow> sql_eval p r = text_matches op True (normalize_extension (ip_suffix r)) val)"
proof (cases "op \<in> {''in'', ''nin''}")
  case True
  then have "text_list_ok (known_text ''extension'') val" using ok(2) by (simp add: value_ok_def)
  then obtain ss where ss: "texts_of val = Inr ss" "json_texts val = ss" "list_all (known_text ''extension'') ss"
    using text_list_ok_texts by blast
  have "map py_lower ss = ss" using ss(3) by (simp add: known_text_def list_all_iff map_idI)
  moreover have "list_all undotted ss" using tidy ss(2) by (simp add: tidy_leaf_def)
  ultimately show ?thesis using True ss dotted_iff
    by (auto simp: compile_extension_def text_matches_def fold_case_def)
next
  case False
  then have "text_ok (known_text ''extension'') val" using ok(2) by (simp add: value_ok_def)
  then obtain v where v: "text_of val = Inr v" "json_texts val = [v]" "known_text ''extension'' v" using text_ok_text by blast
  then have "py_lower v = v" "list_all undotted [v]" using tidy by (simp_all add: known_text_def tidy_leaf_def)
  moreover have "op = ''eq'' \<or> op = ''neq''" using ok(1) False by (auto simp: allowed_operators_def)
  ultimately show ?thesis using v dotted_iff
    by (auto simp: compile_extension_def text_matches_def fold_case_def)
qed

lemmas extension_lists = IMAGE_EXTENSIONS_def VIDEO_EXTENSIONS_def AUDIO_EXTENSIONS_def
  DOCUMENT_EXTENSIONS_def ARCHIVE_EXTENSIONS_def ALL_KNOWN_EXTENSIONS_def

lemma media_lists:
  "list_all undotted ALL_KNOWN_EXTENSIONS" "distinct ALL_KNOWN_EXTENSIONS"
  "list_all (\<lambda>mt. py_lower (py_strip mt) = mt) MEDIA_TYPES"
  by code_simp+

lemma media_type_single:
  assumes "mt \<in> set MEDIA_TYPES" "tidy_row r"
  shows "sql_eval (compile_media_type_single mt) r \<longleftrightarrow> get_media_type (ip_suffix r) = mt"
proof -
  let ?e = "normalize_extension (ip_suffix r)"
  have norm: "py_lower (py_strip mt) = mt" using assms(1) media_lists(3) by (simp add: list_all_iff)
  have und: "list_all undotted es" if "set es \<subseteq> set ALL_KNOWN_EXTENSIONS" for es
    using that media_lists(1) by (auto simp: list_all_iff)
  have disj: "set IMAGE_EXTENSIONS \<inter> set VIDEO_EXTENSIONS = {}" "(set IMAGE_EXTENSIONS \<union> set VIDEO_EXTENSIONS) \<inter> set AUDIO_EXTENSIONS = {}"
    "(set IMAGE_EXTENSIONS \<union> set VIDEO_EXTENSIONS \<union> set AUDIO_EXTENSIONS) \<inter> set DOCUMENT_EXTENSIONS = {}"
    "(set IMAGE_EXTENSIONS \<union> set VIDEO_EXTENSIONS \<union> set AUDIO_EXTENSIONS \<union> set DOCUMENT_EXTENSIONS) \<inter> set ARCHIVE_EXTENSIONS = {}"
    using media_lists(2) by (auto simp: ALL_KNOWN_EXTENSIONS_def)
  have sub: "set (get_extensions_for_media_type mt) \<subseteq> set ALL_KNOWN_EXTENSIONS"
    by (auto simp: get_extensions_for_media_type_def ALL_KNOWN_EXTENSIONS_def Let_def)
  show ?thesis
  proof (cases "mt = ''other''")
    case True
    have "sql_eval (compile_media_type_single mt) r \<longleftrightarrow> ?e \<notin> set ALL_KNOWN_EXTENSIONS"
      using dotted_iff [OF assms(2) und [of ALL_KNOWN_EXTENSIONS]] norm by (simp add: compile_media_type_single_def True)
    then show ?thesis by (auto simp: True get_media_type_def Let_def ALL_KNOWN_EXTENSIONS_def)
  next
    case False
    have "sql_eval (compile_media_type_single mt) r \<longleftrightarrow> ?e \<in> set (get_extensions_for_media_type mt)"
      using dotted_iff [OF assms(2) und [OF sub]] norm False by (simp add: compile_media_type_single_def)
    moreover have "mt = ''image'' \<or> mt = ''video'' \<or> mt = ''audio'' \<or> mt = ''document'' \<or> mt = ''archive''"
      using assms(1) False by (auto simp: MEDIA_TYPES_def)
    ultimately show ?thesis using norm disj
      by (elim disjE) (auto simp: get_extensions_for_media_type_def get_media_type_def Let_def)
  qed
qed

lemma compile_media_type_matches:
  assumes ok: "op \<in> set (allowed_operators ''media_type'')" "value_ok ''media_type'' op val"
  shows "\<exists>p. compile_media_type op val = Inr p \<and>
    (\<forall>r. tidy_row r \<longrightarrow> sql_eval p r = text_matches op True (get_media_type (ip_suffix r)) val)"
proof (cases "op \<in> {''in'', ''nin''}")
  case True
  then have "text_list_ok (known_text ''media_type'') val" using ok(2) by (simp add: value_ok_def)
  then obtain ss where ss: "texts_of val = Inr ss" "json_texts val = ss" "list_all (known_text ''media_type'') ss"
    using text_list_ok_texts by blast
  then have "\<forall>s \<in> set ss. s \<in> set MEDIA_TYPES" by (simp add: known_text_def list_all_iff)
  then have "\<forall>r s. tidy_row r \<longrightarrow> s \<in> set ss \<longrightarrow> sql_eval (compile_media_type_single s) r = (get_media_type (ip_suffix r) = s)"
    using media_type_single by blast
  then show ?thesis using True ss(1,2)
    by (auto simp: compile_media_type_def text_matches_def fold_case_def)
next
  case False
  then have "text_ok (known_text ''media_type'') val" using ok(2) by (simp add: value_ok_def)
  then obtain v where v: "text_of val = Inr v" "json_texts val = [v]" "v \<in> set MEDIA_TYPES"
    using text_ok_text by (fastforce simp: known_text_def)
  have "op = ''eq'' \<or> op = ''neq''" using ok(1) False by (auto simp: allowed_operators_def)
  then show ?thesis using v media_type_single [OF v(3)]
    by (auto simp: compile_media_type_def text_matches_def fold_case_def)
qed

lemma compile_leaf_matches:
  assumes ok: "leaf_ok field op val" and tidy: "tidy_leaf field op val"
  shows "\<exists>p. compile_leaf field op val cs = Inr p \<and> (\<forall>r. tidy_row r \<longrightarrow> sql_eval p r = leaf_matches field op val cs r)"
proof -
  have ops: "op \<in> set (allowed_operators field)" and v: "value_ok field op val" using ok by (auto simp: leaf_ok_def)
  have "field = ''size'' \<or> field = ''mtime'' \<or> field = ''extension'' \<or> field = ''media_type'' \<or> field = ''path'' \<or> field = ''name''"
    using ok unfolding leaf_ok_def by (simp only: ALLOWED_FIELDS_def list.set insert_iff empty_iff) satx
  then show ?thesis
  proof (elim disjE)
    assume f: "field = ''size''"
    then obtain n where "val = JInt n" using v by (auto simp: value_ok_def split: json.splits)
    then show ?thesis using f ops by (auto simp: compile_leaf_def leaf_matches_def allowed_operators_def)
  next
    assume f: "field = ''mtime''"
    then obtain n where "val = JInt n" using v by (auto simp: value_ok_def split: json.splits)
    then show ?thesis using f ops by (auto simp: compile_leaf_def leaf_matches_def allowed_operators_def)
  next
    assume f: "field = ''extension''"
    show ?thesis using compile_extension_matches [of op val] ops v tidy
      unfolding f by (simp add: compile_leaf_def leaf_matches_def)
  next
    assume f: "field = ''media_type''"
    show ?thesis using compile_media_type_matches [of op val] ops v
      unfolding f by (simp add: compile_leaf_def leaf_matches_def)
  next
    assume f: "field = ''path''"
    show ?thesis using compile_text_matches [of op "''path''" val RelativePathCol cs] ops v tidy
      unfolding f by (simp add: compile_leaf_def leaf_matches_def tidy_row_def) blast
  next
    assume f: "field = ''name''"
    have "op \<in> set (allowed_operators ''path'')" using ops f by (simp add: allowed_operators_def)
    then show ?thesis using compile_text_matches [of op "''name''" val BasenameCol cs] v tidy
      unfolding f by (simp add: compile_leaf_def leaf_matches_def tidy_row_def) blast
  qed
qed

subsection \<open>Whole filters\<close>

lemma text_values:
  assumes "value_ok field op val" "field \<notin> {''size'', ''mtime''}"
  shows "op \<in> {''in'', ''nin''} \<Longrightarrow> \<exists>ss. texts_of val = Inr ss" "op \<notin> {''in'', ''nin''} \<Longrightarrow> \<exists>s. text_of val = Inr s"
proof -
  assume "op \<in> {''in'', ''nin''}"
  then have "text_list_ok (known_text field) val" using assms by (simp add: value_ok_def)
  then show "\<exists>ss. texts_of val = Inr ss" using text_list_ok_texts by blast
next
  assume "op \<notin> {''in'', ''nin''}"
  then have "text_ok (known_text field) val" using assms by (simp add: value_ok_def)
  then show "\<exists>s. text_of val = Inr s" using text_ok_text by blast
qed

lemma compile_leaf_total:
  assumes "leaf_ok field op val"
  shows "\<exists>p. compile_leaf field op val cs = Inr p"
proof -
  have ops: "op \<in> set (allowed_operators field)" and v: "value_ok field op val" using assms by (auto simp: leaf_ok_def)
  note tv = text_values [OF v]
  have "field = ''size'' \<or> field = ''mtime'' \<or> field = ''extension'' \<or> field = ''media_type'' \<or> field = ''path'' \<or> field = ''name''"
    using assms unfolding leaf_ok_def by (simp only: ALLOWED_FIELDS_def list.set insert_iff empty_iff) satx
  then show ?thesis
  proof (elim disjE)
    assume f: "field = ''size''"
    then obtain n where "val = JInt n" using v by (auto simp: value_ok_def split: json.splits)
    then show ?thesis using f ops by (auto simp: compile_leaf_def allowed_operators_def)
  next
    assume f: "field = ''mtime''"
    then obtain n where "val = JInt n" using v by (auto simp: value_ok_def split: json.splits)
    then show ?thesis using f ops by (auto simp: compile_leaf_def allowed_operators_def)
  next
    assume f: "field = ''extension''"
    then have "op \<in> {''eq'', ''neq'', ''in'', ''nin''}" using ops by (simp add: allowed_operators_def)
    then show ?thesis using tv f by (fastforce simp: compile_leaf_def compile_extension_def)
  next
    assume f: "field = ''media_type''"
    then have "op \<in> {''eq'', ''neq'', ''in'', ''nin''}" using ops by (simp add: allowed_operators_def)
    then show ?thesis using tv f by (fastforce simp: compile_leaf_def compile_media_type_def)
  next
    assume f: "field = ''path''"
    then have "op \<in> {''eq'', ''neq'', ''contains'', ''startswith'', ''endswith'', ''in'', ''nin''}" using ops by (simp add: allowed_operators_def)
    then show ?thesis using tv f by (fastforce simp: compile_leaf_def compile_text_def)
  next
    assume f: "field = ''name''"
    then have "op \<in> {''eq'', ''neq'', ''contains'', ''startswith'', ''endswith'', ''in'', ''nin''}" using ops by (simp add: allowed_operators_def)
    then show ?thesis using tv f by (fastforce simp: compile_leaf_def compile_text_def)
  qed
qed

lemma compile_total:
  "filter_ok f \<Longrightarrow> \<exists>p. compile_filter_to_sql f = Inr p"
  "\<forall>f \<in> set fs. filter_ok f \<Longrightarrow> \<exists>ps. compile_children fs = Inr ps"
proof (induction f and fs rule: compile_filter_to_sql_compile_children.induct)
  case (1 field op val cs)
  then show ?case by (simp add: compile_leaf_total)
next
  case (2 op children child)
  show ?case
  proof (cases "op = ''not''")
    case True
    with 2 show ?thesis by (auto split: option.splits)
  next
    case False
    with 2 show ?thesis by (auto split: option.splits if_splits)
  qed
next
  case (4 c cs)
  then show ?case by fastforce
qed simp

lemma compile_matches:
  "filter_ok f \<Longrightarrow> tidy_filter f \<Longrightarrow> \<exists>p. compile_filter_to_sql f = Inr p \<and> (\<forall>r. tidy_row r \<longrightarrow> sql_eval p r = filter_matches f r)"
  "\<forall>f \<in> set fs. filter_ok f \<Longrightarrow> \<forall>f \<in> set fs. tidy_filter f \<Longrightarrow> \<exists>ps. compile_children fs = Inr ps \<and>
     (\<forall>r. tidy_row r \<longrightarrow> map (\<lambda>p. sql_eval p r) ps = map (\<lambda>f. filter_matches f r) fs)"
proof (induction f and fs rule: compile_filter_to_sql_compile_children.induct)
  case (1 field op val cs)
  then show ?case by (simp add: compile_leaf_matches)
next
  case (2 op children child)
  show ?case
  proof (cases "op = ''not''")
    case True
    then obtain c where c: "children = None" "child = Some c" "filter_ok c" "tidy_filter c"
      using 2(4,5) by (auto split: option.splits)
    have "\<exists>p. compile_filter_to_sql c = Inr p \<and> (\<forall>r. tidy_row r \<longrightarrow> sql_eval p r = filter_matches c r)"
      by (rule 2(3)) (use True c in auto)
    then show ?thesis using True c by auto
  next
    case False
    then obtain cs where c: "child = None" "children = Some cs" "\<forall>f \<in> set cs. filter_ok f" "\<forall>f \<in> set cs. tidy_filter f" "op = ''and'' \<or> op = ''or''"
      using 2(4,5) by (auto split: option.splits)
    have "\<exists>ps. compile_children cs = Inr ps \<and> (\<forall>r. tidy_row r \<longrightarrow> map (\<lambda>p. sql_eval p r) ps = map (\<lambda>f. filter_matches f r) cs)"
      using c(5) by (elim disjE; intro 2(1) 2(2)) (use c in auto)
    then obtain ps where ps: "compile_children cs = Inr ps" "\<And>r. tidy_row r \<Longrightarrow> map (\<lambda>p. sql_eval p r) ps = map (\<lambda>f. filter_matches f r) cs"
      by blast
    have "(\<lambda>p. sql_eval p r) ` set ps = (\<lambda>f. filter_matches f r) ` set cs" if "tidy_row r" for r
      using ps(2) [OF that] by (metis list.set_map)
    then have "(\<forall>p \<in> set ps. sql_eval p r) = (\<forall>f \<in> set cs. filter_matches f r)"
        "(\<exists>p \<in> set ps. sql_eval p r) = (\<exists>f \<in> set cs. filter_matches f r)" if "tidy_row r" for r
      using that by (metis (mono_tags, lifting) imageE imageI)+
    then show ?thesis using c ps(1) by auto
  qed
next
  case 3
  then show ?case by simp
next
  case (4 c cs)
  then obtain p ps where "compile_filter_to_sql c = Inr p" "\<And>r. tidy_row r \<Longrightarrow> sql_eval p r = filter_matches c r"
      "compile_children cs = Inr ps" "\<And>r. tidy_row r \<Longrightarrow> map (\<lambda>p. sql_eval p r) ps = map (\<lambda>f. filter_matches f r) cs"
    by auto
  then show ?case by auto
qed

subsection \<open>Theorems\<close>

text \<open>A row and a filter for the examples.\<close>

definition sample_row :: "string \<Rightarrow> string \<Rightarrow> string \<Rightarrow> indexed_path" where
  "sample_row rel base suf = \<lparr>ip_id = 1, ip_root_key = ''/d'', ip_absolute_path = ''/d/'' @ rel, ip_relative_path = rel,
     ip_basename = base, ip_suffix = suf, ip_size = 7, ip_mtime_ns = 5, ip_is_dir = False\<rparr>"

definition sample_filter :: filter_node where
  "sample_filter = LogicalNode ''AND'' (Some
     [LeafNode '' Name '' ''contains'' (JStr ''50%_'') False,
      LogicalNode ''not'' None (Some (LeafNode ''extension'' ''in'' (JList [JStr ''.JPG'', JStr ''png'']) False)),
      LeafNode ''mtime'' ''gte'' (JStr ''1970-01-01T00:00:00Z'') False]) None"

definition sample_validated :: filter_node where
  "sample_validated = LogicalNode ''and'' (Some
     [LeafNode ''name'' ''contains'' (JStr ''50%_'') False,
      LogicalNode ''not'' None (Some (LeafNode ''extension'' ''in'' (JList [JStr ''jpg'', JStr ''png'']) False)),
      LeafNode ''mtime'' ''gte'' (JInt 0) False]) None"

lemma validate_filter_ok: "validate_filter raw = Inr f \<Longrightarrow> filter_ok f"
  using validate_ok(1) by (auto simp: validate_filter_def bind_res_Inr)

lemma sample_validates: "validate_filter sample_filter = Inr sample_validated"
  by code_simp

text \<open>
  C27: a filter that passes validation is well typed and bounded (five levels, fifty children to a
  node, two hundred leaves), and the compiler accepts it: it raises none of its errors.
\<close>

theorem validated_filter_compiles:
  assumes "validate_filter raw = Inr f"
  shows "filter_ok f \<and> depth_within MAX_DEPTH f \<and> leaf_count f \<le> MAX_TOTAL_LEAVES \<and>
    (\<exists>p. compile_filter_to_sql f = Inr p)"
proof -
  obtain n where "validate_filter_ast raw 1 0 = Inr (f, n)" using assms by (auto simp: validate_filter_def bind_res_Inr)
  from validate_ok(1) [OF this] show ?thesis using compile_total(1) [of f] by simp
qed

theorem validated_filter_compiles_witness:
  "filter_ok sample_validated \<and> depth_within MAX_DEPTH sample_validated"
  using validated_filter_compiles [OF sample_validates] by blast



end
