(* ===== verification/FilterExclude.thy ===== *)
theory FilterExclude
  imports FilterMatch
begin

section \<open>What the exclusions leave out\<close>

text \<open>
  The condition of app/filters/excludes.py against its comment: a row is left out when a directory
  name of the rules is one of the segments of its path, without case, or when it lies in the
  quarantine.
\<close>

subsection \<open>The reference\<close>

definition excluded_by_name :: "string list \<Rightarrow> string \<Rightarrow> bool" where
  "excluded_by_name names path \<longleftrightarrow> (\<exists>d \<in> set names. py_lower d \<in> set (split_char (CHR ''/'') (py_lower path)))"

definition inside_quarantine :: "string \<Rightarrow> string \<Rightarrow> bool" where
  "inside_quarantine q path \<longleftrightarrow>
     py_strip q \<noteq> [] \<and> (py_lower path = py_lower (py_strip q) \<or> prefix (py_lower (py_strip q) @ ''/'') (py_lower path))"

definition row_excluded :: "string list \<Rightarrow> string option \<Rightarrow> indexed_path \<Rightarrow> bool" where
  "row_excluded names quarantine r \<longleftrightarrow> excluded_by_name names (ip_relative_path r) \<or>
     (case quarantine of None \<Rightarrow> False | Some q \<Rightarrow> inside_quarantine q (ip_absolute_path r))"

subsection \<open>The patterns\<close>

lemma lower_slash: "sql_lower_char c = CHR ''/'' \<longleftrightarrow> c = CHR ''/''"
proof
  assume e: "sql_lower_char c = CHR ''/''"
  show "c = CHR ''/''"
  proof (cases "65 \<le> (of_char c :: nat) \<and> (of_char c :: nat) \<le> 90")
    case False
    then show ?thesis using e by (auto simp: sql_lower_char_def Let_def)
  next
    case True
    then have "sql_lower_char c = char_of (of_char c + 32 :: nat)" by (simp add: sql_lower_char_def Let_def)
    then have "(of_char (CHR ''/'') :: nat) = of_char c + 32" using True e by (simp add: of_char_of)
    then show ?thesis using True by simp
  qed
qed (simp add: sql_lower_char_def)

lemma like_slash: "sql_like (CHR ''/'' # p) s \<longleftrightarrow> (\<exists>cs. s = CHR ''/'' # cs \<and> sql_like p cs)"
proof -
  have "sql_lower_char CHR ''/'' = CHR ''/''" by (simp add: lower_slash)
  then have e: "sql_lower_char CHR ''/'' = sql_lower_char c \<longleftrightarrow> c = CHR ''/''" for c using lower_slash by metis
  show ?thesis by (simp add: like_char e)
qed

lemma slash_lower: "CHR ''/'' \<in> set (sql_lower s) \<longleftrightarrow> CHR ''/'' \<in> set s"
proof -
  have "CHR ''/'' = sql_lower_char c \<longleftrightarrow> c = CHR ''/''" for c using lower_slash by metis
  then show ?thesis by (simp add: sql_lower_def image_iff)
qed

text \<open>Patterns without case against a lowered text.\<close>

lemma lowered_part: "sql_lower s = s \<Longrightarrow> s = a @ b @ c \<Longrightarrow> sql_lower b = b"
  by (metis sql_lower_append append_eq_append_conv sql_lower_def length_map)

lemma escaped_dir:
  assumes d: "sql_lower d = d" and s: "sql_lower s = s"
  shows "sql_like (escape_like d @ ''/%'') s \<longleftrightarrow> prefix (d @ ''/'') s"
proof -
  have "sql_like (escape_like d @ ''/%'') s \<longleftrightarrow> (\<exists>b t. s = b @ CHR ''/'' # t \<and> sql_lower b = d)"
    by (auto simp: like_escaped like_slash d)
  also have "\<dots> \<longleftrightarrow> (\<exists>t. s = d @ CHR ''/'' # t)"
    using lowered_part [OF s, of "[]"] d by auto
  finally show ?thesis by (auto simp: prefix_def)
qed

lemma escaped_inner:
  assumes d: "sql_lower d = d" and s: "sql_lower s = s"
  shows "sql_like (''%/'' @ escape_like d @ ''/%'') s \<longleftrightarrow> sublist (''/'' @ d @ ''/'') s"
proof -
  have "sql_like (''%/'' @ escape_like d @ ''/%'') s \<longleftrightarrow>
      (\<exists>a b t. s = a @ CHR ''/'' # b @ CHR ''/'' # t \<and> sql_lower b = d)"
    by (fastforce simp: like_percent like_escaped like_slash d)
  also have "\<dots> \<longleftrightarrow> (\<exists>a t. s = a @ CHR ''/'' # d @ CHR ''/'' # t)"
  proof -
    have "b = d" if "s = a @ CHR ''/'' # b @ CHR ''/'' # t" "sql_lower b = d" for a b t
      using lowered_part [OF s, of "a @ ''/''" b] that by simp
    then show ?thesis using d by blast
  qed
  finally show ?thesis by (auto simp: sublist_def)
qed

lemma escaped_last:
  assumes d: "sql_lower d = d" and s: "sql_lower s = s"
  shows "sql_like (''%/'' @ escape_like d) s \<longleftrightarrow> suffix (''/'' @ d) s"
proof -
  have "sql_like (''%/'' @ escape_like d) s \<longleftrightarrow> (\<exists>a b. s = a @ CHR ''/'' # b \<and> sql_lower b = d)"
    by (auto simp: like_percent like_exact like_slash d)
  also have "\<dots> \<longleftrightarrow> (\<exists>a. s = a @ CHR ''/'' # d)"
  proof -
    have "b = d" if "s = a @ CHR ''/'' # b" "sql_lower b = d" for a b
      using lowered_part [OF s, of "a @ ''/''" b "[]"] that by simp
    then show ?thesis using d by blast
  qed
  finally show ?thesis by (auto simp: suffix_def)
qed

lemma exclude_dir_segment:
  assumes "ascii d" "ascii (ip_relative_path r)" "CHR ''/'' \<notin> set d"
  shows "sql_eval (exclude_dir d) r \<longleftrightarrow> py_lower d \<in> set (split_char (CHR ''/'') (py_lower (ip_relative_path r)))"
proof -
  let ?d = "py_lower d" and ?s = "py_lower (ip_relative_path r)"
  have d: "sql_lower ?d = ?d" and s: "sql_lower ?s = ?s" using assms(1,2) by (simp_all add: sql_py_lower)
  have "CHR ''/'' \<notin> set ?d" using assms(3) slash_lower [of d] by (simp add: ascii_lower [OF assms(1)])
  then have "?d \<in> set (split_char (CHR ''/'') ?s) \<longleftrightarrow>
      ?s = ?d \<or> prefix (?d @ ''/'') ?s \<or> sublist (''/'' @ ?d @ ''/'') ?s \<or> suffix (''/'' @ ?d) ?s"
    by (rule component_iff)
  then show ?thesis
    using escaped_dir [OF d s] escaped_inner [OF d s] escaped_last [OF d s]
    by (simp add: exclude_dir_def Let_def ascii_lower [OF assms(2)])
qed

lemma exclude_quarantine_inside:
  assumes "ascii q" "ascii (ip_absolute_path r)"
  shows "sql_eval (exclude_quarantine q) r \<longleftrightarrow>
    py_lower (ip_absolute_path r) = py_lower q \<or> prefix (py_lower q @ ''/'') (py_lower (ip_absolute_path r))"
  using escaped_dir [of "py_lower q" "py_lower (ip_absolute_path r)"] assms
  by (simp add: exclude_quarantine_def Let_def ascii_lower sql_py_lower)

subsection \<open>Validated rules\<close>

lemma check_rule_ok: "check_rule item = Inr d \<Longrightarrow> d = item \<and> item \<noteq> [] \<and> CHR ''/'' \<notin> set item"
  by (auto simp: check_rule_def split: if_splits)

lemma keep_rules_ok:
  "keep_rules items result = Inr names \<Longrightarrow> distinct result \<Longrightarrow> \<forall>d \<in> set result. CHR ''/'' \<notin> set d \<Longrightarrow>
     distinct names \<and> set names = set result \<union> set items \<and> (\<forall>d \<in> set names. CHR ''/'' \<notin> set d)"
proof (induction items arbitrary: result)
  case Nil
  then show ?case by simp
next
  case (Cons item items)
  obtain d where c: "check_rule item = Inr d" and
    k: "keep_rules items (if d \<in> set result then result else result @ [d]) = Inr names"
    using Cons.prems(1) by (auto simp: bind_res_Inr)
  have d: "d = item" "CHR ''/'' \<notin> set item" using check_rule_ok [OF c] by simp_all
  show ?case
  proof (cases "item \<in> set result")
    case True
    then have "keep_rules items result = Inr names" using k d(1) by simp
    from Cons.IH [OF this Cons.prems(2,3)] True show ?thesis by auto
  next
    case False
    then have "keep_rules items (result @ [item]) = Inr names" using k d(1) by simp
    from Cons.IH [OF this] Cons.prems(2,3) False d(2) show ?thesis by simp
  qed
qed



end
