(* ===== verification/FilterTwice.thy ===== *)
theory FilterTwice
  imports FilterMatch
begin

section \<open>Filters validated twice\<close>

text \<open>
  The batch utilities validate the filter of an action when they canonicalise it
  (app/batch_utilities/digest.py) and validate the stored result again when they compile the plan
  (app/batch_utilities/compiler.py). Validation is not idempotent on times: it turns seconds into
  nanoseconds, which the second run reads as seconds.
\<close>

definition canonical_filter :: "filter_node option \<Rightarrow> filter_error + filter_node option" where
  "canonical_filter f = (case f of None \<Rightarrow> Inr None | Some node \<Rightarrow> bind_res (validate_filter node) (\<lambda>v. Inr (Some v)))"

definition parse_and_validate_filter :: "filter_node option \<Rightarrow> filter_error + filter_node option" where
  "parse_and_validate_filter f = (case f of None \<Rightarrow> Inr None | Some node \<Rightarrow> bind_res (validate_filter node) (\<lambda>v. Inr (Some v)))"

definition compiled_action_filter :: "filter_node option \<Rightarrow> filter_error + filter_node option" where
  "compiled_action_filter f = bind_res (canonical_filter f) parse_and_validate_filter"

subsection \<open>Filters that validation leaves alone\<close>

definition settled_leaf :: "string \<Rightarrow> json \<Rightarrow> bool" where
  "settled_leaf field val \<longleftrightarrow> field \<noteq> ''mtime'' \<and>
     (field \<in> {''path'', ''name'', ''extension''} \<longrightarrow> list_all (\<lambda>s. py_strip s \<noteq> []) (json_texts val)) \<and>
     (field = ''extension'' \<longrightarrow> list_all (\<lambda>s. normalize_extension s = s) (json_texts val))"

fun settled :: "filter_node \<Rightarrow> bool" where
  "settled (LeafNode field op val cs) = settled_leaf field val"
| "settled (LogicalNode op children child) =
     ((case children of None \<Rightarrow> True | Some cs \<Rightarrow> \<forall>c \<in> set cs. settled c) \<and>
      (case child of None \<Rightarrow> True | Some c \<Rightarrow> settled c))"

lemma clean_list_id:
  assumes "vs \<noteq> []" "vs = map JStr ss" "\<And>s. s \<in> set ss \<Longrightarrow> py_strip s \<noteq> [] \<and> f s = Inr s"
  shows "clean_list f (JList vs) = Inr (JList vs)"
proof -
  have "map_res (\<lambda>v. case filled_text v of None \<Rightarrow> Inl BadTextList | Some s \<Rightarrow> f s) (map JStr ss) = Inr ss"
    using assms(3) by (induction ss) (auto simp: filled_text_def)
  then show ?thesis using assms(1,2) by (cases vs) (auto simp: clean_list_def simp del: map_res.simps)
qed

lemma clean_one_id: "py_strip s \<noteq> [] \<Longrightarrow> f s = Inr s \<Longrightarrow> clean_one f (JStr s) = Inr (JStr s)"
  by (simp add: clean_one_def filled_text_def)

lemma text_list_ok_map:
  assumes "text_list_ok P val"
  shows "\<exists>ss. val = JList (map JStr ss) \<and> json_texts val = ss \<and> list_all P ss \<and> ss \<noteq> []"
proof -
  obtain vs where v: "val = JList vs" "vs \<noteq> []" "list_all (\<lambda>v. case v of JStr s \<Rightarrow> P s | _ \<Rightarrow> False) vs"
    using assms by (auto simp: text_list_ok_def split: json.splits)
  let ?texts = "concat (map (\<lambda>v. case v of JStr s \<Rightarrow> [s] | _ \<Rightarrow> []) vs)"
  have "vs = map JStr ?texts \<and> list_all P ?texts"
    using v(3) by (induction vs) (auto split: json.splits)
  moreover from this have "?texts \<noteq> []" using v(2) by (metis map_is_Nil_conv)
  ultimately show ?thesis using v(1) by (auto simp: json_texts_def)
qed

lemma text_ok_single: "text_ok P val \<Longrightarrow> \<exists>s. val = JStr s \<and> json_texts val = [s] \<and> P s"
  by (auto simp: text_ok_def json_texts_def split: json.splits)

lemma media_type_id: "mt \<in> set MEDIA_TYPES \<Longrightarrow> py_strip mt \<noteq> [] \<and> clean_media_type mt = Inr mt"
proof -
  assume m: "mt \<in> set MEDIA_TYPES"
  have "list_all (\<lambda>mt. py_strip mt \<noteq> []) MEDIA_TYPES" by code_simp
  then show ?thesis using m media_lists(3) by (simp add: clean_media_type_def list_all_iff)
qed

text \<open>Cleaning the texts of a field leaves settled ones alone.\<close>

lemma clean_texts_id:
  assumes "if op \<in> {''in'', ''nin''} then text_list_ok P val else text_ok P val"
    and "\<And>s. s \<in> set (json_texts val) \<Longrightarrow> P s \<Longrightarrow> py_strip s \<noteq> [] \<and> f s = Inr s"
  shows "(if op \<in> {''in'', ''nin''} then clean_list f val else clean_one f val) = Inr val"
proof (cases "op \<in> {''in'', ''nin''}")
  case True
  then obtain ss where "val = JList (map JStr ss)" "json_texts val = ss" "list_all P ss" "ss \<noteq> []"
    using assms(1) text_list_ok_map [of P val] by auto
  then show ?thesis using True clean_list_id [of "map JStr ss" ss f] assms(2) by (simp add: list_all_iff)
next
  case False
  then obtain s where "val = JStr s" "json_texts val = [s]" "P s" using assms(1) text_ok_single by (auto split: if_splits)
  then show ?thesis using False clean_one_id [of s f] assms(2) by simp
qed

lemma clean_value_id:
  assumes "leaf_ok field op val" "settled_leaf field val"
  shows "clean_value field op val = Inr val"
proof -
  have v: "value_ok field op val" using assms(1) by (simp add: leaf_ok_def)
  have "field = ''size'' \<or> field = ''mtime'' \<or> field = ''extension'' \<or> field = ''media_type'' \<or> field = ''path'' \<or> field = ''name''"
    using assms(1) unfolding leaf_ok_def by (simp only: ALLOWED_FIELDS_def list.set insert_iff empty_iff) satx
  then show ?thesis
  proof (elim disjE)
    assume f: "field = ''size''"
    then show ?thesis using v by (auto simp: clean_value_def value_ok_def split: json.splits)
  next
    assume "field = ''mtime''"
    then show ?thesis using assms(2) by (simp add: settled_leaf_def)
  next
    assume f: "field = ''extension''"
    have "(if op \<in> {''in'', ''nin''} then clean_list (\<lambda>s. Inr (normalize_extension s)) val
        else clean_one (\<lambda>s. Inr (normalize_extension s)) val) = Inr val"
      by (rule clean_texts_id [where P = "known_text field"])
        (use v f assms(2) in \<open>simp_all add: value_ok_def settled_leaf_def list_all_iff\<close>)
    then show ?thesis by (simp add: clean_value_def f)
  next
    assume f: "field = ''media_type''"
    have "(if op \<in> {''in'', ''nin''} then clean_list clean_media_type val else clean_one clean_media_type val) = Inr val"
      by (rule clean_texts_id [where P = "known_text field"])
        (use v f media_type_id in \<open>simp_all add: value_ok_def known_text_def\<close>)
    then show ?thesis by (simp add: clean_value_def f)
  next
    assume f: "field = ''path''"
    have "(if op \<in> {''in'', ''nin''} then clean_list Inr val else clean_one Inr val) = Inr val"
      by (rule clean_texts_id [where P = "known_text field"])
        (use v f assms(2) in \<open>simp_all add: value_ok_def settled_leaf_def list_all_iff\<close>)
    then show ?thesis using v by (auto simp: clean_value_def f value_ok_def text_ok_def split: json.splits if_splits)
  next
    assume f: "field = ''name''"
    have "(if op \<in> {''in'', ''nin''} then clean_list Inr val else clean_one Inr val) = Inr val"
      by (rule clean_texts_id [where P = "known_text field"])
        (use v f assms(2) in \<open>simp_all add: value_ok_def settled_leaf_def list_all_iff\<close>)
    then show ?thesis using v by (auto simp: clean_value_def f value_ok_def text_ok_def split: json.splits if_splits)
  qed
qed

text \<open>Names of fields and operators are clean.\<close>

lemma clean_names:
  "list_all (\<lambda>f. py_lower (py_strip f) = f \<and> f \<noteq> ''regex'' \<and>
     list_all (\<lambda>op. py_lower (py_strip op) = op \<and> op \<noteq> ''matches'') (allowed_operators f)) ALLOWED_FIELDS"
  "list_all (\<lambda>op. py_lower (py_strip op) = op) [''and'', ''or'', ''not'']"
  by code_simp+

lemma validate_leaf_names:
  assumes "field \<in> set ALLOWED_FIELDS" "op \<in> set (allowed_operators field)"
  shows "validate_leaf field op val cs = bind_res (clean_value field op val) (\<lambda>clean. Inr (LeafNode field op clean cs))"
  using assms clean_names(1) by (simp add: validate_leaf_def Let_def list_all_iff)

lemma validate_settled:
  "filter_ok f \<Longrightarrow> settled f \<Longrightarrow> depth_within (Suc MAX_DEPTH - depth) f \<Longrightarrow> n + leaf_count f \<le> MAX_TOTAL_LEAVES \<Longrightarrow>
     validate_filter_ast f depth n = Inr (f, n + leaf_count f)"
  "\<forall>f \<in> set fs. filter_ok f \<and> settled f \<and> depth_within (Suc MAX_DEPTH - depth) f \<Longrightarrow>
     n + sum_list (map leaf_count fs) \<le> MAX_TOTAL_LEAVES \<Longrightarrow>
     validate_children fs depth n = Inr (fs, n + sum_list (map leaf_count fs))"
proof (induction f depth n and fs depth n rule: validate_filter_ast_validate_children.induct)
  case (1 field operator val cs depth leaves)
  have d: "\<not> depth > MAX_DEPTH" using 1(3) by (cases "Suc MAX_DEPTH - depth") auto
  have "validate_leaf field operator val cs = Inr (LeafNode field operator val cs)"
    using 1(1,2) validate_leaf_names [of field operator val cs] clean_value_id [of field operator val] by (simp add: leaf_ok_def)
  then show ?case using 1(4) d by simp
next
  case (2 raw_op children child depth leaves)
  obtain e where e: "Suc MAX_DEPTH - depth = Suc e" "Suc MAX_DEPTH - Suc depth = e" and d: "\<not> depth > MAX_DEPTH"
    using 2(5) by (cases "Suc MAX_DEPTH - depth") auto
  have op: "raw_op = ''and'' \<or> raw_op = ''or'' \<or> raw_op = ''not''" using 2(3) by (auto split: if_splits)
  then have low: "py_lower (py_strip raw_op) = raw_op" using clean_names(2) by auto
  show ?case
  proof (cases "raw_op = ''not''")
    case True
    then obtain c where c: "children = None" "child = Some c" "filter_ok c" using 2(3) by (auto split: option.splits)
    have "validate_filter_ast c (Suc depth) leaves = Inr (c, leaves + leaf_count c)"
      by (rule 2(2) [OF d low [symmetric]]) (use True c e 2(4-6) in auto)
    then show ?thesis using True c d low by (simp add: Let_def)
  next
    case False
    then obtain cs where c: "child = None" "children = Some cs" "cs \<noteq> []" "length cs \<le> MAX_CHILDREN" "\<forall>c \<in> set cs. filter_ok c"
      using 2(3) op by (auto split: option.splits)
    have "validate_children cs (Suc depth) leaves = Inr (cs, leaves + sum_list (map leaf_count cs))"
      by (rule 2(1) [OF d low [symmetric]]) (use False op c e 2(4-6) in auto)
    then show ?thesis using False op c d low by (auto simp: Let_def)
  qed
next
  case (3 depth leaves)
  then show ?case by simp
next
  case (4 c cs depth leaves)
  then show ?case by (simp add: add.assoc)
qed

lemma settled_validates_again:
  assumes "validate_filter raw = Inr f" "settled f"
  shows "validate_filter f = Inr f"
proof -
  obtain n where "validate_filter_ast raw 1 0 = Inr (f, n)" using assms(1) by (auto simp: validate_filter_def bind_res_Inr)
  then have "filter_ok f" "depth_within (Suc MAX_DEPTH - 1) f" "leaf_count f \<le> MAX_TOTAL_LEAVES"
    using validate_ok(1) [of raw 1 0 f n] by simp_all
  then have "validate_filter_ast f 1 0 = Inr (f, leaf_count f)"
    using validate_settled(1) [of f 1 0] assms(2) by simp
  then show ?thesis by (simp add: validate_filter_def)
qed

text \<open>A time of ten seconds or more is refused the second time: nanoseconds are read as seconds.\<close>

lemma time_filter_rejected:
  assumes "canonical_filter (Some raw) = Inr (Some (LeafNode ''mtime'' op' (JInt ns) cs'))"
    and "ns \<ge> 10000000000"
  shows "compiled_action_filter (Some raw) = Inl (MtimeOutOfRange ns)"
proof -
  have v: "validate_filter raw = Inr (LeafNode ''mtime'' op' (JInt ns) cs')"
    using assms(1) by (auto simp: canonical_filter_def bind_res_Inr)
  have "leaf_ok ''mtime'' op' (JInt ns)" using validate_filter_ok [OF v] by simp
  then have "validate_leaf ''mtime'' op' (JInt ns) cs' = Inl (MtimeOutOfRange ns)"
    using validate_leaf_names [of "''mtime''" op' "JInt ns" cs'] assms(2)
    by (simp add: leaf_ok_def clean_value_def parse_mtime_to_ns_def MAX_EPOCH_SECONDS_def INT64_MAX_def)
  then have "validate_filter (LeafNode ''mtime'' op' (JInt ns) cs') = Inl (MtimeOutOfRange ns)"
    by (simp add: validate_filter_def MAX_DEPTH_def MAX_TOTAL_LEAVES_def)
  then show ?thesis by (simp add: compiled_action_filter_def assms(1) parse_and_validate_filter_def)
qed

text \<open>
  C30: the filter a batch utility compiles is the one its action was validated to, although it is
  validated again on the way, when it has no time in it and its extensions and texts are settled
  (not blank, no second leading dot). A lone condition on a time of ten seconds or more is always
  refused as out of range.
\<close>

theorem action_filter_validated_twice:
  assumes "canonical_filter (Some raw) = Inr (Some f)"
  shows "(settled f \<longrightarrow> compiled_action_filter (Some raw) = Inr (Some f)) \<and>
    (\<forall>op ns cs. f = LeafNode ''mtime'' op (JInt ns) cs \<longrightarrow> ns \<ge> 10000000000 \<longrightarrow>
       compiled_action_filter (Some raw) = Inl (MtimeOutOfRange ns))"
proof -
  have "compiled_action_filter (Some raw) = Inr (Some f)" if "settled f"
    using assms settled_validates_again [of raw f] that
    by (simp add: compiled_action_filter_def canonical_filter_def parse_and_validate_filter_def bind_res_Inr)
  then show ?thesis using time_filter_rejected assms by blast
qed

theorem action_filter_validated_twice_witness:
  "compiled_action_filter (Some (LeafNode ''Extension'' ''EQ'' (JStr ''.JPG'') True)) =
     Inr (Some (LeafNode ''extension'' ''eq'' (JStr ''jpg'') True)) \<and>
   compiled_action_filter (Some (LeafNode ''mtime'' ''gte'' (JStr ''2024-01-01T00:00:00Z'') True)) =
     Inl (MtimeOutOfRange 1704067200000000000)"
proof -
  have c: "canonical_filter (Some (LeafNode ''Extension'' ''EQ'' (JStr ''.JPG'') True)) =
      Inr (Some (LeafNode ''extension'' ''eq'' (JStr ''jpg'') True))" "settled (LeafNode ''extension'' ''eq'' (JStr ''jpg'') True)"
    "canonical_filter (Some (LeafNode ''mtime'' ''gte'' (JStr ''2024-01-01T00:00:00Z'') True)) =
      Inr (Some (LeafNode ''mtime'' ''gte'' (JInt 1704067200000000000) True))"
    by code_simp+
  show ?thesis using action_filter_validated_twice [OF c(1)] action_filter_validated_twice [OF c(3)] c(2) by auto
qed

end
