(* ===== verification/DedupePath.thy ===== *)
theory DedupePath
  imports PathSafety
begin

section \<open>Lexical paths of the duplicate planner\<close>

text \<open>
  Models the path functions of app/planning/dedupe_engine.py and what they use of os.path and of
  pathlib: purely lexical, no file system. The lemmas describe them on clean absolute paths, a
  list of components that are no dots and not empty, which is what normalisation produces.
\<close>

subsection \<open>os.path\<close>

fun norm_comps :: "bool \<Rightarrow> string list \<Rightarrow> string list \<Rightarrow> string list" where
  "norm_comps absolute acc [] = acc"
| "norm_comps absolute acc (c # cs) =
     (if c = [] \<or> c = ''.'' then norm_comps absolute acc cs
      else if c \<noteq> ''..'' \<or> (\<not> absolute \<and> acc = []) \<or> (acc \<noteq> [] \<and> last acc = ''..'') then norm_comps absolute (acc @ [c]) cs
      else if acc \<noteq> [] then norm_comps absolute (butlast acc) cs
      else norm_comps absolute acc cs)"

definition initial_slashes :: "string \<Rightarrow> nat" where
  "initial_slashes s = (if prefix ''/'' s then if prefix ''//'' s \<and> \<not> prefix ''///'' s then 2 else 1 else 0)"

definition or_dot :: "string \<Rightarrow> string" where
  "or_dot s = (if s = [] then ''.'' else s)"

definition normpath :: "string \<Rightarrow> string" where
  "normpath s = (if s = [] then ''.'' else
     or_dot (replicate (initial_slashes s) CHR ''/'' @
       join_slash (norm_comps (initial_slashes s > 0) [] (split_char CHR ''/'' s))))"

definition dirname :: "string \<Rightarrow> string" where
  "dirname p = (let head = rev (dropWhile (\<lambda>c. c \<noteq> CHR ''/'') (rev p)) in
     if head \<noteq> [] \<and> head \<noteq> replicate (length head) CHR ''/'' then rev (dropWhile (\<lambda>c. c = CHR ''/'') (rev head))
     else head)"

fun common_prefix :: "string list \<Rightarrow> string list \<Rightarrow> string list" where
  "common_prefix (x # xs) (y # ys) = (if x = y then x # common_prefix xs ys else [])"
| "common_prefix xs ys = []"

text \<open>\<open>commonpath\<close>: \<open>None\<close> stands for the \<open>ValueError\<close> of no path, or of absolute and relative ones.\<close>

definition path_comps :: "string \<Rightarrow> string list" where
  "path_comps p = filter (\<lambda>c. c \<noteq> [] \<and> c \<noteq> ''.'') (split_char CHR ''/'' p)"

definition commonpath :: "string list \<Rightarrow> string option" where
  "commonpath ps = (case map path_comps ps of [] \<Rightarrow> None
     | q # qs \<Rightarrow> let common = join_slash (common_prefix (fold min qs q) (fold max qs q)) in
         if list_all (prefix ''/'') ps then Some (CHR ''/'' # common)
         else if list_all (\<lambda>p. \<not> prefix ''/'' p) ps then Some common
         else None)"

text \<open>\<open>relpath\<close> between absolute paths.\<close>

definition relpath :: "string \<Rightarrow> string \<Rightarrow> string" where
  "relpath p start = (let s = path_comps (normpath start); q = path_comps (normpath p); i = length (common_prefix s q) in
     or_dot (join_slash (replicate (length s - i) ''..'' @ drop i q)))"

text \<open>\<open>PurePath(s).suffix\<close>.\<close>

definition name_suffix :: "string \<Rightarrow> string" where
  "name_suffix n = (let rest = rev (takeWhile (\<lambda>c. c \<noteq> CHR ''.'') (rev n)); i = length n - length rest in
     if i \<ge> 2 \<and> rest \<noteq> [] then CHR ''.'' # rest else [])"

definition path_suffix :: "string \<Rightarrow> string" where
  "path_suffix s = name_suffix (pure_name (pure_path s))"

subsection \<open>The functions of the planner\<close>

definition single_root :: "string \<Rightarrow> string" where
  "single_root s = CHR ''/'' # dropWhile (\<lambda>c. c = CHR ''/'') s"

definition normalize_dedupe_path :: "string \<Rightarrow> string" where
  "normalize_dedupe_path s = (if s = [] then [] else
     let s = (if prefix ''/'' s then single_root s else s); norm = normpath s in
     if prefix ''//'' norm then single_root norm else norm)"

datatype dedupe_error = NoScanRoots | RootNotAbsolute nat | InvalidRoot nat | DuplicateRoot string
  | PathsNotAbsolute | NotDescendant | ParentOutside | AncestryEscaped
  | NoParents | RootPathNotAbsolute | ParentsOutsideRoot | NoCommonRoot | LcaEscaped | BucketOutside

fun check_roots :: "nat \<Rightarrow> string list \<Rightarrow> string list \<Rightarrow> dedupe_error + string list" where
  "check_roots idx seen [] = Inr seen"
| "check_roots idx seen (r # rs) =
     (if \<not> prefix ''/'' r then Inl (RootNotAbsolute idx)
      else let norm = normalize_dedupe_path r in
        if norm = [] \<or> \<not> prefix ''/'' norm then Inl (InvalidRoot idx)
        else if norm \<in> set seen then Inl (DuplicateRoot norm)
        else check_roots (Suc idx) (seen @ [norm]) rs)"

definition validate_authoritative_scan_roots :: "string list \<Rightarrow> dedupe_error + string list" where
  "validate_authoritative_scan_roots roots = (if roots = [] then Inl NoScanRoots else check_roots 0 [] roots)"

definition is_lexical_contained :: "string \<Rightarrow> string \<Rightarrow> bool" where
  "is_lexical_contained sub root =
     (let s = normalize_dedupe_path sub; r = normalize_dedupe_path root in
      if r = ''/'' then prefix ''/'' s else s = r \<or> prefix (r @ ''/'') s)"

definition lexical_relpath :: "string \<Rightarrow> string \<Rightarrow> string" where
  "lexical_relpath sub root =
     (let s = normalize_dedupe_path sub; r = normalize_dedupe_path root in
      if s = r then []
      else if r = ''/'' then dropWhile (\<lambda>c. c = CHR ''/'') s
      else if prefix (r @ ''/'') s then drop (length r + 1) s
      else relpath s r)"

subsection \<open>Clean absolute paths\<close>

definition clean_comp :: "string \<Rightarrow> bool" where
  "clean_comp c \<longleftrightarrow> c \<noteq> [] \<and> c \<noteq> ''.'' \<and> c \<noteq> ''..'' \<and> CHR ''/'' \<notin> set c"

definition abs_path :: "string list \<Rightarrow> string" where
  "abs_path cs = CHR ''/'' # join_slash cs"

lemma abs_path_prefix [simp]: "prefix ''/'' (abs_path cs)"
  by (simp add: abs_path_def)

lemma abs_path_not_empty [simp]: "abs_path cs \<noteq> []"
  by (simp add: abs_path_def)

lemma norm_comps_clean:
  "list_all clean_comp acc \<Longrightarrow> \<forall>c \<in> set cs. CHR ''/'' \<notin> set c \<Longrightarrow> list_all clean_comp (norm_comps True acc cs)"
proof (induction "True" acc cs rule: norm_comps.induct)
  case (2 acc c cs)
  have "list_all clean_comp (butlast acc)" using 2(5) by (auto simp: list_all_iff dest: in_set_butlastD)
  moreover have "\<not> (acc \<noteq> [] \<and> last acc = ''..'')" using 2(5) last_in_set by (fastforce simp: list_all_iff clean_comp_def)
  ultimately show ?case using 2 by (auto simp: clean_comp_def)
qed simp

lemma norm_comps_id: "list_all clean_comp cs \<Longrightarrow> norm_comps absolute acc cs = acc @ cs"
  by (induction cs arbitrary: acc) (auto simp: clean_comp_def)

lemma split_join: "cs \<noteq> [] \<Longrightarrow> \<forall>c \<in> set cs. CHR ''/'' \<notin> set c \<Longrightarrow> split_char CHR ''/'' (join_slash cs) = cs"
  by (induction cs rule: join_slash.induct) auto

lemma clean_no_slash: "list_all clean_comp cs \<Longrightarrow> \<forall>c \<in> set cs. CHR ''/'' \<notin> set c"
  by (auto simp: list_all_iff clean_comp_def)

lemma join_head:
  assumes "list_all clean_comp cs" "cs \<noteq> []"
  shows "join_slash cs \<noteq> [] \<and> hd (join_slash cs) \<noteq> CHR ''/''"
proof -
  obtain c ds where cs: "cs = c # ds" using assms(2) by (cases cs) auto
  obtain x xs where c: "c = x # xs" "x \<noteq> CHR ''/''" using assms(1) cs by (cases c) (auto simp: clean_comp_def)
  show ?thesis using c by (cases ds) (simp_all add: cs)
qed

lemma abs_path_single: "list_all clean_comp cs \<Longrightarrow> \<not> prefix ''//'' (abs_path cs)"
  using join_head [of cs] by (cases "cs = []") (auto simp: abs_path_def prefix_def neq_Nil_conv)

lemma single_root_abs: "list_all clean_comp cs \<Longrightarrow> single_root (abs_path cs) = abs_path cs"
  using join_head [of cs] by (cases "cs = []") (auto simp: abs_path_def single_root_def neq_Nil_conv)

lemma normpath_abs:
  assumes "list_all clean_comp cs"
  shows "normpath (abs_path cs) = abs_path cs"
proof -
  have i: "initial_slashes (abs_path cs) = 1" using abs_path_single [OF assms] by (simp add: initial_slashes_def abs_path_def)
  have "split_char CHR ''/'' (abs_path cs) = [] # (if cs = [] then [[]] else cs)"
    using split_join clean_no_slash [OF assms] by (simp add: abs_path_def)
  then have "norm_comps True [] (split_char CHR ''/'' (abs_path cs)) = cs" using norm_comps_id [OF assms] by simp
  then show ?thesis by (simp add: normpath_def i) (simp add: abs_path_def or_dot_def)
qed

lemma normalize_abs: "list_all clean_comp cs \<Longrightarrow> normalize_dedupe_path (abs_path cs) = abs_path cs"
  using single_root_abs [of cs] abs_path_single [of cs] normpath_abs [of cs]
  by (simp add: normalize_dedupe_path_def)

lemma single_root_slash: "\<not> prefix ''//'' (single_root s)"
  by (cases "dropWhile (\<lambda>c. c = CHR ''/'') s") (auto simp: single_root_def prefix_def dropWhile_eq_Cons_conv)

text \<open>Normalising an absolute path gives a clean absolute path.\<close>

definition root_comps :: "string \<Rightarrow> string list" where
  "root_comps s = norm_comps True [] (split_char CHR ''/'' (single_root s))"

lemma root_comps_clean: "list_all clean_comp (root_comps s)"
  unfolding root_comps_def by (rule norm_comps_clean) (use split_char_free in auto)

lemma normalize_absolute:
  assumes "prefix ''/'' s"
  shows "normalize_dedupe_path s = abs_path (root_comps s)"
proof -
  have i: "initial_slashes (single_root s) = 1" using single_root_slash by (simp add: initial_slashes_def) (simp add: single_root_def)
  have "normpath (single_root s) = abs_path (root_comps s)"
    by (simp add: normpath_def i root_comps_def) (simp add: abs_path_def or_dot_def single_root_def)
  moreover have "s \<noteq> []" using assms by auto
  ultimately show ?thesis using assms abs_path_single [OF root_comps_clean]
    by (simp add: normalize_dedupe_path_def)
qed

lemma normalize_is_abs:
  assumes "prefix ''/'' s"
  obtains cs where "list_all clean_comp cs" "normalize_dedupe_path s = abs_path cs"
  using normalize_absolute [OF assms] root_comps_clean that by blast

lemma abs_path_eq: "list_all clean_comp as \<Longrightarrow> list_all clean_comp bs \<Longrightarrow> abs_path as = abs_path bs \<longleftrightarrow> as = bs"
proof -
  assume a: "list_all clean_comp as" and b: "list_all clean_comp bs"
  have "join_slash as = join_slash bs \<Longrightarrow> as = bs"
  proof (cases "as = [] \<or> bs = []")
    case True
    assume "join_slash as = join_slash bs"
    then show ?thesis using True join_head [OF a] join_head [OF b] by fastforce
  next
    case False
    assume "join_slash as = join_slash bs"
    then show ?thesis using False split_join clean_no_slash [OF a] clean_no_slash [OF b] by metis
  qed
  then show ?thesis by (auto simp: abs_path_def)
qed

lemma abs_path_append: "cs \<noteq> [] \<Longrightarrow> ds \<noteq> [] \<Longrightarrow> abs_path (cs @ ds) = abs_path cs @ CHR ''/'' # join_slash ds"
  by (simp add: abs_path_def join_slash_append)

lemma join_prefix:
  assumes a: "list_all clean_comp as" and b: "list_all clean_comp bs" "bs \<noteq> []" and p: "prefix (join_slash bs @ ''/'') (join_slash as)"
  shows "prefix bs as"
proof -
  obtain t where t: "join_slash as = join_slash bs @ CHR ''/'' # t" using p by (auto simp: prefix_def)
  then have "as \<noteq> []" by auto
  then have "as = split_char CHR ''/'' (join_slash as)" using split_join clean_no_slash [OF a] by simp
  also have "\<dots> = bs @ split_char CHR ''/'' t" using t split_join clean_no_slash [OF b(1)] b(2) by (simp add: split_char_append)
  finally show ?thesis by (metis prefixI)
qed

lemma contained_iff:
  assumes "list_all clean_comp as" "list_all clean_comp bs"
  shows "is_lexical_contained (abs_path as) (abs_path bs) \<longleftrightarrow> prefix bs as"
proof (cases "bs = []")
  case True
  then show ?thesis using assms by (simp add: is_lexical_contained_def normalize_abs) (simp add: abs_path_def)
next
  case False
  have r: "abs_path bs \<noteq> ''/''" using False join_head [OF assms(2)] by (simp add: abs_path_def)
  have "abs_path as = abs_path bs \<or> prefix (abs_path bs @ ''/'') (abs_path as) \<longleftrightarrow> prefix bs as"
  proof
    assume "abs_path as = abs_path bs \<or> prefix (abs_path bs @ ''/'') (abs_path as)"
    then show "prefix bs as" using join_prefix [OF assms False] abs_path_eq [OF assms] by (auto simp: abs_path_def)
  next
    assume "prefix bs as"
    then obtain ds where "as = bs @ ds" by (auto simp: prefix_def)
    then show "abs_path as = abs_path bs \<or> prefix (abs_path bs @ ''/'') (abs_path as)"
      using False abs_path_append [of bs ds] by (cases "ds = []") auto
  qed
  then show ?thesis using r assms by (simp add: is_lexical_contained_def normalize_abs)
qed

lemma relpath_below:
  assumes "list_all clean_comp (bs @ ds)" "ds \<noteq> []"
  shows "lexical_relpath (abs_path (bs @ ds)) (abs_path bs) = join_slash ds"
proof -
  have c: "list_all clean_comp bs" "list_all clean_comp ds" using assms(1) by auto
  have n: "normalize_dedupe_path (abs_path (bs @ ds)) = abs_path (bs @ ds)" "normalize_dedupe_path (abs_path bs) = abs_path bs"
    using assms(1) c(1) by (simp_all only: normalize_abs)
  have ne: "abs_path (bs @ ds) \<noteq> abs_path bs" using abs_path_eq [OF assms(1) c(1)] assms(2) by simp
  show ?thesis
  proof (cases "bs = []")
    case True
    then show ?thesis using n ne join_head [OF c(2) assms(2)]
      by (simp add: lexical_relpath_def) (auto simp: abs_path_def neq_Nil_conv)
  next
    case False
    have "abs_path bs \<noteq> ''/''" using False join_head [OF c(1)] by (simp add: abs_path_def)
    then show ?thesis using n ne abs_path_append [OF False assms(2)] by (simp add: lexical_relpath_def)
  qed
qed

subsection \<open>Ancestors\<close>

definition comps_weight :: "string list \<Rightarrow> nat" where
  "comps_weight cs = sum_list (map (\<lambda>c. Suc (length c)) cs)"

lemma comps_weight_simps [simp]: "comps_weight [] = 0" "comps_weight (c # cs) = Suc (length c) + comps_weight cs" "comps_weight (as @ bs) = comps_weight as + comps_weight bs"
  by (simp_all add: comps_weight_def)

lemma comps_weight_butlast: "comps_weight (butlast cs) \<le> comps_weight cs"
  by (induction cs) auto

lemma norm_comps_weight: "comps_weight (norm_comps absolute acc cs) \<le> comps_weight acc + comps_weight cs"
proof (induction absolute acc cs rule: norm_comps.induct)
  case (2 absolute acc c cs)
  then show ?case using comps_weight_butlast [of acc] by (auto simp del: butlast.simps)
qed simp

lemma join_length: "cs \<noteq> [] \<Longrightarrow> Suc (length (join_slash cs)) = comps_weight cs"
  by (induction cs rule: join_slash.induct) auto

lemma split_weight: "comps_weight (split_char c s) = Suc (length s)"
  by (induction s) (auto split: list.splits)

lemma norm_join_length: "length (join_slash (norm_comps absolute [] (split_char CHR ''/'' s))) \<le> length s"
proof -
  let ?cs = "norm_comps absolute [] (split_char CHR ''/'' s)"
  have "comps_weight ?cs \<le> Suc (length s)" using norm_comps_weight [of absolute "[]" "split_char CHR ''/'' s"] by (simp add: split_weight)
  then show ?thesis using join_length [of ?cs] by (cases "?cs = []") auto
qed

lemma single_root_length: "prefix ''/'' s \<Longrightarrow> length (single_root s) \<le> length s"
  using length_dropWhile_le [of "\<lambda>c. c = CHR ''/''" "tl s"] by (cases s) (auto simp: single_root_def)

lemma normalize_length: "length (normalize_dedupe_path s) \<le> length s"
proof (cases "prefix ''/'' s")
  case True
  have "root_comps s = norm_comps True [] (split_char CHR ''/'' (tl (single_root s)))"
    by (simp add: root_comps_def single_root_def)
  then have "length (abs_path (root_comps s)) \<le> length (single_root s)"
    using norm_join_length [of True "tl (single_root s)"] by (simp add: abs_path_def single_root_def)
  then show ?thesis using normalize_absolute [OF True] single_root_length [OF True] by simp
next
  case False
  show ?thesis
  proof (cases "s = []")
    case True
    then show ?thesis by (simp add: normalize_dedupe_path_def)
  next
    case ne: False
    have "initial_slashes s = 0" using False by (simp add: initial_slashes_def)
    then have l: "length (normpath s) \<le> length s" using ne norm_join_length [of False s]
      by (cases s) (auto simp: normpath_def or_dot_def)
    have "prefix ''//'' (normpath s) \<Longrightarrow> length (single_root (normpath s)) \<le> length (normpath s)"
      by (rule single_root_length) (auto simp: prefix_def)
    then show ?thesis using ne False l by (auto simp: normalize_dedupe_path_def Let_def)
  qed
qed

lemma takeWhile_last: "xs = rev (dropWhile P (rev xs)) @ rev (takeWhile P (rev xs))"
  by (metis rev_append rev_rev_ident takeWhile_dropWhile_id)

lemma dirname_length: "length (dirname p) \<le> length p"
  using length_dropWhile_le [of "\<lambda>c. c \<noteq> CHR ''/''" "rev p"]
    length_dropWhile_le [of "\<lambda>c. c = CHR ''/''" "dropWhile (\<lambda>c. c \<noteq> CHR ''/'') (rev p)"]
  by (auto simp: dirname_def Let_def)

text \<open>A path whose directory is as long as itself is empty or made of slashes.\<close>

lemma dirname_shorter:
  assumes "length (dirname p) = length p"
  shows "p = replicate (length p) CHR ''/''"
proof -
  let ?h = "dropWhile (\<lambda>c. c \<noteq> CHR ''/'') (rev p)"
  have "length (dirname p) \<le> length ?h"
    using length_dropWhile_le [of "\<lambda>c. c = CHR ''/''" ?h] by (auto simp: dirname_def Let_def)
  then have l: "length ?h = length p" using assms length_dropWhile_le [of "\<lambda>c. c \<noteq> CHR ''/''" "rev p"] by simp
  then have h: "rev ?h = p" by (metis dropWhile_eq_self_iff length_dropWhile_le length_rev rev_rev_ident suffix_dropWhile suffix_length_le suffix_order.antisym nle_le append_eq_append_conv suffix_def append_Nil)
  show ?thesis
  proof (rule ccontr)
    assume n: "p \<noteq> replicate (length p) CHR ''/''"
    then have "p \<noteq> []" by auto
    then have "dirname p = rev (dropWhile (\<lambda>c. c = CHR ''/'') (rev p))" using n h by (simp add: dirname_def Let_def)
    moreover obtain x xs where x: "rev p = x # xs" using \<open>p \<noteq> []\<close> by (cases "rev p") auto
    moreover have "x = CHR ''/''"
    proof (rule ccontr)
      assume "x \<noteq> CHR ''/''"
      then have "length ?h \<le> length xs" using x by (simp add: length_dropWhile_le)
      moreover have "length p = Suc (length xs)" using arg_cong [OF x, of length] by simp
      ultimately show False using l by simp
    qed
    moreover have "length p = Suc (length xs)" using arg_cong [OF x, of length] by simp
    ultimately show False using assms length_dropWhile_le [of "\<lambda>c. c = CHR ''/''" xs] by simp
  qed
qed

lemma parent_shorter:
  assumes "normalize_dedupe_path (dirname current) \<noteq> current"
  shows "length (normalize_dedupe_path (dirname current)) < length current"
proof (rule ccontr)
  let ?n = "normalize_dedupe_path (dirname current)"
  assume "\<not> length ?n < length current"
  then have l: "length ?n = length current" "length (dirname current) = length current"
    using normalize_length [of "dirname current"] dirname_length [of current] by simp_all
  obtain n where n: "current = replicate n CHR ''/''" using dirname_shorter [OF l(2)] by blast
  have d: "dirname current = current" using n by (simp add: dirname_def)
  show False
  proof (cases "n \<le> 1")
    case True
    then have "current = [] \<or> current = ''/''" using n by (cases n) auto
    then have "normalize_dedupe_path current = current"
      using normalize_abs [of "[]"] by (auto simp: normalize_dedupe_path_def abs_path_def)
    then show False using assms d by simp
  next
    case False
    then have "single_root current = ''/''" by (simp add: n single_root_def)
    moreover have "prefix ''/'' current" using False n by (cases n) auto
    ultimately have "?n = ''/''" using normalize_absolute [of current] d by (simp add: root_comps_def abs_path_def)
    then show False using l(1) False n by simp
  qed
qed

function ancestors_loop :: "string \<Rightarrow> string \<Rightarrow> string list \<Rightarrow> dedupe_error + string list" where
  "ancestors_loop root current ancestry =
     (if current = root then Inr (ancestry @ [current])
      else let parent = normalize_dedupe_path (dirname current) in
        if parent = current \<or> \<not> is_lexical_contained parent root then Inl AncestryEscaped
        else ancestors_loop root parent (ancestry @ [current]))"
  by pat_completeness auto

termination
  by (relation "measure (\<lambda>(root, current, ancestry). length current)") (auto intro: parent_shorter)

declare ancestors_loop.simps [simp del]

definition directory_ancestors_to_scan_root :: "string \<Rightarrow> string \<Rightarrow> dedupe_error + string list" where
  "directory_ancestors_to_scan_root file root =
     (let f = normalize_dedupe_path file; r = normalize_dedupe_path root in
      if \<not> prefix ''/'' f \<or> \<not> prefix ''/'' r then Inl PathsNotAbsolute
      else if \<not> is_lexical_contained f r \<or> f = r then Inl NotDescendant
      else let current = normalize_dedupe_path (dirname f) in
        if \<not> is_lexical_contained current r then Inl ParentOutside
        else ancestors_loop r current [])"

definition compute_same_root_lca :: "string list \<Rightarrow> string \<Rightarrow> dedupe_error + string" where
  "compute_same_root_lca parents root =
     (if parents = [] then Inl NoParents
      else let r = normalize_dedupe_path root; ps = map normalize_dedupe_path parents in
        if \<not> prefix ''/'' r then Inl RootPathNotAbsolute
        else if \<not> list_all (\<lambda>p. prefix ''/'' p \<and> is_lexical_contained p r) ps then Inl ParentsOutsideRoot
        else case commonpath ps of None \<Rightarrow> Inl NoCommonRoot
          | Some common \<Rightarrow> let lca = normalize_dedupe_path common in
              if is_lexical_contained lca r then Inr lca else Inl LcaEscaped)"

definition LCA_DIRECT :: string where "LCA_DIRECT = ''LCA_DIRECT''"

definition derive_recursive_balance_bucket :: "string \<Rightarrow> string \<Rightarrow> dedupe_error + string" where
  "derive_recursive_balance_bucket parent lca =
     (let p = normalize_dedupe_path parent; l = normalize_dedupe_path lca in
      if p = l then Inr LCA_DIRECT
      else if \<not> is_lexical_contained p l then Inl BucketOutside
      else let rel = lexical_relpath p l in
        if rel = [] \<or> rel = ''.'' then Inr LCA_DIRECT
        else let first = hd (split_char CHR ''/'' rel) in
          if l = ''/'' then Inr (CHR ''/'' # first) else Inr (normalize_dedupe_path (l @ CHR ''/'' # first)))"

subsection \<open>What they compute\<close>

lemma join_last:
  assumes "list_all clean_comp cs" "cs \<noteq> []"
  shows "last (join_slash cs) \<noteq> CHR ''/''"
proof -
  obtain ds c where cs: "cs = ds @ [c]" using assms(2) by (cases cs rule: rev_cases) auto
  have c: "c \<noteq> []" "CHR ''/'' \<notin> set c" using assms(1) cs by (simp_all add: clean_comp_def)
  then have "last c \<noteq> CHR ''/''" using last_in_set [of c] by metis
  with c(1) show ?thesis using c by (cases "ds = []") (simp_all add: cs join_slash_append)
qed

lemma dirname_abs:
  assumes "list_all clean_comp (cs @ [c])"
  shows "dirname (abs_path (cs @ [c])) = abs_path cs"
proof -
  have c: "CHR ''/'' \<notin> set c" using assms by (simp add: clean_comp_def)
  have strip: "dropWhile (\<lambda>x. x \<noteq> CHR ''/'') (rev (h @ CHR ''/'' # c)) = CHR ''/'' # rev h" for h
    using c by (simp add: dropWhile_append)
  show ?thesis
  proof (cases "cs = []")
    case True
    then have "dropWhile (\<lambda>x. x \<noteq> CHR ''/'') (rev (abs_path (cs @ [c]))) = ''/''" using strip [of "[]"] by (simp add: abs_path_def)
    then show ?thesis using True by (simp add: dirname_def) (simp add: abs_path_def)
  next
    case False
    have cl: "list_all clean_comp cs" using assms by simp
    have e: "abs_path (cs @ [c]) = abs_path cs @ CHR ''/'' # c" using abs_path_append [of cs "[c]"] False by simp
    have d: "dropWhile (\<lambda>x. x \<noteq> CHR ''/'') (rev (abs_path (cs @ [c]))) = CHR ''/'' # rev (abs_path cs)"
      unfolding e by (rule strip)
    have l: "last (abs_path cs) \<noteq> CHR ''/''" using join_last [OF cl False] join_head [OF cl False] by (simp add: abs_path_def)
    then have n: "rev (CHR ''/'' # rev (abs_path cs)) \<noteq> replicate (length (rev (CHR ''/'' # rev (abs_path cs)))) CHR ''/''"
      using last_in_set [of "abs_path cs"] by (metis (no_types, lifting) abs_path_not_empty in_set_replicate rev.simps(2) rev_rev_ident set_append UnCI)
    have "dropWhile (\<lambda>x. x = CHR ''/'') (rev (abs_path cs)) = rev (abs_path cs)"
      using l by (cases "rev (abs_path cs)") (auto simp: last_rev [symmetric] hd_rev)
    then show ?thesis using n by (simp add: dirname_def d)
  qed
qed

lemma ancestors_loop_below:
  assumes "list_all clean_comp (rs @ ds)"
  shows "ancestors_loop (abs_path rs) (abs_path (rs @ ds)) anc =
    Inr (anc @ map (\<lambda>i. abs_path (rs @ take i ds)) (rev [0..<Suc (length ds)]))"
  using assms
proof (induction ds arbitrary: anc rule: rev_induct)
  case Nil
  then show ?case by (subst ancestors_loop.simps) simp
next
  case (snoc d ds)
  have cl: "list_all clean_comp rs" "list_all clean_comp (rs @ ds)" "list_all clean_comp ((rs @ ds) @ [d])" using snoc.prems by simp_all
  have ne: "abs_path (rs @ ds @ [d]) \<noteq> abs_path rs" "abs_path (rs @ ds) \<noteq> abs_path (rs @ ds @ [d])"
    using abs_path_eq [OF snoc.prems cl(1)] abs_path_eq [OF cl(2) snoc.prems] by simp_all
  have p: "normalize_dedupe_path (dirname (abs_path (rs @ ds @ [d]))) = abs_path (rs @ ds)"
    using dirname_abs [OF cl(3)] normalize_abs [OF cl(2)] by simp
  have c: "is_lexical_contained (abs_path (rs @ ds)) (abs_path rs)" using contained_iff [OF cl(2,1)] by simp
  have "ancestors_loop (abs_path rs) (abs_path (rs @ ds @ [d])) anc =
      ancestors_loop (abs_path rs) (abs_path (rs @ ds)) (anc @ [abs_path (rs @ ds @ [d])])"
    by (subst ancestors_loop.simps) (simp add: ne p c Let_def)
  also have "\<dots> = Inr (anc @ [abs_path (rs @ ds @ [d])] @ map (\<lambda>i. abs_path (rs @ take i ds)) (rev [0..<Suc (length ds)]))"
    using snoc.IH [OF cl(2)] by simp
  also have "map (\<lambda>i. abs_path (rs @ take i ds)) (rev [0..<Suc (length ds)]) =
      map (\<lambda>i. abs_path (rs @ take i (ds @ [d]))) (rev [0..<Suc (length ds)])" by simp
  finally show ?case by simp
qed

lemma ancestors_below:
  assumes "list_all clean_comp (rs @ ds @ [f])"
  shows "directory_ancestors_to_scan_root (abs_path (rs @ ds @ [f])) (abs_path rs) =
    Inr (map (\<lambda>i. abs_path (rs @ take i ds)) (rev [0..<Suc (length ds)]))"
proof -
  have cl: "list_all clean_comp rs" "list_all clean_comp (rs @ ds)" "list_all clean_comp ((rs @ ds) @ [f])" using assms by simp_all
  have n: "normalize_dedupe_path (abs_path (rs @ ds @ [f])) = abs_path (rs @ ds @ [f])" "normalize_dedupe_path (abs_path rs) = abs_path rs"
    "normalize_dedupe_path (dirname (abs_path (rs @ ds @ [f]))) = abs_path (rs @ ds)"
    using normalize_abs [OF assms] normalize_abs [OF cl(1)] dirname_abs [OF cl(3)] normalize_abs [OF cl(2)] by simp_all
  have "is_lexical_contained (abs_path (rs @ ds @ [f])) (abs_path rs)" "is_lexical_contained (abs_path (rs @ ds)) (abs_path rs)"
    using contained_iff [OF assms cl(1)] contained_iff [OF cl(2,1)] by simp_all
  moreover have "abs_path (rs @ ds @ [f]) \<noteq> abs_path rs" using abs_path_eq [OF assms cl(1)] by simp
  ultimately show ?thesis using ancestors_loop_below [OF cl(2), of "[]"]
    by (simp add: directory_ancestors_to_scan_root_def n)
qed

end
