(* ===== verification/DedupeConfig.thy ===== *)
theory DedupeConfig
  imports DedupePath Records
begin

section \<open>The configuration of the advanced planner\<close>

text \<open>
  Models app/planning/dedupe_config.py: the three factors, their validation from a JSON document,
  field by field in the order of the code, and the dictionary a configuration is written back to.
  A \<open>ValueError\<close> is a constructor of \<open>config_error\<close>.
\<close>

record path_priority_rule =
  pr_scope :: string
  pr_pattern :: string

record path_priority_factor =
  pp_enabled :: bool
  pp_weight :: int
  pp_rules :: "path_priority_rule list"

record preferred_extension_factor =
  pe_enabled :: bool
  pe_weight :: int
  pe_extensions :: "string list"

record mtime_factor =
  mf_mode :: string
  mf_weight :: int

record dedupe_config =
  dc_schema_version :: int
  dc_selection_mode :: string
  dc_path_priority :: path_priority_factor
  dc_preferred_extension :: preferred_extension_factor
  dc_mtime :: mtime_factor

datatype config_error =
    NotADict | UnknownTopLevel string | BadSchemaVersion | BadSelectionMode | BadFactors
  | FactorUnavailable string | UnknownFactor string | BadFactor string | UnknownField string string
  | BadEnabled string | BadWeight string | BadRules | TooManyRules | BadRule | UnknownRuleField string
  | BadRuleScope | BadRulePattern | PatternTooLong | BadExtensions | TooManyExtensions | BadExtension
  | ExtensionTooLong string | BadMtimeMode

definition RESERVED_FACTORS :: "string list" where
  "RESERVED_FACTORS = [''resolution'', ''bitrate'', ''dimensions'', ''fps'', ''codec'', ''audio_channels'']"

definition ALLOWED_TOP_LEVEL_KEYS :: "string list" where
  "ALLOWED_TOP_LEVEL_KEYS = [''schema_version'', ''selection_mode'', ''factors'']"

definition ALLOWED_FACTOR_NAMES :: "string list" where
  "ALLOWED_FACTOR_NAMES = [''path_priority'', ''preferred_extension'', ''mtime'']"

definition SELECTION_MODES :: "string list" where
  "SELECTION_MODES = [''weighted'', ''balanced_by_bytes'', ''recursive_directory_balanced_by_bytes'']"

definition MAX_RULES_COUNT :: nat where "MAX_RULES_COUNT = 64"
definition MAX_EXTENSIONS_COUNT :: nat where "MAX_EXTENSIONS_COUNT = 64"
definition MAX_PATTERN_LENGTH :: nat where "MAX_PATTERN_LENGTH = 512"
definition MAX_EXTENSION_LENGTH :: nat where "MAX_EXTENSION_LENGTH = 64"

subsection \<open>Extensions\<close>

definition strip_dots :: "string \<Rightarrow> string" where
  "strip_dots s = dropWhile (\<lambda>c. c = CHR ''.'') s"

definition canonicalize_extension :: "string \<Rightarrow> string" where
  "canonicalize_extension val =
     (let s = py_strip val in
      if s = [] then []
      else if hd s = CHR ''.'' \<and> count_list s CHR ''.'' = 1 \<and>
        py_lower (tl s) \<in> {''bashrc'', ''gitignore'', ''env'', ''profile'', ''zshrc''} then []
      else if path_suffix s \<noteq> [] then py_lower (strip_dots (path_suffix s))
      else py_lower (last (split_char CHR ''.'' (strip_dots s))))"

definition extract_file_extension :: "string \<Rightarrow> string" where
  "extract_file_extension path = py_lower (strip_dots (path_suffix path))"

subsection \<open>Validation\<close>

definition as_dict :: "'e \<Rightarrow> json \<Rightarrow> 'e + (string \<times> json) list" where
  "as_dict e j = (case j of JObj kvs \<Rightarrow> Inr kvs | _ \<Rightarrow> Inl e)"

text \<open>The first key that is refused; \<open>get(key, default)\<close> followed by a check.\<close>

definition known_keys :: "string list \<Rightarrow> (string \<Rightarrow> 'e) \<Rightarrow> (string \<times> json) list \<Rightarrow> 'e + unit" where
  "known_keys allowed e kvs = (case find (\<lambda>kv. fst kv \<notin> set allowed) kvs of Some kv \<Rightarrow> Inl (e (fst kv)) | None \<Rightarrow> Inr ())"

definition field_or :: "'a \<Rightarrow> (json \<Rightarrow> 'e + 'a) \<Rightarrow> string \<Rightarrow> (string \<times> json) list \<Rightarrow> 'e + 'a" where
  "field_or def check k kvs = (case map_of kvs k of None \<Rightarrow> Inr def | Some v \<Rightarrow> check v)"

definition check_bool :: "'e \<Rightarrow> json \<Rightarrow> 'e + bool" where
  "check_bool e j = (case j of JBool b \<Rightarrow> Inr b | _ \<Rightarrow> Inl e)"

definition validate_weight :: "string \<Rightarrow> json \<Rightarrow> config_error + int" where
  "validate_weight factor j = (case j of
      JInt w \<Rightarrow> if w < 0 \<or> w > 10000 then Inl (BadWeight factor) else Inr w
    | _ \<Rightarrow> Inl (BadWeight factor))"

definition check_choice :: "'e \<Rightarrow> string list \<Rightarrow> json \<Rightarrow> 'e + string" where
  "check_choice e choices j = (case j of JStr s \<Rightarrow> if s \<in> set choices then Inr s else Inl e | _ \<Rightarrow> Inl e)"

definition check_pattern :: "json \<Rightarrow> config_error + string" where
  "check_pattern j = (case j of
      JStr s \<Rightarrow> if py_strip s = [] then Inl BadRulePattern else if length s > MAX_PATTERN_LENGTH then Inl PatternTooLong else Inr s
    | _ \<Rightarrow> Inl BadRulePattern)"

text \<open>A required field: missing and null are refused alike.\<close>

definition required_field :: "(json \<Rightarrow> 'e + 'a) \<Rightarrow> string \<Rightarrow> (string \<times> json) list \<Rightarrow> 'e + 'a" where
  "required_field check k kvs = check (case map_of kvs k of None \<Rightarrow> JNull | Some v \<Rightarrow> v)"

definition validate_rule :: "json \<Rightarrow> config_error + path_priority_rule" where
  "validate_rule j =
     bind_res (as_dict BadRule j) (\<lambda>kvs.
     bind_res (known_keys [''scope'', ''pattern''] UnknownRuleField kvs) (\<lambda>_.
     bind_res (required_field (check_choice BadRuleScope [''absolute'', ''relative'']) ''scope'' kvs) (\<lambda>scope.
     bind_res (required_field check_pattern ''pattern'' kvs) (\<lambda>pattern.
     Inr \<lparr>pr_scope = scope, pr_pattern = pattern\<rparr>))))"

definition validate_rules :: "json \<Rightarrow> config_error + path_priority_rule list" where
  "validate_rules j = (case j of
      JList rs \<Rightarrow> if length rs > MAX_RULES_COUNT then Inl TooManyRules else map_res validate_rule rs
    | _ \<Rightarrow> Inl BadRules)"

definition validate_path_priority :: "json \<Rightarrow> config_error + path_priority_factor" where
  "validate_path_priority j =
     bind_res (as_dict (BadFactor ''path_priority'') j) (\<lambda>kvs.
     bind_res (known_keys [''enabled'', ''weight'', ''rules''] (UnknownField ''path_priority'') kvs) (\<lambda>_.
     bind_res (field_or False (check_bool (BadEnabled ''path_priority'')) ''enabled'' kvs) (\<lambda>enabled.
     bind_res (field_or 0 (validate_weight ''path_priority'') ''weight'' kvs) (\<lambda>weight.
     bind_res (field_or [] validate_rules ''rules'' kvs) (\<lambda>rules.
     Inr \<lparr>pp_enabled = enabled, pp_weight = weight, pp_rules = rules\<rparr>)))))"

fun keep_extensions :: "json list \<Rightarrow> config_error + string list" where
  "keep_extensions [] = Inr []"
| "keep_extensions (j # js) = (case j of
      JStr s \<Rightarrow> (let canon = canonicalize_extension s in
        if canon = [] then keep_extensions js
        else if length canon > MAX_EXTENSION_LENGTH then Inl (ExtensionTooLong canon)
        else bind_res (keep_extensions js) (\<lambda>es. Inr (canon # es)))
    | _ \<Rightarrow> Inl BadExtension)"

definition validate_extensions :: "json \<Rightarrow> config_error + string list" where
  "validate_extensions j = (case j of
      JList xs \<Rightarrow> if length xs > MAX_EXTENSIONS_COUNT then Inl TooManyExtensions else keep_extensions xs
    | _ \<Rightarrow> Inl BadExtensions)"

text \<open>The constructor \<open>PreferredExtensionFactor\<close> canonicalises its extensions again.\<close>

definition preferred_extension_init :: "bool \<Rightarrow> int \<Rightarrow> string list \<Rightarrow> config_error + preferred_extension_factor" where
  "preferred_extension_init enabled weight exts =
     bind_res (keep_extensions (map JStr exts)) (\<lambda>canon.
     Inr \<lparr>pe_enabled = enabled, pe_weight = weight, pe_extensions = canon\<rparr>)"

definition validate_preferred_extension :: "json \<Rightarrow> config_error + preferred_extension_factor" where
  "validate_preferred_extension j =
     bind_res (as_dict (BadFactor ''preferred_extension'') j) (\<lambda>kvs.
     bind_res (known_keys [''enabled'', ''weight'', ''extensions''] (UnknownField ''preferred_extension'') kvs) (\<lambda>_.
     bind_res (field_or False (check_bool (BadEnabled ''preferred_extension'')) ''enabled'' kvs) (\<lambda>enabled.
     bind_res (field_or 0 (validate_weight ''preferred_extension'') ''weight'' kvs) (\<lambda>weight.
     bind_res (field_or [] validate_extensions ''extensions'' kvs) (\<lambda>exts.
     preferred_extension_init enabled weight exts)))))"

definition validate_mtime_factor :: "json \<Rightarrow> config_error + mtime_factor" where
  "validate_mtime_factor j =
     bind_res (as_dict (BadFactor ''mtime'') j) (\<lambda>kvs.
     bind_res (known_keys [''mode'', ''weight''] (UnknownField ''mtime'') kvs) (\<lambda>_.
     bind_res (field_or ''none'' (check_choice BadMtimeMode [''none'', ''newest'', ''oldest'']) ''mode'' kvs) (\<lambda>mode.
     bind_res (field_or 0 (validate_weight ''mtime'') ''weight'' kvs) (\<lambda>weight.
     Inr \<lparr>mf_mode = mode, mf_weight = weight\<rparr>))))"

definition check_factor_names :: "(string \<times> json) list \<Rightarrow> config_error + unit" where
  "check_factor_names kvs = (case find (\<lambda>kv. fst kv \<in> set RESERVED_FACTORS \<or> fst kv \<notin> set ALLOWED_FACTOR_NAMES) kvs of
      Some (k, _) \<Rightarrow> Inl (if k \<in> set RESERVED_FACTORS then FactorUnavailable k else UnknownFactor k)
    | None \<Rightarrow> Inr ())"

definition no_path_priority :: path_priority_factor where
  "no_path_priority = \<lparr>pp_enabled = False, pp_weight = 0, pp_rules = []\<rparr>"

definition no_preferred_extension :: preferred_extension_factor where
  "no_preferred_extension = \<lparr>pe_enabled = False, pe_weight = 0, pe_extensions = []\<rparr>"

definition no_mtime :: mtime_factor where
  "no_mtime = \<lparr>mf_mode = ''none'', mf_weight = 0\<rparr>"

definition validate_and_canonicalize_config :: "json \<Rightarrow> config_error + dedupe_config" where
  "validate_and_canonicalize_config raw =
     bind_res (as_dict NotADict raw) (\<lambda>kvs.
     bind_res (known_keys ALLOWED_TOP_LEVEL_KEYS UnknownTopLevel kvs) (\<lambda>_.
     bind_res (field_or () (\<lambda>j. if j = JInt 1 then Inr () else Inl BadSchemaVersion) ''schema_version'' kvs) (\<lambda>_.
     bind_res (field_or ''weighted'' (check_choice BadSelectionMode SELECTION_MODES) ''selection_mode'' kvs) (\<lambda>mode.
     bind_res (field_or [] (as_dict BadFactors) ''factors'' kvs) (\<lambda>factors.
     bind_res (check_factor_names factors) (\<lambda>_.
     bind_res (field_or no_path_priority validate_path_priority ''path_priority'' factors) (\<lambda>pp.
     bind_res (field_or no_preferred_extension validate_preferred_extension ''preferred_extension'' factors) (\<lambda>pe.
     bind_res (field_or no_mtime validate_mtime_factor ''mtime'' factors) (\<lambda>mt.
     Inr \<lparr>dc_schema_version = 1, dc_selection_mode = mode, dc_path_priority = pp, dc_preferred_extension = pe,
       dc_mtime = mt\<rparr>)))))))))"

definition canonical_config_dict :: "dedupe_config \<Rightarrow> json" where
  "canonical_config_dict c = JObj
     [(''schema_version'', JInt (dc_schema_version c)), (''selection_mode'', JStr (dc_selection_mode c)),
      (''factors'', JObj
        [(''path_priority'', JObj
           [(''enabled'', JBool (pp_enabled (dc_path_priority c))), (''weight'', JInt (pp_weight (dc_path_priority c))),
            (''rules'', JList (map (\<lambda>r. JObj [(''pattern'', JStr (pr_pattern r)), (''scope'', JStr (pr_scope r))])
               (pp_rules (dc_path_priority c))))]),
         (''preferred_extension'', JObj
           [(''enabled'', JBool (pe_enabled (dc_preferred_extension c))), (''weight'', JInt (pe_weight (dc_preferred_extension c))),
            (''extensions'', JList (map JStr (pe_extensions (dc_preferred_extension c))))]),
         (''mtime'', JObj [(''mode'', JStr (mf_mode (dc_mtime c))), (''weight'', JInt (mf_weight (dc_mtime c)))])])]"

text \<open>Validating a configuration object validates its dictionary.\<close>

definition revalidate_config :: "dedupe_config \<Rightarrow> config_error + dedupe_config" where
  "revalidate_config c = validate_and_canonicalize_config (canonical_config_dict c)"

subsection \<open>Extensions are canonical after two rounds\<close>

text \<open>A dotless text without blanks at its ends, in lower case, is its own extension.\<close>

definition dotless :: "string \<Rightarrow> bool" where
  "dotless s \<longleftrightarrow> CHR ''.'' \<notin> set s"

lemma lower_char_dot: "lower_char c = CHR ''.'' \<longleftrightarrow> c = CHR ''.''"
proof
  assume e: "lower_char c = CHR ''.''"
  show "c = CHR ''.''"
  proof (cases "65 \<le> (of_char c :: nat) \<and> (of_char c :: nat) \<le> 90 \<or> 192 \<le> (of_char c :: nat) \<and> (of_char c :: nat) \<le> 222 \<and> (of_char c :: nat) \<noteq> 215")
    case False
    then show ?thesis using e by (auto simp: lower_char_def Let_def)
  next
    case True
    then have "lower_char c = char_of (of_char c + 32 :: nat)" by (auto simp: lower_char_def Let_def)
    then have "(of_char (CHR ''.'') :: nat) = of_char c + 32" using True e by (auto simp: of_char_of)
    then show ?thesis using True by simp
  qed
qed (simp add: lower_char_def)

lemma dotless_lower [simp]: "dotless (py_lower s) \<longleftrightarrow> dotless s"
proof -
  have "CHR ''.'' = lower_char c \<longleftrightarrow> c = CHR ''.''" for c using lower_char_dot [of c] by metis
  then show ?thesis by (simp add: dotless_def py_lower_def image_iff)
qed

lemma py_space_lower: "py_space (lower_char c) = py_space c"
proof -
  have "(of_char (char_of (of_char c + 32 :: nat)) :: nat) = of_char c + 32" if "of_char c \<le> (222::nat)"
    using that by (simp add: of_char_of)
  then show ?thesis by (auto simp: lower_char_def py_space_def Let_def)
qed

lemma dropWhile_lower: "dropWhile py_space (map lower_char s) = map lower_char (dropWhile py_space s)"
  by (simp add: dropWhile_map comp_def py_space_lower)

lemma strip_lower: "py_strip (py_lower s) = py_lower (py_strip s)"
  by (simp add: py_strip_def py_lower_def rev_map [symmetric] dropWhile_lower) (simp add: rev_map dropWhile_lower)

lemma py_strip_idem [simp]: "py_strip (py_strip s) = py_strip s"
proof -
  have d: "dropWhile py_space (dropWhile py_space xs) = dropWhile py_space xs" for xs by simp
  have h: "dropWhile py_space (rev (dropWhile py_space (rev xs))) = rev (dropWhile py_space (rev xs))"
    if "xs = [] \<or> \<not> py_space (hd xs)" for xs
  proof (cases "dropWhile py_space (rev xs) = []")
    case False
    then obtain a where "rev xs = takeWhile py_space (rev xs) @ dropWhile py_space (rev xs)" by simp
    then have "xs = rev (dropWhile py_space (rev xs)) @ rev (takeWhile py_space (rev xs))" by (metis rev_append rev_rev_ident)
    then have "hd (rev (dropWhile py_space (rev xs))) = hd xs" using False by (metis hd_append2 rev_is_Nil_conv)
    then show ?thesis using that False by (metis dropWhile_eq_self_iff rev.simps(1))
  next
    case True
    show ?thesis unfolding True by simp
  qed
  let ?x = "dropWhile py_space s"
  have "?x = [] \<or> \<not> py_space (hd ?x)" using hd_dropWhile by blast
  from h [OF this] show ?thesis by (simp add: py_strip_def)
qed

lemma dotless_strip: "dotless s \<Longrightarrow> dotless (py_strip s)"
  by (auto simp: dotless_def py_strip_def dest!: set_dropWhileD)

lemma name_suffix_dotless: "name_suffix n = [] \<or> (\<exists>rest. name_suffix n = CHR ''.'' # rest \<and> dotless rest)"
  by (auto simp: name_suffix_def Let_def dotless_def dest: set_takeWhileD)

lemma strip_dotless: "dotless s \<Longrightarrow> strip_dots s = s"
  by (cases s) (auto simp: strip_dots_def dotless_def)

lemma dotless_no_suffix: "dotless n \<Longrightarrow> name_suffix n = []"
proof -
  assume "dotless n"
  then have "\<forall>c \<in> set (rev n). c \<noteq> CHR ''.''" by (auto simp: dotless_def)
  then have e: "takeWhile (\<lambda>c. c \<noteq> CHR ''.'') (rev n) = rev n" by (simp only: takeWhile_eq_all_conv)
  show ?thesis by (simp only: name_suffix_def e Let_def) simp
qed

lemma canonical_dotless: "dotless (canonicalize_extension s)"
proof -
  have "dotless (strip_dots (path_suffix t))" for t
    using name_suffix_dotless [of "pure_name (pure_path t)"] strip_dotless
    by (auto simp: path_suffix_def strip_dots_def dotless_def)
  moreover have "dotless (last (split_char CHR ''.'' t))" for t
    using split_char_free [of "last (split_char CHR ''.'' t)" "CHR ''.''" t] by (simp add: dotless_def)
  ultimately show ?thesis by (simp add: canonicalize_extension_def Let_def) (simp add: dotless_def)
qed

lemma filter_parts_dotless: "dotless s \<Longrightarrow> dotless (pure_name (pure_path s))"
proof -
  assume "dotless s"
  then have "\<forall>c \<in> set (split_char CHR ''/'' s). dotless c"
  proof (induction s)
    case (Cons x s)
    then show ?case by (auto simp: dotless_def split: list.splits)
  qed (simp add: dotless_def)
  then show ?thesis by (cases "pure_parts s = []") (auto simp: pure_name_def pure_path_def pure_parts_def dotless_def dest: last_in_set)
qed

lemma canonical_of_dotless:
  assumes "dotless s"
  shows "canonicalize_extension s = py_lower (py_strip s)"
proof -
  let ?t = "py_strip s"
  have t: "dotless ?t" by (rule dotless_strip [OF assms])
  then have "path_suffix ?t = []" by (simp add: path_suffix_def dotless_no_suffix filter_parts_dotless)
  moreover have "?t \<noteq> [] \<Longrightarrow> hd ?t \<noteq> CHR ''.''" using t hd_in_set [of ?t] by (metis dotless_def)
  moreover have "split_char CHR ''.'' ?t = [?t]" using t by (simp add: dotless_def)
  ultimately show ?thesis by (simp add: canonicalize_extension_def Let_def strip_dotless [OF t] py_lower_def)
qed

lemma canonical_thrice: "canonicalize_extension (canonicalize_extension (canonicalize_extension s)) =
  canonicalize_extension (canonicalize_extension s)"
proof -
  let ?e = "canonicalize_extension s"
  have e: "canonicalize_extension ?e = py_lower (py_strip ?e)" by (rule canonical_of_dotless [OF canonical_dotless])
  have "canonicalize_extension (py_lower (py_strip ?e)) = py_lower (py_strip (py_lower (py_strip ?e)))"
    by (rule canonical_of_dotless) (simp add: dotless_strip canonical_dotless)
  also have "\<dots> = py_lower (py_strip ?e)" by (simp add: strip_lower py_lower_idem)
  finally show ?thesis by (simp add: e)
qed

subsection \<open>Validated configurations\<close>

definition rule_ok :: "path_priority_rule \<Rightarrow> bool" where
  "rule_ok r \<longleftrightarrow> pr_scope r \<in> {''absolute'', ''relative''} \<and> py_strip (pr_pattern r) \<noteq> [] \<and> length (pr_pattern r) \<le> MAX_PATTERN_LENGTH"

definition weight_ok :: "int \<Rightarrow> bool" where
  "weight_ok w \<longleftrightarrow> 0 \<le> w \<and> w \<le> 10000"

definition extension_ok :: "string \<Rightarrow> bool" where
  "extension_ok e \<longleftrightarrow> e \<noteq> [] \<and> canonicalize_extension e = e \<and> length e \<le> MAX_EXTENSION_LENGTH"

definition config_ok :: "dedupe_config \<Rightarrow> bool" where
  "config_ok c \<longleftrightarrow> dc_schema_version c = 1 \<and> dc_selection_mode c \<in> set SELECTION_MODES \<and>
     weight_ok (pp_weight (dc_path_priority c)) \<and> length (pp_rules (dc_path_priority c)) \<le> MAX_RULES_COUNT \<and>
     list_all rule_ok (pp_rules (dc_path_priority c)) \<and>
     weight_ok (pe_weight (dc_preferred_extension c)) \<and>
     length (pe_extensions (dc_preferred_extension c)) \<le> MAX_EXTENSIONS_COUNT \<and>
     list_all extension_ok (pe_extensions (dc_preferred_extension c)) \<and>
     weight_ok (mf_weight (dc_mtime c)) \<and> mf_mode (dc_mtime c) \<in> {''none'', ''newest'', ''oldest''}"

lemma validate_weight_Inr: "validate_weight f j = Inr w \<longleftrightarrow> j = JInt w \<and> weight_ok w"
  by (auto simp: validate_weight_def weight_ok_def split: json.splits)

lemma check_choice_Inr: "check_choice e cs j = Inr s \<longleftrightarrow> j = JStr s \<and> s \<in> set cs"
  by (auto simp: check_choice_def split: json.splits)

lemma field_or_Inr: "field_or def check k kvs = Inr v \<longleftrightarrow>
  (map_of kvs k = None \<and> v = def) \<or> (\<exists>j. map_of kvs k = Some j \<and> check j = Inr v)"
  by (auto simp: field_or_def split: option.splits)

lemma check_pattern_Inr: "check_pattern j = Inr s \<longleftrightarrow> j = JStr s \<and> py_strip s \<noteq> [] \<and> length s \<le> MAX_PATTERN_LENGTH"
  by (auto simp: check_pattern_def split: json.splits)

lemma validate_rule_ok: "validate_rule j = Inr r \<Longrightarrow> rule_ok r"
  by (auto simp: validate_rule_def bind_res_Inr rule_ok_def required_field_def check_choice_Inr check_pattern_Inr)

lemma validate_rules_Inr: "validate_rules j = Inr rs \<longleftrightarrow>
  (\<exists>js. j = JList js \<and> length js \<le> MAX_RULES_COUNT \<and> map_res validate_rule js = Inr rs)"
  by (cases j) (auto simp: validate_rules_def)

lemma validate_extensions_Inr: "validate_extensions j = Inr es \<longleftrightarrow>
  (\<exists>js. j = JList js \<and> length js \<le> MAX_EXTENSIONS_COUNT \<and> keep_extensions js = Inr es)"
  by (cases j) (auto simp: validate_extensions_def)

lemma validate_rules_ok:
  assumes "validate_rules j = Inr rs"
  shows "length rs \<le> MAX_RULES_COUNT \<and> list_all rule_ok rs"
proof -
  obtain js where "length js \<le> MAX_RULES_COUNT" "map_res validate_rule js = Inr rs"
    using assms by (auto simp: validate_rules_Inr)
  moreover from this have "length js = length rs" by (auto simp: map_res_Inr_iff list_all2_lengthD)
  ultimately show ?thesis using map_res_set [of validate_rule js rs] validate_rule_ok by (auto simp: list_all_iff)
qed

lemma validate_path_priority_ok:
  assumes "validate_path_priority j = Inr pp"
  shows "weight_ok (pp_weight pp) \<and> length (pp_rules pp) \<le> MAX_RULES_COUNT \<and> list_all rule_ok (pp_rules pp)"
proof -
  obtain kvs where w: "field_or 0 (validate_weight ''path_priority'') ''weight'' kvs = Inr (pp_weight pp)"
    and r: "field_or [] validate_rules ''rules'' kvs = Inr (pp_rules pp)"
    using assms by (auto simp: validate_path_priority_def bind_res_Inr)
  have "weight_ok (pp_weight pp)" using w by (auto simp: field_or_Inr validate_weight_Inr weight_ok_def)
  moreover have "length (pp_rules pp) \<le> MAX_RULES_COUNT \<and> list_all rule_ok (pp_rules pp)"
    using r validate_rules_ok by (fastforce simp: field_or_Inr)
  ultimately show ?thesis by blast
qed

lemma keep_extensions_ok:
  "keep_extensions js = Inr es \<Longrightarrow> length es \<le> length js \<and>
     (\<forall>e \<in> set es. e \<noteq> [] \<and> length e \<le> MAX_EXTENSION_LENGTH \<and> (\<exists>s. JStr s \<in> set js \<and> e = canonicalize_extension s))"
proof (induction js arbitrary: es)
  case (Cons j js)
  then obtain s where j: "j = JStr s" by (cases j) auto
  show ?case
  proof (cases "canonicalize_extension s = []")
    case True
    then have "keep_extensions js = Inr es" using Cons.prems j by simp
    from Cons.IH [OF this] show ?thesis by auto
  next
    case False
    then obtain es' where e: "keep_extensions js = Inr es'" "es = canonicalize_extension s # es'" "length (canonicalize_extension s) \<le> MAX_EXTENSION_LENGTH"
      using Cons.prems j by (auto simp: Let_def bind_res_Inr split: if_splits)
    from Cons.IH [OF e(1)] e(2,3) False j show ?thesis by auto
  qed
qed simp

lemma keep_extensions_id: "list_all extension_ok es \<Longrightarrow> keep_extensions (map JStr es) = Inr es"
  by (induction es) (auto simp: extension_ok_def Let_def)

lemma validate_preferred_extension_ok:
  assumes "validate_preferred_extension j = Inr pe"
  shows "weight_ok (pe_weight pe) \<and> length (pe_extensions pe) \<le> MAX_EXTENSIONS_COUNT \<and> list_all extension_ok (pe_extensions pe)"
proof -
  obtain kvs exts where w: "field_or 0 (validate_weight ''preferred_extension'') ''weight'' kvs = Inr (pe_weight pe)"
    and x: "field_or [] validate_extensions ''extensions'' kvs = Inr exts"
    and i: "keep_extensions (map JStr exts) = Inr (pe_extensions pe)"
    using assms by (auto simp: validate_preferred_extension_def preferred_extension_init_def bind_res_Inr)
  have "exts = [] \<or> (\<exists>js. length js \<le> MAX_EXTENSIONS_COUNT \<and> keep_extensions js = Inr exts)"
    using x by (auto simp: field_or_Inr validate_extensions_Inr)
  then have e: "length exts \<le> MAX_EXTENSIONS_COUNT \<and> (\<forall>e \<in> set exts. \<exists>s. e = canonicalize_extension s)"
    using keep_extensions_ok by fastforce
  have "extension_ok x" if m: "x \<in> set (pe_extensions pe)" for x
  proof -
    obtain t where t: "t \<in> set exts" "x = canonicalize_extension t" "x \<noteq> []" "length x \<le> MAX_EXTENSION_LENGTH"
      using keep_extensions_ok [OF i] m by auto
    obtain s where "t = canonicalize_extension s" using e t(1) by blast
    then show ?thesis using t canonical_thrice [of s] by (simp add: extension_ok_def)
  qed
  moreover have "weight_ok (pe_weight pe)" using w by (auto simp: field_or_Inr validate_weight_Inr weight_ok_def)
  ultimately show ?thesis using keep_extensions_ok [OF i] e by (auto simp: list_all_iff)
qed

lemma validate_mtime_ok: "validate_mtime_factor j = Inr mt \<Longrightarrow> weight_ok (mf_weight mt) \<and> mf_mode mt \<in> {''none'', ''newest'', ''oldest''}"
  by (auto simp: validate_mtime_factor_def bind_res_Inr field_or_Inr check_choice_Inr validate_weight_Inr weight_ok_def)

lemma validated_config_ok:
  assumes "validate_and_canonicalize_config raw = Inr c"
  shows "config_ok c"
proof -
  obtain kvs fs where v: "dc_schema_version c = 1"
    and m: "field_or ''weighted'' (check_choice BadSelectionMode SELECTION_MODES) ''selection_mode'' kvs = Inr (dc_selection_mode c)"
    and pp: "field_or no_path_priority validate_path_priority ''path_priority'' fs = Inr (dc_path_priority c)"
    and pe: "field_or no_preferred_extension validate_preferred_extension ''preferred_extension'' fs = Inr (dc_preferred_extension c)"
    and mt: "field_or no_mtime validate_mtime_factor ''mtime'' fs = Inr (dc_mtime c)"
    using assms by (auto simp: validate_and_canonicalize_config_def bind_res_Inr)
  have "dc_selection_mode c \<in> set SELECTION_MODES" using m by (auto simp: field_or_Inr check_choice_Inr SELECTION_MODES_def)
  moreover have "weight_ok (pp_weight (dc_path_priority c)) \<and> length (pp_rules (dc_path_priority c)) \<le> MAX_RULES_COUNT \<and> list_all rule_ok (pp_rules (dc_path_priority c))"
    using pp validate_path_priority_ok by (fastforce simp: field_or_Inr no_path_priority_def weight_ok_def)
  moreover have "weight_ok (pe_weight (dc_preferred_extension c)) \<and> length (pe_extensions (dc_preferred_extension c)) \<le> MAX_EXTENSIONS_COUNT \<and>
      list_all extension_ok (pe_extensions (dc_preferred_extension c))"
    using pe validate_preferred_extension_ok by (fastforce simp: field_or_Inr no_preferred_extension_def weight_ok_def)
  moreover have "weight_ok (mf_weight (dc_mtime c)) \<and> mf_mode (dc_mtime c) \<in> {''none'', ''newest'', ''oldest''}"
    using mt validate_mtime_ok by (fastforce simp: field_or_Inr no_mtime_def weight_ok_def)
  ultimately show ?thesis using v by (simp add: config_ok_def)
qed

text \<open>A valid configuration is read back from its dictionary.\<close>

lemma rules_read_back:
  assumes "list_all rule_ok rs" "length rs \<le> MAX_RULES_COUNT"
  shows "validate_rules (JList (map (\<lambda>r. JObj [(''pattern'', JStr (pr_pattern r)), (''scope'', JStr (pr_scope r))]) rs)) = Inr rs"
proof -
  have "validate_rule (JObj [(''pattern'', JStr (pr_pattern r)), (''scope'', JStr (pr_scope r))]) = Inr r" if "rule_ok r" for r
    using that by (auto simp: validate_rule_def as_dict_def known_keys_def required_field_def check_choice_def check_pattern_def rule_ok_def)
  then have "map_res validate_rule (map (\<lambda>r. JObj [(''pattern'', JStr (pr_pattern r)), (''scope'', JStr (pr_scope r))]) rs) = Inr rs"
    using assms(1) by (induction rs) auto
  then show ?thesis using assms(2) by (simp add: validate_rules_Inr)
qed

lemma path_priority_read_back:
  assumes "weight_ok (pp_weight pp)" "length (pp_rules pp) \<le> MAX_RULES_COUNT" "list_all rule_ok (pp_rules pp)"
  shows "validate_path_priority (JObj
           [(''enabled'', JBool (pp_enabled pp)), (''weight'', JInt (pp_weight pp)),
            (''rules'', JList (map (\<lambda>r. JObj [(''pattern'', JStr (pr_pattern r)), (''scope'', JStr (pr_scope r))]) (pp_rules pp)))]) = Inr pp"
  using rules_read_back [OF assms(3,2)] assms(1)
  by (simp add: validate_path_priority_def as_dict_def known_keys_def field_or_def check_bool_def validate_weight_def weight_ok_def)

lemma preferred_extension_read_back:
  assumes "weight_ok (pe_weight pe)" "length (pe_extensions pe) \<le> MAX_EXTENSIONS_COUNT" "list_all extension_ok (pe_extensions pe)"
  shows "validate_preferred_extension (JObj
           [(''enabled'', JBool (pe_enabled pe)), (''weight'', JInt (pe_weight pe)),
            (''extensions'', JList (map JStr (pe_extensions pe)))]) = Inr pe"
  using keep_extensions_id [OF assms(3)] assms(1,2)
  by (simp add: validate_preferred_extension_def preferred_extension_init_def as_dict_def known_keys_def field_or_def check_bool_def
      validate_weight_def weight_ok_def validate_extensions_def)

lemma mtime_read_back:
  assumes "weight_ok (mf_weight mt)" "mf_mode mt \<in> {''none'', ''newest'', ''oldest''}"
  shows "validate_mtime_factor (JObj [(''mode'', JStr (mf_mode mt)), (''weight'', JInt (mf_weight mt))]) = Inr mt"
  using assms by (auto simp: validate_mtime_factor_def as_dict_def known_keys_def field_or_def check_choice_def validate_weight_def weight_ok_def)

lemma config_read_back:
  assumes "config_ok c"
  shows "revalidate_config c = Inr c"
  using assms path_priority_read_back [of "dc_path_priority c"] preferred_extension_read_back [of "dc_preferred_extension c"]
    mtime_read_back [of "dc_mtime c"]
  by (simp add: config_ok_def revalidate_config_def canonical_config_dict_def validate_and_canonicalize_config_def as_dict_def known_keys_def
      field_or_def check_choice_def check_factor_names_def ALLOWED_TOP_LEVEL_KEYS_def RESERVED_FACTORS_def ALLOWED_FACTOR_NAMES_def)

text \<open>
  C35: a configuration that passes validation is within its bounds (weights from 0 to 10,000, at
  most 64 rules and extensions, each well formed), and validating the dictionary it is written
  back to, as every evaluation does again, gives the same configuration: what the user sees, what is
  digested and what decides are one.
\<close>

theorem config_round_trip:
  assumes "validate_and_canonicalize_config raw = Inr c"
  shows "config_ok c \<and> revalidate_config c = Inr c"
  using validated_config_ok [OF assms] config_read_back by blast

definition sample_config :: dedupe_config where
  "sample_config = \<lparr>dc_schema_version = 1, dc_selection_mode = ''balanced_by_bytes'',
     dc_path_priority = \<lparr>pp_enabled = True, pp_weight = 10, pp_rules = [\<lparr>pr_scope = ''relative'', pr_pattern = ''keep/*''\<rparr>]\<rparr>,
     dc_preferred_extension = \<lparr>pe_enabled = False, pe_weight = 0, pe_extensions = [''jpg'', ''gz'']\<rparr>,
     dc_mtime = no_mtime\<rparr>"

theorem config_round_trip_witness:
  "config_ok sample_config \<and> revalidate_config sample_config = Inr sample_config"
proof -
  have "validate_and_canonicalize_config (JObj [(''selection_mode'', JStr ''balanced_by_bytes''),
      (''factors'', JObj [(''path_priority'', JObj [(''enabled'', JBool True), (''weight'', JInt 10),
         (''rules'', JList [JObj [(''scope'', JStr ''relative''), (''pattern'', JStr ''keep/*'')]])]),
       (''preferred_extension'', JObj [(''extensions'', JList [JStr ''.JPG'', JStr ''.bashrc'', JStr ''a.tar.gz''])])])]) = Inr sample_config"
    by code_simp
  then show ?thesis by (rule config_round_trip)
qed

end
