(* ===== verification/DedupeEngine.thy ===== *)
theory DedupeEngine
  imports DedupeConfig Glob "HOL-Library.AList"
begin

section \<open>The advanced duplicate planner\<close>

text \<open>
  Models app/planning/dedupe_engine.py: which file of a group of duplicates is kept. A group is
  scored by the enabled factors among its eligible members; the selection mode breaks ties by path
  or by the bytes released so far, by scan root or by directory; the last-file protection makes
  members ineligible. Texts that explain a decision (reasons, balance information) and the
  fingerprint computed from them are not modelled; \<open>digest\<close> stands for SHA-256 of the canonical
  JSON of a list of paths. A \<open>ValueError\<close> is an \<open>engine_error\<close>.
\<close>

subsection \<open>Snapshots and decisions\<close>

record member_snapshot =
  dm_absolute_path :: string
  dm_relative_path :: string
  dm_scan_root_index :: nat
  dm_scan_root_path :: string
  dm_mtime_ns :: int
  dm_size :: int
  dm_eligible_as_keep :: bool
  dm_safety_reasons :: "string list"
  dm_top_level_dir :: "string option"

datatype provenance = ProvInt int | ProvText string

record group_snapshot =
  gs_provenance_id :: provenance
  gs_content_hash :: string
  gs_file_size :: int
  gs_members :: "member_snapshot list"

record member_explain =
  me_absolute_path :: string
  me_scan_root_index :: nat
  me_eligible_as_keep :: bool
  me_safety_reasons :: "string list"
  me_total_score :: int
  me_contributions :: "(string \<times> int \<times> int) list"
  me_is_top_candidate :: bool
  me_recommended_keep :: bool
  me_selection_reason :: string

record group_decision =
  gd_status :: string
  gd_skip_reason :: "string option"
  gd_file_size :: int
  gd_recommended_keep :: "member_snapshot option"
  gd_members :: "member_explain list"
  gd_quarantine_candidates :: "string list"
  gd_reclaimable_bytes :: int
  gd_group_provenance_id :: provenance

datatype engine_error = PathError dedupe_error | ConfigError config_error

definition path_res :: "dedupe_error + 'a \<Rightarrow> engine_error + 'a" where
  "path_res r = map_sum PathError id r"

definition config_res :: "config_error + 'a \<Rightarrow> engine_error + 'a" where
  "config_res r = map_sum ConfigError id r"

definition norm_key :: "member_snapshot \<Rightarrow> string" where
  "norm_key m = normalize_dedupe_path (dm_absolute_path m)"

definition ACTIONABLE :: string where "ACTIONABLE = ''actionable''"
definition SKIPPED :: string where "SKIPPED = ''skipped''"

definition skipped_explain :: "string \<Rightarrow> member_snapshot \<Rightarrow> member_explain" where
  "skipped_explain reason m =
     \<lparr>me_absolute_path = dm_absolute_path m, me_scan_root_index = dm_scan_root_index m,
      me_eligible_as_keep = dm_eligible_as_keep m, me_safety_reasons = dm_safety_reasons m, me_total_score = 0,
      me_contributions = [], me_is_top_candidate = False, me_recommended_keep = False, me_selection_reason = reason\<rparr>"

definition make_skipped_group_result :: "group_snapshot \<Rightarrow> string \<Rightarrow> string \<Rightarrow> group_decision" where
  "make_skipped_group_result g skip_reason selection_reason =
     \<lparr>gd_status = SKIPPED, gd_skip_reason = Some skip_reason, gd_file_size = gs_file_size g,
      gd_recommended_keep = None,
      gd_members = sort_key (\<lambda>e. normalize_dedupe_path (me_absolute_path e)) (map (skipped_explain selection_reason) (gs_members g)),
      gd_quarantine_candidates = [], gd_reclaimable_bytes = 0, gd_group_provenance_id = gs_provenance_id g\<rparr>"

subsection \<open>Scores\<close>

definition rule_matches :: "path_priority_rule \<Rightarrow> member_snapshot \<Rightarrow> bool" where
  "rule_matches r m = fnmatchcase (if pr_scope r = ''absolute'' then dm_absolute_path m else dm_relative_path m) (pr_pattern r)"

definition active_rule :: "path_priority_factor \<Rightarrow> member_snapshot list \<Rightarrow> path_priority_rule option" where
  "active_rule pp eligible =
     (if pp_enabled pp \<and> pp_rules pp \<noteq> [] \<and> pp_weight pp > 0
      then find (\<lambda>r. list_ex (rule_matches r) eligible) (pp_rules pp) else None)"

definition path_priority_points :: "path_priority_factor \<Rightarrow> member_snapshot list \<Rightarrow> member_snapshot \<Rightarrow> int" where
  "path_priority_points pp eligible m =
     (if \<not> pp_enabled pp \<or> pp_weight pp = 0 then 0
      else case active_rule pp eligible of None \<Rightarrow> 0 | Some r \<Rightarrow> if rule_matches r m then pp_weight pp else 0)"

definition active_extension :: "preferred_extension_factor \<Rightarrow> member_snapshot list \<Rightarrow> string option" where
  "active_extension pe eligible =
     find (\<lambda>ext. list_ex (\<lambda>m. extract_file_extension (dm_absolute_path m) = ext) eligible) (pe_extensions pe)"

definition extension_points :: "preferred_extension_factor \<Rightarrow> member_snapshot list \<Rightarrow> member_snapshot \<Rightarrow> int" where
  "extension_points pe eligible m =
     (if \<not> pe_enabled pe \<or> pe_weight pe = 0 then 0
      else case active_extension pe eligible of None \<Rightarrow> 0
        | Some ext \<Rightarrow> if extract_file_extension (dm_absolute_path m) = ext then pe_weight pe else 0)"

definition mtime_points :: "mtime_factor \<Rightarrow> member_snapshot list \<Rightarrow> member_snapshot \<Rightarrow> int" where
  "mtime_points mf eligible m =
     (if mf_mode mf = ''none'' \<or> mf_weight mf = 0 then 0
      else if mf_mode mf = ''newest'' then
        (if dm_mtime_ns m = max0 (map dm_mtime_ns eligible) then mf_weight mf else 0)
      else (if dm_mtime_ns m = min0 (map dm_mtime_ns eligible) then mf_weight mf else 0))"

definition contributions :: "dedupe_config \<Rightarrow> member_snapshot list \<Rightarrow> member_snapshot \<Rightarrow> (string \<times> int \<times> int) list" where
  "contributions c eligible m =
     [(''path_priority'', pp_weight (dc_path_priority c), path_priority_points (dc_path_priority c) eligible m),
      (''preferred_extension'', pe_weight (dc_preferred_extension c), extension_points (dc_preferred_extension c) eligible m),
      (''mtime'', mf_weight (dc_mtime c), mtime_points (dc_mtime c) eligible m)]"

definition member_score :: "dedupe_config \<Rightarrow> member_snapshot list \<Rightarrow> member_snapshot \<Rightarrow> int" where
  "member_score c eligible m = sum_list (map (\<lambda>(factor, w, points). points) (contributions c eligible m))"

definition top_scored :: "dedupe_config \<Rightarrow> member_snapshot list \<Rightarrow> member_snapshot list" where
  "top_scored c eligible = (let best = max0 (map (member_score c eligible) eligible) in
     filter (\<lambda>m. member_score c eligible m = best) eligible)"

definition others :: "member_snapshot list \<Rightarrow> member_snapshot \<Rightarrow> member_snapshot list" where
  "others members m = filter (\<lambda>x. dm_absolute_path x \<noteq> dm_absolute_path m) members"

subsection \<open>The last file of a directory, at every depth\<close>

definition member_dirs :: "member_snapshot \<Rightarrow> dedupe_error + string list" where
  "member_dirs m = directory_ancestors_to_scan_root (dm_absolute_path m) (dm_scan_root_path m)"

definition recursive_keep_blocked ::
  "(string \<rightharpoonup> int) \<Rightarrow> (string \<rightharpoonup> int) \<Rightarrow> member_snapshot list \<Rightarrow> member_snapshot \<Rightarrow> dedupe_error + bool" where
  "recursive_keep_blocked counts scheduled members cand =
     bind_res (map_res member_dirs (others members cand)) (\<lambda>dss. let proposed = concat dss in
     Inr (list_ex (\<lambda>d. let n = normalize_dedupe_path d in
       case counts n of None \<Rightarrow> True
       | Some current \<Rightarrow> current - counted scheduled n - int (count_list proposed d) < 1) proposed))"

definition LAST_FILE :: string where "LAST_FILE = ''RECURSIVE_PROTECT_LAST_FILE''"

definition add_reason :: "string \<Rightarrow> string list \<Rightarrow> string list" where
  "add_reason r rs = (if r \<in> set rs then rs else rs @ [r])"

definition mark_recursive_blocked_members :: "group_snapshot \<Rightarrow> string list \<Rightarrow> group_snapshot" where
  "mark_recursive_blocked_members g blocked = g\<lparr>gs_members := map (\<lambda>m.
     if dm_absolute_path m \<in> set blocked
     then m\<lparr>dm_eligible_as_keep := False, dm_safety_reasons := add_reason LAST_FILE (dm_safety_reasons m)\<rparr>
     else m) (gs_members g)\<rparr>"

subsection \<open>Balancing the released bytes\<close>

definition spread :: "int list \<Rightarrow> int" where
  "spread vals = max0 vals - min0 vals"

definition sum_squares :: "int list \<Rightarrow> int" where
  "sum_squares vals = sum_list (map (\<lambda>v. v ^ 2) vals)"

text \<open>By scan root: the bytes of every root when one candidate is kept.\<close>

definition simulate_roots :: "(nat \<rightharpoonup> int) \<Rightarrow> nat \<Rightarrow> group_snapshot \<Rightarrow> member_snapshot \<Rightarrow> int list" where
  "simulate_roots current n g cand =
     (let sim = fold (\<lambda>x. counter_add (dm_scan_root_index x) (gs_file_size g)) (others (gs_members g) cand) current in
      map (counted sim) [0..<n])"

definition balance_key :: "(nat \<rightharpoonup> int) \<Rightarrow> nat \<Rightarrow> group_snapshot \<Rightarrow> member_snapshot \<Rightarrow> int \<times> int \<times> string" where
  "balance_key current n g cand = (let vals = simulate_roots current n g cand in (spread vals, sum_squares vals, norm_key cand))"

text \<open>Two dictionaries of bytes by directory; their keys are normalised when they are read.\<close>

type_synonym dir_bytes = "(string \<times> int) list"

definition renormalize :: "dir_bytes \<Rightarrow> dir_bytes" where
  "renormalize m = fold (\<lambda>(k, v). AList.update (normalize_dedupe_path k) v) m []"

definition bytes_of :: "dir_bytes \<Rightarrow> string \<Rightarrow> int" where
  "bytes_of m k = (case map_of m k of None \<Rightarrow> 0 | Some v \<Rightarrow> v)"

definition parent_dir :: "member_snapshot \<Rightarrow> string" where
  "parent_dir m = normalize_dedupe_path (dirname (norm_key m))"

definition bucket_before :: "dir_bytes \<Rightarrow> dir_bytes \<Rightarrow> string \<Rightarrow> string \<Rightarrow> int" where
  "bucket_before dirs direct lca bucket =
     (if bucket = LCA_DIRECT then bytes_of (renormalize direct) lca else bytes_of (renormalize dirs) bucket)"

definition bucket_values ::
  "(string \<Rightarrow> int) \<Rightarrow> (member_snapshot \<times> string) list \<Rightarrow> string list \<Rightarrow> int \<Rightarrow> member_snapshot \<Rightarrow> int list" where
  "bucket_values bytes buckets keys fsize cand =
     (let sim = fold (\<lambda>(x, b). counter_add b fsize)
                  (filter (\<lambda>(x, b). dm_absolute_path x \<noteq> dm_absolute_path cand) buckets)
                  (\<lambda>b. if b \<in> set keys then Some (bytes b) else None) in
      map (counted sim) keys)"

text \<open>Within one scan root: the winner, and the spread and the sum of squares it leaves.\<close>

definition recursive_same_root_balance ::
  "group_snapshot \<Rightarrow> member_snapshot list \<Rightarrow> string list \<Rightarrow> dir_bytes \<Rightarrow> dir_bytes \<Rightarrow>
   dedupe_error + (member_snapshot \<times> int \<times> int)" where
  "recursive_same_root_balance g tops roots dirs direct =
     (let root = roots ! dm_scan_root_index (hd (gs_members g)) in
      bind_res (compute_same_root_lca (map parent_dir (gs_members g)) root) (\<lambda>lca.
      bind_res (map_res (\<lambda>m. bind_res (derive_recursive_balance_bucket (parent_dir m) lca) (\<lambda>b. Inr (m, b))) (gs_members g)) (\<lambda>buckets.
      let keys = sort (remdups (map snd buckets));
          key = (\<lambda>cand. let vals = bucket_values (bucket_before dirs direct lca) buckets keys (gs_file_size g) cand in
                   (spread vals, sum_squares vals, norm_key cand));
          winner = the (min_by key tops) in
      Inr (winner, fst (key winner), fst (snd (key winner))))))"

definition project_scan_root_balance :: "group_snapshot \<Rightarrow> nat \<Rightarrow> string list \<Rightarrow> (nat \<rightharpoonup> int) \<Rightarrow> int \<times> int" where
  "project_scan_root_balance g keep_root roots current =
     (let projected = (\<lambda>r. let n = int (length (filter (\<lambda>m. dm_scan_root_index m = r) (gs_members g))) in
            counted current r + (if n = 0 then 0 else (n - (if r = keep_root then 1 else 0)) * gs_file_size g));
          vals = map projected [0..<length roots] in
      (spread vals, sum_squares vals))"

definition root_option ::
  "group_snapshot \<Rightarrow> member_snapshot list \<Rightarrow> string list \<Rightarrow> dir_bytes \<Rightarrow> dir_bytes \<Rightarrow> nat \<Rightarrow>
   dedupe_error + ((int \<times> int \<times> string) \<times> member_snapshot)" where
  "root_option g tops roots dirs direct r =
     (case filter (\<lambda>m. dm_scan_root_index m = r) tops of
        [cand] \<Rightarrow> Inr ((0, 0, norm_key cand), cand)
      | cands \<Rightarrow> bind_res (recursive_same_root_balance
            (g\<lparr>gs_members := filter (\<lambda>m. dm_scan_root_index m = r) (gs_members g)\<rparr>) cands roots dirs direct)
          (\<lambda>(cand, sp, sq). Inr ((sp, sq, norm_key cand), cand)))"

definition recursive_cross_root_balance ::
  "group_snapshot \<Rightarrow> member_snapshot list \<Rightarrow> string list \<Rightarrow> (nat \<rightharpoonup> int) \<Rightarrow> dir_bytes \<Rightarrow> dir_bytes \<Rightarrow>
   dedupe_error + member_snapshot" where
  "recursive_cross_root_balance g tops roots current dirs direct =
     (let rs = sort (remdups (map dm_scan_root_index tops));
          metric = (\<lambda>r. project_scan_root_balance g r roots current);
          best = metric (the (min_by metric rs)) in
      bind_res (map_res (root_option g tops roots dirs direct) (filter (\<lambda>r. metric r = best) rs)) (\<lambda>options.
      Inr (snd (the (min_by fst options)))))"

subsection \<open>Evaluating a group\<close>

definition relative_form :: "string \<Rightarrow> string" where
  "relative_form rel = (if prefix ''/'' rel then normalize_dedupe_path rel else normpath rel)"

text \<open>The checks of a member; the reason a group is skipped for, or nothing.\<close>

definition member_problem :: "group_snapshot \<Rightarrow> string list \<Rightarrow> member_snapshot \<Rightarrow> (string \<times> string) option" where
  "member_problem g roots m =
     (let a = norm_key m; r = normalize_dedupe_path (dm_scan_root_path m) in
      if dm_scan_root_index m \<ge> length roots then Some (''INVALID_SCAN_ROOT_INDEX'', ''invalid_scan_root_index'')
      else if r \<noteq> roots ! dm_scan_root_index m then Some (''SCAN_ROOT_PATH_MISMATCH'', ''scan_root_path_mismatch'')
      else if \<not> prefix ''/'' a \<or> \<not> prefix ''/'' r then Some (''INVALID_ABSOLUTE_PATH'', ''invalid_absolute_path'')
      else if \<not> is_lexical_contained a r then Some (''PATH_OUTSIDE_SCAN_ROOT'', ''path_outside_scan_root'')
      else if relative_form (dm_relative_path m) \<noteq> lexical_relpath a r then Some (''RELATIVE_PATH_MISMATCH'', ''relative_path_mismatch'')
      else if dm_size m \<noteq> gs_file_size g then Some (''MEMBER_SIZE_MISMATCH'', ''member_size_mismatch'')
      else None)"

fun first_problem :: "(member_snapshot \<Rightarrow> (string \<times> string) option) \<Rightarrow> member_snapshot list \<Rightarrow> (string \<times> string) option" where
  "first_problem f [] = None"
| "first_problem f (m # ms) = (case f m of Some p \<Rightarrow> Some p | None \<Rightarrow> first_problem f ms)"

record released =
  rl_by_root :: "nat \<rightharpoonup> int"
  rl_by_directory :: dir_bytes
  rl_direct :: dir_bytes

definition select_winner ::
  "dedupe_config \<Rightarrow> group_snapshot \<Rightarrow> string list \<Rightarrow> released \<Rightarrow> member_snapshot list \<Rightarrow> member_snapshot list \<Rightarrow>
   dedupe_error + (member_snapshot \<times> string)" where
  "select_winner c g roots rl eligible tops =
     (if length eligible = 1 then Inr (hd eligible, ''sole_eligible'')
      else if length tops = 1 then Inr (hd tops, ''unique_top_score'')
      else if dc_selection_mode c = ''weighted'' then Inr (the (min_by norm_key tops), ''deterministic_path_tie_break'')
      else if dc_selection_mode c = ''balanced_by_bytes'' then
        Inr (the (min_by (balance_key (rl_by_root rl) (length roots) g) tops), ''balanced_by_bytes'')
      else if length (remdups (map dm_scan_root_index (gs_members g))) = 1 then
        bind_res (recursive_same_root_balance g tops roots (rl_by_directory rl) (rl_direct rl))
          (\<lambda>(w, sp, sq). Inr (w, ''recursive_directory_balanced_by_bytes''))
      else
        bind_res (recursive_cross_root_balance g tops roots (rl_by_root rl) (rl_by_directory rl) (rl_direct rl))
          (\<lambda>w. Inr (w, ''recursive_directory_balanced_by_bytes'')))"

definition explain_member ::
  "dedupe_config \<Rightarrow> member_snapshot list \<Rightarrow> member_snapshot list \<Rightarrow> string list \<Rightarrow> member_snapshot \<Rightarrow> string \<Rightarrow>
   member_snapshot \<Rightarrow> member_explain" where
  "explain_member c eligible tops blocked winner reason m =
     (if \<not> dm_eligible_as_keep m then skipped_explain ''ineligible'' m
      else if dm_absolute_path m \<in> set blocked then
        (skipped_explain ''recursive_protect_last_file'' m)\<lparr>me_eligible_as_keep := False,
          me_safety_reasons := add_reason LAST_FILE (dm_safety_reasons m),
          me_total_score := member_score c eligible m, me_contributions := contributions c eligible m,
          me_is_top_candidate := True\<rparr>
      else let is_winner = (dm_absolute_path m = dm_absolute_path winner) in
        (skipped_explain (if is_winner then reason else ''quarantined'') m)\<lparr>
          me_total_score := member_score c eligible m, me_contributions := contributions c eligible m,
          me_is_top_candidate := dm_absolute_path m \<in> set (map dm_absolute_path tops), me_recommended_keep := is_winner\<rparr>)"

definition actionable_decision ::
  "dedupe_config \<Rightarrow> group_snapshot \<Rightarrow> member_snapshot list \<Rightarrow> member_snapshot list \<Rightarrow> string list \<Rightarrow> member_snapshot \<Rightarrow>
   string \<Rightarrow> group_decision" where
  "actionable_decision c g eligible tops blocked winner reason =
     (let quarantine = sort_key normalize_dedupe_path (map dm_absolute_path (others (gs_members g) winner)) in
     \<lparr>gd_status = ACTIONABLE, gd_skip_reason = None, gd_file_size = gs_file_size g, gd_recommended_keep = Some winner,
      gd_members = sort_key (\<lambda>e. normalize_dedupe_path (me_absolute_path e))
        (map (explain_member c eligible tops blocked winner reason) (gs_members g)),
      gd_quarantine_candidates = quarantine, gd_reclaimable_bytes = gs_file_size g * int (length quarantine),
      gd_group_provenance_id = gs_provenance_id g\<rparr>)"

definition evaluate_eligible ::
  "dedupe_config \<Rightarrow> group_snapshot \<Rightarrow> string list \<Rightarrow> released \<Rightarrow> (string \<rightharpoonup> int) option \<Rightarrow> (string \<rightharpoonup> int) \<Rightarrow>
   dedupe_error + group_decision" where
  "evaluate_eligible c g roots rl counts scheduled =
     (let eligible = filter dm_eligible_as_keep (gs_members g); tops = top_scored c eligible in
      bind_res
        (case counts of
           Some n \<Rightarrow> if dc_selection_mode c = ''recursive_directory_balanced_by_bytes''
             then map_res (\<lambda>m. bind_res (recursive_keep_blocked n scheduled (gs_members g) m) (\<lambda>b. Inr (m, b))) tops
             else Inr (map (\<lambda>m. (m, False)) tops)
         | None \<Rightarrow> Inr (map (\<lambda>m. (m, False)) tops)) (\<lambda>checked.
      let blocked = map (dm_absolute_path \<circ> fst) (filter snd checked);
          safe = map fst (filter (\<lambda>x. \<not> snd x) checked) in
      if safe = [] then Inr (make_skipped_group_result (mark_recursive_blocked_members g blocked)
          ''RECURSIVE_PROTECT_LAST_FILE_NO_SAFE_SELECTION'' ''recursive_protect_last_file'')
      else bind_res (select_winner c g roots rl eligible safe) (\<lambda>(winner, reason).
        Inr (actionable_decision c g eligible safe blocked winner reason))))"

definition evaluate_group ::
  "group_snapshot \<Rightarrow> dedupe_config \<Rightarrow> string list \<Rightarrow> released \<Rightarrow> (string \<rightharpoonup> int) option \<Rightarrow> (string \<rightharpoonup> int) \<Rightarrow>
   engine_error + group_decision" where
  "evaluate_group g config scan_roots rl counts scheduled =
     bind_res (config_res (revalidate_config config)) (\<lambda>c.
     if length (gs_members g) < 2 then Inr (make_skipped_group_result g ''INSUFFICIENT_MEMBERS'' ''insufficient_members'')
     else if \<not> distinct (map norm_key (gs_members g))
       then Inr (make_skipped_group_result g ''DUPLICATE_MEMBER_PATH'' ''duplicate_member_path'')
     else bind_res (path_res (validate_authoritative_scan_roots scan_roots)) (\<lambda>roots.
       case first_problem (member_problem g roots) (gs_members g) of
         Some (why, reason) \<Rightarrow> Inr (make_skipped_group_result g why reason)
       | None \<Rightarrow>
         if \<not> list_ex dm_eligible_as_keep (gs_members g)
         then Inr (make_skipped_group_result g ''NO_ELIGIBLE_KEEP_CANDIDATE'' ''ineligible'')
         else path_res (evaluate_eligible c g roots rl counts scheduled)))"

subsection \<open>The run\<close>

text \<open>\<open>Path(...).parts\<close>, and the directory below the scan root that holds a member.\<close>

definition all_parts :: "string \<Rightarrow> string list" where
  "all_parts s = (if pure_root s = [] then [] else [pure_root s]) @ pure_parts s"

definition top_dir :: "member_snapshot \<Rightarrow> string" where
  "top_dir m = (case dm_top_level_dir m of
      Some (c # cs) \<Rightarrow> c # cs
    | _ \<Rightarrow> (let root = pure_path (dm_scan_root_path m); parts = all_parts (dm_relative_path m) in
        pure_str (if length parts > 1 then pure_join root (hd parts) else root)))"

definition keep_is_safe :: "(string \<rightharpoonup> int) \<Rightarrow> (string \<rightharpoonup> int) \<Rightarrow> member_snapshot list \<Rightarrow> member_snapshot \<Rightarrow> bool" where
  "keep_is_safe counts scheduled members m =
     (let proposed = map top_dir (others members m) in
      list_all (\<lambda>d. case counts d of None \<Rightarrow> True
        | Some current \<Rightarrow> \<not> current - counted scheduled d - int (count_list proposed d) < 1) proposed)"

definition protect_last_file :: "(string \<rightharpoonup> int) \<Rightarrow> (string \<rightharpoonup> int) \<Rightarrow> group_snapshot \<Rightarrow> group_snapshot" where
  "protect_last_file counts scheduled g = g\<lparr>gs_members := map (\<lambda>m.
     if dm_eligible_as_keep m \<and> \<not> keep_is_safe counts scheduled (gs_members g) m
     then m\<lparr>dm_eligible_as_keep := False, dm_safety_reasons := dm_safety_reasons m @ [''PROTECT_LAST_FILE'']\<rparr>
     else m) (gs_members g)\<rparr>"

record engine_state =
  es_released :: released
  es_directory_deletes :: "string \<rightharpoonup> int"
  es_recursive_quarantines :: "string \<rightharpoonup> int"
  es_results :: "group_decision list"
  es_actionable :: int
  es_skipped :: int
  es_planned :: int
  es_reclaim :: int

definition engine_start :: "nat \<Rightarrow> engine_state" where
  "engine_start n = \<lparr>es_released = \<lparr>rl_by_root = (\<lambda>r. if r < n then Some 0 else None), rl_by_directory = [], rl_direct = []\<rparr>,
     es_directory_deletes = Map.empty, es_recursive_quarantines = Map.empty, es_results = [],
     es_actionable = 0, es_skipped = 0, es_planned = 0, es_reclaim = 0\<rparr>"

definition record_skip :: "group_decision \<Rightarrow> engine_state \<Rightarrow> engine_state" where
  "record_skip res s = s\<lparr>es_results := es_results s @ [res], es_skipped := es_skipped s + 1\<rparr>"

definition accumulate_recursive_released_bytes :: "dir_bytes \<Rightarrow> string \<Rightarrow> string \<Rightarrow> int \<Rightarrow> dedupe_error + dir_bytes" where
  "accumulate_recursive_released_bytes current file root fsize =
     bind_res (directory_ancestors_to_scan_root file root) (\<lambda>ds.
     Inr (fold (\<lambda>d m. AList.update d (bytes_of m d + fsize) m) ds (renormalize current)))"

text \<open>What the run notes for one quarantined member.\<close>

definition release_member :: "bool \<Rightarrow> int \<Rightarrow> member_snapshot \<Rightarrow> engine_state \<Rightarrow> dedupe_error + engine_state" where
  "release_member recursive fsize m s =
     (let rl = es_released s; i = dm_scan_root_index m in
      bind_res (accumulate_recursive_released_bytes (rl_by_directory rl) (dm_absolute_path m) (dm_scan_root_path m) fsize) (\<lambda>by_dir.
      bind_res (if recursive then member_dirs m else Inr []) (\<lambda>ds.
      Inr (s\<lparr>es_released := \<lparr>
               rl_by_root = (case rl_by_root rl i of None \<Rightarrow> rl_by_root rl | Some v \<Rightarrow> (rl_by_root rl)(i \<mapsto> v + fsize)),
               rl_by_directory = by_dir,
               rl_direct = AList.update (parent_dir m) (bytes_of (rl_direct rl) (parent_dir m) + fsize) (rl_direct rl)\<rparr>,
             es_recursive_quarantines := fold (\<lambda>d. counter_add d 1) ds (es_recursive_quarantines s),
             es_directory_deletes := counter_add (top_dir m) 1 (es_directory_deletes s)\<rparr>))))"

fun release_members :: "bool \<Rightarrow> int \<Rightarrow> member_snapshot list \<Rightarrow> engine_state \<Rightarrow> dedupe_error + engine_state" where
  "release_members recursive fsize [] s = Inr s"
| "release_members recursive fsize (m # ms) s = bind_res (release_member recursive fsize m s) (release_members recursive fsize ms)"

definition record_decision :: "bool \<Rightarrow> group_snapshot \<Rightarrow> group_decision \<Rightarrow> engine_state \<Rightarrow> dedupe_error + engine_state" where
  "record_decision recursive g res s =
     (if gd_status res = ACTIONABLE then
        (let s1 = s\<lparr>es_results := es_results s @ [res], es_actionable := es_actionable s + 1,
             es_planned := es_planned s + int (length (gd_quarantine_candidates res)),
             es_reclaim := es_reclaim s + gd_reclaimable_bytes res\<rparr> in
         case gd_recommended_keep res of
           None \<Rightarrow> Inr s1
         | Some keep \<Rightarrow> release_members recursive (gs_file_size g) (others (gs_members g) keep) s1)
      else Inr (record_skip res s))"

definition is_recursive :: "dedupe_config \<Rightarrow> bool" where
  "is_recursive c \<longleftrightarrow> dc_selection_mode c = ''recursive_directory_balanced_by_bytes''"

definition protected_group :: "dedupe_config \<Rightarrow> (string \<rightharpoonup> int) option \<Rightarrow> engine_state \<Rightarrow> group_snapshot \<Rightarrow> group_snapshot" where
  "protected_group c counts s g = (case counts of None \<Rightarrow> g
     | Some n \<Rightarrow> if is_recursive c then g else protect_last_file n (es_directory_deletes s) g)"

definition step_group ::
  "dedupe_config \<Rightarrow> string list \<Rightarrow> (string \<rightharpoonup> int) option \<Rightarrow> (provenance \<rightharpoonup> string) \<Rightarrow> group_snapshot \<Rightarrow> engine_state \<Rightarrow>
   engine_error + engine_state" where
  "step_group c roots counts pre_skipped g s =
     (case pre_skipped (gs_provenance_id g) of
        Some why \<Rightarrow> Inr (record_skip (make_skipped_group_result g why ''fs_safety_failed'') s)
      | None \<Rightarrow>
        let g' = protected_group c counts s g in
        if list_ex dm_eligible_as_keep (gs_members g) \<and> \<not> list_ex dm_eligible_as_keep (gs_members g')
        then Inr (record_skip (make_skipped_group_result g' ''PROTECT_LAST_FILE_NO_SAFE_SELECTION'' ''protect_last_file'') s)
        else bind_res (evaluate_group g' c roots (es_released s) (if is_recursive c then counts else None)
                         (if is_recursive c then es_recursive_quarantines s else Map.empty)) (\<lambda>res.
             path_res (record_decision (is_recursive c \<and> counts \<noteq> None) g' res s)))"

fun run_groups ::
  "dedupe_config \<Rightarrow> string list \<Rightarrow> (string \<rightharpoonup> int) option \<Rightarrow> (provenance \<rightharpoonup> string) \<Rightarrow> group_snapshot list \<Rightarrow> engine_state \<Rightarrow>
   engine_error + engine_state" where
  "run_groups c roots counts pre_skipped [] s = Inr s"
| "run_groups c roots counts pre_skipped (g # gs) s =
     bind_res (step_group c roots counts pre_skipped g s) (run_groups c roots counts pre_skipped gs)"

definition group_order :: "(string list \<Rightarrow> string) \<Rightarrow> group_snapshot list \<Rightarrow> group_snapshot list" where
  "group_order digest groups = sort_key (\<lambda>g. (- gs_file_size g, gs_content_hash g, digest (sort (map norm_key (gs_members g))))) groups"

definition run_advanced_dedupe ::
  "(string list \<Rightarrow> string) \<Rightarrow> group_snapshot list \<Rightarrow> dedupe_config \<Rightarrow> string list \<Rightarrow> (string \<rightharpoonup> int) option \<Rightarrow>
   (provenance \<rightharpoonup> string) \<Rightarrow> engine_error + engine_state" where
  "run_advanced_dedupe digest groups config scan_roots counts pre_skipped =
     bind_res (config_res (revalidate_config config)) (\<lambda>c.
     bind_res (path_res (validate_authoritative_scan_roots scan_roots)) (\<lambda>roots.
     run_groups c roots counts pre_skipped (group_order digest groups) (engine_start (length roots))))"

end
