(* ===== verification/DedupeSafety.thy ===== *)
theory DedupeSafety
  imports DedupeEngine "HOL-Library.Multiset"
begin

section \<open>What the advanced planner deletes\<close>

text \<open>
  Every decision that acts keeps one eligible member with the best score and quarantines the
  others; what a run quarantines leaves every protected directory a file, and its totals add up.
\<close>

subsection \<open>The winner\<close>

lemma min_by_in: "xs \<noteq> [] \<Longrightarrow> the (min_by f xs) \<in> set xs"
  by (metis min_by_Some min_by_mem option.sel)

lemma same_root_in: "recursive_same_root_balance g tops roots dirs direct = Inr (w, sp, sq) \<Longrightarrow> tops \<noteq> [] \<Longrightarrow> w \<in> set tops"
  by (auto simp: recursive_same_root_balance_def Let_def bind_res_Inr intro: min_by_in)

lemma root_option_in:
  assumes "root_option g tops roots dirs direct r = Inr (key, w)" "\<exists>m \<in> set tops. dm_scan_root_index m = r"
  shows "w \<in> set tops"
proof -
  let ?c = "filter (\<lambda>m. dm_scan_root_index m = r) tops"
  have ne: "?c \<noteq> []" using assms(2) by (auto simp: filter_empty_conv)
  have "w \<in> set ?c"
  proof (cases "length ?c = 1")
    case True
    then obtain x where "?c = [x]" by (cases ?c) auto
    then show ?thesis using assms(1) by (simp add: root_option_def)
  next
    case False
    then obtain x y zs where x: "?c = x # y # zs" using ne by (metis One_nat_def length_Cons list.exhaust list.size(3))
    then obtain sp sq where "recursive_same_root_balance (g\<lparr>gs_members := filter (\<lambda>m. dm_scan_root_index m = r) (gs_members g)\<rparr>) ?c roots dirs direct = Inr (w, sp, sq)"
      using assms(1) by (auto simp: root_option_def bind_res_Inr)
    then show ?thesis using ne by (rule same_root_in)
  qed
  then show ?thesis by simp
qed

lemma cross_root_in:
  assumes "recursive_cross_root_balance g tops roots current dirs direct = Inr w" "tops \<noteq> []"
  shows "w \<in> set tops"
proof -
  let ?rs = "sort (remdups (map dm_scan_root_index tops))"
  let ?metric = "\<lambda>r. project_scan_root_balance g r roots current"
  let ?tied = "filter (\<lambda>r. ?metric r = ?metric (the (min_by ?metric ?rs))) ?rs"
  obtain options where o: "map_res (root_option g tops roots dirs direct) ?tied = Inr options" "w = snd (the (min_by fst options))"
    using assms(1) by (auto simp: recursive_cross_root_balance_def Let_def bind_res_Inr)
  have "set ?rs \<noteq> {}" using assms(2) by simp
  then have "?rs \<noteq> []" by (metis list.set(1))
  then have "the (min_by ?metric ?rs) \<in> set ?tied" using min_by_in [of ?rs ?metric] by simp
  moreover have "length options = length ?tied" using o(1) by (auto simp: map_res_Inr_iff list_all2_lengthD)
  ultimately have "options \<noteq> []" by (metis length_0_conv list.set(1) empty_iff)
  then have "the (min_by fst options) \<in> set options" by (rule min_by_in)
  then obtain r where r: "r \<in> set ?tied" "root_option g tops roots dirs direct r = Inr (the (min_by fst options))"
    using map_res_set [OF o(1)] by blast
  have "\<exists>m \<in> set tops. dm_scan_root_index m = r" using r(1) by auto
  then show ?thesis using root_option_in r(2) o(2) by (metis prod.collapse)
qed

lemma winner_in:
  assumes "select_winner c g roots rl eligible tops = Inr (w, reason)" "tops \<noteq> []" "set tops \<subseteq> set eligible"
  shows "w \<in> set tops"
proof (cases "length eligible = 1")
  case True
  then obtain x where "eligible = [x]" by (cases eligible) auto
  moreover have "hd tops \<in> set tops" using assms(2) by simp
  ultimately show ?thesis using assms(1,3) by (auto simp: select_winner_def)
next
  case False
  have hd: "hd tops \<in> set tops" using assms(2) by simp
  show ?thesis
    using assms(1,2) False hd
    by (auto simp: select_winner_def bind_res_Inr split: if_splits intro: same_root_in cross_root_in min_by_in)
qed

subsection \<open>Members that passed the checks\<close>

lemma norm_comps_all:
  "list_all P acc \<Longrightarrow> list_all (\<lambda>c. c \<noteq> [] \<longrightarrow> P c) cs \<Longrightarrow> list_all P (norm_comps absolute acc cs)"
proof (induction absolute acc cs rule: norm_comps.induct)
  case (2 absolute acc c cs)
  have b: "list_all P (butlast acc)" using 2(5) by (auto simp: list_all_iff dest: in_set_butlastD)
  consider "c = [] \<or> c = ''.''" | "c \<noteq> []" "c \<noteq> ''.''" "c \<noteq> ''..'' \<or> (\<not> absolute \<and> acc = []) \<or> (acc \<noteq> [] \<and> last acc = ''..'')"
    | "c \<noteq> []" "c \<noteq> ''.''" "\<not> (c \<noteq> ''..'' \<or> (\<not> absolute \<and> acc = []) \<or> (acc \<noteq> [] \<and> last acc = ''..''))" by blast
  then show ?case
  proof cases
    case 1
    then show ?thesis using 2(1) 2(5,6) by simp
  next
    case plain: 2
    then show ?thesis using 2(2) 2(5,6) by simp
  next
    case 3
    then show ?thesis using 2(3,4) 2(5,6) b by (cases "acc = []") auto
  qed
qed simp

lemma join_no_root: "\<forall>c \<in> set cs. c \<noteq> [] \<and> CHR ''/'' \<notin> set c \<Longrightarrow> \<not> prefix ''/'' (join_slash cs)"
  by (induction cs rule: join_slash.induct) (auto simp: neq_Nil_conv prefix_def)

lemma normpath_relative:
  assumes "\<not> prefix ''/'' s"
  shows "\<not> prefix ''/'' (normpath s)"
proof -
  have i: "initial_slashes s = 0" using assms by (simp add: initial_slashes_def)
  let ?P = "\<lambda>c. c \<noteq> [] \<and> CHR ''/'' \<notin> set c"
  have "list_all (\<lambda>c. c \<noteq> [] \<longrightarrow> ?P c) (split_char CHR ''/'' s)"
    unfolding list_all_iff using split_char_free by blast
  then have "list_all ?P (norm_comps False [] (split_char CHR ''/'' s))"
    by (rule norm_comps_all [rotated]) simp
  then have "\<not> prefix ''/'' (join_slash (norm_comps False [] (split_char CHR ''/'' s)))"
    by (intro join_no_root) (simp only: list_all_iff)
  then show ?thesis by (auto simp: normpath_def i or_dot_def prefix_def)
qed

lemma normalize_relative: "\<not> prefix ''/'' s \<Longrightarrow> \<not> prefix ''/'' (normalize_dedupe_path s)"
  using normpath_relative [of s] by (auto simp: normalize_dedupe_path_def Let_def prefix_def)

lemma normpath_not_empty: "normpath s \<noteq> []"
  by (auto simp: normpath_def or_dot_def)

text \<open>A member without problems lies strictly below its scan root.\<close>

definition placed :: "member_snapshot \<Rightarrow> string list \<Rightarrow> string list \<Rightarrow> string \<Rightarrow> bool" where
  "placed m rs ds f \<longleftrightarrow> list_all clean_comp (rs @ ds @ [f]) \<and> norm_key m = abs_path (rs @ ds @ [f]) \<and>
     normalize_dedupe_path (dm_scan_root_path m) = abs_path rs"

lemma no_problem_placed:
  assumes "member_problem g roots m = None"
  shows "\<exists>rs ds f. placed m rs ds f"
proof -
  have a: "prefix ''/'' (norm_key m)" and r: "prefix ''/'' (normalize_dedupe_path (dm_scan_root_path m))"
    and c: "is_lexical_contained (norm_key m) (normalize_dedupe_path (dm_scan_root_path m))"
    and rel: "relative_form (dm_relative_path m) = lexical_relpath (norm_key m) (normalize_dedupe_path (dm_scan_root_path m))"
    using assms by (auto simp: member_problem_def Let_def split: if_splits)
  obtain as where as: "list_all clean_comp as" "norm_key m = abs_path as"
    using a normalize_relative normalize_is_abs unfolding norm_key_def by metis
  obtain rs where rs: "list_all clean_comp rs" "normalize_dedupe_path (dm_scan_root_path m) = abs_path rs"
    using r normalize_relative normalize_is_abs by metis
  obtain ts where ts: "as = rs @ ts" using c as rs contained_iff by (auto simp: prefix_def)
  have "ts \<noteq> []"
  proof
    assume "ts = []"
    then have "relative_form (dm_relative_path m) = []" using rel ts as rs by (simp add: lexical_relpath_def)
    then show False using normpath_not_empty normalize_absolute by (auto simp: relative_form_def split: if_splits)
  qed
  then obtain ds f where "ts = ds @ [f]" by (cases ts rule: rev_cases) auto
  then show ?thesis using as rs ts by (auto simp: placed_def)
qed

lemma placed_dirs:
  assumes "placed m rs ds f"
  shows "member_dirs m = Inr (map (\<lambda>i. abs_path (rs @ take i ds)) (rev [0..<Suc (length ds)]))"
proof -
  have cl: "list_all clean_comp (rs @ ds @ [f])" "list_all clean_comp rs" using assms by (simp_all add: placed_def)
  have "member_dirs m = directory_ancestors_to_scan_root (abs_path (rs @ ds @ [f])) (abs_path rs)"
    using assms normalize_abs [OF cl(1)] normalize_abs [OF cl(2)]
    by (simp add: member_dirs_def directory_ancestors_to_scan_root_def placed_def norm_key_def)
  then show ?thesis using ancestors_below [OF cl(1)] by simp
qed

lemma placed_dirs_distinct:
  assumes "placed m rs ds f" "member_dirs m = Inr dirs"
  shows "distinct dirs \<and> (\<forall>d \<in> set dirs. normalize_dedupe_path d = d)"
proof -
  have cl: "list_all clean_comp (rs @ take i ds)" for i
    using assms(1) by (auto simp: placed_def list_all_iff dest: in_set_takeD)
  have dirs: "dirs = map (\<lambda>i. abs_path (rs @ take i ds)) (rev [0..<Suc (length ds)])" using placed_dirs [OF assms(1)] assms(2) by simp
  have "inj_on (\<lambda>i. abs_path (rs @ take i ds)) {0..<Suc (length ds)}"
  proof (rule inj_onI)
    fix i j assume ij: "i \<in> {0..<Suc (length ds)}" "j \<in> {0..<Suc (length ds)}" "abs_path (rs @ take i ds) = abs_path (rs @ take j ds)"
    then have "take i ds = take j ds" using abs_path_eq [OF cl cl] by simp
    then have "min (length ds) i = min (length ds) j" by (metis length_take)
    then show "i = j" using ij by simp
  qed
  then have "distinct dirs" unfolding dirs by (simp add: distinct_map del: upt_Suc)
  moreover have "normalize_dedupe_path d = d" if "d \<in> set dirs" for d
    using that normalize_abs [OF cl] unfolding dirs set_map by blast
  ultimately show ?thesis by blast
qed

subsection \<open>A group that is acted on\<close>

lemma first_problem_None: "first_problem f ms = None \<longleftrightarrow> (\<forall>m \<in> set ms. f m = None)"
  by (induction ms) (auto split: option.splits)

lemma map_res_pairs:
  assumes "map_res (\<lambda>m. bind_res (f m) (\<lambda>b. Inr (m, b))) xs = Inr ys"
  shows "map fst ys = xs \<and> (\<forall>(m, b) \<in> set ys. f m = Inr b)"
  using assms by (induction xs arbitrary: ys) (auto simp: bind_res_Inr)

lemma top_scored_iff: "m \<in> set (top_scored c eligible) \<longleftrightarrow> m \<in> set eligible \<and> member_score c eligible m = max0 (map (member_score c eligible) eligible)"
  by (auto simp: top_scored_def)

lemma max0_ge: "x \<in> set xs \<Longrightarrow> x \<le> max0 xs"
proof -
  have "x \<in> set (y # ys) \<Longrightarrow> x \<le> fold max ys y" for y and ys :: "int list"
  proof (induction ys arbitrary: x y)
    case (Cons z zs)
    have "max z y \<le> fold max zs (max z y)" by (rule Cons.IH) simp
    moreover have "x \<in> set zs \<Longrightarrow> x \<le> fold max zs (max z y)" by (rule Cons.IH) simp
    ultimately show ?case using Cons.prems by auto
  qed simp
  then show "x \<in> set xs \<Longrightarrow> x \<le> max0 xs" by (cases xs) (auto simp: max0_def)
qed

text \<open>What is known of the member that is kept.\<close>

definition well_kept :: "dedupe_config \<Rightarrow> group_snapshot \<Rightarrow> member_snapshot \<Rightarrow> bool" where
  "well_kept c g w \<longleftrightarrow> w \<in> set (gs_members g) \<and> dm_eligible_as_keep w \<and>
     (let eligible = filter dm_eligible_as_keep (gs_members g) in
      \<forall>m \<in> set eligible. member_score c eligible m \<le> member_score c eligible w)"

lemma eligible_decision:
  assumes "evaluate_eligible c g roots rl counts scheduled = Inr res" "gd_status res = ACTIONABLE"
  shows "\<exists>w tops blocked reason. res = actionable_decision c g (filter dm_eligible_as_keep (gs_members g)) tops blocked w reason \<and>
    well_kept c g w \<and>
    (\<forall>n. counts = Some n \<longrightarrow> dc_selection_mode c = ''recursive_directory_balanced_by_bytes'' \<longrightarrow>
       recursive_keep_blocked n scheduled (gs_members g) w = Inr False)"
proof -
  let ?E = "filter dm_eligible_as_keep (gs_members g)" and ?t = "top_scored c (filter dm_eligible_as_keep (gs_members g))"
  let ?rec = "dc_selection_mode c = ''recursive_directory_balanced_by_bytes''"
  obtain checked where ch: "(case counts of
           Some n \<Rightarrow> if ?rec then map_res (\<lambda>m. bind_res (recursive_keep_blocked n scheduled (gs_members g) m) (\<lambda>b. Inr (m, b))) ?t
             else Inr (map (\<lambda>m. (m, False)) ?t)
         | None \<Rightarrow> Inr (map (\<lambda>m. (m, False)) ?t)) = Inr checked"
    and r: "(let blocked = map (dm_absolute_path \<circ> fst) (filter snd checked); safe = map fst (filter (\<lambda>x. \<not> snd x) checked) in
      if safe = [] then Inr (make_skipped_group_result (mark_recursive_blocked_members g blocked)
          ''RECURSIVE_PROTECT_LAST_FILE_NO_SAFE_SELECTION'' ''recursive_protect_last_file'')
      else bind_res (select_winner c g roots rl ?E safe) (\<lambda>(winner, reason).
        Inr (actionable_decision c g ?E safe blocked winner reason))) = Inr res"
    using assms(1) unfolding evaluate_eligible_def Let_def bind_res_Inr by blast
  have blk: "map fst checked = ?t \<and> (\<forall>(m, b) \<in> set checked. recursive_keep_blocked n scheduled (gs_members g) m = Inr b)"
    if "counts = Some n" ?rec for n
    using ch that by (intro map_res_pairs) simp
  have fst: "map fst checked = ?t"
    using ch blk by (cases counts; cases ?rec) (auto simp: comp_def)
  let ?safe = "map fst (filter (\<lambda>x. \<not> snd x) checked)"
  have "?safe \<noteq> []" using r assms(2)
    by (auto simp: make_skipped_group_result_def SKIPPED_def ACTIONABLE_def Let_def split: if_splits)
  then obtain w reason where w: "select_winner c g roots rl ?E ?safe = Inr (w, reason)"
    and res: "res = actionable_decision c g ?E ?safe (map (dm_absolute_path \<circ> fst) (filter snd checked)) w reason"
    using r by (auto simp: Let_def bind_res_Inr)
  have sub: "set ?safe \<subseteq> set ?t" unfolding fst [symmetric] by auto
  then have "set ?safe \<subseteq> set ?E" by (auto simp: top_scored_iff)
  from winner_in [OF w \<open>?safe \<noteq> []\<close> this] have ws: "w \<in> set ?safe" .
  then have wt: "w \<in> set ?t" using sub by blast
  have "well_kept c g w" using wt max0_ge by (fastforce simp: well_kept_def Let_def top_scored_iff)
  moreover have "(w, False) \<in> set checked" using ws by auto
  then have "\<forall>n. counts = Some n \<longrightarrow> ?rec \<longrightarrow> recursive_keep_blocked n scheduled (gs_members g) w = Inr False" using blk by blast
  ultimately show ?thesis using res by blast
qed

lemma path_res_Inr [simp]: "path_res r = Inr x \<longleftrightarrow> r = Inr x"
  by (cases r) (auto simp: path_res_def)

lemma config_res_Inr [simp]: "config_res r = Inr x \<longleftrightarrow> r = Inr x"
  by (cases r) (auto simp: config_res_def)

lemma group_decision:
  assumes "evaluate_group g c roots rl counts scheduled = Inr res" "gd_status res = ACTIONABLE" "config_ok c"
  shows "\<exists>w tops blocked reason. res = actionable_decision c g (filter dm_eligible_as_keep (gs_members g)) tops blocked w reason \<and>
    well_kept c g w \<and> distinct (map norm_key (gs_members g)) \<and> (\<forall>m \<in> set (gs_members g). \<exists>rs ds f. placed m rs ds f) \<and>
    (\<forall>m \<in> set (gs_members g). dm_size m = gs_file_size g) \<and>
    (\<forall>n. counts = Some n \<longrightarrow> dc_selection_mode c = ''recursive_directory_balanced_by_bytes'' \<longrightarrow>
       recursive_keep_blocked n scheduled (gs_members g) w = Inr False)"
proof -
  have sk: "gd_status (make_skipped_group_result g why reason) \<noteq> ACTIONABLE" for g why reason
    by (simp add: make_skipped_group_result_def SKIPPED_def ACTIONABLE_def)
  obtain norm where d: "distinct (map norm_key (gs_members g))" and p: "first_problem (member_problem g norm) (gs_members g) = None"
    and e: "evaluate_eligible c g norm rl counts scheduled = Inr res"
    using assms sk unfolding evaluate_group_def config_read_back [OF assms(3)]
    by (auto simp: bind_res_Inr config_res_def split: if_splits option.splits)
  have "\<exists>rs ds f. placed m rs ds f" if "m \<in> set (gs_members g)" for m
    using p that no_problem_placed by (auto simp: first_problem_None)
  moreover have "dm_size m = gs_file_size g" if "m \<in> set (gs_members g)" for m
    using p that by (auto simp: first_problem_None member_problem_def Let_def split: if_splits)
  ultimately show ?thesis using eligible_decision [OF e assms(2)] d by blast
qed

subsection \<open>The last files\<close>

text \<open>
  The members a run quarantines, and how many of them lie below a directory, or have it as the
  directory below their scan root.
\<close>

definition quarantined_of :: "group_snapshot \<Rightarrow> group_decision \<Rightarrow> member_snapshot list" where
  "quarantined_of g res = (if gd_status res = ACTIONABLE
     then filter (\<lambda>m. dm_absolute_path m \<in> set (gd_quarantine_candidates res)) (gs_members g) else [])"

definition quarantined_members :: "group_snapshot list \<Rightarrow> group_decision list \<Rightarrow> member_snapshot list" where
  "quarantined_members groups results = concat (map2 quarantined_of groups results)"

definition is_below :: "string \<Rightarrow> member_snapshot \<Rightarrow> bool" where
  "is_below d m \<longleftrightarrow> (case member_dirs m of Inl e \<Rightarrow> False | Inr dirs \<Rightarrow> d \<in> set dirs)"

definition below_count :: "string \<Rightarrow> member_snapshot list \<Rightarrow> int" where
  "below_count d ms = int (length (filter (is_below d) ms))"

definition top_count :: "string \<Rightarrow> member_snapshot list \<Rightarrow> int" where
  "top_count d ms = int (length (filter (\<lambda>m. top_dir m = d) ms))"

text \<open>Two members of the same place.\<close>

definition same_place :: "member_snapshot \<Rightarrow> member_snapshot \<Rightarrow> bool" where
  "same_place m m' \<longleftrightarrow> dm_absolute_path m = dm_absolute_path m' \<and> dm_scan_root_path m = dm_scan_root_path m' \<and>
     dm_relative_path m = dm_relative_path m' \<and> dm_top_level_dir m = dm_top_level_dir m'"

lemma same_place_dirs: "same_place m m' \<Longrightarrow> member_dirs m = member_dirs m' \<and> top_dir m = top_dir m' \<and> norm_key m = norm_key m'"
  by (auto simp: same_place_def member_dirs_def top_dir_def norm_key_def split: option.split list.split)

lemma distinct_count: "distinct xs \<Longrightarrow> count_list xs x = (if x \<in> set xs then 1 else 0)"
  by (induction xs) auto

lemma count_concat_dirs:
  assumes "map_res member_dirs ms = Inr dss" "\<forall>m \<in> set ms. \<exists>rs ds f. placed m rs ds f"
  shows "int (count_list (concat dss) d) = below_count d ms"
  using assms
proof (induction ms arbitrary: dss)
  case Nil
  then show ?case by (simp add: below_count_def)
next
  case (Cons m ms)
  then obtain dirs dss' where d: "member_dirs m = Inr dirs" "map_res member_dirs ms = Inr dss'" "dss = dirs # dss'"
    by (auto simp: bind_res_Inr)
  obtain rs ds f where "placed m rs ds f" using Cons.prems(2) by auto
  then have "distinct dirs" using placed_dirs_distinct d(1) by blast
  then have "count_list dirs d = (if d \<in> set dirs then 1 else 0)"
    by (simp add: distinct_count)
  moreover have "int (count_list (concat dss') d) = below_count d ms" using Cons.IH [OF d(2)] Cons.prems(2) by simp
  ultimately show ?case using d by (simp add: below_count_def is_below_def)
qed

text \<open>The recursive check bounds what may go below every directory.\<close>

lemma not_blocked:
  assumes "recursive_keep_blocked counts scheduled ms w = Inr False" "\<forall>m \<in> set ms. \<exists>rs ds f. placed m rs ds f"
    and "below_count d (others ms w) > 0"
  shows "\<exists>n. counts d = Some n \<and> counted scheduled d + below_count d (others ms w) < n"
proof -
  obtain dss where dss: "map_res member_dirs (others ms w) = Inr dss"
    and ok: "\<forall>d \<in> set (concat dss). \<exists>n. counts (normalize_dedupe_path d) = Some n \<and>
      n - counted scheduled (normalize_dedupe_path d) - int (count_list (concat dss) d) \<ge> 1"
    using assms(1) by (fastforce simp: recursive_keep_blocked_def bind_res_Inr Let_def list_ex_iff split: option.splits)
  have pl: "\<forall>m \<in> set (others ms w). \<exists>rs ds f. placed m rs ds f" using assms(2) by (simp add: others_def)
  have c: "int (count_list (concat dss) d) = below_count d (others ms w)" by (rule count_concat_dirs [OF dss pl])
  then have "count_list (concat dss) d \<noteq> 0" using assms(3) by linarith
  then have d: "d \<in> set (concat dss)" by (simp add: count_list_0_iff)
  then obtain dirs where "dirs \<in> set dss" "d \<in> set dirs" by auto
  then obtain m where "m \<in> set (others ms w)" "member_dirs m = Inr dirs" using map_res_set [OF dss] by blast
  then have "normalize_dedupe_path d = d" using pl placed_dirs_distinct \<open>d \<in> set dirs\<close> by blast
  then show ?thesis using ok d c by fastforce
qed

subsection \<open>Steps of the run\<close>

lemma counts_Cons:
  "below_count d (m # ms) = (if is_below d m then 1 else 0) + below_count d ms"
  "top_count d (m # ms) = (if top_dir m = d then 1 else 0) + top_count d ms"
  by (simp_all add: below_count_def top_count_def)

lemma counts_append:
  "below_count d (as @ bs) = below_count d as + below_count d bs"
  "top_count d (as @ bs) = top_count d as + top_count d bs"
  by (simp_all add: below_count_def top_count_def)

lemma counts_nonneg: "below_count d ms \<ge> 0" "top_count d ms \<ge> 0"
  by (simp_all add: below_count_def top_count_def)

lemma counted_fold_distinct:
  "distinct ds \<Longrightarrow> counted (fold (\<lambda>d. counter_add d 1) ds c) x = counted c x + (if x \<in> set ds then 1 else 0)"
  by (induction ds arbitrary: c) auto

lemma release_member_counts:
  assumes "release_member recursive fsize m s = Inr s'" "\<exists>rs ds f. placed m rs ds f"
  shows "counted (es_directory_deletes s') d = counted (es_directory_deletes s) d + (if top_dir m = d then 1 else 0) \<and>
    (recursive \<longrightarrow> counted (es_recursive_quarantines s') d = counted (es_recursive_quarantines s) d + (if is_below d m then 1 else 0)) \<and>
    es_results s' = es_results s \<and> es_actionable s' = es_actionable s \<and> es_skipped s' = es_skipped s \<and>
    es_planned s' = es_planned s \<and> es_reclaim s' = es_reclaim s"
proof -
  obtain dirs where d: "(if recursive then member_dirs m else Inr []) = Inr dirs"
    and s': "es_directory_deletes s' = counter_add (top_dir m) 1 (es_directory_deletes s)"
      "es_recursive_quarantines s' = fold (\<lambda>d. counter_add d 1) dirs (es_recursive_quarantines s)"
      "es_results s' = es_results s" "es_actionable s' = es_actionable s" "es_skipped s' = es_skipped s"
      "es_planned s' = es_planned s" "es_reclaim s' = es_reclaim s"
    using assms(1) unfolding release_member_def Let_def bind_res_Inr by auto
  have "recursive \<Longrightarrow> distinct dirs \<and> (d \<in> set dirs \<longleftrightarrow> is_below d m)"
    using d assms(2) placed_dirs_distinct by (auto simp: is_below_def)
  then show ?thesis using s' counted_fold_distinct [of dirs "es_recursive_quarantines s" d] by auto
qed

lemma release_members_counts:
  assumes "release_members recursive fsize ms s = Inr s'" "\<forall>m \<in> set ms. \<exists>rs ds f. placed m rs ds f"
  shows "counted (es_directory_deletes s') d = counted (es_directory_deletes s) d + top_count d ms \<and>
    (recursive \<longrightarrow> counted (es_recursive_quarantines s') d = counted (es_recursive_quarantines s) d + below_count d ms) \<and>
    es_results s' = es_results s \<and> es_actionable s' = es_actionable s \<and> es_skipped s' = es_skipped s \<and>
    es_planned s' = es_planned s \<and> es_reclaim s' = es_reclaim s"
  using assms
proof (induction ms arbitrary: s)
  case Nil
  then show ?case by (simp add: below_count_def top_count_def)
next
  case (Cons m ms)
  then obtain s1 where s1: "release_member recursive fsize m s = Inr s1" "release_members recursive fsize ms s1 = Inr s'"
    by (auto simp: bind_res_Inr)
  have "\<exists>rs ds f. placed m rs ds f" using Cons.prems(2) by simp
  from release_member_counts [OF s1(1) this, of d] Cons.IH [OF s1(2)] Cons.prems(2)
  show ?case by (simp add: counts_Cons)
qed

text \<open>The protection only lowers the eligibility of members.\<close>

definition weakened :: "member_snapshot \<Rightarrow> member_snapshot \<Rightarrow> bool" where
  "weakened m m' \<longleftrightarrow> same_place m m' \<and> dm_size m = dm_size m' \<and> dm_scan_root_index m = dm_scan_root_index m' \<and>
     dm_mtime_ns m = dm_mtime_ns m' \<and> (dm_eligible_as_keep m' \<longrightarrow> m' = m)"

definition weaker_group :: "group_snapshot \<Rightarrow> group_snapshot \<Rightarrow> bool" where
  "weaker_group g g' \<longleftrightarrow> list_all2 weakened (gs_members g) (gs_members g') \<and> gs_file_size g = gs_file_size g' \<and>
     gs_provenance_id g = gs_provenance_id g'"

lemma weakened_refl [simp]: "weakened m m"
  by (simp add: weakened_def same_place_def)

lemma weaker_refl: "weaker_group g g"
  by (simp add: weaker_group_def list_all2_same)

lemma protect_weaker: "weaker_group g (protect_last_file counts scheduled g)"
  by (auto simp: weaker_group_def protect_last_file_def list_all2_map2 list_all2_same weakened_def same_place_def)

lemma weaker_others:
  "list_all2 weakened ms ms' \<Longrightarrow> list_all2 weakened (others ms w) (others ms' w)"
  by (induction rule: list_all2_induct) (auto simp: others_def weakened_def same_place_def)

lemma weaker_counts:
  "list_all2 weakened ms ms' \<Longrightarrow> below_count d ms = below_count d ms' \<and> top_count d ms = top_count d ms'"
proof (induction rule: list_all2_induct)
  case (Cons m ms m' ms')
  then show ?case using same_place_dirs [of m m'] by (simp add: weakened_def counts_Cons is_below_def)
qed simp

text \<open>A decision about a group, as the group came in.\<close>

definition well_decided :: "dedupe_config \<Rightarrow> group_snapshot \<Rightarrow> group_decision \<Rightarrow> bool" where
  "well_decided c g res \<longleftrightarrow> gd_group_provenance_id res = gs_provenance_id g \<and>
     (if gd_status res = ACTIONABLE
      then \<exists>w g'. gd_recommended_keep res = Some w \<and> w \<in> set (gs_members g) \<and> weaker_group g g' \<and> well_kept c g' w \<and>
        distinct (map norm_key (gs_members g)) \<and>
        mset (gd_quarantine_candidates res) = mset (map dm_absolute_path (others (gs_members g) w)) \<and>
        (\<forall>m \<in> set (gs_members g). dm_size m = gs_file_size g) \<and>
        gd_reclaimable_bytes res = gs_file_size g * (int (length (gs_members g)) - 1)
      else gd_recommended_keep res = None \<and> gd_quarantine_candidates res = [] \<and> gd_reclaimable_bytes res = 0)"

lemma skipped_well_decided:
  "gs_provenance_id g' = gs_provenance_id g \<Longrightarrow> well_decided c g (make_skipped_group_result g' why reason)"
  by (simp add: well_decided_def make_skipped_group_result_def SKIPPED_def ACTIONABLE_def)

lemma status_skipped [simp]: "gd_status (make_skipped_group_result g why reason) \<noteq> ACTIONABLE"
  by (simp add: make_skipped_group_result_def SKIPPED_def ACTIONABLE_def)

lemma status_actionable [simp]: "gd_status (actionable_decision c g eligible tops blocked w reason) = ACTIONABLE"
  "gd_recommended_keep (actionable_decision c g eligible tops blocked w reason) = Some w"
  by (simp_all add: actionable_decision_def Let_def)

lemma quarantine_set: "set (gd_quarantine_candidates (actionable_decision c g eligible tops blocked w reason)) =
  dm_absolute_path ` set (others (gs_members g) w)"
  by (simp add: actionable_decision_def Let_def)

lemma others_paths: "distinct (map norm_key ms) \<Longrightarrow> w \<in> set ms \<Longrightarrow> Suc (length (others ms w)) = length ms"
proof (induction ms)
  case (Cons m ms)
  show ?case
  proof (cases "dm_absolute_path m = dm_absolute_path w")
    case True
    then have k: "norm_key m = norm_key w" by (simp add: norm_key_def)
    have "norm_key w \<notin> norm_key ` set ms" using Cons.prems(1) k by simp
    then have "dm_absolute_path x \<noteq> dm_absolute_path w" if "x \<in> set ms" for x
      using that by (metis imageI norm_key_def)
    then show ?thesis using True by (simp add: others_def)
  next
    case False
    then have "w \<in> set ms" using Cons.prems(2) by auto
    then show ?thesis using Cons.IH Cons.prems(1) False by (simp add: others_def)
  qed
qed simp

lemma quarantined_others:
  assumes "gd_status res = ACTIONABLE" "gd_quarantine_candidates res = q" "set q = dm_absolute_path ` set (others (gs_members g) w)"
  shows "quarantined_of g res = others (gs_members g) w"
proof -
  have "dm_absolute_path m \<in> set q \<longleftrightarrow> dm_absolute_path m \<noteq> dm_absolute_path w" if "m \<in> set (gs_members g)" for m
    using assms(3) that by (auto simp: others_def)
  then show ?thesis using assms(1,2) unfolding quarantined_of_def others_def by (auto intro: filter_cong)
qed

lemma weaker_paths:
  "list_all2 weakened ms ms' \<Longrightarrow> map dm_absolute_path ms = map dm_absolute_path ms' \<and> map norm_key ms = map norm_key ms' \<and> map dm_size ms = map dm_size ms'"
  by (induction rule: list_all2_induct) (auto simp: weakened_def same_place_def norm_key_def)

lemma actionable_well_decided:
  assumes res: "res = actionable_decision c g' (filter dm_eligible_as_keep (gs_members g')) tops blocked w reason"
    and kept: "well_kept c g' w" and dist: "distinct (map norm_key (gs_members g'))"
    and size: "\<forall>m \<in> set (gs_members g'). dm_size m = gs_file_size g'" and weak: "weaker_group g g'"
  shows "well_decided c g res \<and> quarantined_of g res = others (gs_members g) w"
proof -
  have l2: "list_all2 weakened (gs_members g) (gs_members g')" using weak by (simp add: weaker_group_def)
  have w: "w \<in> set (gs_members g')" "dm_eligible_as_keep w" using kept by (simp_all add: well_kept_def)
  then obtain i where i: "i < length (gs_members g')" "gs_members g' ! i = w" by (auto simp: in_set_conv_nth)
  then have "weakened (gs_members g ! i) w" using l2 by (metis list_all2_conv_all_nth)
  then have wg: "w \<in> set (gs_members g)" using w(2) i l2 by (metis list_all2_lengthD nth_mem weakened_def)
  have p: "map dm_absolute_path (others (gs_members g) w) = map dm_absolute_path (others (gs_members g') w)"
    using weaker_paths [OF weaker_others [OF l2, of w]] by blast
  have nk: "distinct (map norm_key (gs_members g))" using weaker_paths [OF l2] dist by simp
  have sz: "dm_size m = gs_file_size g" if "m \<in> set (gs_members g)" for m
  proof -
    obtain j where j: "j < length (gs_members g)" "gs_members g ! j = m" using \<open>m \<in> set (gs_members g)\<close> by (meson in_set_conv_nth)
    then have "weakened m (gs_members g' ! j)" "j < length (gs_members g')" using l2 by (auto simp: list_all2_conv_all_nth)
    then show ?thesis using size weak nth_mem [of j "gs_members g'"] by (simp add: weakened_def weaker_group_def)
  qed
  have len: "length (gs_members g) = length (gs_members g')" using l2 by (rule list_all2_lengthD)
  have "mset (gd_quarantine_candidates res) = mset (map dm_absolute_path (others (gs_members g) w))"
    unfolding p by (simp add: res actionable_decision_def Let_def)
  moreover have "gd_reclaimable_bytes res = gs_file_size g * (int (length (gs_members g)) - 1)"
  proof -
    have "int (length (others (gs_members g') w)) = int (length (gs_members g)) - 1"
      using others_paths [OF dist w(1)] len by linarith
    then show ?thesis using weak by (simp add: res actionable_decision_def Let_def weaker_group_def)
  qed
  moreover have "gd_group_provenance_id res = gs_provenance_id g" "gd_status res = ACTIONABLE" "gd_recommended_keep res = Some w"
    using weak by (simp_all add: res actionable_decision_def Let_def weaker_group_def)
  ultimately have "well_decided c g res"
    unfolding well_decided_def using weak wg kept nk sz by auto
  moreover have "set (gd_quarantine_candidates res) = dm_absolute_path ` set (others (gs_members g) w)"
    using quarantine_set [of c g' _ tops blocked w reason] p unfolding res by (metis list.set_map)
  then have "quarantined_of g res = others (gs_members g) w" by (intro quarantined_others) (simp_all add: res)
  ultimately show ?thesis by blast
qed

text \<open>What one group adds, in terms of the members it quarantines.\<close>

definition step_effect :: "dedupe_config \<Rightarrow> (string \<rightharpoonup> int) option \<Rightarrow> engine_state \<Rightarrow> member_snapshot list \<Rightarrow> engine_state \<Rightarrow> bool" where
  "step_effect c counts s q s' \<longleftrightarrow>
     (\<forall>d. counted (es_directory_deletes s') d = counted (es_directory_deletes s) d + top_count d q) \<and>
     (is_recursive c \<and> counts \<noteq> None \<longrightarrow>
        (\<forall>d. counted (es_recursive_quarantines s') d = counted (es_recursive_quarantines s) d + below_count d q)) \<and>
     (\<forall>n d. counts = Some n \<longrightarrow> is_recursive c \<longrightarrow> below_count d q > 0 \<longrightarrow>
        (\<exists>k. n d = Some k \<and> counted (es_recursive_quarantines s) d + below_count d q < k)) \<and>
     (\<forall>n d k. counts = Some n \<longrightarrow> \<not> is_recursive c \<longrightarrow> n d = Some k \<longrightarrow> top_count d q > 0 \<longrightarrow>
        counted (es_directory_deletes s) d + top_count d q < k)"

lemma skip_effect:
  assumes "es_directory_deletes s' = es_directory_deletes s" "es_recursive_quarantines s' = es_recursive_quarantines s"
  shows "step_effect c counts s [] s'"
  using assms by (simp add: step_effect_def top_count_def below_count_def)

text \<open>An eligible member that survives the protection is safe to keep.\<close>

lemma protected_safe:
  assumes "w \<in> set (gs_members (protect_last_file n scheduled g))" "dm_eligible_as_keep w"
    and "n d = Some k" "top_count d (others (gs_members g) w) > 0"
  shows "counted scheduled d + top_count d (others (gs_members g) w) < k"
proof -
  have "w \<in> set (gs_members g)" "keep_is_safe n scheduled (gs_members g) w"
    using assms(1,2) by (auto simp: protect_last_file_def split: if_splits)
  moreover have c: "int (count_list (map top_dir ms) d) = top_count d ms" for ms
    by (induction ms) (simp_all add: top_count_def)
  moreover have "d \<in> set (map top_dir (others (gs_members g) w))"
    using assms(4) c [of "others (gs_members g) w"] count_list_0_iff [of "map top_dir (others (gs_members g) w)" d] by fastforce
  ultimately show ?thesis using assms(3) by (fastforce simp: keep_is_safe_def Let_def list_all_iff)
qed

definition counted_step :: "engine_state \<Rightarrow> group_decision \<Rightarrow> engine_state \<Rightarrow> bool" where
  "counted_step s res s' \<longleftrightarrow> es_results s' = es_results s @ [res] \<and>
     es_actionable s' = es_actionable s + (if gd_status res = ACTIONABLE then 1 else 0) \<and>
     es_skipped s' = es_skipped s + (if gd_status res = ACTIONABLE then 0 else 1) \<and>
     es_planned s' = es_planned s + int (length (gd_quarantine_candidates res)) \<and>
     es_reclaim s' = es_reclaim s + gd_reclaimable_bytes res"

lemma skip_step: "counted_step s (make_skipped_group_result g why reason) (record_skip (make_skipped_group_result g why reason) s)"
  by (simp add: counted_step_def record_skip_def) (simp add: make_skipped_group_result_def)

lemma quarantined_skipped [simp]: "gd_status res \<noteq> ACTIONABLE \<Longrightarrow> quarantined_of g res = []"
  by (simp add: quarantined_of_def)

lemma record_actionable:
  assumes "record_decision recursive g' res s = Inr s'" "gd_status res = ACTIONABLE" "gd_recommended_keep res = Some w"
    and "\<forall>m \<in> set (gs_members g'). \<exists>rs ds f. placed m rs ds f"
  shows "counted_step s res s' \<and> (\<forall>d. counted (es_directory_deletes s') d = counted (es_directory_deletes s) d + top_count d (others (gs_members g') w)) \<and>
    (recursive \<longrightarrow> (\<forall>d. counted (es_recursive_quarantines s') d = counted (es_recursive_quarantines s) d + below_count d (others (gs_members g') w)))"
proof -
  let ?s = "s\<lparr>es_results := es_results s @ [res], es_actionable := es_actionable s + 1,
             es_planned := es_planned s + int (length (gd_quarantine_candidates res)),
             es_reclaim := es_reclaim s + gd_reclaimable_bytes res\<rparr>"
  have r: "release_members recursive (gs_file_size g') (others (gs_members g') w) ?s = Inr s'"
    using assms(1-3) by (simp add: record_decision_def Let_def)
  have pl: "\<forall>m \<in> set (others (gs_members g') w). \<exists>rs ds f. placed m rs ds f" using assms(4) by (simp add: others_def)
  note c = release_members_counts [OF r pl]
  show ?thesis using c assms(2) by (simp add: counted_step_def)
qed

lemma evaluate_skipped:
  assumes "evaluate_group g c roots rl counts scheduled = Inr res" "gd_status res \<noteq> ACTIONABLE"
  shows "\<exists>g' why reason. res = make_skipped_group_result g' why reason \<and> gs_provenance_id g' = gs_provenance_id g"
proof -
  have e: "\<exists>g' why reason. res = make_skipped_group_result g' why reason \<and> gs_provenance_id g' = gs_provenance_id g"
    if "evaluate_eligible c' g norm rl counts scheduled = Inr res" for c' norm
    using that assms(2) unfolding evaluate_eligible_def Let_def
    by (auto simp: bind_res_Inr mark_recursive_blocked_members_def split: if_splits intro!: exI)
  have "(\<exists>why reason. res = make_skipped_group_result g why reason) \<or> (\<exists>c' norm. evaluate_eligible c' g norm rl counts scheduled = Inr res)"
    using assms(1) unfolding evaluate_group_def
    by (auto simp: bind_res_Inr split: if_splits option.splits)
  then show ?thesis using e by blast
qed

lemma evaluated_step:
  assumes "evaluate_group g' c roots rl cnt sched = Inr res" "record_decision (is_recursive c \<and> counts \<noteq> None) g' res s = Inr s'" "config_ok c"
    and weak: "weaker_group g g'"
    and cnt: "cnt = (if is_recursive c then counts else None)" "sched = (if is_recursive c then es_recursive_quarantines s else Map.empty)"
    and safe: "\<And>n w d k. counts = Some n \<Longrightarrow> \<not> is_recursive c \<Longrightarrow> w \<in> set (gs_members g') \<Longrightarrow> dm_eligible_as_keep w \<Longrightarrow>
      n d = Some k \<Longrightarrow> top_count d (others (gs_members g) w) > 0 \<Longrightarrow>
      counted (es_directory_deletes s) d + top_count d (others (gs_members g) w) < k"
  shows "well_decided c g res \<and> counted_step s res s' \<and> step_effect c counts s (quarantined_of g res) s'"
proof (cases "gd_status res = ACTIONABLE")
  case True
  obtain w tops blocked reason where d: "res = actionable_decision c g' (filter dm_eligible_as_keep (gs_members g')) tops blocked w reason"
    and kept: "well_kept c g' w" and dist: "distinct (map norm_key (gs_members g'))" and pl: "\<forall>m \<in> set (gs_members g'). \<exists>rs ds f. placed m rs ds f"
    and size: "\<forall>m \<in> set (gs_members g'). dm_size m = gs_file_size g'"
    and nb: "\<forall>n. cnt = Some n \<longrightarrow> is_recursive c \<longrightarrow> recursive_keep_blocked n sched (gs_members g') w = Inr False"
    using group_decision [OF assms(1) True assms(3)] unfolding is_recursive_def by blast
  have wd: "well_decided c g res" and q: "quarantined_of g res = others (gs_members g) w"
    using actionable_well_decided [OF d kept dist size weak] by blast+
  have l2: "list_all2 weakened (others (gs_members g) w) (others (gs_members g') w)"
    using weak by (simp add: weaker_group_def weaker_others)
  have same: "below_count d (others (gs_members g') w) = below_count d (quarantined_of g res)"
    "top_count d (others (gs_members g') w) = top_count d (quarantined_of g res)" for d
    using weaker_counts [OF l2, of d] unfolding q by auto
  have keep: "gd_recommended_keep res = Some w" by (simp add: d)
  note r = record_actionable [OF assms(2) True keep pl]
  have "\<exists>k. n d = Some k \<and> counted (es_recursive_quarantines s) d + below_count d (quarantined_of g res) < k"
    if "counts = Some n" "is_recursive c" "below_count d (quarantined_of g res) > 0" for n d
    using not_blocked [of n sched "gs_members g'" w d] nb cnt that pl same by simp
  moreover have "counted (es_directory_deletes s) d + top_count d (quarantined_of g res) < k"
    if "counts = Some n" "\<not> is_recursive c" "n d = Some k" "top_count d (quarantined_of g res) > 0" for n d k
    using safe [of n w d k] that kept unfolding q by (simp add: well_kept_def)
  ultimately have "step_effect c counts s (quarantined_of g res) s'"
    using r same unfolding step_effect_def by simp
  then show ?thesis using wd r by blast
next
  case False
  then have s': "s' = record_skip res s" using assms(2) by (simp add: record_decision_def)
  obtain g2 why reason where "res = make_skipped_group_result g2 why reason" "gs_provenance_id g2 = gs_provenance_id g'"
    using evaluate_skipped [OF assms(1) False] by blast
  then have "well_decided c g res \<and> gd_quarantine_candidates res = [] \<and> gd_reclaimable_bytes res = 0"
    using skipped_well_decided [of g2 g] weak by (simp add: weaker_group_def) (simp add: make_skipped_group_result_def)
  then show ?thesis using False s' skip_effect [of "record_skip res s" s c counts]
    by (simp add: counted_step_def record_skip_def)
qed

lemma step_sound:
  assumes "step_group c roots counts pre g s = Inr s'" "config_ok c"
  shows "\<exists>res. well_decided c g res \<and> counted_step s res s' \<and> step_effect c counts s (quarantined_of g res) s'"
proof (cases "pre (gs_provenance_id g)")
  case (Some why)
  let ?res = "make_skipped_group_result g why ''fs_safety_failed''"
  have "s' = record_skip ?res s" using assms(1) Some by (simp add: step_group_def)
  then show ?thesis using skipped_well_decided [of g g] skip_step skip_effect
    by (intro exI [of _ ?res]) (simp add: record_skip_def)
next
  case None
  let ?g = "protected_group c counts s g"
  have weak: "weaker_group g ?g" using weaker_refl protect_weaker by (auto simp: protected_group_def split: option.splits)
  show ?thesis
  proof (cases "list_ex dm_eligible_as_keep (gs_members g) \<and> \<not> list_ex dm_eligible_as_keep (gs_members ?g)")
    case True
    let ?res = "make_skipped_group_result ?g ''PROTECT_LAST_FILE_NO_SAFE_SELECTION'' ''protect_last_file''"
    have "s' = record_skip ?res s" using assms(1) None True by (simp add: step_group_def Let_def)
    then show ?thesis using skipped_well_decided [of ?g g] weak skip_step skip_effect [of s' s]
      by (intro exI [of _ ?res]) (simp add: record_skip_def weaker_group_def)
  next
    case False
    have "bind_res (evaluate_group ?g c roots (es_released s) (if is_recursive c then counts else None)
        (if is_recursive c then es_recursive_quarantines s else Map.empty))
        (\<lambda>res. path_res (record_decision (is_recursive c \<and> counts \<noteq> None) ?g res s)) = Inr s'"
      using assms(1) None False unfolding step_group_def Let_def by simp
    then obtain res where e: "evaluate_group ?g c roots (es_released s) (if is_recursive c then counts else None)
        (if is_recursive c then es_recursive_quarantines s else Map.empty) = Inr res"
      and r: "record_decision (is_recursive c \<and> counts \<noteq> None) ?g res s = Inr s'"
      by (auto simp: bind_res_Inr)
    have safe: "counted (es_directory_deletes s) d + top_count d (others (gs_members g) w) < k"
      if "counts = Some n" "\<not> is_recursive c" "w \<in> set (gs_members ?g)" "dm_eligible_as_keep w" "n d = Some k"
        "top_count d (others (gs_members g) w) > 0" for n w d k
      using protected_safe [of w n "es_directory_deletes s" g d k] that by (simp add: protected_group_def)
    have "well_decided c g res \<and> counted_step s res s' \<and> step_effect c counts s (quarantined_of g res) s'"
      by (rule evaluated_step [OF e r assms(2) weak refl refl]) (rule safe)
    then show ?thesis by blast
  qed
qed

definition engine_inv :: "dedupe_config \<Rightarrow> (string \<rightharpoonup> int) option \<Rightarrow> group_snapshot list \<Rightarrow> engine_state \<Rightarrow> bool" where
  "engine_inv c counts gs s \<longleftrightarrow> list_all2 (well_decided c) gs (es_results s) \<and>
     (let q = quarantined_members gs (es_results s) in
      (\<forall>d. counted (es_directory_deletes s) d = top_count d q) \<and>
      (is_recursive c \<and> counts \<noteq> None \<longrightarrow> (\<forall>d. counted (es_recursive_quarantines s) d = below_count d q)) \<and>
      (\<forall>n d. counts = Some n \<longrightarrow> is_recursive c \<longrightarrow> below_count d q > 0 \<longrightarrow> (\<exists>k. n d = Some k \<and> below_count d q < k)) \<and>
      (\<forall>n d k. counts = Some n \<longrightarrow> \<not> is_recursive c \<longrightarrow> n d = Some k \<longrightarrow> top_count d q > 0 \<longrightarrow> top_count d q < k))"

definition totals_ok :: "engine_state \<Rightarrow> bool" where
  "totals_ok s \<longleftrightarrow> es_actionable s = int (length (filter (\<lambda>r. gd_status r = ACTIONABLE) (es_results s))) \<and>
     es_skipped s = int (length (filter (\<lambda>r. gd_status r \<noteq> ACTIONABLE) (es_results s))) \<and>
     es_planned s = sum_list (map (\<lambda>r. int (length (gd_quarantine_candidates r))) (es_results s)) \<and>
     es_reclaim s = sum_list (map gd_reclaimable_bytes (es_results s))"

lemma totals_step: "totals_ok s \<Longrightarrow> counted_step s res s' \<Longrightarrow> totals_ok s'"
  by (auto simp: totals_ok_def counted_step_def)

lemma inv_step:
  assumes "engine_inv c counts gs s" "well_decided c g res" "counted_step s res s'" "step_effect c counts s (quarantined_of g res) s'"
  shows "engine_inv c counts (gs @ [g]) s'"
proof -
  let ?q = "quarantined_members gs (es_results s)" and ?n = "quarantined_of g res"
  have len: "length gs = length (es_results s)" using assms(1) by (auto simp: engine_inv_def list_all2_lengthD)
  have res: "es_results s' = es_results s @ [res]" using assms(3) by (simp add: counted_step_def)
  have q: "quarantined_members (gs @ [g]) (es_results s') = ?q @ ?n"
    using len by (simp add: quarantined_members_def res)
  have l2: "list_all2 (well_decided c) (gs @ [g]) (es_results s')"
    using assms(1,2) by (simp add: engine_inv_def res list_all2_appendI)
  have del: "counted (es_directory_deletes s') d = top_count d ?q + top_count d ?n" for d
    using assms(1,4) by (simp add: engine_inv_def step_effect_def Let_def)
  have rec: "counted (es_recursive_quarantines s') d = below_count d ?q + below_count d ?n"
    "counted (es_recursive_quarantines s) d = below_count d ?q" if "is_recursive c \<and> counts \<noteq> None" for d
    using assms(1,4) that by (simp_all add: engine_inv_def step_effect_def Let_def)
  have deep: "\<exists>k. m d = Some k \<and> below_count d ?q + below_count d ?n < k"
    if "counts = Some m" "is_recursive c" "below_count d ?q + below_count d ?n > 0" for m d
  proof (cases "below_count d ?n > 0")
    case True
    then show ?thesis using assms(4) that rec(2) [of d] unfolding step_effect_def by auto
  next
    case False
    then have "below_count d ?n = 0" using counts_nonneg(1) [of d ?n] by simp
    then show ?thesis using assms(1) that unfolding engine_inv_def Let_def by auto
  qed
  have flat: "top_count d ?q + top_count d ?n < k"
    if "counts = Some m" "\<not> is_recursive c" "m d = Some k" "top_count d ?q + top_count d ?n > 0" for m d k
  proof (cases "top_count d ?n > 0")
    case True
    have "counted (es_directory_deletes s) d = top_count d ?q" using assms(1) by (simp add: engine_inv_def Let_def)
    then show ?thesis using assms(4) that True unfolding step_effect_def by metis
  next
    case False
    then have "top_count d ?n = 0" using counts_nonneg(2) [of d ?n] by simp
    then show ?thesis using assms(1) that unfolding engine_inv_def Let_def by auto
  qed
  show ?thesis
    unfolding engine_inv_def q Let_def counts_append using l2 del rec(1) deep flat by blast
qed

lemma run_inv:
  assumes "run_groups c roots counts pre gs s = Inr s'" "config_ok c" "engine_inv c counts before s" "totals_ok s"
  shows "engine_inv c counts (before @ gs) s' \<and> totals_ok s'"
  using assms
proof (induction gs arbitrary: s before)
  case Nil
  then show ?case by simp
next
  case (Cons g gs)
  then obtain s1 where s1: "step_group c roots counts pre g s = Inr s1" "run_groups c roots counts pre gs s1 = Inr s'"
    by (auto simp: bind_res_Inr)
  obtain res where res: "well_decided c g res" "counted_step s res s1" "step_effect c counts s (quarantined_of g res) s1"
    using step_sound [OF s1(1) Cons.prems(2)] by blast
  from Cons.IH [OF s1(2) Cons.prems(2) inv_step [OF Cons.prems(3) res] totals_step [OF Cons.prems(4) res(2)]]
  show ?case by simp
qed

lemma run_result:
  assumes "run_advanced_dedupe digest groups c scan_roots counts pre = Inr s" "config_ok c"
  shows "engine_inv c counts (group_order digest groups) s \<and> totals_ok s"
proof -
  obtain roots where r: "run_groups c roots counts pre (group_order digest groups) (engine_start (length roots)) = Inr s"
    using assms config_read_back [OF assms(2)] by (auto simp: run_advanced_dedupe_def bind_res_Inr)
  have "engine_inv c counts [] (engine_start (length roots))" "totals_ok (engine_start (length roots))"
    by (simp_all add: engine_inv_def engine_start_def totals_ok_def quarantined_members_def top_count_def below_count_def)
  from run_inv [OF r assms(2) this] show ?thesis by simp
qed

end
