(* ===== verification/DedupeTheorems.thy ===== *)
theory DedupeTheorems
  imports DedupeSafety
begin

section \<open>The theorems about the advanced planner\<close>

subsection \<open>Examples\<close>

definition sample_member :: "string \<Rightarrow> int \<Rightarrow> bool \<Rightarrow> member_snapshot" where
  "sample_member rel mtime keep = \<lparr>dm_absolute_path = ''/data/'' @ rel, dm_relative_path = rel, dm_scan_root_index = 0,
     dm_scan_root_path = ''/data'', dm_mtime_ns = mtime, dm_size = 5, dm_eligible_as_keep = keep, dm_safety_reasons = [],
     dm_top_level_dir = None\<rparr>"

definition sample_group :: "int \<Rightarrow> string list \<Rightarrow> group_snapshot" where
  "sample_group i rels = \<lparr>gs_provenance_id = ProvInt i, gs_content_hash = ''h'', gs_file_size = 5,
     gs_members = map (\<lambda>r. sample_member r 0 True) rels\<rparr>"

definition recursive_config :: dedupe_config where
  "recursive_config = sample_config\<lparr>dc_selection_mode := ''recursive_directory_balanced_by_bytes''\<rparr>"

definition sample_counts :: "string \<rightharpoonup> int" where
  "sample_counts = [''/data'' \<mapsto> 4, ''/data/a'' \<mapsto> 2, ''/data/b'' \<mapsto> 2, ''/data/b/c'' \<mapsto> 1]"

definition sample_groups :: "group_snapshot list" where
  "sample_groups = [sample_group 1 [''a/x'', ''b/x''], sample_group 2 [''a/y'', ''b/c/y'']]"

lemma sample_run:
  "\<exists>s. run_advanced_dedupe concat sample_groups recursive_config [''/data''] (Some sample_counts) Map.empty = Inr s \<and>
     map gd_quarantine_candidates (es_results s) = [[''/data/b/x''], [''/data/a/y'']]"
proof -
  have "case run_advanced_dedupe concat sample_groups recursive_config [''/data''] (Some sample_counts) Map.empty of
      Inr s \<Rightarrow> map gd_quarantine_candidates (es_results s) = [[''/data/b/x''], [''/data/a/y'']] | Inl e \<Rightarrow> False"
    by code_simp
  then show ?thesis
    by (cases "run_advanced_dedupe concat sample_groups recursive_config [''/data''] (Some sample_counts) Map.empty") auto
qed

lemma sample_config_ok: "config_ok recursive_config"
  by code_simp

subsection \<open>One file of every group is kept\<close>



subsection \<open>Protected directories keep a file\<close>

text \<open>
  C31: with the last-file protection on, a whole run never quarantines the last file of a directory
  it has a count for. In the recursive mode this holds of every directory at every depth below a
  scan root, and a file below a directory without a count is never touched; in the other modes it
  holds of the directories right below the scan roots.
\<close>

theorem last_files_survive:
  assumes "run_advanced_dedupe digest groups c scan_roots (Some n) pre = Inr s" "config_ok c"
  shows "let q = quarantined_members (group_order digest groups) (es_results s) in
    (is_recursive c \<longrightarrow> (\<forall>d. below_count d q > 0 \<longrightarrow> (\<exists>k. n d = Some k \<and> below_count d q < k))) \<and>
    (\<not> is_recursive c \<longrightarrow> (\<forall>d k. n d = Some k \<longrightarrow> top_count d q > 0 \<longrightarrow> top_count d q < k))"
  using run_result [OF assms] unfolding engine_inv_def Let_def by blast

theorem last_files_survive_witness:
  "\<exists>s. run_advanced_dedupe concat sample_groups recursive_config [''/data''] (Some sample_counts) Map.empty = Inr s \<and>
     below_count ''/data/b/c'' (quarantined_members (group_order concat sample_groups) (es_results s)) = 0"
proof -
  obtain s where s: "run_advanced_dedupe concat sample_groups recursive_config [''/data''] (Some sample_counts) Map.empty = Inr s"
    using sample_run by blast
  have c: "is_recursive recursive_config" "sample_counts ''/data/b/c'' = Some 1"
    by (simp_all add: is_recursive_def recursive_config_def sample_counts_def)
  let ?q = "quarantined_members (group_order concat sample_groups) (es_results s)"
  have "below_count ''/data/b/c'' ?q > 0 \<longrightarrow> (\<exists>k. sample_counts ''/data/b/c'' = Some k \<and> below_count ''/data/b/c'' ?q < k)"
    using last_files_survive [OF s sample_config_ok] c(1) unfolding Let_def by blast
  then have "below_count ''/data/b/c'' ?q = 0" using c(2) counts_nonneg(1) [of "''/data/b/c''" ?q] by fastforce
  then show ?thesis using s by blast
qed

subsection \<open>How ties are broken\<close>

lemma check_roots_length: "check_roots i seen rs = Inr roots \<Longrightarrow> length roots = length seen + length rs"
  by (induction i seen rs rule: check_roots.induct) (auto simp: Let_def split: if_splits)

lemma min_by_least: "x \<in> set xs \<Longrightarrow> f (the (min_by f xs)) \<le> f x"
  using min_by_Some [of xs f] min_by_le [of f xs _ x] by force

lemma max0_in: "xs \<noteq> [] \<Longrightarrow> max0 xs \<in> set xs"
proof -
  have "fold max ys y \<in> insert y (set ys)" for y and ys :: "int list"
  proof (induction ys arbitrary: y)
    case (Cons z zs)
    from Cons.IH [of "max z y"] show ?case by (auto simp: max_def split: if_splits)
  qed simp
  then show "xs \<noteq> [] \<Longrightarrow> max0 xs \<in> set xs" by (cases xs) (auto simp: max0_def)
qed

lemma winner_choice:
  assumes "select_winner c g roots rl eligible tops = Inr (w, reason)" "set tops \<subseteq> set eligible" "m \<in> set tops"
  shows "(dc_selection_mode c = ''weighted'' \<longrightarrow> norm_key w \<le> norm_key m) \<and>
    (dc_selection_mode c = ''balanced_by_bytes'' \<longrightarrow>
       balance_key (rl_by_root rl) (length roots) g w \<le> balance_key (rl_by_root rl) (length roots) g m)"
proof -
  have single: "hd xs = m" if "length xs = 1" "m \<in> set xs" for xs :: "member_snapshot list"
    using that by (cases xs) auto
  consider "length eligible = 1" | "length eligible \<noteq> 1" "length tops = 1" | "length eligible \<noteq> 1" "length tops \<noteq> 1" by blast
  then show ?thesis
  proof cases
    case 1
    then show ?thesis using assms single [of eligible] by (auto simp: select_winner_def)
  next
    case 2
    then show ?thesis using assms single [of tops] by (auto simp: select_winner_def)
  next
    case 3
    then show ?thesis using assms(1,3) by (auto simp: select_winner_def min_by_least split: if_splits)
  qed
qed

lemma evaluated_choice:
  assumes "evaluate_group g c scan_roots rl counts scheduled = Inr res" "gd_recommended_keep res = Some w" "config_ok c" "\<not> is_recursive c"
  shows "\<exists>roots reason. validate_authoritative_scan_roots scan_roots = Inr roots \<and>
    (let E = filter dm_eligible_as_keep (gs_members g) in
     select_winner c g roots rl E (top_scored c E) = Inr (w, reason))"
proof -
  let ?E = "filter dm_eligible_as_keep (gs_members g)"
  have sk: "gd_recommended_keep (make_skipped_group_result g' why reason) \<noteq> Some w" for g' why reason
    by (simp add: make_skipped_group_result_def)
  obtain roots where roots: "validate_authoritative_scan_roots scan_roots = Inr roots"
    and e: "evaluate_eligible c g roots rl counts scheduled = Inr res"
    using assms(1,2) sk unfolding evaluate_group_def config_read_back [OF assms(3)]
    by (auto simp: bind_res_Inr config_res_def split: if_splits option.splits)
  have nr: "dc_selection_mode c \<noteq> ''recursive_directory_balanced_by_bytes''" using assms(4) by (simp add: is_recursive_def)
  have "(case counts of None \<Rightarrow> Inr (map (\<lambda>m. (m, False)) (top_scored c ?E))
      | Some n \<Rightarrow> Inr (map (\<lambda>m. (m, False)) (top_scored c ?E))) = Inr (map (\<lambda>m. (m, False)) (top_scored c ?E))"
    by (cases counts) simp_all
  then obtain reason where "select_winner c g roots rl ?E (top_scored c ?E) = Inr (w, reason)"
    using e assms(2) sk nr unfolding evaluate_eligible_def Let_def
    by (auto simp: bind_res_Inr comp_def filter_map actionable_decision_def Let_def split: if_splits option.splits)
  then show ?thesis using roots by (auto simp: Let_def)
qed

text \<open>
  C33: among the eligible members with the best score, the weighted mode keeps the one with the least
  normalised path; the balanced mode keeps one whose choice leaves the smallest difference between
  the bytes released under the scan roots, given what the run released so far.
\<close>

theorem ties_broken_by_mode:
  assumes "evaluate_group g c scan_roots rl counts scheduled = Inr res" "gd_recommended_keep res = Some w"
    and "config_ok c" "\<not> is_recursive c"
    and m: "m \<in> set (gs_members g)" "dm_eligible_as_keep m"
    and best: "let E = filter dm_eligible_as_keep (gs_members g) in member_score c E m = member_score c E w"
  shows "(dc_selection_mode c = ''weighted'' \<longrightarrow> norm_key w \<le> norm_key m) \<and>
    (dc_selection_mode c = ''balanced_by_bytes'' \<longrightarrow>
       spread (simulate_roots (rl_by_root rl) (length scan_roots) g w) \<le> spread (simulate_roots (rl_by_root rl) (length scan_roots) g m))"
proof -
  let ?E = "filter dm_eligible_as_keep (gs_members g)"
  obtain roots reason where r: "validate_authoritative_scan_roots scan_roots = Inr roots"
    and w: "select_winner c g roots rl ?E (top_scored c ?E) = Inr (w, reason)"
    using evaluated_choice [OF assms(1-4)] by (auto simp: Let_def)
  have len: "length roots = length scan_roots"
    using r check_roots_length by (fastforce simp: validate_authoritative_scan_roots_def split: if_splits)
  have sub: "set (top_scored c ?E) \<subseteq> set ?E" by (auto simp: top_scored_iff)
  have ne: "top_scored c ?E \<noteq> []"
  proof -
    have "?E \<noteq> []" using m by (auto simp: filter_empty_conv)
    then have "max0 (map (member_score c ?E) ?E) \<in> set (map (member_score c ?E) ?E)" by (intro max0_in) simp
    then have "\<exists>x \<in> set ?E. member_score c ?E x = max0 (map (member_score c ?E) ?E)" by auto
    then show ?thesis using top_scored_iff [of _ c ?E] by (metis list.set(1) empty_iff)
  qed
  have "w \<in> set (top_scored c ?E)" by (rule winner_in [OF w ne sub])
  then have "m \<in> set (top_scored c ?E)" using m best unfolding top_scored_iff by (simp add: Let_def)
  from winner_choice [OF w sub this] show ?thesis
    unfolding len balance_key_def Let_def by (auto simp: less_eq_prod_def)
qed

theorem ties_broken_by_mode_witness:
  "\<exists>res. evaluate_group (sample_group 1 [''a/x'', ''b/x'']) (sample_config\<lparr>dc_selection_mode := ''weighted''\<rparr>) [''/data'']
       (es_released (engine_start 1)) None Map.empty = Inr res \<and>
     (\<exists>w. gd_recommended_keep res = Some w \<and> norm_key w \<le> norm_key (sample_member ''b/x'' 0 True))"
proof -
  let ?c = "sample_config\<lparr>dc_selection_mode := ''weighted''\<rparr>" and ?g = "sample_group 1 [''a/x'', ''b/x'']"
  have "case evaluate_group ?g ?c [''/data''] (es_released (engine_start 1)) None Map.empty of Inl e \<Rightarrow> False
    | Inr res \<Rightarrow> gd_recommended_keep res = Some (sample_member ''a/x'' 0 True)"
    by code_simp
  then obtain res where res: "evaluate_group ?g ?c [''/data''] (es_released (engine_start 1)) None Map.empty = Inr res"
    "gd_recommended_keep res = Some (sample_member ''a/x'' 0 True)"
    by (cases "evaluate_group ?g ?c [''/data''] (es_released (engine_start 1)) None Map.empty") auto
  have h: "config_ok ?c" "\<not> is_recursive ?c" "sample_member ''b/x'' 0 True \<in> set (gs_members ?g)"
    "dm_eligible_as_keep (sample_member ''b/x'' 0 True)" "dc_selection_mode ?c = ''weighted''"
    "let E = filter dm_eligible_as_keep (gs_members ?g) in
       member_score ?c E (sample_member ''b/x'' 0 True) = member_score ?c E (sample_member ''a/x'' 0 True)"
    by code_simp+
  from ties_broken_by_mode [OF res h(1-4) h(6)] h(5) res show ?thesis by blast
qed

subsection \<open>The directories above a file\<close>

text \<open>
  C34: for absolute paths, normalised lexically, the walk from a file to its scan root ends: exactly
  if the root is a proper ancestor of the file it returns the directories from the file's own up to
  the root, each once and deepest first; otherwise it reports that the file is no descendant.
\<close>

theorem ancestry_exact:
  assumes "prefix ''/'' file" "prefix ''/'' root"
  shows "directory_ancestors_to_scan_root file root =
    (if strict_prefix (root_comps root) (root_comps file)
     then Inr (map (\<lambda>n. abs_path (take n (root_comps file))) (rev [length (root_comps root)..<length (root_comps file)]))
     else Inl NotDescendant)"
proof -
  let ?r = "root_comps root" and ?f = "root_comps file"
  have cl: "list_all clean_comp ?r" "list_all clean_comp ?f" by (rule root_comps_clean)+
  have n: "normalize_dedupe_path file = abs_path ?f" "normalize_dedupe_path root = abs_path ?r"
    using assms by (simp_all add: normalize_absolute)
  show ?thesis
  proof (cases "strict_prefix ?r ?f")
    case True
    then obtain ds x where f: "?f = ?r @ ds @ [x]"
      by (metis strict_prefixE' append_assoc rev_exhaust append_Cons append_Nil list.distinct(1))
    have "directory_ancestors_to_scan_root (abs_path (?r @ ds @ [x])) (abs_path ?r) =
        Inr (map (\<lambda>i. abs_path (?r @ take i ds)) (rev [0..<Suc (length ds)]))"
      by (rule ancestors_below) (use cl f in simp)
    moreover have "directory_ancestors_to_scan_root file root = directory_ancestors_to_scan_root (abs_path ?f) (abs_path ?r)"
      by (simp add: directory_ancestors_to_scan_root_def n normalize_abs [OF cl(1)] normalize_abs [OF cl(2)])
    moreover have "map (\<lambda>i. abs_path (?r @ take i ds)) (rev [0..<Suc (length ds)]) =
        map (\<lambda>n. abs_path (take n ?f)) (rev [length ?r..<length ?f])"
    proof -
      have "[length ?r..<length ?f] = map (\<lambda>i. i + length ?r) [0..<Suc (length ds)]"
        by (subst map_add_upt) (simp add: f add.commute)
      then have "map (\<lambda>n. abs_path (take n ?f)) (rev [length ?r..<length ?f]) =
          map (\<lambda>i. abs_path (take (i + length ?r) (?r @ ds @ [x]))) (rev [0..<Suc (length ds)])"
        unfolding f [symmetric] by (simp add: rev_map [symmetric] comp_def del: upt_Suc)
      also have "\<dots> = map (\<lambda>i. abs_path (?r @ take i ds)) (rev [0..<Suc (length ds)])"
        by (rule map_cong [OF refl]) auto
      finally show ?thesis by simp
    qed
    ultimately show ?thesis using True f by simp
  next
    case False
    then have "\<not> is_lexical_contained (abs_path ?f) (abs_path ?r) \<or> abs_path ?f = abs_path ?r"
      using contained_iff [OF cl(2,1)] abs_path_eq [OF cl(2,1)] by (auto simp: strict_prefix_def)
    then show ?thesis using False by (simp add: directory_ancestors_to_scan_root_def n)
  qed
qed

theorem ancestry_exact_witness:
  "directory_ancestors_to_scan_root ''//data/./a/b/../c/f'' ''/data/'' = Inr [''/data/a/c'', ''/data/a'', ''/data'']"
proof -
  have h: "prefix ''/'' ''//data/./a/b/../c/f''" "prefix ''/'' ''/data/''" by simp_all
  have "root_comps ''//data/./a/b/../c/f'' = [''data'', ''a'', ''c'', ''f'']" "root_comps ''/data/'' = [''data'']" by code_simp+
  then show ?thesis using ancestry_exact [OF h] by (simp add: abs_path_def upt_rec)
qed

end
