(* ===== verification/WorkflowDefs.thy ===== *)
theory WorkflowDefs
  imports WorkflowSteps FilterValid DedupeConfig SchedulerSchema PyJson
begin

section \<open>Workflow definitions and their validation\<close>

text \<open>
  Models the definition of app/workflows/schema.py, what \<open>model_dump\<close> makes of it, revisions.py and
  validation.py. The profile of an organize step keeps its name; its other fields are the JSON that
  its model dumps. \<open>UniqueViolation\<close> is the database's refusal of a second row with the same key,
  \<open>UnreadableDefinition\<close> a stored text that \<open>json.loads\<close> refuses. A \<open>WorkflowValidationError\<close> is its code. The session, which may be absent, is the
  ids of the index roots.
\<close>

subsection \<open>Definitions\<close>

record scan_step =
  sn_id :: string
  sn_root_ids :: "int list"
  sn_subpath :: string

record organizer_snapshot =
  og_name :: string
  og_fields :: fields

record collapse_step =
  cl_id :: string
  cl_root_id :: int
  cl_subpath :: string

datatype workflow_step =
    ScanStep scan_step
  | FilterStep string filter_node
  | RenameStep rename_step
  | MoveStep move_step
  | TouchStep touch_step
  | QuarantineStep quarantine_step
  | OrganizeStep string organizer_snapshot
  | DedupeStep string json
  | CollapseStep collapse_step

record workflow_definition =
  wd_schema_version :: int
  wd_mode :: string
  wd_steps :: "workflow_step list"

datatype workflow_error =
    ValidationError string
  | InvalidScorerConfig config_error
  | RevisionConflict int int
  | NoSuchWorkflow
  | NoSuchRevision int
  | ArchivedWorkflow
  | NotArchivedWorkflow
  | ActivePlanDependency "int list"
  | BuiltinImmutable
  | UniqueViolation
  | UnreadableDefinition

definition step_id :: "workflow_step \<Rightarrow> string" where
  "step_id st = (case st of
      ScanStep s \<Rightarrow> sn_id s | FilterStep i f \<Rightarrow> i | RenameStep r \<Rightarrow> rn_id r | MoveStep v \<Rightarrow> mv_id v
    | TouchStep t \<Rightarrow> to_id t | QuarantineStep u \<Rightarrow> qu_id u | OrganizeStep i g \<Rightarrow> i
    | DedupeStep i c \<Rightarrow> i | CollapseStep c \<Rightarrow> cl_id c)"

definition step_type :: "workflow_step \<Rightarrow> string" where
  "step_type st = (case st of
      ScanStep s \<Rightarrow> ''scan'' | FilterStep i f \<Rightarrow> ''filter'' | RenameStep r \<Rightarrow> ''rename'' | MoveStep v \<Rightarrow> ''move''
    | TouchStep t \<Rightarrow> ''touch'' | QuarantineStep u \<Rightarrow> ''quarantine'' | OrganizeStep i g \<Rightarrow> ''organize''
    | DedupeStep i c \<Rightarrow> ''dedupe'' | CollapseStep c \<Rightarrow> ''single_child_wrapper_collapse'')"

subsection \<open>Dumping\<close>

fun dump_filter :: "filter_node \<Rightarrow> json" where
  "dump_filter (LeafNode field operator val cs) =
     JObj [(''field'', JStr field), (''operator'', JStr operator), (''value'', val), (''case_sensitive'', JBool cs)]"
| "dump_filter (LogicalNode op children child) =
     JObj [(''op'', JStr op),
       (''children'', case children of None \<Rightarrow> JNull | Some cs \<Rightarrow> JList (map dump_filter cs)),
       (''child'', case child of None \<Rightarrow> JNull | Some c \<Rightarrow> dump_filter c)]"

definition dump_step :: "workflow_step \<Rightarrow> json" where
  "dump_step st = JObj ([(''id'', JStr (step_id st)), (''type'', JStr (step_type st))] @ (case st of
      ScanStep s \<Rightarrow> [(''root_ids'', j_ints (sn_root_ids s)), (''subpath'', JStr (sn_subpath s))]
    | FilterStep i f \<Rightarrow> [(''filter'', dump_filter f)]
    | RenameStep r \<Rightarrow> [(''pattern'', JStr (rn_pattern r)), (''replacement'', JStr (rn_replacement r))]
    | MoveStep v \<Rightarrow> [(''destination_root_id'', JInt (mv_destination_root_id v)),
                     (''destination_subpath'', JStr (mv_destination_subpath v))]
    | TouchStep t \<Rightarrow> [(''mtime_ns'', j_opt JInt (to_mtime_ns t)), (''touch_now'', JBool (to_touch_now t))]
    | QuarantineStep u \<Rightarrow> [(''reason'', JStr (qu_reason u))]
    | OrganizeStep i g \<Rightarrow> [(''profile_snapshot'', JObj ((''name'', JStr (og_name g)) # og_fields g))]
    | DedupeStep i c \<Rightarrow> [(''scorer_config'', c)]
    | CollapseStep c \<Rightarrow> [(''root_id'', JInt (cl_root_id c)), (''subpath'', JStr (cl_subpath c))]))"

definition dump_definition :: "workflow_definition \<Rightarrow> json" where
  "dump_definition w = JObj [(''schema_version'', JInt (wd_schema_version w)), (''mode'', JStr (wd_mode w)),
     (''steps'', JList (map dump_step (wd_steps w)))]"

text \<open>The text of \<open>json.dumps(..., sort_keys=True, separators=(',', ':'))\<close>, and its digest.\<close>

fun json_compact :: "json \<Rightarrow> string" where
  "json_compact JNull = ''null''"
| "json_compact (JBool b) = (if b then ''true'' else ''false'')"
| "json_compact (JInt i) = str_of_int i"
| "json_compact (JStr s) = quote_json s"
| "json_compact (JList xs) = ''['' @ join_with '','' (map json_compact xs) @ '']''"
| "json_compact (JObj kvs) =
     ''{'' @ join_with '','' (map (\<lambda>kv. quote_json (fst kv) @ '':'' @ json_compact (snd kv)) kvs) @ ''}''"

definition canonical_json_dumps :: "json \<Rightarrow> string" where
  "canonical_json_dumps data = json_compact (sort_keys data)"

definition compute_definition_sha256 :: "(string \<Rightarrow> string) \<Rightarrow> json \<Rightarrow> string" where
  "compute_definition_sha256 digest data = digest (canonical_json_dumps data)"

subsection \<open>The check of raw steps\<close>

definition RESERVED_UNSUPPORTED_STEPS :: "string list" where
  "RESERVED_UNSUPPORTED_STEPS = [''copy'', ''delete'', ''remove'', ''unlink'']"

definition ALLOWED_STEP_TYPES :: "string list" where
  "ALLOWED_STEP_TYPES = [''scan'', ''filter'', ''rename'', ''move'', ''touch'', ''quarantine'', ''organize'',
     ''dedupe'', ''single_child_wrapper_collapse'']"

definition reserved_steps :: "string option \<Rightarrow> string list" where
  "reserved_steps mode = RESERVED_UNSUPPORTED_STEPS
     @ (if mode \<noteq> Some ''dedupe'' then [''dedupe''] else [])
     @ (if mode \<noteq> Some ''utility'' then [''single_child_wrapper_collapse''] else [])"

text \<open>A \<open>type\<close> that is no string prints as a text that names no step.\<close>

definition validate_raw_step :: "string option \<Rightarrow> json \<Rightarrow> workflow_error + unit" where
  "validate_raw_step mode raw = (case raw of
      JObj kvs \<Rightarrow> (case (case map_of kvs ''type'' of None \<Rightarrow> JStr [] | Some v \<Rightarrow> v) of
          JStr s \<Rightarrow> (let t = py_lower (py_strip s) in
              if t = [] then Inl (ValidationError ''INVALID_STEP_PAYLOAD'')
              else if t \<in> set (reserved_steps mode) \<or> t \<notin> set ALLOWED_STEP_TYPES
              then Inl (ValidationError ''UNSUPPORTED_STEP'') else Inr ())
        | _ \<Rightarrow> Inl (ValidationError ''UNSUPPORTED_STEP''))
    | _ \<Rightarrow> Inl (ValidationError ''INVALID_STEP_PAYLOAD''))"

definition validate_raw_steps_types :: "json list \<Rightarrow> string option \<Rightarrow> workflow_error + unit" where
  "validate_raw_steps_types raw mode = bind_res (map_res (validate_raw_step mode) raw) (\<lambda>_. Inr ())"

subsection \<open>Step identifiers\<close>

fun check_step_ids :: "workflow_step list \<Rightarrow> string list \<Rightarrow> workflow_error + unit" where
  "check_step_ids [] seen = Inr ()"
| "check_step_ids (st # rest) seen = (let i = py_strip (step_id st) in
     if i = [] then Inl (ValidationError ''INVALID_STEP_ID'')
     else if i \<in> set seen then Inl (ValidationError ''DUPLICATE_STEP_ID'')
     else check_step_ids rest (i # seen))"

subsection \<open>The pipeline of each mode\<close>

abbreviation structure_error :: "workflow_error + 'a" where
  "structure_error \<equiv> Inl (ValidationError ''INVALID_PIPELINE_STRUCTURE'')"

definition is_scan :: "workflow_step \<Rightarrow> bool" where "is_scan st = (case st of ScanStep _ \<Rightarrow> True | _ \<Rightarrow> False)"
definition is_filter_step :: "workflow_step \<Rightarrow> bool" where "is_filter_step st = (case st of FilterStep _ _ \<Rightarrow> True | _ \<Rightarrow> False)"
definition is_organize :: "workflow_step \<Rightarrow> bool" where "is_organize st = (case st of OrganizeStep _ _ \<Rightarrow> True | _ \<Rightarrow> False)"
definition is_dedupe :: "workflow_step \<Rightarrow> bool" where "is_dedupe st = (case st of DedupeStep _ _ \<Rightarrow> True | _ \<Rightarrow> False)"
definition is_collapse :: "workflow_step \<Rightarrow> bool" where "is_collapse st = (case st of CollapseStep _ \<Rightarrow> True | _ \<Rightarrow> False)"
definition is_quarantine :: "workflow_step \<Rightarrow> bool" where "is_quarantine st = (case st of QuarantineStep _ \<Rightarrow> True | _ \<Rightarrow> False)"
definition is_action :: "workflow_step \<Rightarrow> bool" where
  "is_action st = (case st of RenameStep _ \<Rightarrow> True | MoveStep _ \<Rightarrow> True | TouchStep _ \<Rightarrow> True | QuarantineStep _ \<Rightarrow> True | _ \<Rightarrow> False)"

text \<open>The loop of the file mode, with \<open>saw_action\<close> and \<open>quarantine_index\<close>.\<close>

fun file_pipeline :: "nat \<Rightarrow> workflow_step list \<Rightarrow> bool \<Rightarrow> int \<Rightarrow> workflow_error + int" where
  "file_pipeline idx [] saw_action quarantine_index = Inr quarantine_index"
| "file_pipeline idx (st # rest) saw_action quarantine_index =
     (if is_organize st then structure_error
      else if is_scan st then (if idx \<noteq> 0 then structure_error else file_pipeline (idx + 1) rest saw_action quarantine_index)
      else if is_filter_step st then (if saw_action then structure_error else file_pipeline (idx + 1) rest saw_action quarantine_index)
      else if is_action st then file_pipeline (idx + 1) rest True (if is_quarantine st then int idx else quarantine_index)
      else file_pipeline (idx + 1) rest saw_action quarantine_index)"

definition check_pipeline :: "workflow_definition \<Rightarrow> workflow_error + unit" where
  "check_pipeline w = (let steps = wd_steps w in
     if wd_mode w = ''dedupe''
     then (if length steps \<noteq> 1 \<or> \<not> is_dedupe (hd steps) then structure_error else Inr ())
     else if wd_mode w = ''utility''
     then (if length steps \<noteq> 1 \<or> \<not> is_collapse (hd steps) then structure_error else Inr ())
     else if wd_mode w = ''organizer''
     then (if list_ex (\<lambda>st. is_dedupe st \<or> is_collapse st) steps then structure_error
           else if length steps \<noteq> 2 then structure_error
           else if \<not> is_scan (hd steps) then structure_error
           else if \<not> is_organize (steps ! 1) then structure_error else Inr ())
     else if wd_mode w = ''file''
     then (if list_ex (\<lambda>st. is_dedupe st \<or> is_collapse st) steps then structure_error
           else if \<not> is_scan (hd steps) then structure_error
           else bind_res (file_pipeline 0 steps False (-1)) (\<lambda>qi.
             if qi \<noteq> -1 \<and> qi \<noteq> int (length steps) - 1 then structure_error else Inr ()))
     else Inl (ValidationError ''UNSUPPORTED_MODE''))"

subsection \<open>The parameters of each step\<close>

text \<open>Roots are looked up in the session, when there is one.\<close>

definition missing_roots :: "int list option \<Rightarrow> int list \<Rightarrow> bool" where
  "missing_roots session ids = (case session of None \<Rightarrow> False | Some known \<Rightarrow> list_ex (\<lambda>i. i \<notin> set known) ids)"

definition unsafe_subpath :: "string \<Rightarrow> bool" where
  "unsafe_subpath s \<longleftrightarrow> s \<noteq> [] \<and> (let sub = py_strip s in
     sublist ''..'' sub \<or> prefix ''/'' sub \<or> prefix [CHR 0x5C] sub)"

definition has_separator :: "string \<Rightarrow> bool" where
  "has_separator s \<longleftrightarrow> CHR ''/'' \<in> set s \<or> CHR 0x5C \<in> set s"

text \<open>The code of this error depends on the message, which is not modelled: it carries its cause.\<close>

definition validate_and_canonicalize_workflow_scorer_config :: "json \<Rightarrow> workflow_error + json" where
  "validate_and_canonicalize_workflow_scorer_config raw = (case validate_and_canonicalize_config raw of
      Inr cfg \<Rightarrow> Inr (canonical_config_dict cfg)
    | Inl e \<Rightarrow> Inl (InvalidScorerConfig e))"

definition validate_single_step :: "int list option \<Rightarrow> workflow_step \<Rightarrow> workflow_error + unit" where
  "validate_single_step session st = (case st of
      ScanStep s \<Rightarrow>
        bind_res (ensure (\<not> unsafe_subpath (sn_subpath s)) (ValidationError ''INVALID_SUBPATH'')) (\<lambda>_.
        ensure (\<not> missing_roots session (sn_root_ids s)) (ValidationError ''INDEX_ROOT_NOT_FOUND''))
    | CollapseStep c \<Rightarrow>
        bind_res (ensure (\<not> unsafe_subpath (cl_subpath c)) (ValidationError ''INVALID_SUBPATH'')) (\<lambda>_.
        ensure (\<not> missing_roots session [cl_root_id c]) (ValidationError ''INDEX_ROOT_NOT_FOUND''))
    | FilterStep i f \<Rightarrow> (case validate_filter f of
          Inl e \<Rightarrow> Inl (ValidationError ''INVALID_FILTER_EXPRESSION'') | Inr v \<Rightarrow> Inr ())
    | RenameStep r \<Rightarrow>
        bind_res (ensure (rn_pattern r \<noteq> [] \<and> \<not> has_separator (rn_pattern r)) (ValidationError ''INVALID_RENAME_PATTERN'')) (\<lambda>_.
        ensure (\<not> has_separator (rn_replacement r)) (ValidationError ''INVALID_RENAME_REPLACEMENT''))
    | MoveStep v \<Rightarrow>
        bind_res (ensure (mv_destination_root_id v > 0) (ValidationError ''INVALID_DESTINATION_ROOT'')) (\<lambda>_.
        bind_res (ensure (\<not> missing_roots session [mv_destination_root_id v]) (ValidationError ''INDEX_ROOT_NOT_FOUND'')) (\<lambda>_.
        ensure (\<not> unsafe_subpath (mv_destination_subpath v)) (ValidationError ''INVALID_SUBPATH'')))
    | TouchStep t \<Rightarrow> (case to_mtime_ns t of None \<Rightarrow> Inr ()
        | Some ns \<Rightarrow> ensure (0 \<le> ns \<and> ns \<le> INT64_MAX) (ValidationError ''INVALID_MTIME_NS''))
    | QuarantineStep u \<Rightarrow> ensure (py_strip (qu_reason u) \<noteq> []) (ValidationError ''INVALID_QUARANTINE_REASON'')
    | OrganizeStep i g \<Rightarrow> ensure (py_strip (og_name g) \<noteq> []) (ValidationError ''INVALID_PROFILE_SNAPSHOT'')
    | DedupeStep i c \<Rightarrow> bind_res (validate_and_canonicalize_workflow_scorer_config c) (\<lambda>_. Inr ()))"

definition validate_workflow_definition :: "workflow_definition \<Rightarrow> int list option \<Rightarrow> workflow_error + unit" where
  "validate_workflow_definition w session =
     bind_res (ensure (wd_steps w \<noteq> []) (ValidationError ''EMPTY_STEPS'')) (\<lambda>_.
     bind_res (check_step_ids (wd_steps w) []) (\<lambda>_.
     bind_res (check_pipeline w) (\<lambda>_.
     bind_res (map_res (validate_single_step session) (wd_steps w)) (\<lambda>_. Inr ()))))"

subsection \<open>Inputs at run time\<close>

definition resolve_mode_runtime_inputs :: "string \<Rightarrow> int list option \<Rightarrow> runtime_inputs option \<Rightarrow>
    workflow_error + (int option \<times> int list option)" where
  "resolve_mode_runtime_inputs mode root_ids inputs =
     (if mode = ''dedupe'' then
        (if root_ids \<noteq> None \<or> Option.bind inputs ri_root_ids \<noteq> None then Inl (ValidationError ''ROOT_IDS_FORBIDDEN'')
         else if Option.bind inputs ri_scan_job_id = None then Inl (ValidationError ''SCAN_JOB_ID_REQUIRED'')
         else Inr (Option.bind inputs ri_scan_job_id, None))
      else if mode \<in> {''file'', ''organizer''} then
        (if Option.bind inputs ri_scan_job_id \<noteq> None then Inl (ValidationError ''SCAN_JOB_ID_FORBIDDEN'')
         else if root_ids \<noteq> None \<and> inputs \<noteq> None then Inl (ValidationError ''AMBIGUOUS_RUNTIME_INPUTS'')
         else Inr (None, if Option.bind inputs ri_root_ids \<noteq> None then Option.bind inputs ri_root_ids else root_ids))
      else Inl (ValidationError ''UNSUPPORTED_MODE''))"

end
