(* ===== verification/WorkflowGrammar.thy ===== *)
theory WorkflowGrammar
  imports WorkflowDefs
begin

section \<open>The grammar of workflow definitions\<close>

text \<open>
  What the validation accepts, said without its loops: the shape of the steps for each mode and the
  condition on each step's parameters.
\<close>

definition pipeline_ok :: "string \<Rightarrow> workflow_step list \<Rightarrow> bool" where
  "pipeline_ok mode steps \<longleftrightarrow>
     mode = ''dedupe'' \<and> (\<exists>st. steps = [st] \<and> is_dedupe st) \<or>
     mode = ''utility'' \<and> (\<exists>st. steps = [st] \<and> is_collapse st) \<or>
     mode = ''organizer'' \<and> (\<exists>s g. steps = [s, g] \<and> is_scan s \<and> is_organize g) \<or>
     mode = ''file'' \<and> (\<exists>s filters actions. steps = s # filters @ actions \<and> is_scan s \<and>
        list_all is_filter_step filters \<and> list_all is_action actions \<and>
        (list_ex is_quarantine actions \<longrightarrow> is_quarantine (last actions)))"

definition roots_known :: "int list option \<Rightarrow> int list \<Rightarrow> bool" where
  "roots_known session ids \<longleftrightarrow> (\<forall>known. session = Some known \<longrightarrow> set ids \<subseteq> set known)"

definition step_ok :: "int list option \<Rightarrow> workflow_step \<Rightarrow> bool" where
  "step_ok session st \<longleftrightarrow> (case st of
      ScanStep s \<Rightarrow> \<not> unsafe_subpath (sn_subpath s) \<and> roots_known session (sn_root_ids s)
    | CollapseStep c \<Rightarrow> \<not> unsafe_subpath (cl_subpath c) \<and> roots_known session [cl_root_id c]
    | FilterStep i f \<Rightarrow> (\<exists>v. validate_filter f = Inr v)
    | RenameStep r \<Rightarrow> rn_pattern r \<noteq> [] \<and> \<not> has_separator (rn_pattern r) \<and> \<not> has_separator (rn_replacement r)
    | MoveStep v \<Rightarrow> mv_destination_root_id v > 0 \<and> roots_known session [mv_destination_root_id v] \<and>
        \<not> unsafe_subpath (mv_destination_subpath v)
    | TouchStep t \<Rightarrow> (\<forall>ns. to_mtime_ns t = Some ns \<longrightarrow> 0 \<le> ns \<and> ns \<le> INT64_MAX)
    | QuarantineStep u \<Rightarrow> py_strip (qu_reason u) \<noteq> []
    | OrganizeStep i g \<Rightarrow> py_strip (og_name g) \<noteq> []
    | DedupeStep i c \<Rightarrow> (\<exists>cfg. validate_and_canonicalize_config c = Inr cfg))"

definition definition_ok :: "workflow_definition \<Rightarrow> int list option \<Rightarrow> bool" where
  "definition_ok w session \<longleftrightarrow>
     distinct (map (\<lambda>st. py_strip (step_id st)) (wd_steps w)) \<and>
     list_all (\<lambda>st. py_strip (step_id st) \<noteq> []) (wd_steps w) \<and>
     pipeline_ok (wd_mode w) (wd_steps w) \<and> list_all (step_ok session) (wd_steps w)"

subsection \<open>Identifiers and single steps\<close>

lemma notin_image: "x \<notin> f ` A \<longleftrightarrow> (\<forall>u \<in> A. f u \<noteq> x)"
  by auto

lemma check_step_ids_iff:
  "check_step_ids steps seen = Inr () \<longleftrightarrow>
     distinct (map (\<lambda>st. py_strip (step_id st)) steps) \<and>
     list_all (\<lambda>st. py_strip (step_id st) \<noteq> [] \<and> py_strip (step_id st) \<notin> set seen) steps"
proof (induction steps arbitrary: seen)
  case (Cons st rest)
  have "py_strip (step_id st) \<notin> (\<lambda>st. py_strip (step_id st)) ` set rest \<longleftrightarrow>
      (\<forall>u \<in> set rest. py_strip (step_id u) \<noteq> py_strip (step_id st))" by (rule notin_image)
  with Cons show ?case by (auto simp: Let_def list_all_iff)
qed simp

lemma missing_roots_iff: "missing_roots session ids \<longleftrightarrow> \<not> roots_known session ids"
  by (auto simp: missing_roots_def roots_known_def list_ex_iff split: option.splits)

lemma validate_single_step_iff: "validate_single_step session st = Inr () \<longleftrightarrow> step_ok session st"
  by (cases st)
     (auto simp: validate_single_step_def step_ok_def bind_res_Inr missing_roots_iff
        validate_and_canonicalize_workflow_scorer_config_def split: option.splits sum.splits)

lemma map_res_unit: "(\<exists>us. map_res f xs = Inr us) \<longleftrightarrow> list_all (\<lambda>x. \<exists>u. f x = Inr u) xs"
  by (induction xs) (auto simp: bind_res_Inr)

subsection \<open>Pipelines\<close>

lemmas step_kind_defs = is_scan_def is_filter_step_def is_organize_def is_dedupe_def is_collapse_def
  is_quarantine_def is_action_def

lemma step_kinds:
  "is_filter_step st \<Longrightarrow> \<not> is_organize st \<and> \<not> is_scan st \<and> \<not> is_dedupe st \<and> \<not> is_collapse st \<and> \<not> is_action st"
  "is_action st \<Longrightarrow> \<not> is_organize st \<and> \<not> is_scan st \<and> \<not> is_dedupe st \<and> \<not> is_collapse st \<and> \<not> is_filter_step st"
  "is_scan st \<Longrightarrow> \<not> is_organize st \<and> \<not> is_dedupe st \<and> \<not> is_collapse st \<and> \<not> is_filter_step st \<and> \<not> is_action st"
  "is_organize st \<Longrightarrow> \<not> is_dedupe st \<and> \<not> is_collapse st"
  "is_quarantine st \<Longrightarrow> is_action st"
  "is_scan st \<or> is_filter_step st \<or> is_action st \<or> is_organize st \<or> is_dedupe st \<or> is_collapse st"
  by (cases st; simp add: step_kind_defs)+

text \<open>After the first action only actions are accepted; the result is the index of the last quarantine.\<close>

definition last_quarantine :: "nat \<Rightarrow> workflow_step list \<Rightarrow> int \<Rightarrow> int" where
  "last_quarantine idx steps qi = fold (\<lambda>(i, st) acc. if is_quarantine st then int i else acc) (enumerate idx steps) qi"

lemma last_quarantine_Cons:
  "last_quarantine idx (st # rest) qi = last_quarantine (Suc idx) rest (if is_quarantine st then int idx else qi)"
  by (simp add: last_quarantine_def)

lemma file_actions:
  "idx > 0 \<Longrightarrow> list_all (\<lambda>st. \<not> is_dedupe st \<and> \<not> is_collapse st) steps \<Longrightarrow>
   file_pipeline idx steps True qi = Inr r \<longleftrightarrow> list_all is_action steps \<and> r = last_quarantine idx steps qi"
proof (induction steps arbitrary: idx qi)
  case (Cons st rest)
  consider "is_scan st" | "is_filter_step st" | "is_action st" | "is_organize st"
    using step_kinds(6) [of st] Cons.prems by auto
  then show ?case
  proof cases
    case 1 then show ?thesis using Cons.prems step_kinds(3) [OF 1] by simp
  next
    case 2 then show ?thesis using Cons.prems step_kinds(1) [OF 2] by simp
  next
    case 3 then show ?thesis using Cons.prems Cons.IH [of "Suc idx"] step_kinds(2) [OF 3] by (simp add: last_quarantine_Cons)
  next
    case 4
    then have "\<not> is_action st" using step_kinds(2) by blast
    with 4 show ?thesis by simp
  qed
qed (auto simp: last_quarantine_def)

fun filters_then_actions :: "workflow_step list \<Rightarrow> bool" where
  "filters_then_actions [] = True"
| "filters_then_actions (st # rest) =
     (is_filter_step st \<and> filters_then_actions rest \<or> is_action st \<and> list_all is_action rest)"

lemma filters_then_actions_iff:
  "filters_then_actions steps \<longleftrightarrow>
     (\<exists>filters actions. steps = filters @ actions \<and> list_all is_filter_step filters \<and> list_all is_action actions)"
proof
  show "filters_then_actions steps \<Longrightarrow>
      \<exists>filters actions. steps = filters @ actions \<and> list_all is_filter_step filters \<and> list_all is_action actions"
  proof (induction steps)
    case (Cons st rest)
    show ?case
    proof (cases "is_filter_step st")
      case True
      with Cons step_kinds(1) [OF True] obtain fs as where "rest = fs @ as" "list_all is_filter_step fs" "list_all is_action as"
        by auto
      with True show ?thesis by (intro exI [of _ "st # fs"] exI [of _ as]) simp
    next
      case False
      with Cons.prems have "list_all is_action (st # rest)" by simp
      then show ?thesis by (intro exI [of _ "[]"] exI [of _ "st # rest"]) simp
    qed
  qed simp
next
  have "list_all is_filter_step filters \<Longrightarrow> list_all is_action actions \<Longrightarrow> filters_then_actions (filters @ actions)"
    for filters actions
    by (induction filters) (cases actions; simp)+
  then show "\<exists>filters actions. steps = filters @ actions \<and> list_all is_filter_step filters \<and> list_all is_action actions \<Longrightarrow>
      filters_then_actions steps" by blast
qed

lemma file_filters:
  "idx > 0 \<Longrightarrow> list_all (\<lambda>st. \<not> is_dedupe st \<and> \<not> is_collapse st) steps \<Longrightarrow>
   file_pipeline idx steps False qi = Inr r \<longleftrightarrow> filters_then_actions steps \<and> r = last_quarantine idx steps qi"
proof (induction steps arbitrary: idx qi)
  case (Cons st rest)
  consider "is_scan st" | "is_filter_step st" | "is_action st" | "is_organize st"
    using step_kinds(6) [of st] Cons.prems by auto
  then show ?case
  proof cases
    case 1 then show ?thesis using Cons.prems step_kinds(3) [OF 1] by simp
  next
    case 2
    then have "\<not> is_quarantine st" using step_kinds(1,5) by blast
    with 2 show ?thesis using Cons.prems Cons.IH [of "Suc idx"] step_kinds(1) [OF 2] by (simp add: last_quarantine_Cons)
  next
    case 3 then show ?thesis
      using Cons.prems file_actions [of "Suc idx" rest] step_kinds(2) [OF 3] by (simp add: last_quarantine_Cons)
  next
    case 4
    then have "\<not> is_filter_step st" "\<not> is_action st" using step_kinds(1,2) by blast+
    with 4 show ?thesis by simp
  qed
qed (auto simp: last_quarantine_def)

lemma last_quarantine_snoc:
  "last_quarantine idx (steps @ [st]) qi = (if is_quarantine st then int (idx + length steps) else last_quarantine idx steps qi)"
  by (induction steps arbitrary: idx qi) (simp_all add: last_quarantine_Cons, simp add: last_quarantine_def)

lemma last_quarantine_range:
  "last_quarantine idx steps qi = qi \<and> list_all (\<lambda>st. \<not> is_quarantine st) steps \<or>
   (int idx \<le> last_quarantine idx steps qi \<and> last_quarantine idx steps qi < int (idx + length steps) \<and> list_ex is_quarantine steps)"
proof (induction steps arbitrary: idx qi)
  case (Cons st rest)
  show ?case using Cons.IH [of "Suc idx" "if is_quarantine st then int idx else qi"]
    by (auto simp: last_quarantine_Cons list_ex_iff list_all_iff)
qed (simp add: last_quarantine_def)

lemma last_quarantine_last:
  "steps \<noteq> [] \<Longrightarrow> (let r = last_quarantine idx steps (-1) in r = -1 \<or> r = int (idx + length steps) - 1) \<longleftrightarrow>
     (list_ex is_quarantine steps \<longrightarrow> is_quarantine (last steps))"
proof (induction steps rule: rev_induct)
  case (snoc st steps)
  show ?case using last_quarantine_range [of idx steps "-1"]
    by (auto simp: Let_def last_quarantine_snoc list_ex_iff list_all_iff)
qed simp

lemma quarantines_last:
  assumes "list_all is_filter_step fs"
  shows "(list_ex is_quarantine (fs @ as) \<longrightarrow> is_quarantine (last (fs @ as))) \<longleftrightarrow>
    (list_ex is_quarantine as \<longrightarrow> is_quarantine (last as))"
proof -
  have "\<not> list_ex is_quarantine fs" using assms step_kinds(1,5) by (induction fs) auto
  then show ?thesis by (cases "as = []") auto
qed

lemma plain_steps:
  "list_all is_filter_step xs \<Longrightarrow> list_all (\<lambda>st. \<not> is_dedupe st \<and> \<not> is_collapse st) xs"
  "list_all is_action xs \<Longrightarrow> list_all (\<lambda>st. \<not> is_dedupe st \<and> \<not> is_collapse st) xs"
  by (induction xs) (simp_all add: step_kinds(1,2))

lemma no_plain: "\<not> list_ex (\<lambda>st. is_dedupe st \<or> is_collapse st) xs \<longleftrightarrow> list_all (\<lambda>st. \<not> is_dedupe st \<and> \<not> is_collapse st) xs"
  by (induction xs) auto

definition file_steps_ok :: "workflow_step list \<Rightarrow> bool" where
  "file_steps_ok rest \<longleftrightarrow> filters_then_actions rest \<and> (list_ex is_quarantine rest \<longrightarrow> is_quarantine (last rest))"

lemma file_steps_ok_iff:
  "file_steps_ok rest \<longleftrightarrow> (\<exists>filters actions. rest = filters @ actions \<and> list_all is_filter_step filters \<and>
     list_all is_action actions \<and> (list_ex is_quarantine actions \<longrightarrow> is_quarantine (last actions)))"
  unfolding file_steps_ok_def filters_then_actions_iff using quarantines_last by metis

lemma file_steps_ok_plain: "file_steps_ok rest \<Longrightarrow> list_all (\<lambda>st. \<not> is_dedupe st \<and> \<not> is_collapse st) rest"
  unfolding file_steps_ok_iff using plain_steps by auto

lemma file_loop_iff:
  assumes "is_scan s" "list_all (\<lambda>st. \<not> is_dedupe st \<and> \<not> is_collapse st) rest"
  shows "(\<exists>qi. file_pipeline 0 (s # rest) False (-1) = Inr qi \<and> (qi = -1 \<or> qi = int (length rest)))
    \<longleftrightarrow> file_steps_ok rest"
proof -
  let ?r = "last_quarantine 1 rest (-1)"
  have "file_pipeline 0 (s # rest) False (-1) = file_pipeline 1 rest False (-1)"
    using assms(1) step_kinds(3) [of s] by simp
  then have "(\<exists>qi. file_pipeline 0 (s # rest) False (-1) = Inr qi \<and> (qi = -1 \<or> qi = int (length rest)))
      \<longleftrightarrow> filters_then_actions rest \<and> (?r = -1 \<or> ?r = int (length rest))"
    using file_filters [of 1 rest "-1"] assms(2) by simp
  also have "\<dots> \<longleftrightarrow> file_steps_ok rest"
    using last_quarantine_last [of rest 1] by (cases "rest = []") (simp_all add: file_steps_ok_def Let_def last_quarantine_def)
  finally show ?thesis .
qed

lemma check_file_eq:
  "wd_mode w = ''file'' \<Longrightarrow> wd_steps w = s # rest \<Longrightarrow> check_pipeline w =
     (if list_ex (\<lambda>st. is_dedupe st \<or> is_collapse st) (s # rest) then structure_error
      else if \<not> is_scan s then structure_error
      else bind_res (file_pipeline 0 (s # rest) False (-1)) (\<lambda>qi.
        if qi \<noteq> -1 \<and> qi \<noteq> int (length rest) then structure_error else Inr ()))"
  by (simp add: check_pipeline_def Let_def del: file_pipeline.simps)

lemma check_file_iff:
  assumes "wd_mode w = ''file''" "wd_steps w = s # rest"
  shows "check_pipeline w = Inr () \<longleftrightarrow> is_scan s \<and> file_steps_ok rest"
proof (cases "is_scan s \<and> list_all (\<lambda>st. \<not> is_dedupe st \<and> \<not> is_collapse st) rest")
  case True
  then have "\<not> list_ex (\<lambda>st. is_dedupe st \<or> is_collapse st) (s # rest)"
    using step_kinds(3) [of s] by (simp add: no_plain)
  then have "check_pipeline w = bind_res (file_pipeline 0 (s # rest) False (-1)) (\<lambda>qi.
      if qi \<noteq> -1 \<and> qi \<noteq> int (length rest) then structure_error else Inr ())"
    unfolding check_file_eq [OF assms] using True by (simp only: if_False not_True_eq_False simp_thms)
  then have "check_pipeline w = Inr () \<longleftrightarrow>
      (\<exists>qi. file_pipeline 0 (s # rest) False (-1) = Inr qi \<and> (qi = -1 \<or> qi = int (length rest)))"
    by (cases "file_pipeline 0 (s # rest) False (-1)") (simp_all del: file_pipeline.simps)
  also have "\<dots> \<longleftrightarrow> file_steps_ok rest" by (rule file_loop_iff) (use True in blast)+
  finally show ?thesis using True by blast
next
  case False
  then have "check_pipeline w = structure_error"
    unfolding check_file_eq [OF assms] using no_plain [of rest] by (cases "is_scan s") simp_all
  moreover have "\<not> (is_scan s \<and> file_steps_ok rest)" using False file_steps_ok_plain by blast
  ultimately show ?thesis by simp
qed

lemma check_pipeline_iff:
  assumes "wd_steps w \<noteq> []"
  shows "check_pipeline w = Inr () \<longleftrightarrow> pipeline_ok (wd_mode w) (wd_steps w)"
proof -
  obtain s rest where s: "wd_steps w = s # rest" using assms by (cases "wd_steps w") auto
  consider "wd_mode w = ''file''" | "wd_mode w = ''organizer''" | "wd_mode w \<noteq> ''file'' \<and> wd_mode w \<noteq> ''organizer''" by blast
  then show ?thesis
  proof cases
    case 1
    have "pipeline_ok (wd_mode w) (wd_steps w) \<longleftrightarrow> is_scan s \<and> file_steps_ok rest"
      unfolding file_steps_ok_iff using 1 s by (simp add: pipeline_ok_def) blast
    with check_file_iff [OF 1 s] show ?thesis by simp
  next
    case 2
    have "\<not> list_ex (\<lambda>st. is_dedupe st \<or> is_collapse st) [s, g]" if "is_scan s" "is_organize g" for s g
      using that step_kinds(3) [of s] step_kinds(4) [of g] by simp
    with 2 s show ?thesis by (cases rest) (auto simp: check_pipeline_def pipeline_ok_def Let_def)
  next
    case 3
    with s show ?thesis by (simp add: check_pipeline_def pipeline_ok_def Let_def)
  qed
qed

subsection \<open>Dumped steps\<close>

text \<open>What a valid definition dumps passes the check of raw steps that every reading of it repeats.\<close>

lemma raw_step_iff:
  "validate_raw_step mode (dump_step st) = Inr () \<longleftrightarrow>
     (is_dedupe st \<longrightarrow> mode = Some ''dedupe'') \<and> (is_collapse st \<longrightarrow> mode = Some ''utility'')"
proof -
  have t: "py_lower (py_strip ''scan'') = ''scan''" "py_lower (py_strip ''filter'') = ''filter''"
    "py_lower (py_strip ''rename'') = ''rename''" "py_lower (py_strip ''move'') = ''move''"
    "py_lower (py_strip ''touch'') = ''touch''" "py_lower (py_strip ''quarantine'') = ''quarantine''"
    "py_lower (py_strip ''organize'') = ''organize''" "py_lower (py_strip ''dedupe'') = ''dedupe''"
    "py_lower (py_strip ''single_child_wrapper_collapse'') = ''single_child_wrapper_collapse''"
    by code_simp+
  show ?thesis
    by (cases st)
       (simp_all add: validate_raw_step_def dump_step_def Let_def step_type_def t step_kind_defs
          reserved_steps_def RESERVED_UNSUPPORTED_STEPS_def ALLOWED_STEP_TYPES_def)
qed

lemma map_res_units: "list_all (\<lambda>x. f x = Inr ()) xs \<Longrightarrow> \<exists>us. map_res f xs = Inr us"
  by (simp add: map_res_unit list_all_iff)

lemma dumped_steps_pass:
  assumes "pipeline_ok (wd_mode w) (wd_steps w)"
  shows "validate_raw_steps_types (map dump_step (wd_steps w)) (Some (wd_mode w)) = Inr ()"
proof -
  have "list_all (\<lambda>st. (is_dedupe st \<longrightarrow> wd_mode w = ''dedupe'') \<and> (is_collapse st \<longrightarrow> wd_mode w = ''utility'')) (wd_steps w)"
    using assms unfolding pipeline_ok_def
  proof (elim disjE conjE exE)
    fix st assume "wd_mode w = ''dedupe''" "wd_steps w = [st]" "is_dedupe st"
    then show ?thesis by (cases st) (simp_all add: is_dedupe_def is_collapse_def)
  next
    fix st assume "wd_mode w = ''utility''" "wd_steps w = [st]" "is_collapse st"
    then show ?thesis by (cases st) (simp_all add: is_dedupe_def is_collapse_def)
  next
    fix s g assume "wd_steps w = [s, g]" "is_scan s" "is_organize g"
    then show ?thesis using step_kinds(3) [of s] step_kinds(4) [of g] by simp
  next
    fix s filters actions assume a: "wd_steps w = s # filters @ actions" "is_scan s"
      "list_all is_filter_step filters" "list_all is_action actions"
    have "list_all (\<lambda>st. \<not> is_dedupe st \<and> \<not> is_collapse st) (wd_steps w)"
      using a(1) step_kinds(3) [OF a(2)] plain_steps(1) [OF a(3)] plain_steps(2) [OF a(4)] by simp
    then show ?thesis by (simp add: list_all_iff)
  qed
  then have "list_all (\<lambda>raw. validate_raw_step (Some (wd_mode w)) raw = Inr ()) (map dump_step (wd_steps w))"
    by (simp add: list_all_iff raw_step_iff)
  from map_res_units [OF this] show ?thesis by (auto simp: validate_raw_steps_types_def)
qed

end
