(* ===== verification/WorkflowStore.thy ===== *)
theory WorkflowStore
  imports WorkflowGrammar
begin

section \<open>The store of workflows\<close>

text \<open>
  Models the part of app/workflows/service.py that keeps workflows and their revisions: creating,
  updating, archiving, rolling back, deleting and reading them. Each operation is one transaction on
  the database; one that raises leaves it as it was. \<open>digest\<close> is SHA-256. A row returned to the
  caller is \<open>workflow_view\<close>; the audit event of a permanent deletion is part of its result.
\<close>

record workflow_view =
  wv_workflow :: workflow
  wv_definition :: json
  wv_sha256 :: string

record create_request =
  wc_name :: string
  wc_description :: string
  wc_definition :: workflow_definition

record update_request =
  wu_name :: "string option"
  wu_description :: "string option"
  wu_expected_revision :: int
  wu_definition :: "workflow_definition option"

record deletion_audit =
  da_workflow_id :: int
  da_workflow_name :: string
  da_deleted_revision_count :: nat
  da_deleted_by_user_id :: "int option"

subsection \<open>Rows\<close>

definition find_revision :: "db \<Rightarrow> int \<Rightarrow> int \<Rightarrow> workflow_revision option" where
  "find_revision d wid n = find (\<lambda>r. wr_workflow_id r = wid \<and> wr_revision r = n) (db_wf_revisions d)"

text \<open>Inserting a revision: \<open>(workflow_id, revision)\<close> is unique.\<close>

definition insert_revision :: "int \<Rightarrow> int \<Rightarrow> json_text \<Rightarrow> string \<Rightarrow> int option \<Rightarrow> time \<Rightarrow> db \<Rightarrow> workflow_error + db" where
  "insert_revision wid n content sha user now d =
     (if find_revision d wid n \<noteq> None then Inl UniqueViolation
      else Inr (d\<lparr>db_wf_revisions := tbl_insert
        \<lparr>wr_id = tbl_next_id wr_id (db_wf_revisions d), wr_workflow_id = wid, wr_revision = n,
         wr_definition_json = content, wr_definition_sha256 = sha, wr_created_by_user_id = user,
         wr_created_at = now\<rparr> (db_wf_revisions d)\<rparr>))"

definition put_workflow :: "workflow \<Rightarrow> db \<Rightarrow> db" where
  "put_workflow w d = d\<lparr>db_workflows := tbl_put wf_id w (db_workflows d)\<rparr>"

definition loads_definition :: "json_text \<Rightarrow> workflow_error + json" where
  "loads_definition t = (case t of Text j \<Rightarrow> Inr j | _ \<Rightarrow> Inl UnreadableDefinition)"

definition known_roots :: "db \<Rightarrow> int list" where
  "known_roots d = map ir_id (db_roots d)"

subsection \<open>Preparing a definition\<close>

text \<open>The scorer configuration of a dedupe workflow is stored in canonical form.\<close>

definition canonicalize_definition :: "workflow_definition \<Rightarrow> workflow_error + workflow_definition" where
  "canonicalize_definition w =
     (if wd_mode w = ''dedupe'' then (case wd_steps w of
          DedupeStep i c # rest \<Rightarrow> bind_res (validate_and_canonicalize_workflow_scorer_config c) (\<lambda>c'.
            Inr (w\<lparr>wd_steps := DedupeStep i c' # rest\<rparr>))
        | _ \<Rightarrow> Inr w)
      else Inr w)"

definition prepare_definition :: "(string \<Rightarrow> string) \<Rightarrow> int list \<Rightarrow> workflow_definition \<Rightarrow>
    workflow_error + (json \<times> json_text \<times> string)" where
  "prepare_definition digest roots w =
     bind_res (canonicalize_definition w) (\<lambda>w'.
     bind_res (validate_workflow_definition w' (Some roots)) (\<lambda>_.
     let raw = dump_definition w' in
     Inr (raw, Text (sort_keys raw), compute_definition_sha256 digest raw)))"

subsection \<open>Writing\<close>

definition create_workflow :: "(string \<Rightarrow> string) \<Rightarrow> int option \<Rightarrow> create_request \<Rightarrow> time \<Rightarrow> db \<Rightarrow>
    workflow_error + (workflow_view \<times> db)" where
  "create_workflow digest user q now d =
     bind_res (prepare_definition digest (known_roots d) (wc_definition q)) (\<lambda>(raw, content, sha).
     let w = \<lparr>wf_id = tbl_next_id wf_id (db_workflows d), wf_name = py_strip (wc_name q),
              wf_description = py_strip (wc_description q), wf_current_revision = 1, wf_is_builtin = False,
              wf_created_by_user_id = user, wf_archived_at = None, wf_created_at = now, wf_updated_at = now\<rparr>;
         d1 = d\<lparr>db_workflows := tbl_insert w (db_workflows d)\<rparr> in
     bind_res (insert_revision (wf_id w) 1 content sha user now d1) (\<lambda>d2.
     Inr (\<lparr>wv_workflow = w, wv_definition = raw, wv_sha256 = sha\<rparr>, d2)))"

text \<open>The checks that every change of a workflow starts with.\<close>

definition editable_workflow :: "int \<Rightarrow> int \<Rightarrow> db \<Rightarrow> workflow_error + workflow" where
  "editable_workflow wid expected d = (case tbl_get wf_id (db_workflows d) wid of
      None \<Rightarrow> Inl NoSuchWorkflow
    | Some w \<Rightarrow>
        if wf_is_builtin w then Inl BuiltinImmutable
        else if wf_archived_at w \<noteq> None then Inl ArchivedWorkflow
        else if expected \<noteq> wf_current_revision w then Inl (RevisionConflict expected (wf_current_revision w))
        else Inr w)"

definition renamed_workflow :: "update_request \<Rightarrow> workflow \<Rightarrow> workflow" where
  "renamed_workflow q w = w\<lparr>
     wf_name := (case wu_name q of None \<Rightarrow> wf_name w | Some s \<Rightarrow> py_strip s),
     wf_description := (case wu_description q of None \<Rightarrow> wf_description w | Some s \<Rightarrow> py_strip s)\<rparr>"

definition update_workflow :: "(string \<Rightarrow> string) \<Rightarrow> int option \<Rightarrow> int \<Rightarrow> update_request \<Rightarrow> time \<Rightarrow> db \<Rightarrow>
    workflow_error + (workflow_view \<times> db)" where
  "update_workflow digest user wid q now d =
     bind_res (editable_workflow wid (wu_expected_revision q) d) (\<lambda>w.
     let next_rev = wf_current_revision w + 1 in
     bind_res (case wu_definition q of
         Some def \<Rightarrow> prepare_definition digest (known_roots d) def
       | None \<Rightarrow> (case find_revision d wid (wf_current_revision w) of
             None \<Rightarrow> Inl (NoSuchRevision (wf_current_revision w))
           | Some r \<Rightarrow> bind_res (loads_definition (wr_definition_json r)) (\<lambda>j.
               Inr (j, wr_definition_json r, wr_definition_sha256 r)))) (\<lambda>(raw, content, sha).
     bind_res (insert_revision wid next_rev content sha user now d) (\<lambda>d1.
     let w' = (renamed_workflow q w)\<lparr>wf_current_revision := next_rev, wf_updated_at := now\<rparr> in
     Inr (\<lparr>wv_workflow = w', wv_definition = raw, wv_sha256 = sha\<rparr>, put_workflow w' d1))))"

definition archive_workflow :: "int \<Rightarrow> int \<Rightarrow> time \<Rightarrow> db \<Rightarrow> workflow_error + db" where
  "archive_workflow wid expected now d =
     bind_res (editable_workflow wid expected d) (\<lambda>w.
     Inr (put_workflow (w\<lparr>wf_archived_at := Some now, wf_updated_at := now\<rparr>) d))"

text \<open>A rollback commits before it reads the text it answers with.\<close>

definition rollback_workflow :: "int option \<Rightarrow> int \<Rightarrow> int \<Rightarrow> int \<Rightarrow> time \<Rightarrow> db \<Rightarrow>
    workflow_error + ((workflow_error + workflow_view) \<times> db)" where
  "rollback_workflow user wid target expected now d =
     bind_res (editable_workflow wid expected d) (\<lambda>w.
     case find_revision d wid target of
       None \<Rightarrow> Inl (NoSuchRevision target)
     | Some r \<Rightarrow>
         let next_rev = wf_current_revision w + 1 in
         bind_res (insert_revision wid next_rev (wr_definition_json r) (wr_definition_sha256 r) user now d) (\<lambda>d1.
         let w' = w\<lparr>wf_current_revision := next_rev, wf_updated_at := now\<rparr> in
         Inr (bind_res (loads_definition (wr_definition_json r)) (\<lambda>j.
                Inr \<lparr>wv_workflow = w', wv_definition = j, wv_sha256 = wr_definition_sha256 r\<rparr>), put_workflow w' d1)))"

definition active_plan_statuses :: "string list" where
  "active_plan_statuses = [''draft'', ''frozen'', ''ready'', ''validating'', ''executing'']"

definition active_plan_ids :: "int \<Rightarrow> db \<Rightarrow> int list" where
  "active_plan_ids wid d = sort (map bp_id (filter (\<lambda>p. bp_kind p = ''workflow-'' @ str_of_int wid \<and>
     bp_status p \<in> set active_plan_statuses) (db_plans d)))"

definition permanent_delete_workflow :: "int option \<Rightarrow> int \<Rightarrow> int \<Rightarrow> string \<Rightarrow> db \<Rightarrow>
    workflow_error + (deletion_audit \<times> db)" where
  "permanent_delete_workflow user wid expected confirmation d =
     (if confirmation \<noteq> ''DELETE'' then Inl (ValidationError ''WORKFLOW_DELETE_CONFIRMATION_REQUIRED'')
      else case tbl_get wf_id (db_workflows d) wid of
        None \<Rightarrow> Inl NoSuchWorkflow
      | Some w \<Rightarrow>
          if wf_is_builtin w then Inl BuiltinImmutable
          else if wf_archived_at w = None then Inl NotArchivedWorkflow
          else if expected \<noteq> wf_current_revision w then Inl (RevisionConflict expected (wf_current_revision w))
          else if active_plan_ids wid d \<noteq> [] then Inl (ActivePlanDependency (active_plan_ids wid d))
          else let gone = filter (\<lambda>r. wr_workflow_id r = wid) (db_wf_revisions d) in
            Inr (\<lparr>da_workflow_id = wid, da_workflow_name = wf_name w, da_deleted_revision_count = length gone,
                  da_deleted_by_user_id = user\<rparr>,
                 d\<lparr>db_workflows := tbl_delete (\<lambda>x. wf_id x = wid) (db_workflows d),
                   db_wf_revisions := tbl_delete (\<lambda>r. wr_workflow_id r = wid) (db_wf_revisions d)\<rparr>))"

subsection \<open>Reading\<close>

definition get_workflow :: "int \<Rightarrow> db \<Rightarrow> workflow_error + workflow_view" where
  "get_workflow wid d = (case tbl_get wf_id (db_workflows d) wid of
      None \<Rightarrow> Inl NoSuchWorkflow
    | Some w \<Rightarrow> (case find_revision d wid (wf_current_revision w) of
          None \<Rightarrow> Inl NoSuchWorkflow
        | Some r \<Rightarrow> bind_res (loads_definition (wr_definition_json r)) (\<lambda>j.
            Inr \<lparr>wv_workflow = w, wv_definition = j, wv_sha256 = wr_definition_sha256 r\<rparr>)))"

definition get_workflow_revision :: "int \<Rightarrow> int \<Rightarrow> db \<Rightarrow> workflow_error + (workflow_revision \<times> json)" where
  "get_workflow_revision wid n d = (case tbl_get wf_id (db_workflows d) wid of
      None \<Rightarrow> Inl NoSuchWorkflow
    | Some w \<Rightarrow> (case find_revision d wid n of
          None \<Rightarrow> Inl (NoSuchRevision n)
        | Some r \<Rightarrow> bind_res (loads_definition (wr_definition_json r)) (\<lambda>j. Inr (r, j))))"

definition list_workflow_revisions :: "int \<Rightarrow> db \<Rightarrow> workflow_error + (workflow_revision \<times> json) list" where
  "list_workflow_revisions wid d = (case tbl_get wf_id (db_workflows d) wid of
      None \<Rightarrow> Inl NoSuchWorkflow
    | Some w \<Rightarrow> map_res (\<lambda>r. bind_res (loads_definition (wr_definition_json r)) (\<lambda>j. Inr (r, j)))
        (sort_key wr_revision (filter (\<lambda>r. wr_workflow_id r = wid) (db_wf_revisions d))))"

text \<open>The listing joins each workflow with its current revision; built-in ones first, then the latest.\<close>

definition listed_mode :: "json_text \<Rightarrow> json" where
  "listed_mode t = (case t of Text (JObj kvs) \<Rightarrow> (case map_of kvs ''mode'' of None \<Rightarrow> JStr ''file'' | Some v \<Rightarrow> v)
     | _ \<Rightarrow> JStr ''file'')"

definition list_workflows :: "bool \<Rightarrow> db \<Rightarrow> (workflow \<times> json) list" where
  "list_workflows include_archived d =
     map (\<lambda>(w, r). (w, listed_mode (wr_definition_json r)))
       (sort_key (\<lambda>(w, r). (\<not> wf_is_builtin w, - wf_updated_at w, - wf_id w))
         (filter (\<lambda>(w, r). include_archived \<or> wf_archived_at w = None)
           (concat (map (\<lambda>w. map (Pair w) (filter (\<lambda>r. wr_workflow_id r = wf_id w \<and>
              wr_revision r = wf_current_revision w) (db_wf_revisions d))) (db_workflows d)))))"

end
