(* ===== verification/WorkflowCompile.thy ===== *)
theory WorkflowCompile
  imports WorkflowStore VirtualGraphPlan FilterExclude
begin

section \<open>Compiling a file workflow\<close>

text \<open>
  Models \<open>_compile_file_workflow\<close> of app/workflows/compiler.py: the rows of the index that a
  definition selects, the simulation of its steps on them and the digest of the result; and the
  part of app/workflows/service.py that opens a stored definition and writes the plan of a file
  workflow. The table of indexed paths is a list of rows; the policy row holds the stored list of
  excluded names and the JSON of its time stamp. \<open>model_validate\<close> is pydantic reading a definition.
\<close>

record filter_policy =
  fp_exclude_dir_names_json :: json_text
  fp_updated_at :: json

datatype compile_file_error =
    RootRequired | RootLimitExceeded nat | UnknownRoot int | RootNotAllowed int
  | BadExcludes | BadFilter filter_error | UnfitFilter compile_error
  | TooManyCandidates nat | GraphError graph_error | UnknownDestination int | TooManyOperations nat

record file_compilation =
  fc_matched_count :: nat
  fc_matched_bytes :: int
  fc_operations :: "virtual_operation list"
  fc_compile_digest :: string
  fc_runtime_inputs :: json
  fc_compile_context :: json

definition MAX_WORKFLOW_CANDIDATES :: nat where "MAX_WORKFLOW_CANDIDATES = 50000"
definition MAX_WORKFLOW_PLAN_ITEMS :: nat where "MAX_WORKFLOW_PLAN_ITEMS = 100000"

definition left_as :: "('e \<Rightarrow> 'f) \<Rightarrow> 'e + 'a \<Rightarrow> 'f + 'a" where
  "left_as f r = map_sum f id r"

subsection \<open>The candidates\<close>

fun check_file_roots :: "mutation_fs \<Rightarrow> string list \<Rightarrow> index_root list \<Rightarrow> int list \<Rightarrow> compile_file_error + string list" where
  "check_file_roots fs allowed roots [] = Inr []"
| "check_file_roots fs allowed roots (rid # rids) = (case tbl_get ir_id roots rid of
      None \<Rightarrow> Inl (UnknownRoot rid)
    | Some r \<Rightarrow> (case require_allowed_path fs allowed (ir_root r) of
          Inl e \<Rightarrow> Inl (RootNotAllowed rid)
        | Inr p \<Rightarrow> bind_res (check_file_roots fs allowed roots rids) (\<lambda>rest. Inr (ir_root r # rest))))"

definition root_key_to_id :: "index_root list \<Rightarrow> string \<Rightarrow> int" where
  "root_key_to_id roots key = (case map_of (rev (map (\<lambda>r. (ir_root r, ir_id r)) roots)) key of None \<Rightarrow> 0 | Some i \<Rightarrow> i)"

definition subpath_clause :: "string \<Rightarrow> sql_pred list" where
  "subpath_clause subpath =
     (if subpath = [] then []
      else let sub = strip_slashes (py_strip subpath) in
        if sub = [] then []
        else [SqlOr [TextLike (Column RelativePathCol) (escape_like sub @ ''/%''), TextEq (Column RelativePathCol) sub]])"

definition policy_excludes :: "filter_policy option \<Rightarrow> compile_file_error + string list" where
  "policy_excludes policy = (case policy of
      None \<Rightarrow> Inr DEFAULT_EXCLUDE_DIR_NAMES
    | Some p \<Rightarrow> (case fp_exclude_dir_names_json p of
          NoText \<Rightarrow> Inr DEFAULT_EXCLUDE_DIR_NAMES
        | json_text.BadText \<Rightarrow> Inr DEFAULT_EXCLUDE_DIR_NAMES
        | Text (JList vs) \<Rightarrow> (case all_some (map (\<lambda>v. case v of JStr s \<Rightarrow> Some s | _ \<Rightarrow> None) vs) of
              None \<Rightarrow> Inl BadExcludes | Some names \<Rightarrow> Inr names)
        | Text _ \<Rightarrow> Inl BadExcludes))"

fun filter_clauses :: "workflow_step list \<Rightarrow> compile_file_error + sql_pred list" where
  "filter_clauses [] = Inr []"
| "filter_clauses (st # rest) = (case st of
      FilterStep i f \<Rightarrow>
        bind_res (left_as BadFilter (validate_filter f)) (\<lambda>v.
        bind_res (left_as UnfitFilter (compile_filter_to_sql v)) (\<lambda>p.
        bind_res (filter_clauses rest) (\<lambda>ps. Inr (p # ps))))
    | _ \<Rightarrow> filter_clauses rest)"

definition candidate_rows :: "string list \<Rightarrow> sql_pred list \<Rightarrow> indexed_path list \<Rightarrow> indexed_path list" where
  "candidate_rows target_roots clauses index =
     sort_key (\<lambda>r. (ip_relative_path r, ip_id r))
       (filter (\<lambda>r. \<not> ip_is_dir r \<and> ip_root_key r \<in> set target_roots \<and> sql_eval (SqlAnd clauses) r) index)"

definition candidate_of :: "index_root list \<Rightarrow> indexed_path \<Rightarrow> virtual_candidate" where
  "candidate_of roots r =
     fresh_candidate (ip_id r) (ip_absolute_path r) (root_key_to_id roots (ip_root_key r)) (ip_size r) (ip_mtime_ns r)"

definition candidate_graph :: "string list \<Rightarrow> string option \<Rightarrow> index_root list \<Rightarrow> indexed_path list \<Rightarrow> virtual_graph" where
  "candidate_graph allowed quarantine roots rows =
     fold (\<lambda>r g. add_candidate (candidate_of roots r) g) rows (new_graph allowed quarantine)"

subsection \<open>The steps\<close>

definition step_at :: "index_root list \<Rightarrow> nat \<Rightarrow> workflow_step \<Rightarrow> compile_file_error + graph_step option" where
  "step_at roots idx st = (case st of
      RenameStep r \<Rightarrow> Inr (Some (RenameAt r idx))
    | MoveStep v \<Rightarrow> (case tbl_get ir_id roots (mv_destination_root_id v) of
          None \<Rightarrow> Inl (UnknownDestination (mv_destination_root_id v))
        | Some d \<Rightarrow> Inr (Some (MoveTo v (ir_root d) idx)))
    | TouchStep t \<Rightarrow> Inr (Some (TouchAt t idx))
    | QuarantineStep u \<Rightarrow> Inr (Some (QuarantineAt u idx))
    | _ \<Rightarrow> Inr None)"

fun run_definition :: "mutation_fs \<Rightarrow> index_root list \<Rightarrow> nat \<Rightarrow> workflow_step list \<Rightarrow> virtual_graph \<Rightarrow>
    compile_file_error + virtual_graph" where
  "run_definition fs roots idx [] g = Inr g"
| "run_definition fs roots idx (st # rest) g =
     bind_res (step_at roots idx st) (\<lambda>s.
     bind_res (case s of None \<Rightarrow> Inr g | Some gs \<Rightarrow> left_as GraphError (apply_step fs gs g)) (\<lambda>g'.
     run_definition fs roots (idx + 1) rest g'))"

subsection \<open>The digest\<close>

definition operation_dict :: "virtual_operation \<Rightarrow> json" where
  "operation_dict op = JObj ([(''candidate_id'', JInt (vo_candidate_id op)),
     (''workflow_step_index'', JInt (int (vo_workflow_step_index op))),
     (''candidate_operation_index'', JInt (int (vo_candidate_operation_index op))),
     (''operation'', JStr (vo_operation op)), (''source'', JStr (vo_source op)),
     (''target'', j_opt JStr (vo_target op)), (''sequence'', JInt (int (vo_sequence op)))]
     @ (case vo_mtime_ns op of None \<Rightarrow> [] | Some ns \<Rightarrow> [(''mtime_ns'', JInt ns)])
     @ (case vo_reason op of None \<Rightarrow> [] | Some s \<Rightarrow> [(''reason'', JStr s)])
     @ [(''metadata'', JObj [(''step_id'', JStr (vo_step_id op))])])"

definition compile_context :: "string list \<Rightarrow> filter_policy option \<Rightarrow> json" where
  "compile_context excludes policy = JObj [(''effective_exclude_dir_names'', j_strs (sort excludes)),
     (''filter_policy_updated_at'', case policy of None \<Rightarrow> JNull | Some p \<Rightarrow> fp_updated_at p)]"

definition stated_sha :: "(string \<Rightarrow> string) \<Rightarrow> workflow_definition \<Rightarrow> string \<Rightarrow> string" where
  "stated_sha digest w sha = (if sha \<noteq> [] then sha else compute_definition_sha256 digest (dump_definition w))"

definition digest_payload :: "int option \<Rightarrow> int option \<Rightarrow> string \<Rightarrow> json \<Rightarrow> json \<Rightarrow> virtual_operation list \<Rightarrow> json" where
  "digest_payload wid number sha inputs context ops = JObj [(''workflow_id'', j_opt JInt wid),
     (''workflow_revision'', j_opt JInt number), (''definition_sha256'', JStr sha),
     (''runtime_inputs'', inputs), (''compile_context'', context),
     (''planned_operations'', JList (map operation_dict ops))]"

subsection \<open>The compilation\<close>

definition scan_of :: "workflow_definition \<Rightarrow> scan_step" where
  "scan_of w = (case wd_steps w of ScanStep s # rest \<Rightarrow> s | _ \<Rightarrow> \<lparr>sn_id = [], sn_root_ids = [], sn_subpath = []\<rparr>)"

definition select_candidates :: "mutation_fs \<Rightarrow> settings \<Rightarrow> index_root list \<Rightarrow> filter_policy option \<Rightarrow>
    indexed_path list \<Rightarrow> workflow_definition \<Rightarrow> int list \<Rightarrow> compile_file_error + (indexed_path list \<times> string list)" where
  "select_candidates fs st roots policy index w root_ids =
     bind_res (ensure (root_ids \<noteq> []) RootRequired) (\<lambda>_.
     bind_res (ensure (length root_ids \<le> 16) (RootLimitExceeded (length root_ids))) (\<lambda>_.
     bind_res (check_file_roots fs (st_allowed_roots st) roots root_ids) (\<lambda>target_roots.
     bind_res (policy_excludes policy) (\<lambda>excludes.
     bind_res (filter_clauses (wd_steps w)) (\<lambda>filters.
     Inr (candidate_rows target_roots
            (subpath_clause (sn_subpath (scan_of w)) @ [build_exclude_predicates excludes (st_quarantine_root st)] @ filters)
            index, excludes))))))"

definition compile_file_workflow :: "(string \<Rightarrow> string) \<Rightarrow> mutation_fs \<Rightarrow> settings \<Rightarrow> index_root list \<Rightarrow>
    filter_policy option \<Rightarrow> indexed_path list \<Rightarrow> workflow_definition \<Rightarrow> int option \<Rightarrow> int option \<Rightarrow> string \<Rightarrow>
    int list option \<Rightarrow> nat \<Rightarrow> nat \<Rightarrow> compile_file_error + file_compilation" where
  "compile_file_workflow digest fs st roots policy index w wid number sha override max_candidates max_items =
     (let root_ids = (case override of None \<Rightarrow> sn_root_ids (scan_of w) | Some ids \<Rightarrow> ids) in
      bind_res (select_candidates fs st roots policy index w root_ids) (\<lambda>(rows, excludes).
      bind_res (ensure (length rows \<le> max_candidates) (TooManyCandidates (length rows))) (\<lambda>_.
      bind_res (run_definition fs roots 0 (wd_steps w)
                  (candidate_graph (st_allowed_roots st) (st_quarantine_root st) roots rows)) (\<lambda>g.
      bind_res (left_as GraphError (resolve_ordered_operations fs g)) (\<lambda>ops.
      bind_res (ensure (length ops \<le> max_items) (TooManyOperations (length ops))) (\<lambda>_.
      let inputs = JObj [(''root_ids'', j_ints (sort root_ids))]; context = compile_context excludes policy in
      Inr \<lparr>fc_matched_count = length rows, fc_matched_bytes = sum_list (map ip_size rows), fc_operations = ops,
           fc_compile_digest = compute_definition_sha256 digest (digest_payload wid number (stated_sha digest w sha) inputs context ops),
           fc_runtime_inputs = inputs, fc_compile_context = context\<rparr>))))))"

end
