(* ===== verification/WorkflowPlan.thy ===== *)
theory WorkflowPlan
  imports WorkflowCompile
begin

section \<open>The plan of a file workflow\<close>

text \<open>
  From the rows that a definition selects to the plan that is emitted: the candidates are the rows,
  the operations are theirs, and the plan runs on the files of an index that is current.
\<close>

subsection \<open>The scan's subpath\<close>

text \<open>SQLite's LIKE ignores the case of ASCII letters, so the subpath selects by case-folded directories.\<close>

lemma subpath_matches:
  fixes s :: string
  defines "sub \<equiv> strip_slashes (py_strip s)"
  assumes "sub \<noteq> []"
  shows "sql_eval (SqlAnd (subpath_clause s)) r \<longleftrightarrow> ip_relative_path r = sub \<or>
    (\<exists>dir rest. ip_relative_path r = dir @ ''/'' @ rest \<and> sql_lower dir = sql_lower sub)"
proof -
  have s: "s \<noteq> []" using assms by (auto simp: sub_def py_strip_def strip_slashes_def)
  have slash: "sql_like ''/%'' t \<longleftrightarrow> (\<exists>rest. t = CHR ''/'' # rest)" for t
  proof -
    have "sql_lower_char CHR ''/'' = sql_lower_char c \<longleftrightarrow> c = CHR ''/''" for c using lower_slash [of c] by (metis lower_slash)
    then show ?thesis using like_char [of "CHR ''/''" "''%''" t] by auto
  qed
  have "sql_eval (SqlAnd (subpath_clause s)) r \<longleftrightarrow>
      sql_like (escape_like sub @ ''/%'') (ip_relative_path r) \<or> ip_relative_path r = sub"
    using s assms(2) by (simp add: subpath_clause_def sub_def Let_def)
  then show ?thesis unfolding like_escaped slash by auto
qed

lemma subpath_ignores_case:
  "sql_eval (SqlAnd (subpath_clause ''photos'')) (sample_row ''Photos/x.jpg'' ''x.jpg'' ''.jpg'')"
  by code_simp

lemma subpath_with_slash_matches_nothing:
  "\<not> sql_eval (SqlAnd (subpath_clause ''photos/'')) (sample_row ''photos/x.jpg'' ''x.jpg'' ''.jpg'')"
  by code_simp

subsection \<open>The candidates and their operations\<close>

lemma left_as_Inr [simp]: "left_as f r = Inr x \<longleftrightarrow> r = Inr x"
  by (cases r) (auto simp: left_as_def)

text \<open>The steps of a definition are a list of steps of the graph.\<close>

lemma run_definition_steps:
  "run_definition fs roots idx steps g = Inr g' \<Longrightarrow> \<exists>sts. apply_steps fs sts g = Inr g'"
proof (induction steps arbitrary: idx g)
  case Nil
  then show ?case by (intro exI [of _ "[]"]) simp
next
  case (Cons st rest)
  then obtain s g1 where s: "step_at roots idx st = Inr s" "run_definition fs roots (idx + 1) rest g1 = Inr g'"
    and g1: "(case s of None \<Rightarrow> Inr g | Some gs \<Rightarrow> left_as GraphError (apply_step fs gs g)) = Inr g1"
    by (auto simp: bind_res_Inr)
  from Cons.IH [OF s(2)] obtain sts where sts: "apply_steps fs sts g1 = Inr g'" by blast
  show ?case
  proof (cases s)
    case None
    then show ?thesis using g1 sts by auto
  next
    case (Some gs)
    then have "apply_steps fs (gs # sts) g = Inr g'" using g1 sts by simp
    then show ?thesis by blast
  qed
qed

lemma candidate_graph_fresh: "fresh_graph (candidate_graph allowed quarantine roots rows)"
proof -
  have "fresh_graph g \<Longrightarrow> fresh_graph (fold (\<lambda>r g. add_candidate (candidate_of roots r) g) rows g)" for g
    by (induction rows arbitrary: g) (simp_all add: candidate_of_def add_candidate_fresh)
  then show ?thesis by (simp add: candidate_graph_def new_graph_fresh)
qed

text \<open>With distinct ids each row is a candidate.\<close>

lemma candidates_are_rows:
  assumes "distinct (map ip_id rows)"
  shows "vg_candidates (candidate_graph allowed quarantine roots rows) = map (\<lambda>r. (ip_id r, candidate_of roots r)) rows"
proof -
  have "vg_candidates (fold (\<lambda>r g. add_candidate (candidate_of roots r) g) rows g) =
      vg_candidates g @ map (\<lambda>r. (ip_id r, candidate_of roots r)) rows"
    if "distinct (map ip_id rows)" "set (map ip_id rows) \<inter> fst ` set (vg_candidates g) = {}" for g
    using that
  proof (induction rows arbitrary: g)
    case (Cons r rs)
    have "AList.update k v al = al @ [(k, v)]" if "k \<notin> fst ` set al" for k :: int and v :: virtual_candidate and al
      using that by (induction al) auto
    then have u: "vg_candidates (add_candidate (candidate_of roots r) g) = vg_candidates g @ [(ip_id r, candidate_of roots r)]"
      using Cons.prems by (auto simp: add_candidate_def candidate_of_def fresh_candidate_def)
    have "vg_candidates (fold (\<lambda>r g. add_candidate (candidate_of roots r) g) rs (add_candidate (candidate_of roots r) g)) =
        vg_candidates (add_candidate (candidate_of roots r) g) @ map (\<lambda>r. (ip_id r, candidate_of roots r)) rs"
      using Cons.prems by (intro Cons.IH) (auto simp: u)
    with u show ?case by simp
  qed simp
  from this [OF assms] show ?thesis by (simp add: candidate_graph_def new_graph_def)
qed

text \<open>A quarantined candidate has a quarantine operation.\<close>

definition quarantine_shown :: "virtual_graph \<Rightarrow> bool" where
  "quarantine_shown g \<longleftrightarrow> (\<forall>x \<in> cand_ids g. vc_is_quarantined (cand g x) \<longrightarrow>
     (\<exists>op \<in> set (vc_operations (cand g x)). vo_operation op = ''quarantine''))"

lemma quarantine_shown_step:
  assumes "quarantine_shown g" "step_effect g g'"
  shows "quarantine_shown g'"
  unfolding quarantine_shown_def
proof (intro ballI impI)
  fix x assume x: "x \<in> cand_ids g'" and q: "vc_is_quarantined (cand g' x)"
  have x': "x \<in> cand_ids g" using x step_effect_keeps(1) [OF assms(2)] by simp
  then have "grown (cand g x) (cand g' x)" using assms(2) unfolding step_effect_def by blast
  then show "\<exists>op \<in> set (vc_operations (cand g' x)). vo_operation op = ''quarantine''"
    using assms(1) x' q unfolding grown_def extends_def quarantine_shown_def by auto
qed

lemma apply_steps_shown: "graph_ok g \<Longrightarrow> quarantine_shown g \<Longrightarrow> apply_steps fs sts g = Inr g' \<Longrightarrow> quarantine_shown g'"
proof (induction sts arbitrary: g)
  case (Cons st sts)
  then obtain g1 where g1: "apply_step fs st g = Inr g1" "apply_steps fs sts g1 = Inr g'" by (auto simp: bind_res_Inr)
  note e = apply_step_effect [OF Cons.prems(1) g1(1)]
  show ?case using Cons.IH [OF graph_ok_step [OF Cons.prems(1) e] quarantine_shown_step [OF Cons.prems(2) e] g1(2)] .
qed simp

lemma position_options: "position start ops = start \<or> (\<exists>op \<in> set ops. position start ops = arrival op)"
  by (auto simp: position_def)

lemma arrival_options:
  "chained start ops \<Longrightarrow> op \<in> set ops \<Longrightarrow> arrival op = start \<or> (\<exists>op' \<in> set ops. vo_target op' = Some (arrival op))"
proof (induction ops arbitrary: start)
  case (Cons o1 ops)
  have a: "arrival o1 = start \<or> vo_target o1 = Some (arrival o1)"
    using Cons.prems(1) by (auto simp: arrival_def split: option.splits)
  show ?case
  proof (cases "op = o1")
    case True with a show ?thesis by auto
  next
    case False
    then have "op \<in> set ops" using Cons.prems(2) by simp
    with Cons.IH [of "arrival o1"] Cons.prems(1) a show ?thesis by auto
  qed
qed simp

lemma numbered_members:
  assumes "linear_order_of (length ops) es order"
  shows "op \<in> set (number_ops ops order) \<Longrightarrow> \<exists>op' \<in> set ops. vo_candidate_id op = vo_candidate_id op'"
    "op' \<in> set ops \<Longrightarrow> \<exists>op \<in> set (number_ops ops order). vo_candidate_id op = vo_candidate_id op' \<and>
       vo_operation op = vo_operation op' \<and> vo_target op = vo_target op'"
proof -
  have o: "set order = {..<length ops}" using assms by (simp add: linear_order_of_def)
  show "\<exists>op' \<in> set ops. vo_candidate_id op = vo_candidate_id op'" if "op \<in> set (number_ops ops order)"
  proof -
    obtain n i where "(n, i) \<in> set (enumerate 1 order)" and op: "op = (ops ! i)\<lparr>vo_sequence := n\<rparr>"
      using \<open>op \<in> set (number_ops ops order)\<close> by (auto simp: number_ops_def)
    then have "i \<in> set order" by (auto simp: in_set_enumerate_eq)
    then have "ops ! i \<in> set ops" using o by simp
    with op show ?thesis by (intro bexI [of _ "ops ! i"]) simp_all
  qed
  assume "op' \<in> set ops"
  then obtain i where i: "i < length ops" "op' = ops ! i" by (auto simp: in_set_conv_nth)
  then have "i \<in> set order" using o by simp
  then obtain k where k: "k < length order" "order ! k = i" by (auto simp: in_set_conv_nth)
  then have "(Suc k, i) \<in> set (enumerate 1 order)" by (auto simp: in_set_enumerate_eq)
  then have "op'\<lparr>vo_sequence := Suc k\<rparr> \<in> set (number_ops ops order)"
    using i by (force simp: number_ops_def)
  then show "\<exists>op \<in> set (number_ops ops order). vo_candidate_id op = vo_candidate_id op' \<and>
       vo_operation op = vo_operation op' \<and> vo_target op = vo_target op'" by (intro bexI) auto
qed

text \<open>The candidates of the simulation, and the operations it plans for them.\<close>

lemma simulated_plan:
  assumes ids: "distinct (map ip_id rows)"
    and run: "run_definition fs roots idx steps (candidate_graph allowed quarantine roots rows) = Inr g"
    and res: "resolve_ordered_operations fs g = Inr ops"
  shows "graph_ok g" "cand_ids g = ip_id ` set rows" "r \<in> set rows \<Longrightarrow> origins g (ip_id r) = ip_absolute_path r"
    "op \<in> set ops \<Longrightarrow> vo_candidate_id op \<in> ip_id ` set rows"
    "r \<in> set rows \<Longrightarrow> vc_is_quarantined (cand g (ip_id r)) \<Longrightarrow>
       \<exists>op \<in> set ops. vo_candidate_id op = ip_id r \<and> vo_operation op = ''quarantine''"
    "r \<in> set rows \<Longrightarrow> vc_current_path (cand g (ip_id r)) = ip_absolute_path r \<or>
       (\<exists>op \<in> set ops. vo_candidate_id op = ip_id r \<and> vo_target op = Some (vc_current_path (cand g (ip_id r))))"
proof -
  let ?g0 = "candidate_graph allowed quarantine roots rows"
  from run_definition_steps [OF run] obtain sts where sts: "apply_steps fs sts ?g0 = Inr g" by blast
  note ok0 = fresh_graph_ok [OF candidate_graph_fresh]
  show ok: "graph_ok g" by (rule apply_steps_ok [OF ok0 sts])
  have c0: "vg_candidates ?g0 = map (\<lambda>r. (ip_id r, candidate_of roots r)) rows" by (rule candidates_are_rows [OF ids])
  have k: "cand_ids g = cand_ids ?g0" "x \<in> cand_ids ?g0 \<Longrightarrow> vc_original_path (cand g x) = vc_original_path (cand ?g0 x)" for x
    using apply_steps_keep [OF ok0 sts] by auto
  have "cand_ids ?g0 = ip_id ` set rows" unfolding cand_ids_def c0 by (simp add: image_image)
  then show i: "cand_ids g = ip_id ` set rows" using k(1) by simp
  have cand0: "cand ?g0 (ip_id r) = candidate_of roots r" if "r \<in> set rows" for r
  proof -
    have "distinct (map fst (vg_candidates ?g0))" using ids by (simp add: c0 comp_def)
    then have "map_of (vg_candidates ?g0) (ip_id r) = Some (candidate_of roots r)" using that by (auto simp: c0 intro: map_of_is_SomeI)
    then show ?thesis by (simp add: cand_def)
  qed
  show o: "origins g (ip_id r) = ip_absolute_path r" if "r \<in> set rows" for r
    using k(2) [of "ip_id r"] cand0 [OF that] that by (simp add: origins_def candidate_of_def fresh_candidate_def k(1) [symmetric] i)
  obtain order where order: "linear_order_of (length (all_ops (ordered_candidates g))) (dependencies g) order"
      "ops = number_ops (all_ops (ordered_candidates g)) order"
    using resolve_order [OF ok res] by blast
  note N = numbered_members [OF order(1), folded order(2)]
  show "op \<in> set ops \<Longrightarrow> vo_candidate_id op \<in> ip_id ` set rows"
    using N(1) [of op] all_ops_set [OF ok] op_owner [OF ok] i by fastforce
  have mine: "\<exists>op \<in> set ops. vo_candidate_id op = ip_id r \<and> vo_operation op = vo_operation op' \<and> vo_target op = vo_target op'"
    if "r \<in> set rows" "op' \<in> set (vc_operations (cand g (ip_id r)))" for r op'
  proof -
    have x: "ip_id r \<in> cand_ids g" using that(1) i by simp
    have m: "op' \<in> set (ops_by_id g (ip_id r))" using that(2) by (simp add: ops_by_id_def)
    then have "op' \<in> set (all_ops (ordered_candidates g))" using all_ops_set [OF ok] x by blast
    from N(2) [OF this] op_owner [OF ok x m] show ?thesis by auto
  qed
  have "quarantine_shown ?g0"
    using candidate_graph_fresh [of allowed quarantine roots rows] cand0
    by (auto simp: quarantine_shown_def cand_ids_def c0 candidate_of_def fresh_candidate_def)
  then have shown: "quarantine_shown g" by (rule apply_steps_shown [OF ok0 _ sts])
  show "\<exists>op \<in> set ops. vo_candidate_id op = ip_id r \<and> vo_operation op = ''quarantine''"
    if "r \<in> set rows" "vc_is_quarantined (cand g (ip_id r))"
    using shown that i mine [OF that(1)] unfolding quarantine_shown_def by fastforce
  show "vc_current_path (cand g (ip_id r)) = ip_absolute_path r \<or>
       (\<exists>op \<in> set ops. vo_candidate_id op = ip_id r \<and> vo_target op = Some (vc_current_path (cand g (ip_id r))))"
    if r: "r \<in> set rows"
  proof -
    have c: "cand_ok (ip_id r) (cand g (ip_id r))" using ok i r by (simp add: graph_ok_def)
    have orig: "vc_original_path (cand g (ip_id r)) = ip_absolute_path r" using o [OF r] by (simp add: origins_def)
    show ?thesis
      using position_options [of "ip_absolute_path r" "vc_operations (cand g (ip_id r))"]
        arrival_options [of "ip_absolute_path r" "vc_operations (cand g (ip_id r))"] c orig mine [OF r]
      unfolding cand_ok_def by metis
  qed
qed

lemma sort_key_distinct: "distinct (map f xs) \<Longrightarrow> distinct (map f (sort_key k xs))"
  by (metis distinct_map distinct_sort set_sort)

lemma candidate_rows_set: "set (candidate_rows targets clauses index) \<subseteq> {r \<in> set index. \<not> ip_is_dir r}"
  by (auto simp: candidate_rows_def)

lemma candidate_rows_distinct:
  "distinct (map f index) \<Longrightarrow> distinct (map f (candidate_rows targets clauses index))"
  unfolding candidate_rows_def by (intro sort_key_distinct distinct_map_filter)

lemma compile_file_Inr:
  assumes "compile_file_workflow digest fs st roots policy index w wid number sha override max_candidates max_items = Inr res"
  obtains rows excludes g ops where
    "select_candidates fs st roots policy index w (case override of None \<Rightarrow> sn_root_ids (scan_of w) | Some ids \<Rightarrow> ids) = Inr (rows, excludes)"
    "length rows \<le> max_candidates"
    "run_definition fs roots 0 (wd_steps w) (candidate_graph (st_allowed_roots st) (st_quarantine_root st) roots rows) = Inr g"
    "resolve_ordered_operations fs g = Inr ops" "length ops \<le> max_items"
    "fc_operations res = ops" "fc_matched_count res = length rows"
proof -
  let ?ids = "case override of None \<Rightarrow> sn_root_ids (scan_of w) | Some ids \<Rightarrow> ids"
  obtain rows excludes where sel: "select_candidates fs st roots policy index w ?ids = Inr (rows, excludes)"
    using assms by (cases "select_candidates fs st roots policy index w ?ids") (auto simp: compile_file_workflow_def Let_def)
  have n: "length rows \<le> max_candidates" using assms sel by (simp add: compile_file_workflow_def Let_def split: if_splits)
  let ?run = "run_definition fs roots 0 (wd_steps w) (candidate_graph (st_allowed_roots st) (st_quarantine_root st) roots rows)"
  obtain g where g: "?run = Inr g"
    using assms sel n by (cases ?run) (simp_all add: compile_file_workflow_def Let_def)
  obtain ops where ops: "resolve_ordered_operations fs g = Inr ops"
    using assms sel n g by (cases "resolve_ordered_operations fs g") (simp_all add: compile_file_workflow_def Let_def left_as_def)
  have "length ops \<le> max_items \<and> fc_operations res = ops \<and> fc_matched_count res = length rows"
    using assms sel n g ops by (auto simp: compile_file_workflow_def Let_def left_as_def split: if_splits)
  with sel n g ops show thesis by (intro that) auto
qed

lemma select_rows:
  assumes "select_candidates fs st roots policy index w ids = Inr (rows, excludes)"
  shows "\<exists>targets clauses. rows = candidate_rows targets clauses index"
  using assms unfolding select_candidates_def by (auto simp: bind_res_Inr split: if_splits)

lemma planned_run:
  assumes ids: "distinct (map ip_id rows)" "inj_on ip_absolute_path (set rows)"
    and current: "\<forall>r \<in> set rows. fs_exists fs (ip_absolute_path r)"
    and run: "run_definition fs roots idx steps (candidate_graph allowed quarantine roots rows) = Inr g"
    and ops: "resolve_ordered_operations fs g = Inr ops"
  shows "\<exists>files. run_ops ops (fs_exists fs) = Some files \<and>
    (\<forall>r \<in> set rows. (\<exists>op \<in> set ops. vo_candidate_id op = ip_id r \<and> vo_operation op = ''quarantine'') \<or>
       (\<exists>p. files p \<and> (p = ip_absolute_path r \<or> (\<exists>op \<in> set ops. vo_candidate_id op = ip_id r \<and> vo_target op = Some p))))"
proof -
  note S = simulated_plan [OF ids(1) run ops]
  have ex: "\<forall>c \<in> cand_ids g. fs_exists fs (origins g c)"
  proof
    fix c assume "c \<in> cand_ids g"
    then obtain r where "r \<in> set rows" "c = ip_id r" unfolding S(2) by blast
    then show "fs_exists fs (origins g c)" using S(3) current by simp
  qed
  have inj: "inj_on (origins g) (cand_ids g)"
    unfolding S(2)
  proof (rule inj_onI)
    fix x y assume "x \<in> ip_id ` set rows" "y \<in> ip_id ` set rows" "origins g x = origins g y"
    then obtain r s where "r \<in> set rows" "x = ip_id r" "s \<in> set rows" "y = ip_id s" "ip_absolute_path r = ip_absolute_path s"
      using S(3) by (metis imageE)
    then show "x = y" using ids(2) by (metis inj_onD)
  qed
  from plan_runs [OF S(1) ops ex inj] obtain files where files: "run_ops ops (fs_exists fs) = Some files"
    "\<forall>c \<in> cand_ids g. vc_is_quarantined (cand g c) \<or> files (vc_current_path (cand g c))" by blast
  have "(\<exists>op \<in> set ops. vo_candidate_id op = ip_id r \<and> vo_operation op = ''quarantine'') \<or>
       (\<exists>p. files p \<and> (p = ip_absolute_path r \<or> (\<exists>op \<in> set ops. vo_candidate_id op = ip_id r \<and> vo_target op = Some p)))"
    if r: "r \<in> set rows" for r
  proof (cases "vc_is_quarantined (cand g (ip_id r))")
    case True
    then show ?thesis using S(5) [OF r] by blast
  next
    case False
    then have "files (vc_current_path (cand g (ip_id r)))" using files(2) S(2) r by blast
    then show ?thesis using S(6) [OF r] by blast
  qed
  with files(1) show ?thesis by blast
qed

text \<open>
  C39: the plan of a compiled file workflow can be executed: if the index is current, then running
  the operations in their order finds every source where it is and overwrites nothing, every
  operation belongs to a selected file, and at the end each selected file is quarantined by the plan
  or lies where the plan or the index says; the plan stays within the limits.
\<close>

theorem compiled_plan_executes:
  assumes compiled: "compile_file_workflow digest fs st roots policy index w wid number sha override max_candidates max_items = Inr res"
    and unique: "distinct (map ip_id index)" "distinct (map ip_absolute_path index)"
    and current: "\<forall>r \<in> set index. \<not> ip_is_dir r \<longrightarrow> fs_exists fs (ip_absolute_path r)"
  shows "\<exists>rows excludes files.
    select_candidates fs st roots policy index w (case override of None \<Rightarrow> sn_root_ids (scan_of w) | Some ids \<Rightarrow> ids) = Inr (rows, excludes) \<and>
    fc_matched_count res = length rows \<and> length rows \<le> max_candidates \<and> length (fc_operations res) \<le> max_items \<and>
    run_ops (fc_operations res) (fs_exists fs) = Some files \<and>
    (\<forall>op \<in> set (fc_operations res). vo_candidate_id op \<in> ip_id ` set rows) \<and>
    (\<forall>r \<in> set rows. (\<exists>op \<in> set (fc_operations res). vo_candidate_id op = ip_id r \<and> vo_operation op = ''quarantine'') \<or>
       (\<exists>p. files p \<and> (p = ip_absolute_path r \<or>
          (\<exists>op \<in> set (fc_operations res). vo_candidate_id op = ip_id r \<and> vo_target op = Some p))))"
proof -
  from compiled obtain rows excludes g ops where
    sel: "select_candidates fs st roots policy index w (case override of None \<Rightarrow> sn_root_ids (scan_of w) | Some ids \<Rightarrow> ids) = Inr (rows, excludes)"
    and n: "length rows \<le> max_candidates"
    and run: "run_definition fs roots 0 (wd_steps w) (candidate_graph (st_allowed_roots st) (st_quarantine_root st) roots rows) = Inr g"
    and ops: "resolve_ordered_operations fs g = Inr ops" "length ops \<le> max_items"
    and res: "fc_operations res = ops" "fc_matched_count res = length rows"
    by (rule compile_file_Inr)
  obtain targets clauses where rows: "rows = candidate_rows targets clauses index" using select_rows [OF sel] by blast
  have d: "distinct (map ip_id rows)" "inj_on ip_absolute_path (set rows)"
    using candidate_rows_distinct [OF unique(1)] candidate_rows_distinct [OF unique(2)]
    unfolding rows by (auto simp: distinct_map)
  have c: "\<forall>r \<in> set rows. fs_exists fs (ip_absolute_path r)"
    using current candidate_rows_set [of targets clauses index] unfolding rows by blast
  from planned_run [OF d c run ops(1)] obtain files where f: "run_ops ops (fs_exists fs) = Some files"
    "\<forall>r \<in> set rows. (\<exists>op \<in> set ops. vo_candidate_id op = ip_id r \<and> vo_operation op = ''quarantine'') \<or>
       (\<exists>p. files p \<and> (p = ip_absolute_path r \<or> (\<exists>op \<in> set ops. vo_candidate_id op = ip_id r \<and> vo_target op = Some p)))" by blast
  have "\<forall>op \<in> set ops. vo_candidate_id op \<in> ip_id ` set rows" using simulated_plan(4) [OF d(1) run ops(1)] by blast
  with sel n ops(2) f refl [of "length rows"] show ?thesis unfolding res by (intro exI [of _ rows] exI [of _ excludes] exI [of _ files] conjI)
qed

definition sample_index :: "indexed_path list" where
  "sample_index = [\<lparr>ip_id = 2, ip_root_key = ''/r'', ip_absolute_path = ''/r/b'', ip_relative_path = ''b'', ip_basename = ''b'',
       ip_suffix = [], ip_size = 10, ip_mtime_ns = 0, ip_is_dir = False\<rparr>,
     \<lparr>ip_id = 1, ip_root_key = ''/r'', ip_absolute_path = ''/r/a'', ip_relative_path = ''a'', ip_basename = ''a'',
       ip_suffix = [], ip_size = 7, ip_mtime_ns = 0, ip_is_dir = False\<rparr>]"

definition sample_workflow :: workflow_definition where
  "sample_workflow = \<lparr>wd_schema_version = 1, wd_mode = ''file'',
     wd_steps = [ScanStep \<lparr>sn_id = ''s'', sn_root_ids = [1], sn_subpath = []\<rparr>,
       RenameStep \<lparr>rn_id = ''x'', rn_pattern = ''b'', rn_replacement = ''c''\<rparr>,
       RenameStep \<lparr>rn_id = ''y'', rn_pattern = ''a'', rn_replacement = ''b''\<rparr>]\<rparr>"

definition sample_compilation :: "compile_file_error + file_compilation" where
  "sample_compilation = compile_file_workflow (\<lambda>s. ''d'') (plain_storage [''/r/a'', ''/r/b''])
     \<lparr>st_allowed_roots = [''/r''], st_quarantine_root = None\<rparr> [\<lparr>ir_id = 1, ir_root = ''/r'', ir_created_at = 0\<rparr>]
     None sample_index sample_workflow (Some 1) (Some 1) ''s'' None 10 10"

lemma sample_compiles:
  "map_sum id (\<lambda>c. map (\<lambda>op. (vo_source op, vo_target op)) (fc_operations c)) sample_compilation =
     Inr [(''/r/b'', Some ''/r/c''), (''/r/a'', Some ''/r/b'')]"
  by code_simp

lemma map_sum_Inr: "map_sum id f r = Inr y \<Longrightarrow> \<exists>x. r = Inr x \<and> f x = y"
  by (cases r) auto

theorem compiled_plan_executes_witness:
  "\<exists>res files. sample_compilation = Inr res \<and> run_ops (fc_operations res) (\<lambda>p. p \<in> {''/r/a'', ''/r/b''}) = Some files"
proof -
  from map_sum_Inr [OF sample_compiles] obtain res where res: "sample_compilation = Inr res" by blast
  have "distinct (map ip_id sample_index)" "distinct (map ip_absolute_path sample_index)"
    "\<forall>r \<in> set sample_index. \<not> ip_is_dir r \<longrightarrow> fs_exists (plain_storage [''/r/a'', ''/r/b'']) (ip_absolute_path r)"
    by (simp_all add: sample_index_def plain_storage_def)
  from compiled_plan_executes [OF res [unfolded sample_compilation_def] this] obtain files where
    "run_ops (fc_operations res) (fs_exists (plain_storage [''/r/a'', ''/r/b''])) = Some files" by blast
  moreover have "fs_exists (plain_storage [''/r/a'', ''/r/b'']) = (\<lambda>p. p \<in> {''/r/a'', ''/r/b''})"
    by (auto simp: plain_storage_def)
  ultimately show ?thesis using res by auto
qed

end
