(* ===== verification/WorkflowRefine.thy ===== *)
theory WorkflowRefine
  imports WorkflowStore
begin

section \<open>The store of workflows as a store of documents\<close>

text \<open>
  What the store promises, without rows: a partial map from ids to documents, each with the list of
  its contents so far. An edit appends a content, a rollback appends a copy of an earlier one, an
  archive sets a flag, a deletion removes the document. \<open>documents\<close> reads such a map off the
  database, and every operation of \<open>WorkflowStore\<close> commutes with it.
\<close>

record document =
  dn_name :: string
  dn_description :: string
  dn_builtin :: bool
  dn_archived :: bool
  dn_history :: "(json_text \<times> string) list"

datatype store_request =
    Create create_request
  | Update int update_request
  | Archive int int
  | Rollback int int int
  | Delete int int string

definition serve :: "(string \<Rightarrow> string) \<Rightarrow> int option \<Rightarrow> time \<Rightarrow> store_request \<Rightarrow> db \<Rightarrow> workflow_error + db" where
  "serve digest user now q d = (case q of
      Create c \<Rightarrow> map_sum id snd (create_workflow digest user c now d)
    | Update i u \<Rightarrow> map_sum id snd (update_workflow digest user i u now d)
    | Archive i expected \<Rightarrow> archive_workflow i expected now d
    | Rollback i target expected \<Rightarrow> map_sum id snd (rollback_workflow user i target expected now d)
    | Delete i expected confirmation \<Rightarrow> map_sum id snd (permanent_delete_workflow user i expected confirmation d))"

subsection \<open>The specification\<close>

definition editable_document :: "int \<Rightarrow> int \<Rightarrow> (int \<rightharpoonup> document) \<Rightarrow> workflow_error + document" where
  "editable_document i expected docs = (case docs i of
      None \<Rightarrow> Inl NoSuchWorkflow
    | Some x \<Rightarrow> if dn_builtin x then Inl BuiltinImmutable
        else if dn_archived x then Inl ArchivedWorkflow
        else if expected \<noteq> int (length (dn_history x)) then Inl (RevisionConflict expected (int (length (dn_history x))))
        else Inr x)"

definition append_content :: "int \<Rightarrow> document \<Rightarrow> json_text \<times> string \<Rightarrow> (int \<rightharpoonup> document) \<Rightarrow> (int \<rightharpoonup> document)" where
  "append_content i x c docs = docs(i \<mapsto> x\<lparr>dn_history := dn_history x @ [c]\<rparr>)"

definition deletable_document :: "int \<Rightarrow> int \<Rightarrow> (int \<rightharpoonup> document) \<Rightarrow> workflow_error + document" where
  "deletable_document i expected docs = (case docs i of
      None \<Rightarrow> Inl NoSuchWorkflow
    | Some x \<Rightarrow> if dn_builtin x then Inl BuiltinImmutable
        else if \<not> dn_archived x then Inl NotArchivedWorkflow
        else if expected \<noteq> int (length (dn_history x)) then Inl (RevisionConflict expected (int (length (dn_history x))))
        else Inr x)"

definition spec_serve :: "(string \<Rightarrow> string) \<Rightarrow> int list \<Rightarrow> (int \<Rightarrow> int list) \<Rightarrow> int \<Rightarrow> store_request \<Rightarrow>
    (int \<rightharpoonup> document) \<Rightarrow> workflow_error + (int \<rightharpoonup> document)" where
  "spec_serve digest roots plans fresh q docs = (case q of
      Create c \<Rightarrow> bind_res (prepare_definition digest roots (wc_definition c)) (\<lambda>(raw, content).
        Inr (docs(fresh \<mapsto> \<lparr>dn_name = py_strip (wc_name c), dn_description = py_strip (wc_description c),
               dn_builtin = False, dn_archived = False, dn_history = [content]\<rparr>)))
    | Update i u \<Rightarrow> bind_res (editable_document i (wu_expected_revision u) docs) (\<lambda>x.
        bind_res (case wu_definition u of None \<Rightarrow> Inr (last (dn_history x))
          | Some def \<Rightarrow> map_sum id snd (prepare_definition digest roots def)) (\<lambda>c.
        Inr (append_content i (x\<lparr>dn_name := (case wu_name u of None \<Rightarrow> dn_name x | Some s \<Rightarrow> py_strip s),
               dn_description := (case wu_description u of None \<Rightarrow> dn_description x | Some s \<Rightarrow> py_strip s)\<rparr>) c docs)))
    | Archive i expected \<Rightarrow> bind_res (editable_document i expected docs) (\<lambda>x. Inr (docs(i \<mapsto> x\<lparr>dn_archived := True\<rparr>)))
    | Rollback i target expected \<Rightarrow> bind_res (editable_document i expected docs) (\<lambda>x.
        if 1 \<le> target \<and> target \<le> int (length (dn_history x))
        then Inr (append_content i x (dn_history x ! nat (target - 1)) docs) else Inl (NoSuchRevision target))
    | Delete i expected confirmation \<Rightarrow>
        if confirmation \<noteq> ''DELETE'' then Inl (ValidationError ''WORKFLOW_DELETE_CONFIRMATION_REQUIRED'')
        else bind_res (deletable_document i expected docs) (\<lambda>x.
          if plans i \<noteq> [] then Inl (ActivePlanDependency (plans i)) else Inr (docs(i := None))))"

subsection \<open>Reading the documents off the rows\<close>

definition revision_content :: "db \<Rightarrow> int \<Rightarrow> int \<Rightarrow> (json_text \<times> string) option" where
  "revision_content d wid n = map_option (\<lambda>r. (wr_definition_json r, wr_definition_sha256 r)) (find_revision d wid n)"

definition history_of :: "db \<Rightarrow> int \<Rightarrow> int \<Rightarrow> (json_text \<times> string) list" where
  "history_of d wid current = map (\<lambda>k. the (revision_content d wid (int k + 1))) [0..<nat current]"

definition document_of :: "db \<Rightarrow> workflow \<Rightarrow> document" where
  "document_of d w = \<lparr>dn_name = wf_name w, dn_description = wf_description w, dn_builtin = wf_is_builtin w,
     dn_archived = (wf_archived_at w \<noteq> None), dn_history = history_of d (wf_id w) (wf_current_revision w)\<rparr>"

definition documents :: "db \<Rightarrow> (int \<rightharpoonup> document)" where
  "documents d i = map_option (document_of d) (tbl_get wf_id (db_workflows d) i)"

text \<open>The invariant: the revisions of a workflow are exactly those from 1 to the current one, each once.\<close>

definition store_ok :: "db \<Rightarrow> bool" where
  "store_ok d \<longleftrightarrow>
     (\<forall>w \<in> set (db_workflows d). 1 \<le> wf_current_revision w \<and> tbl_get wf_id (db_workflows d) (wf_id w) = Some w \<and>
        (\<forall>n. find_revision d (wf_id w) n \<noteq> None \<longleftrightarrow> 1 \<le> n \<and> n \<le> wf_current_revision w)) \<and>
     (\<forall>r \<in> set (db_wf_revisions d). tbl_get wf_id (db_workflows d) (wr_workflow_id r) \<noteq> None \<and>
        (\<exists>j. wr_definition_json r = Text j)) \<and>
     distinct (map (\<lambda>r. (wr_workflow_id r, wr_revision r)) (db_wf_revisions d))"

lemma store_okD:
  assumes "store_ok d" "tbl_get wf_id (db_workflows d) wid = Some w"
  shows "wf_id w = wid" "1 \<le> wf_current_revision w"
    "find_revision d wid n \<noteq> None \<longleftrightarrow> 1 \<le> n \<and> n \<le> wf_current_revision w"
  using assms tbl_get_Some [OF assms(2)] by (auto simp: store_ok_def)

lemma find_revision_Some:
  "find_revision d wid n = Some r \<Longrightarrow> r \<in> set (db_wf_revisions d) \<and> wr_workflow_id r = wid \<and> wr_revision r = n"
  by (auto simp: find_revision_def find_Some_iff)

lemma find_revision_None:
  "find_revision d wid n = None \<longleftrightarrow> (\<forall>r \<in> set (db_wf_revisions d). \<not> (wr_workflow_id r = wid \<and> wr_revision r = n))"
  by (auto simp: find_revision_def find_None_iff)

lemma stored_text:
  "store_ok d \<Longrightarrow> find_revision d wid n = Some r \<Longrightarrow> \<exists>j. wr_definition_json r = Text j"
  using find_revision_Some by (fastforce simp: store_ok_def)

lemma find_append: "find P (xs @ ys) = (case find P xs of None \<Rightarrow> find P ys | Some x \<Rightarrow> Some x)"
  by (induction xs) auto

lemma length_history [simp]: "length (history_of d wid c) = nat c"
  by (simp add: history_of_def)

lemma history_nth: "k < nat c \<Longrightarrow> history_of d wid c ! k = the (revision_content d wid (int k + 1))"
  by (simp add: history_of_def)

lemma history_cong:
  "(\<And>n. 1 \<le> n \<Longrightarrow> n \<le> c \<Longrightarrow> revision_content d' wid n = revision_content d wid n) \<Longrightarrow> history_of d' wid c = history_of d wid c"
  by (auto simp: history_of_def)

lemma history_Suc: "0 \<le> c \<Longrightarrow> history_of d wid (c + 1) = history_of d wid c @ [the (revision_content d wid (c + 1))]"
  by (simp add: history_of_def nat_add_distrib)

subsection \<open>The two writes\<close>

definition new_revision :: "db \<Rightarrow> int \<Rightarrow> int \<Rightarrow> json_text \<Rightarrow> string \<Rightarrow> int option \<Rightarrow> time \<Rightarrow> workflow_revision" where
  "new_revision d wid n content sha user now =
     \<lparr>wr_id = tbl_next_id wr_id (db_wf_revisions d), wr_workflow_id = wid, wr_revision = n,
      wr_definition_json = content, wr_definition_sha256 = sha, wr_created_by_user_id = user, wr_created_at = now\<rparr>"

lemma insert_revision_eq:
  "find_revision d wid n = None \<Longrightarrow> insert_revision wid n content sha user now d =
     Inr (d\<lparr>db_wf_revisions := db_wf_revisions d @ [new_revision d wid n content sha user now]\<rparr>)"
  by (simp add: insert_revision_def new_revision_def tbl_insert_def)

lemma find_after_insert:
  assumes "find_revision d wid n = None"
  shows "find_revision (d\<lparr>db_wf_revisions := db_wf_revisions d @ [new_revision d wid n content sha user now]\<rparr>) i k =
    (if i = wid \<and> k = n then Some (new_revision d wid n content sha user now) else find_revision d i k)"
  using assms by (auto simp: find_revision_def find_append new_revision_def split: option.splits)

text \<open>A workflow row and its next revision are written together.\<close>

lemma commit_revision:
  assumes ok: "store_ok d" and w: "tbl_get wf_id (db_workflows d) wid = Some w"
    and w': "wf_id w' = wid" "wf_current_revision w' = wf_current_revision w + 1" and t: "content = Text j"
  shows "\<exists>d1. insert_revision wid (wf_current_revision w + 1) content sha user now d = Inr d1 \<and>
     store_ok (put_workflow w' d1) \<and>
     documents (put_workflow w' d1) = (documents d)(wid \<mapsto>
        \<lparr>dn_name = wf_name w', dn_description = wf_description w', dn_builtin = wf_is_builtin w',
         dn_archived = (wf_archived_at w' \<noteq> None), dn_history = dn_history (document_of d w) @ [(content, sha)]\<rparr>)"
proof -
  let ?c = "wf_current_revision w"
  let ?new = "new_revision d wid (?c + 1) content sha user now"
  let ?d1 = "d\<lparr>db_wf_revisions := db_wf_revisions d @ [?new]\<rparr>"
  let ?d' = "put_workflow w' ?d1"
  note D = store_okD [OF ok w]
  have none: "find_revision d wid (?c + 1) = None" using D(3) [of "?c + 1"] by auto
  have f: "find_revision ?d' i k = (if i = wid \<and> k = ?c + 1 then Some ?new else find_revision d i k)" for i k
    using find_after_insert [OF none] by (simp add: find_revision_def put_workflow_def)
  have g: "tbl_get wf_id (db_workflows ?d') i = (if i = wid then Some w' else tbl_get wf_id (db_workflows d) i)" for i
    using w w' by (simp add: put_workflow_def tbl_get_put)
  have rows: "x \<in> set (db_workflows ?d') \<Longrightarrow> x = w' \<or> x \<in> set (db_workflows d) \<and> wf_id x \<noteq> wid" for x
    using w' by (auto simp: put_workflow_def tbl_put_def split: if_splits)
  have nid: "wr_workflow_id ?new = wid" "wr_definition_json ?new = content" "wr_definition_sha256 ?new = sha"
    by (simp_all add: new_revision_def)
  have "store_ok ?d'"
    unfolding store_ok_def
  proof (intro conjI ballI)
    fix x assume "x \<in> set (db_workflows ?d')"
    from rows [OF this] have x: "x = w' \<or> x \<in> set (db_workflows d) \<and> wf_id x \<noteq> wid" .
    show "1 \<le> wf_current_revision x" using x w'(2) D(2) ok by (auto simp: store_ok_def)
    show "tbl_get wf_id (db_workflows ?d') (wf_id x) = Some x" using x w' ok by (auto simp: g store_ok_def)
    show "\<forall>n. find_revision ?d' (wf_id x) n \<noteq> None \<longleftrightarrow> 1 \<le> n \<and> n \<le> wf_current_revision x"
    proof (cases "x = w'")
      case True
      then show ?thesis using w' D(2,3) by (auto simp: f)
    next
      case False
      then have "x \<in> set (db_workflows d)" "wf_id x \<noteq> wid" using x by auto
      then show ?thesis using ok by (auto simp: f store_ok_def)
    qed
  next
    fix r assume "r \<in> set (db_wf_revisions ?d')"
    then have r: "r = ?new \<or> r \<in> set (db_wf_revisions d)" by (auto simp: put_workflow_def)
    show "tbl_get wf_id (db_workflows ?d') (wr_workflow_id r) \<noteq> None"
      unfolding g using r ok nid by (auto simp: store_ok_def)
    show "\<exists>j. wr_definition_json r = Text j" using r ok t by (auto simp: new_revision_def store_ok_def)
  next
    have "(wid, ?c + 1) \<notin> set (map (\<lambda>r. (wr_workflow_id r, wr_revision r)) (db_wf_revisions d))"
      using none by (auto simp: find_revision_None)
    then show "distinct (map (\<lambda>r. (wr_workflow_id r, wr_revision r)) (db_wf_revisions ?d'))"
      using ok by (simp add: put_workflow_def new_revision_def store_ok_def)
  qed
  moreover have "documents ?d' = (documents d)(wid \<mapsto>
        \<lparr>dn_name = wf_name w', dn_description = wf_description w', dn_builtin = wf_is_builtin w',
         dn_archived = (wf_archived_at w' \<noteq> None), dn_history = dn_history (document_of d w) @ [(content, sha)]\<rparr>)"
  proof
    fix i
    show "documents ?d' i = ((documents d)(wid \<mapsto>
        \<lparr>dn_name = wf_name w', dn_description = wf_description w', dn_builtin = wf_is_builtin w',
         dn_archived = (wf_archived_at w' \<noteq> None), dn_history = dn_history (document_of d w) @ [(content, sha)]\<rparr>)) i"
    proof (cases "i = wid")
      case True
      have "history_of ?d' wid ?c = history_of d wid ?c"
        by (rule history_cong) (simp add: revision_content_def f)
      then have "history_of ?d' wid (?c + 1) = history_of d wid ?c @ [(content, sha)]"
        using D(2) nid by (simp add: history_Suc revision_content_def f)
      with True show ?thesis using w' D(1) by (simp add: documents_def g document_of_def)
    next
      case False
      have "wf_id x = i \<Longrightarrow> history_of ?d' (wf_id x) c = history_of d (wf_id x) c" for x c
        using False by (intro history_cong) (simp add: revision_content_def f)
      then show ?thesis using False
        by (cases "tbl_get wf_id (db_workflows d) i") (auto simp: documents_def g document_of_def dest: tbl_get_Some)
    qed
  qed
  ultimately show ?thesis using insert_revision_eq [OF none] by (intro exI [of _ ?d1]) simp
qed

lemma rewrite_workflow:
  assumes ok: "store_ok d" and w: "tbl_get wf_id (db_workflows d) wid = Some w"
    and w': "wf_id w' = wid" "wf_current_revision w' = wf_current_revision w"
  shows "store_ok (put_workflow w' d)"
    "documents (put_workflow w' d) = (documents d)(wid \<mapsto> document_of d w')"
proof -
  have g: "tbl_get wf_id (db_workflows (put_workflow w' d)) i =
      (if i = wid then Some w' else tbl_get wf_id (db_workflows d) i)" for i
    using w w' by (simp add: put_workflow_def tbl_get_put)
  have r [simp]: "db_wf_revisions (put_workflow w' d) = db_wf_revisions d" by (simp add: put_workflow_def)
  have f: "find_revision (put_workflow w' d) i n = find_revision d i n" for i n by (simp add: find_revision_def)
  have "x \<in> set (db_workflows (put_workflow w' d)) \<Longrightarrow> x = w' \<or> x \<in> set (db_workflows d) \<and> wf_id x \<noteq> wid" for x
    using w' by (auto simp: put_workflow_def tbl_put_def split: if_splits)
  moreover have "1 \<le> wf_current_revision w'" "\<forall>n. find_revision d wid n \<noteq> None \<longleftrightarrow> 1 \<le> n \<and> n \<le> wf_current_revision w'"
    using store_okD [OF ok w] w' by auto
  ultimately show "store_ok (put_workflow w' d)"
    using ok w' unfolding store_ok_def f g r by fastforce
  show "documents (put_workflow w' d) = (documents d)(wid \<mapsto> document_of d w')"
  proof -
    have "document_of (put_workflow w' d) = document_of d"
      by (rule ext) (simp add: document_of_def history_of_def revision_content_def f)
    then show ?thesis by (auto simp: documents_def g)
  qed
qed

lemma insert_workflow:
  assumes ok: "store_ok d" and w: "wf_id w = tbl_next_id wf_id (db_workflows d)" "wf_current_revision w = 1"
    and t: "content = Text j"
  shows "\<exists>d2. insert_revision (wf_id w) 1 content sha user now (d\<lparr>db_workflows := tbl_insert w (db_workflows d)\<rparr>) = Inr d2 \<and>
     store_ok d2 \<and> documents d2 = (documents d)(wf_id w \<mapsto>
        \<lparr>dn_name = wf_name w, dn_description = wf_description w, dn_builtin = wf_is_builtin w,
         dn_archived = (wf_archived_at w \<noteq> None), dn_history = [(content, sha)]\<rparr>)"
proof -
  let ?d1 = "d\<lparr>db_workflows := tbl_insert w (db_workflows d)\<rparr>"
  let ?new = "new_revision ?d1 (wf_id w) 1 content sha user now"
  let ?d2 = "?d1\<lparr>db_wf_revisions := db_wf_revisions ?d1 @ [?new]\<rparr>"
  have free: "tbl_get wf_id (db_workflows d) (wf_id w) = None"
    using tbl_fresh [of _ "db_workflows d" wf_id] w(1) by (force simp: tbl_get_None)
  have unused: "find_revision d (wf_id w) n = None" for n
    using ok free by (fastforce simp: find_revision_None store_ok_def)
  have none: "find_revision ?d1 (wf_id w) 1 = None" using unused [of 1] by (simp add: find_revision_def)
  have f: "find_revision ?d2 i k = (if i = wf_id w \<and> k = 1 then Some ?new else find_revision d i k)" for i k
    using find_after_insert [OF none] by (simp add: find_revision_def)
  have nid: "wr_workflow_id ?new = wf_id w" "wr_definition_json ?new = content" "wr_definition_sha256 ?new = sha" "wr_revision ?new = 1"
    by (simp_all add: new_revision_def)
  have wfs: "db_workflows ?d2 = db_workflows d @ [w]" and revs: "db_wf_revisions ?d2 = db_wf_revisions d @ [?new]"
    by (simp_all add: tbl_insert_def)
  have g: "tbl_get wf_id (db_workflows ?d2) i = (if i = wf_id w then Some w else tbl_get wf_id (db_workflows d) i)" for i
    using free tbl_get_insert [of wf_id w "db_workflows d" i] by (simp add: tbl_insert_def)
  have other: "x \<in> set (db_workflows d) \<Longrightarrow> wf_id x \<noteq> wf_id w" for x using free by (auto simp: tbl_get_None)
  have "store_ok ?d2"
    unfolding store_ok_def
  proof (intro conjI ballI)
    fix x assume "x \<in> set (db_workflows ?d2)"
    then have x: "x = w \<or> x \<in> set (db_workflows d)" unfolding wfs by auto
    show "1 \<le> wf_current_revision x" using x w(2) ok by (auto simp: store_ok_def)
    show "tbl_get wf_id (db_workflows ?d2) (wf_id x) = Some x" unfolding g using x other ok by (auto simp: store_ok_def)
    show "\<forall>n. find_revision ?d2 (wf_id x) n \<noteq> None \<longleftrightarrow> 1 \<le> n \<and> n \<le> wf_current_revision x"
    proof (cases "x = w")
      case True
      then show ?thesis unfolding f using w(2) unused by auto
    next
      case False
      then have "x \<in> set (db_workflows d)" using x by simp
      then have "\<forall>n. find_revision d (wf_id x) n \<noteq> None \<longleftrightarrow> 1 \<le> n \<and> n \<le> wf_current_revision x" "wf_id x \<noteq> wf_id w"
        using ok other unfolding store_ok_def by blast+
      then show ?thesis unfolding f by simp
    qed
  next
    fix r assume "r \<in> set (db_wf_revisions ?d2)"
    then have r: "r = ?new \<or> r \<in> set (db_wf_revisions d)" unfolding revs by auto
    show "tbl_get wf_id (db_workflows ?d2) (wr_workflow_id r) \<noteq> None" unfolding g using r ok nid by (auto simp: store_ok_def)
    show "\<exists>j. wr_definition_json r = Text j" using r ok t nid by (auto simp: store_ok_def)
  next
    have "(wf_id w, 1) \<notin> set (map (\<lambda>r. (wr_workflow_id r, wr_revision r)) (db_wf_revisions d))"
      using unused [of 1] by (auto simp: find_revision_None)
    then show "distinct (map (\<lambda>r. (wr_workflow_id r, wr_revision r)) (db_wf_revisions ?d2))"
      unfolding revs using ok nid by (simp add: store_ok_def)
  qed
  moreover have "documents ?d2 i = ((documents d)(wf_id w \<mapsto>
        \<lparr>dn_name = wf_name w, dn_description = wf_description w, dn_builtin = wf_is_builtin w,
         dn_archived = (wf_archived_at w \<noteq> None), dn_history = [(content, sha)]\<rparr>)) i" for i
  proof (cases "i = wf_id w")
    case True
    have "history_of ?d2 (wf_id w) 1 = [(content, sha)]"
      unfolding history_of_def revision_content_def f using nid by simp
    then show ?thesis unfolding documents_def g document_of_def using True w(2) by simp
  next
    case False
    have "wf_id x = i \<Longrightarrow> history_of ?d2 (wf_id x) c = history_of d (wf_id x) c" for x c
      unfolding history_of_def revision_content_def f using False by simp
    then show ?thesis unfolding documents_def g using False
      by (cases "tbl_get wf_id (db_workflows d) i") (auto simp: document_of_def dest: tbl_get_Some)
  qed
  ultimately show ?thesis using insert_revision_eq [OF none] by (intro exI [of _ ?d2]) auto
qed

lemma find_filter: "find P (filter (\<lambda>x. \<not> Q x) xs) = find (\<lambda>x. P x \<and> \<not> Q x) xs"
  by (induction xs) auto

lemma remove_workflow:
  fixes wid :: int
  assumes ok: "store_ok d"
  defines "d' \<equiv> d\<lparr>db_workflows := tbl_delete (\<lambda>x. wf_id x = wid) (db_workflows d),
                   db_wf_revisions := tbl_delete (\<lambda>r. wr_workflow_id r = wid) (db_wf_revisions d)\<rparr>"
  shows "store_ok d'" "documents d' = (documents d)(wid := None)"
proof -
  have f: "find_revision d' i n = (if i = wid then None else find_revision d i n)" for i n
    by (auto simp: d'_def find_revision_def tbl_delete_def find_filter find_None_iff intro!: arg_cong [of _ _ "\<lambda>P. find P _"])
  have g: "tbl_get wf_id (db_workflows d') i = (if i = wid then None else tbl_get wf_id (db_workflows d) i)" for i
    by (auto simp: d'_def tbl_get_def tbl_delete_def find_filter find_None_iff intro!: arg_cong [of _ _ "\<lambda>P. find P _"])
  have "distinct (map (\<lambda>r. (wr_workflow_id r, wr_revision r)) (db_wf_revisions d'))"
    using ok by (simp add: d'_def store_ok_def tbl_delete_def distinct_map_filter)
  moreover have "set (db_workflows d') = {x \<in> set (db_workflows d). wf_id x \<noteq> wid}"
    "set (db_wf_revisions d') = {r \<in> set (db_wf_revisions d). wr_workflow_id r \<noteq> wid}"
    by (auto simp: d'_def tbl_delete_def)
  ultimately show "store_ok d'" using ok unfolding store_ok_def f g by auto
  show "documents d' = (documents d)(wid := None)"
  proof
    fix i
    show "documents d' i = ((documents d)(wid := None)) i"
      by (cases "tbl_get wf_id (db_workflows d) i")
        (auto simp: documents_def g document_of_def history_of_def revision_content_def f dest: tbl_get_Some)
  qed
qed

subsection \<open>Each operation refines its specification\<close>

definition refines :: "workflow_error + db \<Rightarrow> workflow_error + (int \<rightharpoonup> document) \<Rightarrow> bool" where
  "refines result spec \<longleftrightarrow> (case result of
      Inl e \<Rightarrow> spec = Inl e
    | Inr d' \<Rightarrow> store_ok d' \<and> spec = Inr (documents d'))"

lemma editable_refines:
  assumes "store_ok d"
  shows "editable_document wid expected (documents d) = map_sum id (document_of d) (editable_workflow wid expected d)"
    and "editable_workflow wid expected d = Inr w \<Longrightarrow> tbl_get wf_id (db_workflows d) wid = Some w \<and> wf_archived_at w = None"
proof -
  have "tbl_get wf_id (db_workflows d) wid = Some x \<Longrightarrow> int (nat (wf_current_revision x)) = wf_current_revision x" for x
    using store_okD(2) [OF assms] by fastforce
  then show "editable_document wid expected (documents d) = map_sum id (document_of d) (editable_workflow wid expected d)"
    by (simp add: editable_document_def editable_workflow_def documents_def document_of_def split: option.splits)
  show "editable_workflow wid expected d = Inr w \<Longrightarrow> tbl_get wf_id (db_workflows d) wid = Some w \<and> wf_archived_at w = None"
    by (auto simp: editable_workflow_def split: option.splits if_splits)
qed

lemma document_of_sel:
  "dn_name (document_of d w) = wf_name w" "dn_description (document_of d w) = wf_description w"
  "dn_builtin (document_of d w) = wf_is_builtin w" "dn_archived (document_of d w) = (wf_archived_at w \<noteq> None)"
  by (simp_all add: document_of_def)

lemma prepare_text:
  "prepare_definition digest roots def = Inr (raw, content, sha) \<Longrightarrow> \<exists>j. content = Text j"
  by (auto simp: prepare_definition_def bind_res_Inr Let_def)

lemma history_content:
  assumes "store_ok d" "tbl_get wf_id (db_workflows d) wid = Some w" "find_revision d wid n = Some r"
  shows "1 \<le> n" "n \<le> wf_current_revision w"
    "dn_history (document_of d w) ! nat (n - 1) = (wr_definition_json r, wr_definition_sha256 r)"
proof -
  note D = store_okD [OF assms(1,2)]
  show n: "1 \<le> n" "n \<le> wf_current_revision w" using D(3) [of n] assms(3) by auto
  have k: "nat (n - 1) < nat (wf_current_revision w)" "int (nat (n - 1)) + 1 = n" using n by auto
  show "dn_history (document_of d w) ! nat (n - 1) = (wr_definition_json r, wr_definition_sha256 r)"
    using history_nth [OF k(1), of d wid] k(2) D(1) assms(3) by (simp add: document_of_def revision_content_def)
qed

lemma last_content:
  assumes "store_ok d" "tbl_get wf_id (db_workflows d) wid = Some w" "find_revision d wid (wf_current_revision w) = Some r"
  shows "last (dn_history (document_of d w)) = (wr_definition_json r, wr_definition_sha256 r)"
proof -
  have "length (dn_history (document_of d w)) = nat (wf_current_revision w)" by (simp add: document_of_def)
  moreover have "1 \<le> wf_current_revision w" by (rule store_okD(2) [OF assms(1,2)])
  ultimately have "last (dn_history (document_of d w)) = dn_history (document_of d w) ! nat (wf_current_revision w - 1)"
    by (subst last_conv_nth) (auto simp: nat_diff_distrib)
  then show ?thesis using history_content(3) [OF assms] by simp
qed

lemma create_refines:
  assumes "store_ok d"
  shows "refines (serve digest user now (Create c) d)
    (spec_serve digest (known_roots d) plans (tbl_next_id wf_id (db_workflows d)) (Create c) (documents d))"
proof (cases "prepare_definition digest (known_roots d) (wc_definition c)")
  case (Inl e)
  then show ?thesis by (simp add: refines_def serve_def create_workflow_def spec_serve_def)
next
  case (Inr p)
  obtain raw content sha where p: "p = (raw, content, sha)" by (cases p)
  obtain j where j: "content = Text j" using prepare_text Inr p by blast
  let ?w = "\<lparr>wf_id = tbl_next_id wf_id (db_workflows d), wf_name = py_strip (wc_name c),
              wf_description = py_strip (wc_description c), wf_current_revision = 1, wf_is_builtin = False,
              wf_created_by_user_id = user, wf_archived_at = None, wf_created_at = now, wf_updated_at = now\<rparr>"
  from insert_workflow [OF assms _ _ j, of ?w sha user now] obtain d2 where
    "insert_revision (wf_id ?w) 1 content sha user now (d\<lparr>db_workflows := tbl_insert ?w (db_workflows d)\<rparr>) = Inr d2"
    "store_ok d2" "documents d2 = (documents d)(wf_id ?w \<mapsto>
        \<lparr>dn_name = wf_name ?w, dn_description = wf_description ?w, dn_builtin = wf_is_builtin ?w,
         dn_archived = (wf_archived_at ?w \<noteq> None), dn_history = [(content, sha)]\<rparr>)" by auto
  then show ?thesis using Inr p by (simp add: refines_def serve_def create_workflow_def spec_serve_def Let_def)
qed

lemma update_refines:
  assumes ok: "store_ok d"
  shows "refines (serve digest user now (Update i u) d)
    (spec_serve digest (known_roots d) plans fresh (Update i u) (documents d))"
proof (cases "editable_workflow i (wu_expected_revision u) d")
  case (Inl e)
  then show ?thesis using editable_refines(1) [OF ok, of i "wu_expected_revision u"]
    by (simp add: refines_def serve_def update_workflow_def spec_serve_def)
next
  case (Inr w)
  from editable_refines(2) [OF ok Inr] have w: "tbl_get wf_id (db_workflows d) i = Some w" "wf_archived_at w = None" by auto
  note D = store_okD [OF ok w(1)]
  have e: "editable_document i (wu_expected_revision u) (documents d) = Inr (document_of d w)"
    using editable_refines(1) [OF ok, of i "wu_expected_revision u"] Inr by simp
  let ?new = "case wu_definition u of
         Some def \<Rightarrow> prepare_definition digest (known_roots d) def
       | None \<Rightarrow> (case find_revision d i (wf_current_revision w) of
             None \<Rightarrow> Inl (NoSuchRevision (wf_current_revision w))
           | Some r \<Rightarrow> bind_res (loads_definition (wr_definition_json r)) (\<lambda>j.
               Inr (j, wr_definition_json r, wr_definition_sha256 r)))"
  let ?spec = "case wu_definition u of None \<Rightarrow> Inr (last (dn_history (document_of d w)))
          | Some def \<Rightarrow> map_sum id snd (prepare_definition digest (known_roots d) def)"
  have spec: "?spec = map_sum id snd ?new"
    and plain: "?new = Inr (raw, content, sha) \<Longrightarrow> \<exists>j. content = Text j" for raw content sha
  proof -
    show "?spec = map_sum id snd ?new"
    proof (cases "wu_definition u")
      case None
      obtain r where r: "find_revision d i (wf_current_revision w) = Some r" using D(2) D(3) [of "wf_current_revision w"] by auto
      obtain j where j: "wr_definition_json r = Text j" using stored_text [OF ok r] by blast
      show ?thesis using None r j last_content [OF ok w(1) r] by (simp add: loads_definition_def)
    qed simp
    show "?new = Inr (raw, content, sha) \<Longrightarrow> \<exists>j. content = Text j"
      using prepare_text stored_text [OF ok] by (auto simp: bind_res_Inr split: option.splits)
  qed
  show ?thesis
  proof (cases ?new)
    case (Inl x)
    then show ?thesis using Inr e spec by (simp add: refines_def serve_def update_workflow_def spec_serve_def Let_def)
  next
    case new: (Inr p)
    obtain raw content sha where p: "p = (raw, content, sha)" by (cases p)
    obtain j where j: "content = Text j" using plain new p by blast
    let ?w' = "(renamed_workflow u w)\<lparr>wf_current_revision := wf_current_revision w + 1, wf_updated_at := now\<rparr>"
    have w': "wf_id ?w' = i" "wf_current_revision ?w' = wf_current_revision w + 1"
      using D(1) by (simp_all add: renamed_workflow_def)
    from commit_revision [OF ok w(1) w' j, of sha user now] obtain d1 where
      d1: "insert_revision i (wf_current_revision w + 1) content sha user now d = Inr d1" "store_ok (put_workflow ?w' d1)"
        "documents (put_workflow ?w' d1) = (documents d)(i \<mapsto>
        \<lparr>dn_name = wf_name ?w', dn_description = wf_description ?w', dn_builtin = wf_is_builtin ?w',
         dn_archived = (wf_archived_at ?w' \<noteq> None), dn_history = dn_history (document_of d w) @ [(content, sha)]\<rparr>)" by blast
    have s: "serve digest user now (Update i u) d = Inr (put_workflow ?w' d1)"
      using Inr new p d1(1) by (simp add: serve_def update_workflow_def Let_def)
    have "spec_serve digest (known_roots d) plans fresh (Update i u) (documents d) = Inr (documents (put_workflow ?w' d1))"
    proof -
      have sp: "?spec = Inr (content, sha)" using spec new p by simp
      have "spec_serve digest (known_roots d) plans fresh (Update i u) (documents d) = Inr (append_content i
          ((document_of d w)\<lparr>dn_name := wf_name ?w', dn_description := wf_description ?w'\<rparr>) (content, sha) (documents d))"
        using e sp by (simp add: spec_serve_def document_of_sel renamed_workflow_def cong: option.case_cong)
      then show ?thesis unfolding d1(3)
        by (simp add: append_content_def document_of_def renamed_workflow_def)
    qed
    with s d1(2) show ?thesis by (simp add: refines_def)
  qed
qed

lemma archive_refines:
  assumes ok: "store_ok d"
  shows "refines (serve digest user now (Archive i expected) d)
    (spec_serve digest roots plans fresh (Archive i expected) (documents d))"
proof (cases "editable_workflow i expected d")
  case (Inl e)
  then show ?thesis using editable_refines(1) [OF ok, of i expected]
    by (simp add: refines_def serve_def archive_workflow_def spec_serve_def)
next
  case (Inr w)
  from editable_refines(2) [OF ok Inr] have w: "tbl_get wf_id (db_workflows d) i = Some w" by blast
  have "editable_document i expected (documents d) = Inr (document_of d w)"
    using editable_refines(1) [OF ok, of i expected] Inr by simp
  then show ?thesis
    using Inr rewrite_workflow [OF ok w, of "w\<lparr>wf_archived_at := Some now, wf_updated_at := now\<rparr>"] store_okD(1) [OF ok w]
    by (simp add: refines_def serve_def archive_workflow_def spec_serve_def document_of_def)
qed

lemma rollback_refines:
  assumes ok: "store_ok d"
  shows "refines (serve digest user now (Rollback i target expected) d)
    (spec_serve digest roots plans fresh (Rollback i target expected) (documents d))"
proof (cases "editable_workflow i expected d")
  case (Inl e)
  then show ?thesis using editable_refines(1) [OF ok, of i expected]
    by (simp add: refines_def serve_def rollback_workflow_def spec_serve_def)
next
  case (Inr w)
  from editable_refines(2) [OF ok Inr] have w: "tbl_get wf_id (db_workflows d) i = Some w" "wf_archived_at w = None" by auto
  note D = store_okD [OF ok w(1)]
  have e: "editable_document i expected (documents d) = Inr (document_of d w)"
    using editable_refines(1) [OF ok, of i expected] Inr by simp
  have len: "int (length (dn_history (document_of d w))) = wf_current_revision w" using D(2) by (simp add: document_of_def)
  show ?thesis
  proof (cases "find_revision d i target")
    case None
    then have "\<not> (1 \<le> target \<and> target \<le> wf_current_revision w)" using D(3) [of target] by simp
    then show ?thesis using None Inr e len by (auto simp: refines_def serve_def rollback_workflow_def spec_serve_def)
  next
    case (Some r)
    note H = history_content [OF ok w(1) Some]
    obtain j where j: "wr_definition_json r = Text j" using stored_text [OF ok Some] by blast
    let ?w' = "w\<lparr>wf_current_revision := wf_current_revision w + 1, wf_updated_at := now\<rparr>"
    have w': "wf_id ?w' = i" "wf_current_revision ?w' = wf_current_revision w + 1" using D(1) by simp_all
    from commit_revision [OF ok w(1) w' j, of "wr_definition_sha256 r" user now] obtain d1 where
      d1: "insert_revision i (wf_current_revision w + 1) (wr_definition_json r) (wr_definition_sha256 r) user now d = Inr d1"
        "store_ok (put_workflow ?w' d1)"
        "documents (put_workflow ?w' d1) = (documents d)(i \<mapsto>
        \<lparr>dn_name = wf_name ?w', dn_description = wf_description ?w', dn_builtin = wf_is_builtin ?w',
         dn_archived = (wf_archived_at ?w' \<noteq> None),
         dn_history = dn_history (document_of d w) @ [(wr_definition_json r, wr_definition_sha256 r)]\<rparr>)" by blast
    have s: "serve digest user now (Rollback i target expected) d = Inr (put_workflow ?w' d1)"
      using Inr Some d1(1) by (simp add: serve_def rollback_workflow_def Let_def)
    have "spec_serve digest roots plans fresh (Rollback i target expected) (documents d) = Inr (documents (put_workflow ?w' d1))"
      using e len H w(2) by (simp add: spec_serve_def append_content_def d1(3)) (simp add: document_of_def)
    with s d1(2) show ?thesis by (simp add: refines_def)
  qed
qed

lemma delete_refines:
  assumes ok: "store_ok d"
  shows "refines (serve digest user now (Delete i expected confirmation) d)
    (spec_serve digest roots (\<lambda>i. active_plan_ids i d) fresh (Delete i expected confirmation) (documents d))"
proof (cases "tbl_get wf_id (db_workflows d) i")
  case None
  then show ?thesis
    by (simp add: refines_def serve_def permanent_delete_workflow_def spec_serve_def deletable_document_def documents_def)
next
  case (Some w)
  have len: "int (length (dn_history (document_of d w))) = wf_current_revision w"
    using store_okD(2) [OF ok Some] by (simp add: document_of_def)
  have doc: "documents d i = Some (document_of d w)" using Some by (simp add: documents_def)
  show ?thesis using Some len doc document_of_sel(3,4) [of d w] remove_workflow [OF ok, of i]
    by (simp add: refines_def serve_def permanent_delete_workflow_def spec_serve_def deletable_document_def Let_def)
qed

end
