(* ===== verification/WorkflowDraft.thy ===== *)
theory WorkflowDraft
  imports WorkflowPlan WorkflowRefine
begin

section \<open>Previews and drafts of file workflows\<close>

text \<open>
  Models the file mode of \<open>preview_workflow\<close> and \<open>generate_plan\<close> of app/workflows/service.py. A
  generation reads and compiles in one session and writes in another: \<open>d\<close> is the database the
  first one sees, \<open>d1\<close> the one of the second, which other requests may have changed in between.
  Settings, index and the policy row belong to the first. The other modes, which compile live
  directories or duplicate groups, are \<open>OtherMode\<close>.
\<close>

datatype draft_error =
    StoreError workflow_error | CompileError compile_file_error
  | DigestChanged | DefinitionChanged | EmptyPlan | OtherMode string

record draft_request =
  dr_revision :: "int option"
  dr_root_ids :: "int list option"
  dr_runtime_inputs :: "runtime_inputs option"
  dr_selected :: "string list option"
  dr_expected_digest :: string

subsection \<open>Opening a definition\<close>

text \<open>What a stored definition says of its mode and its raw steps.\<close>

definition raw_definition :: "json \<Rightarrow> workflow_error + (string option \<times> json list)" where
  "raw_definition j = (case j of
      JObj kvs \<Rightarrow>
        let mode = (case map_of kvs ''mode'' of Some (JStr m) \<Rightarrow> Some m | _ \<Rightarrow> None)
        in (case map_of kvs ''steps'' of
              None \<Rightarrow> Inr (mode, []) | Some (JList steps) \<Rightarrow> Inr (mode, steps) | _ \<Rightarrow> Inl UnreadableDefinition)
    | _ \<Rightarrow> Inl UnreadableDefinition)"

definition live_revision :: "int \<Rightarrow> int option \<Rightarrow> db \<Rightarrow> workflow_error + (workflow \<times> int \<times> workflow_revision)" where
  "live_revision wid number d = (case tbl_get wf_id (db_workflows d) wid of
      None \<Rightarrow> Inl NoSuchWorkflow
    | Some w \<Rightarrow>
        if wf_archived_at w \<noteq> None then Inl ArchivedWorkflow
        else let n = (case number of None \<Rightarrow> wf_current_revision w | Some n \<Rightarrow> n) in
          (case find_revision d wid n of None \<Rightarrow> Inl (NoSuchRevision n) | Some r \<Rightarrow> Inr (w, n, r)))"

definition open_definition :: "(json \<Rightarrow> workflow_definition option) \<Rightarrow> workflow_revision \<Rightarrow>
    workflow_error + workflow_definition" where
  "open_definition model_validate r =
     bind_res (loads_definition (wr_definition_json r)) (\<lambda>j.
     bind_res (raw_definition j) (\<lambda>(mode, steps).
     bind_res (validate_raw_steps_types steps mode) (\<lambda>_.
     case model_validate j of None \<Rightarrow> Inl UnreadableDefinition | Some w \<Rightarrow> Inr w)))"

definition compile_revision :: "(string \<Rightarrow> string) \<Rightarrow> mutation_fs \<Rightarrow> settings \<Rightarrow>
    filter_policy option \<Rightarrow> indexed_path list \<Rightarrow> workflow_definition \<Rightarrow> int \<Rightarrow> int \<Rightarrow> string \<Rightarrow>
    int list option \<Rightarrow> db \<Rightarrow> draft_error + file_compilation" where
  "compile_revision digest fs st policy index w wid n sha ids d =
     left_as CompileError (compile_file_workflow digest fs st (db_roots d) policy index w (Some wid) (Some n) sha ids
       MAX_WORKFLOW_CANDIDATES MAX_WORKFLOW_PLAN_ITEMS)"

subsection \<open>Previews\<close>

definition changed_operation :: "virtual_operation \<Rightarrow> bool" where
  "changed_operation op \<longleftrightarrow> vo_operation op \<in> {''rename'', ''move'', ''quarantine'', ''rmdir_empty''}"

definition preview_page :: "bool \<Rightarrow> nat \<Rightarrow> nat \<Rightarrow> virtual_operation list \<Rightarrow> virtual_operation list \<times> nat" where
  "preview_page only_changed page page_size ops =
     (let items = (if only_changed then filter changed_operation ops else ops); total = length items in
      (take page_size (drop ((page - 1) * page_size) items),
       if total > 0 then (total + page_size - 1) div page_size else 1))"

definition preview_file_workflow :: "(string \<Rightarrow> string) \<Rightarrow> mutation_fs \<Rightarrow> settings \<Rightarrow> (json \<Rightarrow> workflow_definition option) \<Rightarrow>
    filter_policy option \<Rightarrow> indexed_path list \<Rightarrow> int \<Rightarrow> draft_request \<Rightarrow> bool \<Rightarrow> nat \<Rightarrow> nat \<Rightarrow> db \<Rightarrow>
    draft_error + (virtual_operation list \<times> nat \<times> file_compilation)" where
  "preview_file_workflow digest fs st model_validate policy index wid q only_changed page page_size d =
     bind_res (left_as StoreError (live_revision wid (dr_revision q) d)) (\<lambda>(wf, n, r).
     bind_res (left_as StoreError (open_definition model_validate r)) (\<lambda>w.
     bind_res (ensure (wd_mode w = ''file'') (OtherMode (wd_mode w))) (\<lambda>_.
     bind_res (left_as StoreError (resolve_mode_runtime_inputs (wd_mode w) (dr_root_ids q) (dr_runtime_inputs q))) (\<lambda>(scan, ids).
     bind_res (compile_revision digest fs st policy index w wid n (wr_definition_sha256 r) ids d) (\<lambda>c.
     case preview_page only_changed page page_size (fc_operations c) of (items, pages) \<Rightarrow> Inr (items, pages, c))))))"

subsection \<open>Drafts\<close>

definition plan_kind :: "int \<Rightarrow> string" where
  "plan_kind wid = ''workflow-'' @ str_of_int wid"

definition draft_item :: "int \<Rightarrow> nat \<Rightarrow> virtual_operation \<Rightarrow> int \<Rightarrow> batch_plan_item" where
  "draft_item pid k op first = \<lparr>bi_id = first + int k, bi_plan_id = pid, bi_sequence = int (vo_sequence op),
     bi_operation = vo_operation op, bi_source_path = vo_source op, bi_target_path = vo_target op,
     bi_state = ''pending'', bi_reason = None\<rparr>"

definition draft_items :: "int \<Rightarrow> virtual_operation list \<Rightarrow> int \<Rightarrow> batch_plan_item list" where
  "draft_items pid ops first = map (\<lambda>(k, op). draft_item pid k op first) (enumerate 0 ops)"

definition write_draft :: "int \<Rightarrow> int \<Rightarrow> string \<Rightarrow> file_compilation \<Rightarrow> db \<Rightarrow> draft_error + (int \<times> db)" where
  "write_draft wid n sha c d1 =
     bind_res (left_as StoreError (live_revision wid (Some n) d1)) (\<lambda>(wf, n, r).
     if wr_definition_sha256 r \<noteq> sha then Inl DefinitionChanged
     else let pid = tbl_next_id bp_id (db_plans d1) in
       Inr (pid, d1\<lparr>db_plans := tbl_insert \<lparr>bp_id = pid, bp_kind = plan_kind wid, bp_status = ''draft''\<rparr> (db_plans d1),
                    db_items := db_items d1 @ draft_items pid (fc_operations c) (tbl_next_id bi_id (db_items d1))\<rparr>))"

definition generate_file_plan :: "(string \<Rightarrow> string) \<Rightarrow> mutation_fs \<Rightarrow> settings \<Rightarrow> (json \<Rightarrow> workflow_definition option) \<Rightarrow>
    filter_policy option \<Rightarrow> indexed_path list \<Rightarrow> int \<Rightarrow> draft_request \<Rightarrow> db \<Rightarrow> db \<Rightarrow> draft_error + (int \<times> db)" where
  "generate_file_plan digest fs st model_validate policy index wid q d d1 =
     bind_res (left_as StoreError (live_revision wid (dr_revision q) d)) (\<lambda>(wf, n, r).
     bind_res (left_as StoreError (open_definition model_validate r)) (\<lambda>w.
     bind_res (ensure (wd_mode w = ''file'') (OtherMode (wd_mode w))) (\<lambda>_.
     bind_res (ensure (dr_selected q = None) (StoreError (ValidationError ''UTILITY_SELECTION_FORBIDDEN''))) (\<lambda>_.
     bind_res (left_as StoreError (resolve_mode_runtime_inputs (wd_mode w) (dr_root_ids q) (dr_runtime_inputs q))) (\<lambda>(scan, ids).
     bind_res (compile_revision digest fs st policy index w wid n (wr_definition_sha256 r) ids d) (\<lambda>c.
     bind_res (ensure (dr_expected_digest q \<noteq> [] \<and> dr_expected_digest q = fc_compile_digest c) DigestChanged) (\<lambda>_.
     bind_res (ensure (fc_operations c \<noteq> []) EmptyPlan) (\<lambda>_.
     write_draft wid n (wr_definition_sha256 r) c d1))))))))"

subsection \<open>What a draft is\<close>

lemma left_as_eq: "left_as f r = Inr x \<longleftrightarrow> r = Inr x"
  by simp

lemma draft_items_of:
  "filter (\<lambda>i. bi_plan_id i = pid) (draft_items pid ops first) = draft_items pid ops first"
  by (auto simp: draft_items_def draft_item_def filter_id_conv)

lemma draft_items_rows: "map (\<lambda>i. (bi_sequence i, bi_operation i, bi_source_path i, bi_target_path i, bi_state i)) (draft_items pid ops first) =
    map (\<lambda>op. (int (vo_sequence op), vo_operation op, vo_source op, vo_target op, ''pending'')) ops"
  by (simp add: draft_items_def draft_item_def comp_def case_prod_unfold) (metis (no_types, lifting) map_map map_snd_enumerate comp_apply map_eq_conv)

lemma write_draft_rows:
  assumes "write_draft wid n sha c d1 = Inr (pid, d2)" "\<forall>i \<in> set (db_items d1). tbl_get bp_id (db_plans d1) (bi_plan_id i) \<noteq> None"
  shows "tbl_get bp_id (db_plans d1) pid = None" "tbl_get bp_id (db_plans d2) pid = Some \<lparr>bp_id = pid, bp_kind = plan_kind wid, bp_status = ''draft''\<rparr>"
    "map (\<lambda>i. (bi_sequence i, bi_operation i, bi_source_path i, bi_target_path i, bi_state i)) (filter (\<lambda>i. bi_plan_id i = pid) (db_items d2)) =
       map (\<lambda>op. (int (vo_sequence op), vo_operation op, vo_source op, vo_target op, ''pending'')) (fc_operations c)"
    "db_workflows d2 = db_workflows d1" "\<exists>w r. live_revision wid (Some n) d1 = Inr (w, n, r) \<and> wr_definition_sha256 r = sha"
proof -
  obtain w r where w: "live_revision wid (Some n) d1 = Inr (w, n, r)" "wr_definition_sha256 r = sha"
      and pid: "pid = tbl_next_id bp_id (db_plans d1)"
      and d2: "d2 = d1\<lparr>db_plans := tbl_insert \<lparr>bp_id = pid, bp_kind = plan_kind wid, bp_status = ''draft''\<rparr> (db_plans d1),
                    db_items := db_items d1 @ draft_items pid (fc_operations c) (tbl_next_id bi_id (db_items d1))\<rparr>"
    using assms(1) by (auto simp: write_draft_def bind_res_Inr Let_def live_revision_def split: option.splits if_splits)
  show free: "tbl_get bp_id (db_plans d1) pid = None" unfolding pid by (rule plans.fresh_free)
  show "tbl_get bp_id (db_plans d2) pid = Some \<lparr>bp_id = pid, bp_kind = plan_kind wid, bp_status = ''draft''\<rparr>"
    using free by (simp add: d2 tbl_get_insert)
  have "filter (\<lambda>i. bi_plan_id i = pid) (db_items d1) = []" using assms(2) free by (auto simp: filter_empty_conv)
  then show "map (\<lambda>i. (bi_sequence i, bi_operation i, bi_source_path i, bi_target_path i, bi_state i)) (filter (\<lambda>i. bi_plan_id i = pid) (db_items d2)) =
       map (\<lambda>op. (int (vo_sequence op), vo_operation op, vo_source op, vo_target op, ''pending'')) (fc_operations c)"
    by (simp add: d2 draft_items_of draft_items_rows)
  show "db_workflows d2 = db_workflows d1" by (simp add: d2)
  show "\<exists>w r. live_revision wid (Some n) d1 = Inr (w, n, r) \<and> wr_definition_sha256 r = sha" using w by blast
qed

text \<open>A draft keeps its workflow from being deleted.\<close>

lemma draft_blocks_deletion:
  assumes "write_draft wid n sha c d1 = Inr (pid, d2)"
  shows "\<exists>e. permanent_delete_workflow user wid expected confirmation d2 = Inl e"
proof -
  let ?p = "\<lparr>bp_id = pid, bp_kind = plan_kind wid, bp_status = ''draft''\<rparr>"
  have "?p \<in> set (db_plans d2)"
    using assms by (auto simp: write_draft_def bind_res_Inr Let_def tbl_insert_def split: if_splits)
  then have "?p \<in> set (filter (\<lambda>p. bp_kind p = plan_kind wid \<and> bp_status p \<in> set active_plan_statuses) (db_plans d2))"
    by (simp add: active_plan_statuses_def)
  from imageI [OF this, of bp_id] have "pid \<in> set (active_plan_ids wid d2)"
    by (simp add: active_plan_ids_def plan_kind_def)
  then have "active_plan_ids wid d2 \<noteq> []" by auto
  then show ?thesis by (auto simp: permanent_delete_workflow_def split: option.splits)
qed

end
