(* ===== verification/WorkflowHistory.thy ===== *)
theory WorkflowHistory
  imports WorkflowRefine SchedulerDispatch
begin

section \<open>Histories of workflows\<close>

text \<open>
  The refinement of the document store, the contract of a store whose histories only grow, and what
  it gives the scheduler, which pins revisions of workflows.
\<close>

lemma serve_refines:
  assumes "store_ok d"
  shows "refines (serve digest user now q d) (spec_serve digest (known_roots d) (\<lambda>i. active_plan_ids i d)
      (tbl_next_id wf_id (db_workflows d)) q (documents d))"
  by (cases q) (simp_all only: create_refines [OF assms] update_refines [OF assms] archive_refines [OF assms]
      rollback_refines [OF assms] delete_refines [OF assms])

text \<open>
  C37: the workflow service implements the versioned document store: on a well-formed database every
  request gives the error its specification gives, or a well-formed database whose documents are the
  specification's; an edit appends one revision to the history, a rollback appends a copy of the
  revision it names, and nothing else changes.
\<close>

theorem store_refines_documents:
  assumes "store_ok d"
  shows "case serve digest user now q d of
      Inl e \<Rightarrow> spec_serve digest (known_roots d) (\<lambda>i. active_plan_ids i d)
                 (tbl_next_id wf_id (db_workflows d)) q (documents d) = Inl e
    | Inr d' \<Rightarrow> store_ok d' \<and> spec_serve digest (known_roots d) (\<lambda>i. active_plan_ids i d)
                 (tbl_next_id wf_id (db_workflows d)) q (documents d) = Inr (documents d')"
  using serve_refines [OF assms] by (simp only: refines_def)

definition sample_db :: db where
  "sample_db = \<lparr>db_jobs = [], db_events = [], db_scans = [], db_groups = [], db_files = [],
     db_plans = [], db_items = [], db_lock = None, db_worker = None, db_policy = None,
     db_roots = [], db_schedules = [], db_runs = [], db_scheduler = None,
     db_workflows = [\<lparr>wf_id = 1, wf_name = ''w'', wf_description = [], wf_current_revision = 1, wf_is_builtin = False,
        wf_created_by_user_id = None, wf_archived_at = None, wf_created_at = 5, wf_updated_at = 5\<rparr>],
     db_wf_revisions = [\<lparr>wr_id = 1, wr_workflow_id = 1, wr_revision = 1, wr_definition_json = Text (JObj []),
        wr_definition_sha256 = ''h'', wr_created_by_user_id = None, wr_created_at = 5\<rparr>]\<rparr>"

lemma sample_db_ok: "store_ok sample_db"
  by (auto simp: store_ok_def sample_db_def tbl_get_def find_revision_def)

theorem store_refines_documents_witness:
  "\<exists>d'. serve (\<lambda>s. ''h'') None 9 (Rollback 1 1 1) sample_db = Inr d' \<and> store_ok d' \<and>
     map_option dn_history (documents d' 1) = Some [(Text (JObj []), ''h''), (Text (JObj []), ''h'')]"
proof -
  obtain d' where s: "serve (\<lambda>s. ''h'') None 9 (Rollback 1 1 1) sample_db = Inr d'"
    by (simp add: serve_def rollback_workflow_def editable_workflow_def sample_db_def tbl_get_def find_revision_def
        insert_revision_def Let_def)
  have "spec_serve (\<lambda>s. ''h'') (known_roots sample_db) (\<lambda>i. active_plan_ids i sample_db)
      (tbl_next_id wf_id (db_workflows sample_db)) (Rollback 1 1 1) (documents sample_db) =
    Inr ((documents sample_db)(1 \<mapsto> \<lparr>dn_name = ''w'', dn_description = [], dn_builtin = False, dn_archived = False,
      dn_history = [(Text (JObj []), ''h''), (Text (JObj []), ''h'')]\<rparr>))"
    by (simp add: spec_serve_def editable_document_def documents_def document_of_def history_of_def revision_content_def
        find_revision_def sample_db_def tbl_get_def append_content_def)
  with store_refines_documents [OF sample_db_ok, where digest = "\<lambda>s. ''h''" and user = None and now = 9 and q = "Rollback 1 1 1"] s
  have "store_ok d'" "documents d' = (documents sample_db)(1 \<mapsto> \<lparr>dn_name = ''w'', dn_description = [], dn_builtin = False,
      dn_archived = False, dn_history = [(Text (JObj []), ''h''), (Text (JObj []), ''h'')]\<rparr>)" by auto
  with s show ?thesis by (intro exI [of _ d']) simp
qed

subsection \<open>Histories only grow\<close>

locale versioned_store =
  fixes ok :: "'s \<Rightarrow> bool"
    and step :: "'q \<Rightarrow> 's \<Rightarrow> 's"
    and history :: "'s \<Rightarrow> 'i \<rightharpoonup> 'c list"
    and removes :: "'q \<Rightarrow> 'i \<Rightarrow> bool"
  assumes ok_step: "ok s \<Longrightarrow> ok (step q s)"
    and grows: "\<lbrakk> ok s; history s i = Some h; \<not> removes q i \<rbrakk> \<Longrightarrow> \<exists>t. history (step q s) i = Some (h @ t)"
begin

lemma ok_run: "ok s \<Longrightarrow> ok (fold step qs s)"
  by (induction qs arbitrary: s) (auto intro: ok_step)

lemma history_run:
  "\<lbrakk> ok s; history s i = Some h; \<forall>q \<in> set qs. \<not> removes q i \<rbrakk> \<Longrightarrow> \<exists>t. history (fold step qs s) i = Some (h @ t)"
proof (induction qs arbitrary: s h)
  case (Cons q qs)
  then obtain t where "history (step q s) i = Some (h @ t)" using grows [of s i h q] by auto
  from Cons.IH [OF ok_step [OF Cons.prems(1)] this] Cons.prems(3) show ?case by auto
qed simp

text \<open>A revision that was written once is read back as it was.\<close>

lemma pinned:
  assumes "ok s" "history s i = Some h" "k < length h" "\<forall>q \<in> set qs. \<not> removes q i"
  shows "\<exists>h'. history (fold step qs s) i = Some h' \<and> k < length h' \<and> h' ! k = h ! k"
  using history_run [OF assms(1,2,4)] assms(3) by (auto simp: nth_append intro: trans_less_add1)

end

type_synonym timed_request = "int option \<times> time \<times> store_request"

definition attempt :: "(string \<Rightarrow> string) \<Rightarrow> timed_request \<Rightarrow> db \<Rightarrow> db" where
  "attempt digest r d = (case r of (user, now, q) \<Rightarrow> (case serve digest user now q d of Inl e \<Rightarrow> d | Inr d' \<Rightarrow> d'))"

definition history :: "db \<Rightarrow> int \<rightharpoonup> (json_text \<times> string) list" where
  "history d i = map_option dn_history (documents d i)"

definition deletes :: "timed_request \<Rightarrow> int \<Rightarrow> bool" where
  "deletes r i \<longleftrightarrow> (case snd (snd r) of Delete j expected confirmation \<Rightarrow> j = i | _ \<Rightarrow> False)"

lemma documents_fresh: "documents d (tbl_next_id wf_id (db_workflows d)) = None"
  using tbl_fresh [of _ "db_workflows d" wf_id] by (force simp: documents_def tbl_get_None)

lemma spec_grows:
  assumes "spec_serve digest roots plans fresh q docs = Inr docs'" "docs fresh = None" "docs i = Some x"
    "\<not> deletes (user, now, q) i"
  shows "\<exists>x' t. docs' i = Some x' \<and> dn_history x' = dn_history x @ t"
  using assms
  by (cases q) (auto simp: spec_serve_def bind_res_Inr editable_document_def deletable_document_def append_content_def deletes_def
      split: option.splits if_splits)

interpretation workflow_store: versioned_store store_ok "attempt digest" history deletes for digest
proof
  fix d and r :: timed_request
  assume ok: "store_ok d"
  obtain user now q where r: "r = (user, now, q)" by (cases r) auto
  note R = serve_refines [OF ok, of digest user now q]
  show "store_ok (attempt digest r d)"
    using R ok by (auto simp: attempt_def r refines_def split: sum.splits)
  fix i h assume h: "history d i = Some h" "\<not> deletes r i"
  then obtain x where x: "documents d i = Some x" "dn_history x = h" by (auto simp: history_def)
  show "\<exists>t. history (attempt digest r d) i = Some (h @ t)"
  proof (cases "serve digest user now q d")
    case (Inl e)
    then show ?thesis using h by (auto simp: attempt_def r)
  next
    case (Inr d')
    with R have "spec_serve digest (known_roots d) (\<lambda>i. active_plan_ids i d)
      (tbl_next_id wf_id (db_workflows d)) q (documents d) = Inr (documents d')" by (simp add: refines_def)
    from spec_grows [OF this documents_fresh x(1), of user now] h(2) r obtain x' t where
      "documents d' i = Some x'" "dn_history x' = dn_history x @ t" by auto
    then show ?thesis using Inr x(2) by (auto simp: attempt_def r history_def)
  qed
qed


lemma map_snd_Inr: "map_sum id snd r = Inr y \<longleftrightarrow> (\<exists>v. r = Inr (v, y))"
  by (cases r) auto

lemma insert_revision_roots: "insert_revision wid n c sha u now d = Inr d1 \<Longrightarrow> db_roots d1 = db_roots d"
  by (auto simp: insert_revision_def split: if_splits)

lemma known_roots_kept: "known_roots (attempt digest r d) = known_roots d"
proof -
  have "db_roots d' = db_roots d" if "serve digest user now q d = Inr d'" for user now q d'
    using that
    by (cases q)
       (auto simp: serve_def create_workflow_def update_workflow_def archive_workflow_def rollback_workflow_def
          permanent_delete_workflow_def put_workflow_def bind_res_Inr map_snd_Inr Let_def
          dest!: insert_revision_roots split: option.splits if_splits)
  then show ?thesis by (auto simp: attempt_def known_roots_def split: prod.splits sum.splits)
qed

lemma known_roots_run: "known_roots (fold (attempt digest) rs d) = known_roots d"
  by (induction rs arbitrary: d) (simp_all add: known_roots_kept)

lemma history_lookup:
  assumes "store_ok d" "tbl_get wf_id (db_workflows d) wid = Some w" "1 \<le> n"
  shows "history d wid = Some (dn_history (document_of d w))"
    "nat (n - 1) < length (dn_history (document_of d w)) \<longleftrightarrow> find_revision d wid n \<noteq> None"
  using assms store_okD(2,3) [OF assms(1,2)]
  by (auto simp: history_def documents_def document_of_def)

text \<open>
  C38: what a schedule pins stays what it is: if a pinned workflow revision passes the dispatcher's
  check, then after any requests to the workflow service other than the deletion of that workflow
  the check gives the same mode, unless the workflow is archived.
\<close>

theorem pinned_revision_stable:
  assumes ok: "store_ok d"
    and checked: "check_workflow (\<lambda>d. mode_of (known_roots d)) wid n sha d = Inr mode"
    and kept: "\<forall>r \<in> set requests. \<not> deletes r wid"
  shows "check_workflow (\<lambda>d. mode_of (known_roots d)) wid n sha (fold (attempt digest) requests d)
           \<in> {Inr mode, Inl (WorkflowArchived wid)}"
proof -
  let ?d' = "fold (attempt digest) requests d"
  from checked obtain w r where w: "tbl_get wf_id (db_workflows d) wid = Some w" and r: "find_revision d wid n = Some r"
    and sha: "py_lower (wr_definition_sha256 r) = py_lower sha" and m: "mode_of (known_roots d) (wr_definition_json r) = Some mode"
    by (auto simp: check_workflow_def find_revision_def split: option.splits if_splits)
  note H = history_content [OF ok w r]
  note L = history_lookup [OF ok w H(1)]
  have ok': "store_ok ?d'" by (rule workflow_store.ok_run [OF ok])
  have len: "nat (n - 1) < length (dn_history (document_of d w))" using L(2) r by simp
  from workflow_store.pinned [OF ok L(1) len kept, of digest] obtain h' where h':
    "history ?d' wid = Some h'" "nat (n - 1) < length h'" "h' ! nat (n - 1) = (wr_definition_json r, wr_definition_sha256 r)"
    using H(3) by auto
  then obtain w' where w': "tbl_get wf_id (db_workflows ?d') wid = Some w'" by (auto simp: history_def documents_def)
  note L' = history_lookup [OF ok' w' H(1)]
  obtain r' where r': "find_revision ?d' wid n = Some r'" using L' h' by auto
  have "wr_definition_json r' = wr_definition_json r" "wr_definition_sha256 r' = wr_definition_sha256 r"
    using history_content(3) [OF ok' w' r'] L'(1) h' by auto
  then show ?thesis using w' r' sha m by (auto simp: check_workflow_def find_revision_def known_roots_run)
qed

theorem pinned_revision_stable_witness:
  "check_workflow (\<lambda>d _. Some ''file'') 1 1 ''H'' (fold (attempt (\<lambda>s. ''x'')) [(None, 9, Rollback 1 1 1), (None, 10, Archive 1 2)] sample_db)
     \<in> {Inr ''file'', Inl (WorkflowArchived 1)}"
proof -
  have "check_workflow (\<lambda>d. (\<lambda>_ _. Some ''file'') (known_roots d)) 1 1 ''H'' sample_db = Inr ''file''"
    by (simp add: check_workflow_def sample_db_def tbl_get_def, code_simp)
  from pinned_revision_stable [OF sample_db_ok this, of "[(None, 9, Rollback 1 1 1), (None, 10, Archive 1 2)]" "\<lambda>s. ''x''"]
  show ?thesis by (simp add: deletes_def)
qed

end
