(* ===== verification/JsonInjective.thy ===== *)
theory JsonInjective
  imports WorkflowDefs
begin

section \<open>A canonical text stands for one value\<close>

text \<open>
  Two JSON values with the same compact text are the same, and two objects with the same canonical
  text have the same value under every key. Digests of canonical texts thus bind what was digested.
\<close>

subsection \<open>Numbers\<close>

definition ends :: "string \<Rightarrow> bool" where
  "ends r \<longleftrightarrow> r = [] \<or> hd r \<in> {CHR '','', CHR '']'', CHR ''}''}"

lemma ends_not_digit: "ends r \<Longrightarrow> r = [] \<or> \<not> is_digit (hd r)"
  by (auto simp: ends_def is_digit_def less_eq_char_def)

lemma digits_takeWhile: "r = [] \<or> \<not> is_digit (hd r) \<Longrightarrow> takeWhile is_digit (digits_of n @ r) = digits_of n"
proof -
  assume r: "r = [] \<or> \<not> is_digit (hd r)"
  have "takeWhile is_digit (digits_of n @ r) = digits_of n @ takeWhile is_digit r"
    using digits_of_digits(1) [of n] by (simp add: takeWhile_append2)
  moreover have "takeWhile is_digit r = []" using r by (cases r) auto
  ultimately show ?thesis by simp
qed

lemma digits_unique:
  assumes "digits_of n = digits_of m"
  shows "n = m"
  using arg_cong [OF assms, of "digits_val 0 True"] unfolding digits_val_of by (simp only: option.inject of_nat_eq_iff)

lemma digits_prefix:
  assumes "digits_of n @ r1 = digits_of m @ r2" "ends r1" "ends r2"
  shows "n = m \<and> r1 = r2"
proof -
  have "digits_of n = digits_of m"
    using arg_cong [OF assms(1), of "takeWhile is_digit"] digits_takeWhile [OF ends_not_digit [OF assms(2)], of n]
      digits_takeWhile [OF ends_not_digit [OF assms(3)], of m] by simp
  with assms(1) digits_unique show ?thesis by auto
qed

lemma digits_hd: "\<exists>c cs. digits_of n = c # cs \<and> is_digit c"
  using digits_of_digits [of n] by (cases "digits_of n") auto

lemma minus_no_digit: "\<not> is_digit CHR ''-''"
  by (simp add: is_digit_def less_eq_char_def)

lemma int_prefix:
  assumes "str_of_int i @ r1 = str_of_int k @ r2" "ends r1" "ends r2"
  shows "i = k \<and> r1 = r2"
proof -
  have mixed: "CHR ''-'' # x \<noteq> digits_of n @ y" for x y n
    using digits_hd [of n] minus_no_digit by (metis append_Cons list.inject)
  consider "i < 0" "k < 0" | "i < 0" "\<not> k < 0" | "\<not> i < 0" "k < 0" | "\<not> i < 0" "\<not> k < 0" by blast
  then show ?thesis
  proof cases
    case 1
    then have "digits_of (nat (- i)) @ r1 = digits_of (nat (- k)) @ r2" using assms(1) by (simp add: str_of_int_def)
    from digits_prefix [OF this assms(2,3)] 1 show ?thesis by auto
  next
    case 2 then show ?thesis using assms(1) mixed by (simp add: str_of_int_def)
  next
    case 3 then show ?thesis using assms(1) mixed [of r2] by (simp add: str_of_int_def) (metis mixed)
  next
    case 4
    then have "digits_of (nat i) @ r1 = digits_of (nat k) @ r2" using assms(1) by (simp add: str_of_int_def)
    from digits_prefix [OF this assms(2,3)] 4 show ?thesis by auto
  qed
qed

subsection \<open>Strings\<close>

text \<open>The escapes of a character: itself, a letter after a backslash, or four hexadecimal digits.\<close>

definition escape_class :: "char \<Rightarrow> string option" where
  "escape_class c = (let n = (of_char c :: nat) in
     if n = 34 then Some [CHR 0x22] else if n = 92 then Some [CHR 0x5C]
     else if n = 10 then Some ''n'' else if n = 13 then Some ''r'' else if n = 9 then Some ''t''
     else if n = 8 then Some ''b'' else if n = 12 then Some ''f''
     else if n < 32 then Some ([CHR ''u'', CHR ''0'', CHR ''0'', hex_digit (n div 16), hex_digit (n mod 16)])
     else None)"

lemma escape_by_class: "escape_char c = (case escape_class c of None \<Rightarrow> [c] | Some t \<Rightarrow> CHR 0x5C # t)"
proof -
  have c: "c = char_of (of_char c :: nat)" by simp
  have chars: "char_of (34 :: nat) = CHR 0x22" "char_of (92 :: nat) = CHR 0x5C" by code_simp+
  have "c = CHR 0x22" if "(of_char c :: nat) = 34" using c unfolding that chars .
  moreover have "c = CHR 0x5C" if "(of_char c :: nat) = 92" using c unfolding that chars .
  ultimately show ?thesis by (simp add: escape_char_def escape_class_def Let_def)
qed

lemma hex_digit_inj: "a < 16 \<Longrightarrow> b < 16 \<Longrightarrow> hex_digit a = hex_digit b \<Longrightarrow> a = b"
  by (auto simp: hex_digit_def split: if_splits dest!: arg_cong [of _ _ "of_char :: char \<Rightarrow> nat"])

lemma class_none: "escape_class c = None \<Longrightarrow> c \<noteq> CHR 0x5C \<and> c \<noteq> CHR 0x22"
  by (auto simp: escape_class_def Let_def split: if_splits)

text \<open>The classes form a code without prefixes.\<close>

lemma class_prefix:
  assumes "escape_class c = Some s" "escape_class d = Some t" "s @ x = t @ y"
  shows "c = d \<and> x = y"
proof -
  have same: "(of_char c :: nat) = n \<Longrightarrow> (of_char d :: nat) = n \<Longrightarrow> c = d" for n by (metis of_char_eq_iff)
  have "(of_char c :: nat) = of_char d \<and> x = y"
  proof (cases "(of_char c :: nat) < 32 \<and> (of_char d :: nat) < 32 \<and>
      (of_char c :: nat) \<notin> {8, 9, 10, 12, 13} \<and> (of_char d :: nat) \<notin> {8, 9, 10, 12, 13}")
    case True
    then have e: "hex_digit (of_char c div 16) = hex_digit (of_char d div 16) \<and> hex_digit (of_char c mod 16) = hex_digit (of_char d mod 16) \<and> x = y"
      using assms by (auto simp: escape_class_def Let_def split: if_splits)
    moreover have "(of_char c :: nat) div 16 < 16" "(of_char d :: nat) div 16 < 16" using True by auto
    ultimately have "(of_char c :: nat) div 16 = of_char d div 16" "(of_char c :: nat) mod 16 = of_char d mod 16"
      using hex_digit_inj by auto
    then have "(of_char c :: nat) = of_char d" by (metis div_mult_mod_eq)
    with e show ?thesis by simp
  next
    case False
    then show ?thesis using assms by (auto simp: escape_class_def Let_def intro: same split: if_splits)
  qed
  then show ?thesis by simp
qed


lemma escape_prefix:
  assumes "escape_char c @ x = escape_char d @ y"
  shows "c = d \<and> x = y"
proof (cases "escape_class c")
  case None
  show ?thesis
  proof (cases "escape_class d")
    case (Some t) then show ?thesis using assms None class_none [OF None] by (simp add: escape_by_class)
  qed (use assms None in \<open>simp add: escape_by_class\<close>)
next
  case c: (Some s)
  show ?thesis
  proof (cases "escape_class d")
    case None then show ?thesis using assms c class_none [OF None] by (simp add: escape_by_class)
  next
    case (Some t)
    then have "s @ x = t @ y" using assms c by (simp add: escape_by_class)
    from class_prefix [OF c Some this] show ?thesis .
  qed
qed

lemma escape_no_quote: "escape_char c @ x \<noteq> CHR 0x22 # y"
  using class_none [of c] by (cases "escape_class c") (auto simp: escape_by_class)

lemma quote_prefix:
  assumes "quote_json s @ x = quote_json t @ y"
  shows "s = t \<and> x = y"
proof -
  have "concat (map escape_char s) @ CHR 0x22 # x = concat (map escape_char t) @ CHR 0x22 # y \<Longrightarrow> s = t \<and> x = y"
  proof (induction s arbitrary: t)
    case Nil
    then show ?case using escape_no_quote by (cases t) (auto dest: sym)
  next
    case (Cons c s)
    show ?case
    proof (cases t)
      case Nil
      then show ?thesis using Cons.prems escape_no_quote [of c] by simp
    next
      case (Cons d ds)
      then have "c = d \<and> concat (map escape_char s) @ CHR 0x22 # x = concat (map escape_char ds) @ CHR 0x22 # y"
        using Cons.prems by (intro escape_prefix) simp
      with Cons.IH Cons show ?thesis by blast
    qed
  qed
  then show ?thesis using assms by (simp add: quote_json_def)
qed

subsection \<open>Values\<close>

text \<open>The first character tells the kind of a value.\<close>

fun kind_char :: "json \<Rightarrow> char \<Rightarrow> bool" where
  "kind_char JNull c = (c = CHR ''n'')"
| "kind_char (JBool b) c = (c = (if b then CHR ''t'' else CHR ''f''))"
| "kind_char (JInt i) c = (c = CHR ''-'' \<or> is_digit c)"
| "kind_char (JStr s) c = (c = CHR 0x22)"
| "kind_char (JList xs) c = (c = CHR ''['')"
| "kind_char (JObj kvs) c = (c = CHR ''{'')"

lemma compact_hd: "\<exists>c cs. json_compact j = c # cs \<and> kind_char j c"
proof (cases j)
  case (JInt i)
  show ?thesis unfolding JInt using digits_hd [of "nat i"] by (auto simp: str_of_int_def)
qed (auto simp: quote_json_def)

lemma kind_chars: "kind_char j c \<Longrightarrow> c \<in> {CHR ''n'', CHR ''t'', CHR ''f'', CHR ''-'', CHR 0x22, CHR ''['', CHR ''{''} \<or> is_digit c"
  by (cases j) (auto split: if_splits)

lemma not_closing: "kind_char j c \<Longrightarrow> c \<noteq> CHR '']'' \<and> c \<noteq> CHR ''}'' \<and> c \<noteq> CHR '',''"
  using kind_chars [of j c] by (auto simp: is_digit_def less_eq_char_def)

definition separated :: "string \<Rightarrow> string list \<Rightarrow> string" where
  "separated r xs = concat (map (\<lambda>x. CHR '','' # x) xs) @ r"

lemma join_Cons: "join_with '','' (x # xs) @ r = x @ separated r xs"
  by (induction xs arbitrary: x) (auto simp: separated_def)

text \<open>Lists of texts that can be told apart, closed by a character that none begins with.\<close>

lemma separated_prefix:
  assumes tell: "\<And>x y u v. x \<in> set xs \<Longrightarrow> f x @ u = f y @ v \<Longrightarrow> ends u \<Longrightarrow> ends v \<Longrightarrow> x = y \<and> u = v"
    and close: "close \<in> {CHR '']'', CHR ''}''}"
    and eq: "separated (close # r1) (map f xs) = separated (close # r2) (map f ys)"
  shows "xs = ys \<and> r1 = r2"
  using tell eq
proof (induction xs arbitrary: ys)
  case Nil
  then show ?case using close by (cases ys) (auto simp: separated_def)
next
  case (Cons x xs)
  show ?case
  proof (cases ys)
    case Nil
    then show ?thesis using Cons.prems(2) close by (auto simp: separated_def)
  next
    case y: (Cons y ys')
    have "ends (separated (close # r) zs)" for r zs using close by (cases zs) (auto simp: separated_def ends_def)
    moreover have "f x @ separated (close # r1) (map f xs) = f y @ separated (close # r2) (map f ys')"
      using Cons.prems(2) y by (simp add: separated_def)
    ultimately have "x = y \<and> separated (close # r1) (map f xs) = separated (close # r2) (map f ys')"
      using Cons.prems(1) [of x] by simp
    moreover from this have "xs = ys' \<and> r1 = r2"
      using Cons.IH [of ys'] Cons.prems(1) by (metis list.set_intros(2))
    ultimately show ?thesis using y by simp
  qed
qed

lemma joined_prefix:
  assumes tell: "\<And>x y u v. x \<in> set xs \<Longrightarrow> f x @ u = f y @ v \<Longrightarrow> ends u \<Longrightarrow> ends v \<Longrightarrow> x = y \<and> u = v"
    and open_char: "\<And>x. \<exists>c cs. f x = c # cs \<and> c \<noteq> close"
    and close: "close \<in> {CHR '']'', CHR ''}''}"
    and eq: "join_with '','' (map f xs) @ close # r1 = join_with '','' (map f ys) @ close # r2"
  shows "xs = ys \<and> r1 = r2"
proof -
  have opened: "f x @ u \<noteq> close # v" for x u v using open_char [of x] by auto
  show ?thesis
  proof (cases xs)
    case Nil
    then show ?thesis using eq opened by (cases ys) (auto simp: join_Cons dest: sym)
  next
    case x: (Cons x xs')
    show ?thesis
    proof (cases ys)
      case Nil
      then show ?thesis using eq opened x by (auto simp: join_Cons)
    next
      case (Cons y ys')
      then have "separated (close # r1) (map f xs) = separated (close # r2) (map f ys)"
        using eq x by (simp add: join_Cons) (simp add: separated_def)
      from separated_prefix [OF tell close this] show ?thesis by blast
    qed
  qed
qed


lemma compact_prefix:
  "json_compact j @ r1 = json_compact k @ r2 \<Longrightarrow> ends r1 \<Longrightarrow> ends r2 \<Longrightarrow> j = k \<and> r1 = r2"
proof (induction j arbitrary: k r1 r2)
  case JNull
  then show ?case using compact_hd [of k] by (cases k) (auto simp: is_digit_def less_eq_char_def split: if_splits)
next
  case (JBool b)
  then show ?case using compact_hd [of k] by (cases k; cases b) (auto simp: is_digit_def less_eq_char_def split: if_splits)
next
  case (JInt i)
  obtain c cs where c: "json_compact (JInt i) = c # cs" "kind_char (JInt i) c" using compact_hd by blast
  show ?case
  proof (cases k)
    case (JInt n) then show ?thesis using JInt.prems int_prefix [of i r1 n r2] by simp
  qed (use JInt.prems c in \<open>auto simp: is_digit_def less_eq_char_def quote_json_def split: if_splits\<close>)
next
  case (JStr s)
  show ?case
  proof (cases k)
    case (JStr t) then show ?thesis using JStr.prems quote_prefix [of s r1 t r2] by simp
  next
    case (JInt i) then show ?thesis using JStr.prems compact_hd [of k] by (auto simp: quote_json_def is_digit_def less_eq_char_def)
  qed (use JStr.prems in \<open>auto simp: quote_json_def split: if_splits\<close>)
next
  case (JList xs)
  show ?case
  proof (cases k)
    case (JList ys)
    have "join_with '','' (map json_compact xs) @ CHR '']'' # r1 = join_with '','' (map json_compact ys) @ CHR '']'' # r2"
      using JList.prems(1) JList by simp
    from joined_prefix [OF _ _ _ this] JList.IH JList show ?thesis using compact_hd not_closing by (metis insertI1)
  next
    case (JInt i) then show ?thesis using JList.prems compact_hd [of k] by (auto simp: is_digit_def less_eq_char_def)
  qed (use JList.prems in \<open>auto simp: quote_json_def split: if_splits\<close>)
next
  case (JObj kvs)
  show ?case
  proof (cases k)
    case (JObj lws)
    let ?f = "\<lambda>kv. quote_json (fst kv) @ '':'' @ json_compact (snd kv)"
    have e: "join_with '','' (map ?f kvs) @ CHR ''}'' # r1 = join_with '','' (map ?f lws) @ CHR ''}'' # r2"
      using JObj.prems(1) JObj by simp
    have tell: "x = y \<and> u = v" if "x \<in> set kvs" "?f x @ u = ?f y @ v" "ends u" "ends v" for x y u v
    proof -
      have "fst x = fst y \<and> json_compact (snd x) @ u = json_compact (snd y) @ v"
        using quote_prefix [of "fst x" "'':'' @ json_compact (snd x) @ u" "fst y" "'':'' @ json_compact (snd y) @ v"] that(2) by simp
      moreover from this have "snd x = snd y \<and> u = v"
        using JObj.IH [of x "snd x" u "snd y" v] that by (cases x) (auto simp: prod_set_simps)
      ultimately show ?thesis by (simp add: prod_eq_iff)
    qed
    have "\<exists>c cs. ?f x = c # cs \<and> c \<noteq> CHR ''}''" for x by (simp add: quote_json_def)
    from joined_prefix [OF tell this _ e] JObj show ?thesis by simp
  next
    case (JInt i) then show ?thesis using JObj.prems compact_hd [of k] by (auto simp: is_digit_def less_eq_char_def)
  qed (use JObj.prems in \<open>auto simp: quote_json_def split: if_splits\<close>)
qed

lemma json_compact_inj: "json_compact j = json_compact k \<Longrightarrow> j = k"
  using compact_prefix [of j "[]" k "[]"] by (simp add: ends_def)

subsection \<open>Canonical texts\<close>

definition dict :: "json \<Rightarrow> string \<rightharpoonup> json" where
  "dict j = (case j of JObj kvs \<Rightarrow> map_of kvs | _ \<Rightarrow> Map.empty)"

lemma map_of_sort: "distinct (map fst kvs) \<Longrightarrow> map_of (sort_key fst kvs) = map_of kvs"
proof
  fix k
  assume d: "distinct (map fst kvs)"
  then have d': "distinct (map fst (sort_key fst kvs))" by (metis distinct_map distinct_sort set_sort)
  have "map_of (sort_key fst kvs) k = Some v \<longleftrightarrow> map_of kvs k = Some v" for v
    using d d' by (simp add: map_of_eq_Some_iff)
  then show "map_of (sort_key fst kvs) k = map_of kvs k" by (cases "map_of kvs k") (metis option.exhaust)+
qed

lemma map_of_values: "map_of (map (\<lambda>kv. (fst kv, f (snd kv))) kvs) k = map_option f (map_of kvs k)"
  by (induction kvs) auto

lemma sorted_dict:
  assumes "distinct (map fst kvs)"
  shows "dict (sort_keys (JObj kvs)) k = map_option sort_keys (map_of kvs k)"
proof -
  have "distinct (map fst (map (\<lambda>kv. (fst kv, sort_keys (snd kv))) kvs))" using assms by (simp add: comp_def)
  from map_of_sort [OF this] show ?thesis by (simp add: dict_def map_of_values)
qed

lemma same_text_same_values:
  assumes "canonical_json_dumps (JObj kvs) = canonical_json_dumps (JObj lws)" "distinct (map fst kvs)" "distinct (map fst lws)"
  shows "map_option sort_keys (map_of kvs k) = map_option sort_keys (map_of lws k)"
proof -
  have "sort_keys (JObj kvs) = sort_keys (JObj lws)"
    using assms(1) unfolding canonical_json_dumps_def by (rule json_compact_inj)
  then show ?thesis using sorted_dict [OF assms(2), of k] sorted_dict [OF assms(3), of k] by simp
qed

end
