(* ===== verification/WorkflowDigest.thy ===== *)
theory WorkflowDigest
  imports WorkflowDraft WorkflowHistory JsonInjective
begin

section \<open>What the digest of a compilation binds\<close>

text \<open>
  A client quotes the digest of the preview it has shown; the generation compiles again and compares.
  The digest is of the canonical text of the operations, so agreement means the same operations.
\<close>

lemma operation_keys: "\<exists>kvs. operation_dict op = JObj kvs \<and> distinct (map fst kvs)"
  by (auto simp: operation_dict_def split: option.splits)

lemma operation_dict_same:
  assumes "sort_keys (operation_dict a) = sort_keys (operation_dict b)"
  shows "a = b"
proof -
  obtain kvs lws where k: "operation_dict a = JObj kvs" "distinct (map fst kvs)" "operation_dict b = JObj lws" "distinct (map fst lws)"
    using operation_keys by metis
  have same: "map_option sort_keys (map_of kvs key) = map_option sort_keys (map_of lws key)" for key
    using sorted_dict [OF k(2), of key] sorted_dict [OF k(4), of key] assms unfolding k by simp
  have kvs: "kvs = (case operation_dict a of JObj x \<Rightarrow> x)" and lws: "lws = (case operation_dict b of JObj x \<Rightarrow> x)"
    using k by simp_all
  note get = same [unfolded kvs lws operation_dict_def]
  have "vo_candidate_id a = vo_candidate_id b" using get [of "''candidate_id''"] by simp
  moreover have "vo_workflow_step_index a = vo_workflow_step_index b" using get [of "''workflow_step_index''"] by simp
  moreover have "vo_candidate_operation_index a = vo_candidate_operation_index b"
    using get [of "''candidate_operation_index''"] by simp
  moreover have "vo_operation a = vo_operation b" using get [of "''operation''"] by simp
  moreover have "vo_source a = vo_source b" using get [of "''source''"] by simp
  moreover have "vo_target a = vo_target b" using get [of "''target''"] by (simp add: j_opt_def split: option.splits)
  moreover have "vo_sequence a = vo_sequence b" using get [of "''sequence''"] by simp
  moreover have "vo_mtime_ns a = vo_mtime_ns b" using get [of "''mtime_ns''"] by (cases "vo_mtime_ns a"; cases "vo_mtime_ns b"; cases "vo_reason a"; cases "vo_reason b") simp_all
  moreover have "vo_reason a = vo_reason b" using get [of "''reason''"] by (cases "vo_mtime_ns a"; cases "vo_mtime_ns b"; cases "vo_reason a"; cases "vo_reason b") simp_all
  moreover have "vo_step_id a = vo_step_id b" using get [of "''metadata''"] by (cases "vo_mtime_ns a"; cases "vo_mtime_ns b"; cases "vo_reason a"; cases "vo_reason b") simp_all
  ultimately show "a = b" by simp
qed

lemma payload_same:
  assumes "canonical_json_dumps (digest_payload (Some wid) n sha inputs context ops) =
    canonical_json_dumps (digest_payload (Some wid') n' sha' inputs' context' ops')"
  shows "wid = wid' \<and> n = n' \<and> sha = sha' \<and> ops = ops'"
proof -
  note get = same_text_same_values [OF assms [unfolded digest_payload_def]]
  have "wid = wid'" using get [of "''workflow_id''"] by (simp add: j_opt_def)
  moreover have "n = n'" using get [of "''workflow_revision''"] by (cases n; cases n') (simp_all add: j_opt_def)
  moreover have "sha = sha'" using get [of "''definition_sha256''"] by simp
  moreover have "map (\<lambda>op. sort_keys (operation_dict op)) ops = map (\<lambda>op. sort_keys (operation_dict op)) ops'"
    using get [of "''planned_operations''"] by (simp add: comp_def)
  then have "ops = ops'" using operation_dict_same by (rule map_injective [OF _ injI])
  ultimately show ?thesis by simp
qed

lemma compile_file_digest:
  assumes "compile_file_workflow digest fs st roots policy index w wid number sha override m k = Inr c"
  shows "fc_compile_digest c = digest (canonical_json_dumps (digest_payload wid number (stated_sha digest w sha) (fc_runtime_inputs c)
    (fc_compile_context c) (fc_operations c)))"
  using assms by (auto simp: compile_file_workflow_def compute_definition_sha256_def Let_def bind_res_Inr split: prod.splits if_splits)

subsection \<open>Previewed and generated\<close>

text \<open>The text a request has digested, if it gets as far as that.\<close>

definition request_texts :: "(string \<Rightarrow> string) \<Rightarrow> mutation_fs \<Rightarrow> settings \<Rightarrow> (json \<Rightarrow> workflow_definition option) \<Rightarrow>
    filter_policy option \<Rightarrow> indexed_path list \<Rightarrow> int \<Rightarrow> draft_request \<Rightarrow> db \<Rightarrow> string set" where
  "request_texts digest fs st model_validate policy index wid q d =
     {canonical_json_dumps (digest_payload (Some wid) (Some n) (stated_sha digest w (wr_definition_sha256 r)) (fc_runtime_inputs c)
        (fc_compile_context c) (fc_operations c)) | wk n r w ids c.
        live_revision wid (dr_revision q) d = Inr (wk, n, r) \<and> open_definition model_validate r = Inr w \<and>
        compile_revision digest fs st policy index w wid n (wr_definition_sha256 r) ids d = Inr c}"

lemma request_text:
  assumes "live_revision wid (dr_revision q) d = Inr (wk, n, r)" "open_definition model_validate r = Inr w"
    "compile_revision digest fs st policy index w wid n (wr_definition_sha256 r) ids d = Inr c"
  obtains s where "s \<in> request_texts digest fs st model_validate policy index wid q d" "fc_compile_digest c = digest s"
    "s = canonical_json_dumps (digest_payload (Some wid) (Some n) (stated_sha digest w (wr_definition_sha256 r)) (fc_runtime_inputs c)
        (fc_compile_context c) (fc_operations c))"
  using assms compile_file_digest [of digest fs st "db_roots d" policy index w "Some wid" "Some n" "wr_definition_sha256 r" ids _ _ c]
  by (auto simp: request_texts_def compile_revision_def)

lemma preview_Inr:
  assumes "preview_file_workflow digest fs st model_validate policy index wid q changed page page_size d = Inr (items, pages, c)"
  obtains wk n r w ids where "live_revision wid (dr_revision q) d = Inr (wk, n, r)" "open_definition model_validate r = Inr w"
    "compile_revision digest fs st policy index w wid n (wr_definition_sha256 r) ids d = Inr c"
  using assms by (auto simp: preview_file_workflow_def preview_page_def Let_def bind_res_Inr split: prod.splits if_splits)

lemma generate_Inr:
  assumes "generate_file_plan digest fs st model_validate policy index wid q d d1 = Inr (pid, d2)"
  obtains wk n r w ids c where "live_revision wid (dr_revision q) d = Inr (wk, n, r)" "open_definition model_validate r = Inr w"
    "compile_revision digest fs st policy index w wid n (wr_definition_sha256 r) ids d = Inr c"
    "dr_expected_digest q = fc_compile_digest c" "fc_operations c \<noteq> []"
    "write_draft wid n (wr_definition_sha256 r) c d1 = Inr (pid, d2)"
  using assms by (auto simp: generate_file_plan_def bind_res_Inr split: prod.splits if_splits)

text \<open>
  C40: a generated plan is the plan that was previewed: whatever has happened in between, a generation
  that quotes the digest of a preview writes a new draft of the same workflow with exactly the
  operations of the preview, in their order, with their paths and all pending, and its revision has the stored
  digest of the one that was previewed, when both have one, provided that the digest does not collide on the two texts.
\<close>

theorem generated_plan_is_previewed:
  assumes preview: "preview_file_workflow digest fs st mv policy index wid q changed page page_size d = Inr (items, pages, c)"
    and generated: "generate_file_plan digest fs' st' mv' policy' index' wid' q' d' d1 = Inr (pid, d2)"
    and quoted: "dr_expected_digest q' = fc_compile_digest c"
    and no_collision: "inj_on digest (request_texts digest fs st mv policy index wid q d \<union>
       request_texts digest fs' st' mv' policy' index' wid' q' d')"
    and items_of_plans: "\<forall>i \<in> set (db_items d1). tbl_get bp_id (db_plans d1) (bi_plan_id i) \<noteq> None"
  shows "wid' = wid \<and> fc_operations c \<noteq> [] \<and> tbl_get bp_id (db_plans d1) pid = None \<and>
    tbl_get bp_id (db_plans d2) pid = Some \<lparr>bp_id = pid, bp_kind = plan_kind wid, bp_status = ''draft''\<rparr> \<and>
    map (\<lambda>i. (bi_sequence i, bi_operation i, bi_source_path i, bi_target_path i, bi_state i)) (filter (\<lambda>i. bi_plan_id i = pid) (db_items d2)) =
      map (\<lambda>op. (int (vo_sequence op), vo_operation op, vo_source op, vo_target op, ''pending'')) (fc_operations c) \<and>
    (\<exists>wk n r wk1 r1. live_revision wid (dr_revision q) d = Inr (wk, n, r) \<and>
       live_revision wid (Some n) d1 = Inr (wk1, n, r1) \<and>
       (wr_definition_sha256 r1 = wr_definition_sha256 r \<or> wr_definition_sha256 r = [] \<or> wr_definition_sha256 r1 = []))"
proof -
  obtain wk n r w ids where p: "live_revision wid (dr_revision q) d = Inr (wk, n, r)" "open_definition mv r = Inr w"
      "compile_revision digest fs st policy index w wid n (wr_definition_sha256 r) ids d = Inr c"
    using preview by (rule preview_Inr)
  obtain wk' n' r' w' ids' c' where g: "live_revision wid' (dr_revision q') d' = Inr (wk', n', r')" "open_definition mv' r' = Inr w'"
      "compile_revision digest fs' st' policy' index' w' wid' n' (wr_definition_sha256 r') ids' d' = Inr c'"
      "dr_expected_digest q' = fc_compile_digest c'" "fc_operations c' \<noteq> []"
      "write_draft wid' n' (wr_definition_sha256 r') c' d1 = Inr (pid, d2)"
    using generated by (rule generate_Inr)
  obtain s where s: "s \<in> request_texts digest fs st mv policy index wid q d" "fc_compile_digest c = digest s"
    "s = canonical_json_dumps (digest_payload (Some wid) (Some n) (stated_sha digest w (wr_definition_sha256 r)) (fc_runtime_inputs c)
        (fc_compile_context c) (fc_operations c))"
    using p by (rule request_text)
  obtain t where t: "t \<in> request_texts digest fs' st' mv' policy' index' wid' q' d'" "fc_compile_digest c' = digest t"
    "t = canonical_json_dumps (digest_payload (Some wid') (Some n') (stated_sha digest w' (wr_definition_sha256 r')) (fc_runtime_inputs c')
        (fc_compile_context c') (fc_operations c'))"
    using g(1-3) by (rule request_text)
  have "digest s = digest t" using quoted g(4) s(2) t(2) by simp
  then have "s = t" using no_collision s(1) t(1) by (meson UnI1 UnI2 inj_onD)
  with s(3) t(3) have "canonical_json_dumps (digest_payload (Some wid) (Some n) (stated_sha digest w (wr_definition_sha256 r)) (fc_runtime_inputs c)
        (fc_compile_context c) (fc_operations c)) =
      canonical_json_dumps (digest_payload (Some wid') (Some n') (stated_sha digest w' (wr_definition_sha256 r')) (fc_runtime_inputs c')
        (fc_compile_context c') (fc_operations c'))" by simp
  from payload_same [OF this] have e: "wid' = wid" "n' = n" "fc_operations c' = fc_operations c"
    and sha: "wr_definition_sha256 r' = wr_definition_sha256 r \<or> wr_definition_sha256 r = [] \<or> wr_definition_sha256 r' = []"
    by (auto simp: stated_sha_def split: if_splits)
  note rows = write_draft_rows [OF g(6) items_of_plans, unfolded e]
  obtain wk1 r1 where r1: "live_revision wid (Some n) d1 = Inr (wk1, n, r1)" "wr_definition_sha256 r1 = wr_definition_sha256 r'"
    using rows(5) by blast
  show ?thesis
  proof (intro conjI exI)
    show "live_revision wid (dr_revision q) d = Inr (wk, n, r)" by (rule p(1))
    show "live_revision wid (Some n) d1 = Inr (wk1, n, r1)" by (rule r1(1))
    show "wr_definition_sha256 r1 = wr_definition_sha256 r \<or> wr_definition_sha256 r = [] \<or> wr_definition_sha256 r1 = []"
      using sha unfolding r1(2) .
  qed (use rows(1-3) g(5) e in simp_all)
qed

definition draft_db :: db where
  "draft_db = sample_db\<lparr>db_roots := [\<lparr>ir_id = 1, ir_root = ''/r'', ir_created_at = 0\<rparr>]\<rparr>"

definition sample_request :: "string \<Rightarrow> draft_request" where
  "sample_request expected = \<lparr>dr_revision = Some 1, dr_root_ids = None, dr_runtime_inputs = None, dr_selected = None,
     dr_expected_digest = expected\<rparr>"

abbreviation sample_compile :: "(string \<Rightarrow> string) \<Rightarrow> draft_error + file_compilation" where
  "sample_compile digest \<equiv> compile_revision digest (plain_storage [''/r/a'', ''/r/b''])
     \<lparr>st_allowed_roots = [''/r''], st_quarantine_root = None\<rparr> None sample_index sample_workflow 1 1 ''h'' None draft_db"

text \<open>Neither the digest nor wider limits change what is compiled.\<close>

lemma compile_any_digest:
  assumes "compile_file_workflow digest fs st roots policy index w wid number sha ids m k = Inr c" "m \<le> m'" "k \<le> k'"
  shows "\<exists>c'. compile_file_workflow digest' fs st roots policy index w wid number sha' ids m' k' = Inr c' \<and>
    fc_operations c' = fc_operations c"
proof -
  from assms(1) obtain rows excludes g ops where f:
    "select_candidates fs st roots policy index w (case ids of None \<Rightarrow> sn_root_ids (scan_of w) | Some is \<Rightarrow> is) = Inr (rows, excludes)"
    "length rows \<le> m"
    "run_definition fs roots 0 (wd_steps w) (candidate_graph (st_allowed_roots st) (st_quarantine_root st) roots rows) = Inr g"
    "resolve_ordered_operations fs g = Inr ops" "length ops \<le> k" "fc_operations c = ops"
    by (rule compile_file_Inr)
  from f(2,5) assms(2,3) have "length rows \<le> m'" "length ops \<le> k'" by simp_all
  with f show ?thesis by (simp add: compile_file_workflow_def Let_def left_as_def)
qed

lemma sample_opens:
  "live_revision 1 (Some 1) draft_db = Inr (hd (db_workflows sample_db), 1, hd (db_wf_revisions sample_db))"
  "open_definition (\<lambda>_. Some sample_workflow) (hd (db_wf_revisions sample_db)) = Inr sample_workflow"
  by code_simp+

lemma draft_db_roots: "db_roots draft_db = [\<lparr>ir_id = 1, ir_root = ''/r'', ir_created_at = 0\<rparr>]"
  by (simp add: draft_db_def)

lemma sample_compile_digest:
  "\<exists>c. sample_compile digest = Inr c \<and>
     map (\<lambda>op. (vo_source op, vo_target op)) (fc_operations c) = [(''/r/b'', Some ''/r/c''), (''/r/a'', Some ''/r/b'')]"
proof -
  from map_sum_Inr [OF sample_compiles] obtain c0 where c0: "sample_compilation = Inr c0 \<and>
      map (\<lambda>op. (vo_source op, vo_target op)) (fc_operations c0) = [(''/r/b'', Some ''/r/c''), (''/r/a'', Some ''/r/b'')]" ..
  note c1 = c0 [THEN conjunct1, unfolded sample_compilation_def]
  have limits: "10 \<le> MAX_WORKFLOW_CANDIDATES" "10 \<le> MAX_WORKFLOW_PLAN_ITEMS"
    by (simp_all add: MAX_WORKFLOW_CANDIDATES_def MAX_WORKFLOW_PLAN_ITEMS_def)
  from compile_any_digest [OF c1 limits, of digest "''h''"]
  obtain c where c: "sample_compile digest = Inr c \<and> fc_operations c = fc_operations c0"
    unfolding compile_revision_def draft_db_roots left_as_Inr ..
  show ?thesis
    by (rule exI [of _ c], rule conjI, rule c [THEN conjunct1], simp only: c [THEN conjunct2] c0 [THEN conjunct2])
qed

lemma sample_previews:
  assumes "sample_compile digest = Inr c"
  shows "\<exists>items pages. preview_file_workflow digest (plain_storage [''/r/a'', ''/r/b''])
       \<lparr>st_allowed_roots = [''/r''], st_quarantine_root = None\<rparr> (\<lambda>_. Some sample_workflow) None sample_index 1
       (sample_request []) False 1 50 draft_db = Inr (items, pages, c)"
proof -
  have sha: "wr_definition_sha256 (hd (db_wf_revisions sample_db)) = ''h''" by (simp add: sample_db_def)
  have modes: "wd_mode sample_workflow = ''file''" by (simp add: sample_workflow_def)
  have rev: "dr_revision (sample_request e) = Some 1" for e by (simp add: sample_request_def)
  show ?thesis unfolding preview_file_workflow_def rev sample_opens left_as_def map_sum.simps
    by (simp add: sample_opens sha modes resolve_mode_runtime_inputs_def sample_request_def assms preview_page_def Let_def)
qed

lemma sample_generates:
  assumes "sample_compile digest = Inr c" "fc_operations c \<noteq> []" "fc_compile_digest c \<noteq> []"
  shows "\<exists>pid d2. generate_file_plan digest (plain_storage [''/r/a'', ''/r/b''])
       \<lparr>st_allowed_roots = [''/r''], st_quarantine_root = None\<rparr> (\<lambda>_. Some sample_workflow) None sample_index 1
       (sample_request (fc_compile_digest c)) draft_db draft_db = Inr (pid, d2)"
proof -
  have sha: "wr_definition_sha256 (hd (db_wf_revisions sample_db)) = ''h''" by (simp add: sample_db_def)
  have modes: "wd_mode sample_workflow = ''file''" by (simp add: sample_workflow_def)
  have rev: "dr_revision (sample_request e) = Some 1" for e by (simp add: sample_request_def)
  show ?thesis unfolding generate_file_plan_def rev sample_opens left_as_def map_sum.simps
    by (simp add: sample_opens sha modes resolve_mode_runtime_inputs_def sample_request_def assms write_draft_def left_as_def Let_def)
qed

theorem generated_plan_is_previewed_witness:
  "\<exists>items pages c pid d2. sample_compile (Cons CHR ''h'') = Inr c \<and>
     preview_file_workflow (Cons CHR ''h'') (plain_storage [''/r/a'', ''/r/b''])
       \<lparr>st_allowed_roots = [''/r''], st_quarantine_root = None\<rparr> (\<lambda>_. Some sample_workflow) None sample_index 1
       (sample_request []) False 1 50 draft_db = Inr (items, pages, c) \<and>
     generate_file_plan (Cons CHR ''h'') (plain_storage [''/r/a'', ''/r/b''])
       \<lparr>st_allowed_roots = [''/r''], st_quarantine_root = None\<rparr> (\<lambda>_. Some sample_workflow) None sample_index 1
       (sample_request (fc_compile_digest c)) draft_db draft_db = Inr (pid, d2) \<and>
     map bi_state (filter (\<lambda>i. bi_plan_id i = pid) (db_items d2)) = [''pending'', ''pending'']"
proof -
  obtain c where c: "sample_compile (Cons CHR ''h'') = Inr c \<and>
     map (\<lambda>op. (vo_source op, vo_target op)) (fc_operations c) = [(''/r/b'', Some ''/r/c''), (''/r/a'', Some ''/r/b'')]"
    using sample_compile_digest ..
  note c1 = c [THEN conjunct1]
  have two: "length (fc_operations c) = 2" using arg_cong [OF c [THEN conjunct2], of length] by simp
  then have some: "fc_operations c \<noteq> []" by auto
  have h: "fc_compile_digest c \<noteq> []"
    using compile_file_digest [OF c1 [unfolded compile_revision_def left_as_Inr]] by simp
  from sample_previews [OF c1] obtain items pages where p: "preview_file_workflow (Cons CHR ''h'') (plain_storage [''/r/a'', ''/r/b''])
       \<lparr>st_allowed_roots = [''/r''], st_quarantine_root = None\<rparr> (\<lambda>_. Some sample_workflow) None sample_index 1
       (sample_request []) False 1 50 draft_db = Inr (items, pages, c)" by (elim exE)
  from sample_generates [OF c1 some h] obtain pid d2 where g: "generate_file_plan (Cons CHR ''h'') (plain_storage [''/r/a'', ''/r/b''])
       \<lparr>st_allowed_roots = [''/r''], st_quarantine_root = None\<rparr> (\<lambda>_. Some sample_workflow) None sample_index 1
       (sample_request (fc_compile_digest c)) draft_db draft_db = Inr (pid, d2)" by (elim exE)
  have quoted: "dr_expected_digest (sample_request (fc_compile_digest c)) = fc_compile_digest c" by (simp add: sample_request_def)
  have no_items: "\<forall>i \<in> set (db_items draft_db). tbl_get bp_id (db_plans draft_db) (bi_plan_id i) \<noteq> None"
    by (simp add: draft_db_def sample_db_def)
  have "inj_on (Cons CHR ''h'') T" for T by (simp add: inj_on_def)
  from generated_plan_is_previewed [OF p g quoted this no_items]
  have "map (\<lambda>i. (bi_sequence i, bi_operation i, bi_source_path i, bi_target_path i, bi_state i)) (filter (\<lambda>i. bi_plan_id i = pid) (db_items d2)) =
      map (\<lambda>op. (int (vo_sequence op), vo_operation op, vo_source op, vo_target op, ''pending'')) (fc_operations c)" by (elim conjE)
  from arg_cong [OF this, of "map (\<lambda>(a, b, c, e, s). s)"] have
    "map bi_state (filter (\<lambda>i. bi_plan_id i = pid) (db_items d2)) = map (\<lambda>op. ''pending'') (fc_operations c)" by (simp add: comp_def)
  also have "\<dots> = [''pending'', ''pending'']" using two by (simp add: map_replicate_const numeral_2_eq_2)
  finally have states: "map bi_state (filter (\<lambda>i. bi_plan_id i = pid) (db_items d2)) = [''pending'', ''pending'']" .
  show ?thesis by (intro exI conjI) (rule c1, rule p, rule g, rule states)
qed

end
