(* ===== verification/Spec2Isabelle.thy ===== *)
theory Spec2Isabelle
  imports PlanEngine SchedulerRuns VirtualGraphPlan FilterExclude FilterTwice DedupeTheorems
    WorkflowDigest
begin

text \<open>
  Verification of the NAS file center: the backend under src/app, a Python program that indexes
  the directories of a storage server, finds duplicate files, and plans and runs deletions, moves
  and renames as jobs of a single worker process.

  \<^bold>\<open>How the program works.\<close> Everything durable is a row of one SQLite database. A user, or the
  scheduler, queues a row of work_jobs (job_queue.py, scheduler/dispatch.py); the one worker
  process holding the lease row claims it under the resource policy (tasks/recovery.py,
  resource_control.py), runs the handler registered for its kind (worker.py), and the handler
  reports through its context (tasks/context.py), where it also learns that a user asked to pause
  or cancel (tasks/service.py). Rows linked to a job, a scan or an execution plan, follow its
  state (tasks/sync.py). A worker that died is recovered by the next one (tasks/recovery.py). What
  a plan deletes is decided by the planner (planning/engine.py).

  \<^bold>\<open>State and transactions.\<close> \<open>Records\<close> holds the database as a record \<open>db\<close> of tables, each table
  a list of rows in id order, with the columns that modelled code reads or writes. A transaction
  is a function from \<open>db\<close>; one that is rolled back gives the database it started from. A clock
  reading is an argument, one per transaction, in microseconds since the epoch; a raised exception
  is the left value of a sum. Strings are lists of Latin-1 code points; a JSON document is the
  datatype of \<open>PyJson\<close>, with integers as its numbers.

  \<^bold>\<open>Theories and the code they model.\<close>
    \<^item> \<open>Prelude\<close>: lemmas on lists, options and tables shared by all, and the hint collections.
    \<^item> \<open>Glob\<close>, \<open>PlanEngine\<close>: fnmatchcase of the standard library, planning/policies.py and
      planning/engine.py. Every group with deletions keeps a file, the preferred one, and under
      the last-file protection no root loses its last file.
    \<^item> \<open>JobState\<close>: tasks/state_machine.py as a table and as a step relation; ended states absorb
      and every other state can end.
    \<^item> \<open>Records\<close>, \<open>PyJson\<close>: models.py, tasks/logging.py (the event row) and the json module.
    \<^item> \<open>TaskSync\<close>: tasks/sync.py; what ending a job does to its scan and to its plan.
    \<^item> \<open>Lease\<close>: the contract of a lease row as a locale, what its operations promise and what
      follows from that for every run. \<open>WorkerLease\<close> (tasks/recovery.py) and \<open>SchedulerService\<close>
      (scheduler/service.py) interpret it: two holders never act at the same time.
    \<^item> \<open>ResourceControl\<close>: resource_control.py, the policy's validation and evaluation.
    \<^item> \<open>ClaimJob\<close>: claim_next_job of tasks/recovery.py, three attempts on a policy that may change
      below it and the conservative fallback.
    \<^item> \<open>TaskHandlers\<close>: the registry of tasks/handlers_base.py and tasks/handlers.py.
    \<^item> \<open>TaskRecovery\<close>: the two recovery loops of tasks/recovery.py.
    \<^item> \<open>TaskService\<close>: tasks/service.py, what a user does to a job.
    \<^item> \<open>JobContext\<close>, \<open>WorkerRun\<close>: tasks/context.py and process_work_job of worker.py. A handler is
      a sequence of checkpoints and an ending, with the users' requests between them; the locale
      \<open>checkpointed_handler\<close> is its contract.
    \<^item> \<open>JobLifecycle\<close>: the operations on jobs put together as one step relation, with its
      invariants over every reachable database.
    \<^item> \<open>Cron\<close>: scheduler/cron.py; the search returns the least matching instant.
    \<^item> \<open>PathSafety\<close>, \<open>JobQueue\<close>: the containment checks of path_safety.py and job_queue.py.
    \<^item> \<open>SchedulerSchema\<close>, \<open>SchedulerService\<close>, \<open>SchedulerDispatch\<close>: scheduler/schema.py, service.py
      and dispatch.py; \<open>SchedulerRuns\<close> is the whole system with schedules as one step relation:
      a schedule has one live job at most.

    \<^item> \<open>IsoDatetime\<close>: parsing of the ISO timestamps that filters and workflow rules accept.
    \<^item> \<open>TopoSort\<close>, \<open>WorkflowSteps\<close>, \<open>VirtualGraph\<close>, \<open>VirtualGraphRun\<close>: workflows/graph.py, the
      virtual file system on which a workflow's steps (rename, move, delete, deduplicate) are
      tried before anything is planned, and its topological order of the operations.
      \<open>VirtualGraphSafety\<close> is the invariant of a run and \<open>VirtualGraphPlan\<close> what it means for the
      emitted plan: executed in order, each operation finds its source and overwrites nothing.
    \<^item> \<open>FilterAst\<close>, \<open>FilterValid\<close>: filters/ast.py and the validator; \<open>SqlLike\<close>, \<open>FilterSql\<close>: the SQL
      that the code emits and SQLite's reading of it; \<open>FilterMatch\<close>: filters/compiler.py, the rows
      selected are the files that satisfy the filter; \<open>FilterExclude\<close>: the excluded directories;
      \<open>FilterTwice\<close>: what compiling an action filter a second time does.
    \<^item> \<open>DedupePath\<close>, \<open>DedupeConfig\<close>, \<open>DedupeEngine\<close>: the path algebra of posixpath that the planner
      relies on, dedupe_config.py and dedupe_engine.py; \<open>DedupeSafety\<close> is the invariant of a run
      over the groups and \<open>DedupeTheorems\<close> what follows: one file of every group stays, and no
      directory loses its last file unless allowed.

  \<^bold>\<open>Bounds.\<close> No model uses fuel: loops are structural recursions over the rows or the days they
  visit. The search for a next occurrence is bounded as in the code, by 366 * 8 days; the claim of
  a job, as in the code, by three attempts.

  \<^bold>\<open>Parameters.\<close> The timezone database (with the hypothesis \<open>zone_rules\<close>), what resolving a path
  gives (\<open>resolve_idempotent\<close>), SHA-256 (\<open>digest\<close>), and the handlers' work between checkpoints.
  Each hypothesis has a concrete instance that satisfies it.

  \<^bold>\<open>Not modelled.\<close> HTTP routers and authentication, the front end, the file-system primitives and
  what is built on them (execution, quarantine, storage optimisation, archive recovery, media
  probing), the handlers' file work, the texts of messages, events and errors, and the
  explanatory strings of the planners.
\<close>

end
